(* ===== verification/Velkir_Prelude.thy ===== *)
theory Velkir_Prelude
  imports Main "HOL-Library.Char_ord" "HOL-Library.List_Lexorder" "HOL-Library.Sublist"
begin

text \<open>
  The part of the Go language and of its standard library that the operator's sources use, and
  the generic lemmas the component theories share.

  \<^item> Time. A \<^verbatim>\<open>time.Time\<close> is a number of nanoseconds since Go's zero time (0001-01-01 UTC), so
    \<^verbatim>\<open>IsZero\<close> is equality with 0; a \<^verbatim>\<open>time.Duration\<close> is a signed 64-bit number of nanoseconds;
    \<^verbatim>\<open>Sub\<close> saturates at the two ends of that range, as the library's does. Calls of
    \<^verbatim>\<open>time.Now()\<close> are arguments of the model.
  \<^item> Numbers and text. \<^verbatim>\<open>strconv.Itoa\<close>, \<^verbatim>\<open>strconv.Atoi\<close> (with its 64-bit range check), the verbs
    \<^verbatim>\<open>%d\<close>, \<^verbatim>\<open>%q\<close> (on byte strings) and the time layout \<^verbatim>\<open>2006-01-02T15:04:05Z\<close>; the functions of
    package strings in use. A Go string is a list of bytes, here a \<^typ>\<open>string\<close>, ordered bytewise.
  \<^item> The collections \<open>time_simps\<close>, \<open>step_simps\<close> and \<open>str_simps\<close> carry the component proofs.
\<close>

named_theorems time_simps \<open>facts about Go times, durations and windows\<close>
named_theorems step_simps \<open>one-step unfolding of handlers and trackers\<close>
named_theorems str_simps \<open>facts about the modelled string functions\<close>

section \<open>Time\<close>

type_synonym gotime = int
type_synonym duration = int

definition minDuration :: duration where
  "minDuration = - 9223372036854775808"

definition maxDuration :: duration where
  "maxDuration = 9223372036854775807"

definition Second :: duration where
  "Second = 1000000000"

definition Minute :: duration where
  "Minute = 60000000000"

definition Hour :: duration where
  "Hour = 3600000000000"

definition IsZero :: "gotime \<Rightarrow> bool" where
  "IsZero t \<longleftrightarrow> t = 0"

definition Sub :: "gotime \<Rightarrow> gotime \<Rightarrow> duration" where
  "Sub t u = max minDuration (min maxDuration (t - u))"

definition in_duration :: "int \<Rightarrow> bool" where
  "in_duration d \<longleftrightarrow> minDuration \<le> d \<and> d \<le> maxDuration"

text \<open>Fixed-width arithmetic: the value a Go \<^verbatim>\<open>int64\<close> or \<^verbatim>\<open>int32\<close> holds after an operation.\<close>

definition wrap64 :: "int \<Rightarrow> int" where
  "wrap64 x = (x + 9223372036854775808) mod 18446744073709551616 - 9223372036854775808"

definition wrap32 :: "int \<Rightarrow> int" where
  "wrap32 x = (x + 2147483648) mod 4294967296 - 2147483648"

section \<open>Numbers as text\<close>

definition digit_char :: "nat \<Rightarrow> char" where
  "digit_char d = char_of (48 + d)"

function digits_of_nat :: "nat \<Rightarrow> string" where
  "digits_of_nat n =
     (if n < 10 then [digit_char n] else digits_of_nat (n div 10) @ [digit_char (n mod 10)])"
  by pat_completeness auto
termination by (relation "measure id") auto

declare digits_of_nat.simps [simp del]

definition itoa :: "int \<Rightarrow> string" where
  "itoa i = (if i < 0 then CHR ''-'' # digits_of_nat (nat (- i)) else digits_of_nat (nat i))"

definition is_digit :: "char \<Rightarrow> bool" where
  "is_digit c \<longleftrightarrow> 48 \<le> (of_char c :: nat) \<and> (of_char c :: nat) \<le> 57"

definition digit_val :: "char \<Rightarrow> nat" where
  "digit_val c = of_char c - 48"

fun parse_digits :: "nat \<Rightarrow> string \<Rightarrow> nat option" where
  "parse_digits acc [] = Some acc"
| "parse_digits acc (c # cs) =
     (if is_digit c then parse_digits (acc * 10 + digit_val c) cs else None)"

definition parse_nat :: "string \<Rightarrow> nat option" where
  "parse_nat s = (if s = [] then None else parse_digits 0 s)"

text \<open>\<^verbatim>\<open>strconv.Atoi\<close>: an optional sign, at least one decimal digit, and the value in range.\<close>

fun atoi :: "string \<Rightarrow> int option" where
  "atoi [] = None"
| "atoi (c # cs) =
     (case (if c = CHR ''-'' \<or> c = CHR ''+'' then parse_nat cs else parse_nat (c # cs)) of
        None \<Rightarrow> None
      | Some n \<Rightarrow>
          let v = (if c = CHR ''-'' then - int n else int n)
          in if in_duration v then Some v else None)"

section \<open>Strings\<close>

definition Quote_char :: "char \<Rightarrow> string" where
  "Quote_char c =
     (let n = (of_char c :: nat);
          hex = (\<lambda>d. if d < 10 then char_of (48 + d) else char_of (87 + d))
      in if c = CHR 0x22 then [CHR 0x5C, CHR 0x22]
         else if c = CHR 0x5C then [CHR 0x5C, CHR 0x5C]
         else if 32 \<le> n \<and> n < 127 then [c]
         else if n = 7 then [CHR 0x5C, CHR ''a'']
         else if n = 8 then [CHR 0x5C, CHR ''b'']
         else if n = 12 then [CHR 0x5C, CHR ''f'']
         else if n = 10 then [CHR 0x5C, CHR ''n'']
         else if n = 13 then [CHR 0x5C, CHR ''r'']
         else if n = 9 then [CHR 0x5C, CHR ''t'']
         else if n = 11 then [CHR 0x5C, CHR ''v'']
         else [CHR 0x5C, CHR ''x'', hex (n div 16), hex (n mod 16)])"

definition Quote :: "string \<Rightarrow> string" where
  "Quote s = [CHR 0x22] @ concat (map Quote_char s) @ [CHR 0x22]"

fun Join :: "string list \<Rightarrow> string \<Rightarrow> string" where
  "Join [] sep = []"
| "Join [s] sep = s"
| "Join (s # t # ss) sep = s @ sep @ Join (t # ss) sep"

text \<open>\<^verbatim>\<open>strings.Split\<close> on a one-byte separator.\<close>

fun Split :: "string \<Rightarrow> char \<Rightarrow> string list" where
  "Split [] sep = [[]]"
| "Split (c # cs) sep =
     (if c = sep then [] # Split cs sep
      else (case Split cs sep of [] \<Rightarrow> [[c]] | w # ws \<Rightarrow> (c # w) # ws))"

definition is_space :: "char \<Rightarrow> bool" where
  "is_space c \<longleftrightarrow> (of_char c :: nat) \<in> {9, 10, 11, 12, 13, 32}"

text \<open>\<^verbatim>\<open>strings.Fields\<close>: the maximal runs of non-space bytes.\<close>

fun Fields_acc :: "string \<Rightarrow> string \<Rightarrow> string list" where
  "Fields_acc w [] = (if w = [] then [] else [rev w])"
| "Fields_acc w (c # cs) =
     (if is_space c then (if w = [] then Fields_acc [] cs else rev w # Fields_acc [] cs)
      else Fields_acc (c # w) cs)"

definition Fields :: "string \<Rightarrow> string list" where
  "Fields s = Fields_acc [] s"

definition HasPrefix :: "string \<Rightarrow> string \<Rightarrow> bool" where
  "HasPrefix s p \<longleftrightarrow> take (length p) s = p"

fun Contains :: "string \<Rightarrow> string \<Rightarrow> bool" where
  "Contains [] p = (p = [])"
| "Contains (c # cs) p = (HasPrefix (c # cs) p \<or> Contains cs p)"

text \<open>\<^verbatim>\<open>strings.IndexByte\<close> and \<^verbatim>\<open>strings.LastIndexByte\<close>, with None for -1.\<close>

fun IndexByte :: "string \<Rightarrow> char \<Rightarrow> nat option" where
  "IndexByte [] b = None"
| "IndexByte (c # cs) b = (if c = b then Some 0 else map_option Suc (IndexByte cs b))"

fun LastIndexByte :: "string \<Rightarrow> char \<Rightarrow> nat option" where
  "LastIndexByte [] b = None"
| "LastIndexByte (c # cs) b =
     (case LastIndexByte cs b of Some i \<Rightarrow> Some (Suc i) | None \<Rightarrow> if c = b then Some 0 else None)"

text \<open>\<^verbatim>\<open>net.JoinHostPort\<close>: an IPv6 literal is bracketed.\<close>

definition JoinHostPort :: "string \<Rightarrow> string \<Rightarrow> string" where
  "JoinHostPort host port =
     (if IndexByte host CHR '':'' \<noteq> None then ''['' @ host @ '']:'' @ port
      else host @ '':'' @ port)"

section \<open>The UTC layout 2006-01-02T15:04:05Z\<close>

definition pad2 :: "nat \<Rightarrow> string" where
  "pad2 n = (if n < 10 then ''0'' @ digits_of_nat n else digits_of_nat n)"

definition pad4 :: "nat \<Rightarrow> string" where
  "pad4 n =
     (if n < 10 then ''000'' @ digits_of_nat n
      else if n < 100 then ''00'' @ digits_of_nat n
      else if n < 1000 then ''0'' @ digits_of_nat n
      else digits_of_nat n)"

text \<open>
  The proleptic Gregorian date of a day number counted from 0001-01-01, computed on the years that
  start in March, as \<^verbatim>\<open>time.Time.Date\<close> does for the times the operator formats.
\<close>

definition civil_date :: "nat \<Rightarrow> nat \<times> nat \<times> nat" where
  "civil_date day =
     (let z = day + 306;
          era = z div 146097;
          doe = z mod 146097;
          yoe = (doe - doe div 1460 + doe div 36524 - doe div 146096) div 365;
          doy = doe - (365 * yoe + yoe div 4 - yoe div 100);
          mp = (5 * doy + 2) div 153;
          d = doy - (153 * mp + 2) div 5 + 1;
          m = (if mp < 10 then mp + 3 else mp - 9);
          y = yoe + era * 400 + (if m \<le> 2 then 1 else 0)
      in (y, m, d))"

definition FormatUTC :: "gotime \<Rightarrow> string" where
  "FormatUTC t =
     (let secs = nat (t div Second);
          (y, m, d) = civil_date (secs div 86400);
          r = secs mod 86400
      in pad4 y @ ''-'' @ pad2 m @ ''-'' @ pad2 d @ ''T'' @ pad2 (r div 3600) @ '':'' @
         pad2 (r mod 3600 div 60) @ '':'' @ pad2 (r mod 60) @ ''Z'')"

section \<open>Lemmas on time\<close>

lemma Sub_exact [time_simps]: "in_duration (t - u) \<Longrightarrow> Sub t u = t - u"
  by (simp add: Sub_def in_duration_def)

lemma Sub_le_iff [time_simps]:
  "minDuration \<le> w \<Longrightarrow> w < maxDuration \<Longrightarrow> Sub t u \<le> w \<longleftrightarrow> t - u \<le> w"
  by (auto simp: Sub_def min_def max_def minDuration_def maxDuration_def)

lemma Sub_less_iff [time_simps]:
  "minDuration < w \<Longrightarrow> w \<le> maxDuration \<Longrightarrow> Sub t u < w \<longleftrightarrow> t - u < w"
  by (auto simp: Sub_def min_def max_def minDuration_def maxDuration_def)

lemma Sub_mono: "t \<le> t' \<Longrightarrow> Sub t u \<le> Sub t' u"
  by (auto simp: Sub_def)

lemma Sub_self [simp]: "Sub t t = 0"
  by (simp add: Sub_def minDuration_def maxDuration_def)

lemma Sub_in_range [simp]: "in_duration (Sub t u)"
  by (auto simp: Sub_def in_duration_def minDuration_def maxDuration_def)

lemma wrap64_id: "in_duration x \<Longrightarrow> wrap64 x = x"
  by (simp add: wrap64_def in_duration_def minDuration_def maxDuration_def)

lemma wrap32_id: "- 2147483648 \<le> x \<Longrightarrow> x < 2147483648 \<Longrightarrow> wrap32 x = x"
  by (simp add: wrap32_def)

lemmas window_consts = minDuration_def maxDuration_def Second_def Minute_def Hour_def

section \<open>Lemmas on numbers as text\<close>

lemma of_char_digit_char [simp]: "d < 10 \<Longrightarrow> (of_char (digit_char d) :: nat) = 48 + d"
  by (simp add: digit_char_def)

lemma digit_char_props [simp]:
  assumes "d < 10"
  shows "is_digit (digit_char d)" and "digit_val (digit_char d) = d"
  using assms by (simp_all add: is_digit_def digit_val_def)

lemma digit_char_consts [simp]:
  "digit_char 0 = CHR ''0''" "digit_char (Suc 0) = CHR ''1''" "digit_char 1 = CHR ''1''"
  "digit_char 2 = CHR ''2''" "digit_char 3 = CHR ''3''" "digit_char 4 = CHR ''4''"
  "digit_char 5 = CHR ''5''" "digit_char 6 = CHR ''6''" "digit_char 7 = CHR ''7''"
  "digit_char 8 = CHR ''8''" "digit_char 9 = CHR ''9''"
  by code_simp+

lemma parse_digits_append:
  "parse_digits acc (xs @ ys) =
     (case parse_digits acc xs of None \<Rightarrow> None | Some a \<Rightarrow> parse_digits a ys)"
  by (induction xs arbitrary: acc) auto

lemma parse_digits_of_nat: "parse_digits 0 (digits_of_nat n) = Some n"
proof (induction n rule: digits_of_nat.induct)
  case (1 n)
  show ?case
    by (subst digits_of_nat.simps) (use 1 in \<open>simp add: parse_digits_append\<close>)
qed

lemma digits_of_nat_nonempty [simp]: "digits_of_nat n \<noteq> []"
  by (subst digits_of_nat.simps) simp

lemma digits_of_nat_all_digits: "c \<in> set (digits_of_nat n) \<Longrightarrow> is_digit c"
proof (induction n rule: digits_of_nat.induct)
  case (1 n)
  then show ?case
    by (subst (asm) digits_of_nat.simps[of n]) (auto split: if_splits)
qed

lemma parse_nat_of_nat [str_simps]: "parse_nat (digits_of_nat n) = Some n"
  by (simp add: parse_nat_def parse_digits_of_nat)

lemma digit_not_sign: "is_digit c \<Longrightarrow> c \<noteq> CHR ''-'' \<and> c \<noteq> CHR ''+''"
  by (auto simp: is_digit_def)

lemma atoi_itoa [str_simps]: "in_duration i \<Longrightarrow> atoi (itoa i) = Some i"
proof (cases "i < 0")
  case True
  assume "in_duration i"
  with True show ?thesis by (simp add: itoa_def str_simps)
next
  case False
  assume r: "in_duration i"
  obtain c cs where d: "digits_of_nat (nat i) = c # cs"
    by (cases "digits_of_nat (nat i)") auto
  then have "is_digit c" using digits_of_nat_all_digits[of c "nat i"] by simp
  then have "c \<noteq> CHR ''-''" "c \<noteq> CHR ''+''" using digit_not_sign by blast+
  with d False r show ?thesis
    using parse_nat_of_nat[of "nat i"] by (simp add: itoa_def)
qed

lemma itoa_inject: "in_duration i \<Longrightarrow> in_duration j \<Longrightarrow> itoa i = itoa j \<longleftrightarrow> i = j"
  by (metis atoi_itoa option.inject)

section \<open>Lemmas on strings\<close>

lemma append_split_before:
  "xs @ b = p @ q \<Longrightarrow> x \<in> set xs \<Longrightarrow> x \<notin> set p \<Longrightarrow>
     \<exists>us. xs = p @ us \<and> us \<noteq> [] \<and> q = us @ b"
  by (auto simp: append_eq_append_conv2)

lemma HasPrefix_iff [str_simps]: "HasPrefix s p \<longleftrightarrow> prefix p s"
  unfolding HasPrefix_def by (metis append_eq_conv_conj prefix_def take_is_prefix)

lemma Contains_iff [str_simps]: "Contains s p \<longleftrightarrow> sublist p s"
proof (induction s)
  case Nil
  show ?case by simp
next
  case (Cons c cs)
  then show ?case by (simp only: Contains.simps HasPrefix_iff sublist_Cons_right)
qed

lemma Split_nonempty [simp]: "Split s sep \<noteq> []"
  by (induction s sep rule: Split.induct) (auto split: list.splits)

lemma Split_no_sep [str_simps]: "sep \<notin> set s \<Longrightarrow> Split s sep = [s]"
  by (induction s sep rule: Split.induct) auto

lemma Split_append_sep [str_simps]:
  "sep \<notin> set s \<Longrightarrow> Split (s @ sep # t) sep = s # Split t sep"
  by (induction s) auto

lemma Join_Split: "Join (Split s sep) [sep] = s"
proof (induction s sep rule: Split.induct)
  case (2 c cs sep)
  obtain w ws where "Split cs sep = w # ws" by (cases "Split cs sep") auto
  with 2 show ?case by (cases ws) auto
qed simp

lemma Split_Join:
  "ws \<noteq> [] \<Longrightarrow> (\<forall>w\<in>set ws. sep \<notin> set w) \<Longrightarrow> Split (Join ws [sep]) sep = ws"
proof (induction ws)
  case (Cons w ws)
  then show ?case by (cases ws) (simp_all add: Split_no_sep Split_append_sep)
qed simp

lemma IndexByte_None [str_simps]: "IndexByte s b = None \<longleftrightarrow> b \<notin> set s"
  by (induction s) auto

lemma IndexByte_Some:
  "IndexByte s b = Some i \<Longrightarrow> i < length s \<and> s ! i = b \<and> b \<notin> set (take i s)"
  by (induction s arbitrary: i) (auto split: if_splits)

lemma LastIndexByte_None [str_simps]: "LastIndexByte s b = None \<longleftrightarrow> b \<notin> set s"
  by (induction s) (auto split: option.splits)

lemma Split_head_prefix: "Split s sep = w # ws \<Longrightarrow> prefix w s"
proof (induction s sep arbitrary: w ws rule: Split.induct)
  case (2 c cs sep)
  then show ?case by (auto split: if_splits list.splits)
qed simp

lemma Split_sublist: "w \<in> set (Split s sep) \<Longrightarrow> sublist w s"
proof (induction s sep arbitrary: w rule: Split.induct)
  case (2 c cs sep)
  obtain v vs where v: "Split cs sep = v # vs" by (cases "Split cs sep") auto
  with Split_head_prefix have "prefix v cs" by blast
  with v 2 show ?case
    by (auto simp: sublist_Cons_right split: if_splits)
qed simp

lemma Fields_acc_word:
  "\<forall>c \<in> set w. \<not> is_space c \<Longrightarrow> Fields_acc a (w @ s) = Fields_acc (rev w @ a) s"
  by (induction w arbitrary: a) auto

lemma is_space_blank [simp]: "is_space CHR '' ''"
  by (simp add: is_space_def)

definition is_word :: "string \<Rightarrow> bool" where
  "is_word w \<longleftrightarrow> w \<noteq> [] \<and> (\<forall>c \<in> set w. \<not> is_space c)"

lemma Fields_word: "is_word w \<Longrightarrow> Fields w = [w]"
  using Fields_acc_word[of w "[]" "[]"] by (simp add: Fields_def is_word_def)

lemma Fields_word_blank: "is_word w \<Longrightarrow> Fields (w @ CHR '' '' # s) = w # Fields s"
  using Fields_acc_word[of w "[]" "CHR '' '' # s"] by (simp add: Fields_def is_word_def)

lemma Fields_Join: "list_all is_word ws \<Longrightarrow> Fields (Join ws '' '') = ws"
proof (induction ws)
  case (Cons w ws)
  then show ?case by (cases ws) (simp_all add: Fields_word Fields_word_blank)
qed (simp add: Fields_def)

lemma digit_not_space: "is_digit c \<Longrightarrow> \<not> is_space c"
  by (auto simp: is_digit_def is_space_def)

lemma itoa_word: "0 \<le> n \<Longrightarrow> is_word (itoa n)"
  using digits_of_nat_all_digits digit_not_space by (auto simp: is_word_def itoa_def)

section \<open>Counting maps\<close>

text \<open>
  A Go \<^verbatim>\<open>map[string]int\<close> used as a tally, in order of first insertion: \<^verbatim>\<open>m[k]++\<close> and the reading
  \<^verbatim>\<open>m[k]\<close>, which is 0 for a missing key.
\<close>

fun incr :: "'k \<Rightarrow> ('k \<times> nat) list \<Rightarrow> ('k \<times> nat) list" where
  "incr p [] = [(p, 1)]"
| "incr p ((q, n) # vs) = (if p = q then (q, n + 1) # vs else (q, n) # incr p vs)"

definition count_of :: "('k \<times> nat) list \<Rightarrow> 'k \<Rightarrow> nat" where
  "count_of m k = (case map_of m k of None \<Rightarrow> 0 | Some n \<Rightarrow> n)"

lemma map_of_incr:
  "map_of (incr p vs) = (map_of vs)(p \<mapsto> (case map_of vs p of None \<Rightarrow> 1 | Some n \<Rightarrow> n + 1))"
  by (induction p vs rule: incr.induct) auto

lemma count_of_incr: "count_of (incr p vs) k = count_of vs k + (if k = p then 1 else 0)"
  by (auto simp: count_of_def map_of_incr split: option.splits)

lemma keys_incr: "fst ` set (incr p vs) = insert p (fst ` set vs)"
  by (induction p vs rule: incr.induct) auto

lemma distinct_incr: "distinct (map fst vs) \<Longrightarrow> distinct (map fst (incr p vs))"
proof (induction p vs rule: incr.induct)
  case (2 p q n vs)
  then show ?case using keys_incr[of p vs] by auto
qed simp

definition all_pos :: "('k \<times> nat) list \<Rightarrow> bool" where
  "all_pos m \<longleftrightarrow> list_all (\<lambda>kn. 0 < snd kn) m"

lemma all_pos_incr: "all_pos vs \<Longrightarrow> all_pos (incr p vs)"
  by (induction p vs rule: incr.induct) (auto simp: all_pos_def)

lemma all_posD: "all_pos m \<Longrightarrow> (k, n) \<in> set m \<Longrightarrow> 0 < n"
  by (auto simp: all_pos_def list_all_iff)

lemma tally_mem_iff:
  assumes "distinct (map fst m)" and "all_pos m"
  shows "(k, n) \<in> set m \<longleftrightarrow> count_of m k = n \<and> 0 < n"
proof -
  have "(k, n) \<in> set m \<longleftrightarrow> map_of m k = Some n"
    using assms(1) by (rule map_of_eq_Some_iff[symmetric])
  moreover have "map_of m k = Some n \<Longrightarrow> 0 < n"
    using all_posD[OF assms(2)] by (auto dest: map_of_SomeD)
  ultimately show ?thesis by (auto simp: count_of_def split: option.splits)
qed

end
