(* ===== verification/Velkir_Interfaces.thy ===== *)
theory Velkir_Interfaces
  imports Velkir_Prelude
begin

text \<open>
  The contracts that several trackers of the operator share, as locales; each component that keeps
  such a contract interprets the locale on its own definitions.

  \<^item> \<open>rising_edge\<close>: a tracker that reports exactly the inputs on which its flag goes up. The
    consequence proved once here: on any run, reports and falls of the flag alternate, so an
    episode is reported once.
  \<^item> \<open>freshness_window\<close>: a latch that a writer stamps and that a reader believes for a bounded
    time, dropping it when the stamp is too old. The consequences: without a new stamp it is
    inactive after the window whatever the reads in between, and it stays so.
\<close>

section \<open>Runs of a tracker\<close>

fun run_state :: "('s \<Rightarrow> 'i \<Rightarrow> 's) \<Rightarrow> 's \<Rightarrow> 'i list \<Rightarrow> 's" where
  "run_state advance s [] = s"
| "run_state advance s (i # is) = run_state advance (advance s i) is"

fun fire_count :: "('s \<Rightarrow> 'i \<Rightarrow> 's) \<Rightarrow> ('s \<Rightarrow> 'i \<Rightarrow> bool) \<Rightarrow> 's \<Rightarrow> 'i list \<Rightarrow> nat" where
  "fire_count advance fires s [] = 0"
| "fire_count advance fires s (i # is) =
     (if fires s i then 1 else 0) + fire_count advance fires (advance s i) is"

fun fall_count :: "('s \<Rightarrow> 'i \<Rightarrow> 's) \<Rightarrow> ('s \<Rightarrow> bool) \<Rightarrow> 's \<Rightarrow> 'i list \<Rightarrow> nat" where
  "fall_count advance up s [] = 0"
| "fall_count advance up s (i # is) =
     (if up s \<and> \<not> up (advance s i) then 1 else 0) + fall_count advance up (advance s i) is"

lemma run_state_append: "run_state f s (xs @ ys) = run_state f (run_state f s xs) ys"
  by (induction xs arbitrary: s) auto

lemma run_state_invariant:
  assumes "P s" and "\<And>s i. P s \<Longrightarrow> i \<in> set is \<Longrightarrow> P (f s i)"
  shows "P (run_state f s is)"
  using assms by (induction "is" arbitrary: s) auto

section \<open>Edge detectors\<close>

locale rising_edge =
  fixes advance :: "'s \<Rightarrow> 'i \<Rightarrow> 's"
    and fires :: "'s \<Rightarrow> 'i \<Rightarrow> bool"
    and up :: "'s \<Rightarrow> bool"
  assumes fires_iff: "fires s i \<longleftrightarrow> \<not> up s \<and> up (advance s i)"
begin

lemma fires_balance:
  "fire_count advance fires s is + (if up s then 1 else 0) =
     fall_count advance up s is + (if up (run_state advance s is) then 1 else 0)"
proof (induction "is" arbitrary: s)
  case Nil
  show ?case by simp
next
  case (Cons i "is")
  show ?case using Cons.IH[of "advance s i"]
    by (cases "up s"; cases "up (advance s i)") (simp_all add: fires_iff)
qed

lemma fires_once_per_episode:
  assumes "fall_count advance up s is = 0"
  shows "fire_count advance fires s is \<le> 1"
  using fires_balance[of s "is"] assms by (simp split: if_splits)

lemma silent_while_up:
  assumes "up s" and "fall_count advance up s is = 0"
  shows "fire_count advance fires s is = 0"
  using fires_balance[of s "is"] assms by (simp split: if_splits)

lemma fires_when_rises:
  assumes "\<not> up s" and "up (run_state advance s is)"
  shows "0 < fire_count advance fires s is"
  using fires_balance[of s "is"] assms by (simp split: if_splits)

end

section \<open>Stamped latches\<close>

locale freshness_window =
  fixes stamped :: "'s \<Rightarrow> gotime option"
    and read :: "'s \<Rightarrow> gotime \<Rightarrow> 's"
    and active :: "'s \<Rightarrow> gotime \<Rightarrow> bool"
    and window :: duration
  assumes window_range: "0 \<le> window" "window < maxDuration"
    and active_iff:
      "active s now \<longleftrightarrow> (case stamped s of None \<Rightarrow> False | Some t \<Rightarrow> Sub now t \<le> window)"
    and read_active: "active s now \<Longrightarrow> read s now = s"
    and read_expired: "\<not> active s now \<Longrightarrow> stamped (read s now) = None"
begin

lemma active_within:
  assumes "stamped s = Some t"
  shows "active s now \<longleftrightarrow> now - t \<le> window"
proof -
  have "minDuration \<le> window" using window_range by (simp add: minDuration_def)
  then show ?thesis using window_range assms by (simp add: active_iff Sub_le_iff)
qed

lemma unstamped_inactive: "stamped s = None \<Longrightarrow> \<not> active s now"
  by (simp add: active_iff)

lemma read_cases: "read s now = s \<or> stamped (read s now) = None"
  by (cases "active s now") (simp_all add: read_active read_expired)

lemma reads_unstamped: "stamped s = None \<Longrightarrow> stamped (run_state read s ts) = None"
proof (induction ts arbitrary: s)
  case (Cons t ts)
  then show ?case using read_expired[of s t] unstamped_inactive[of s t] by simp
qed simp

lemma reads_cases: "run_state read s ts = s \<or> stamped (run_state read s ts) = None"
proof (induction ts arbitrary: s)
  case (Cons t ts)
  show ?case
  proof (cases "read s t = s")
    case True
    with Cons.IH[of s] show ?thesis by simp
  next
    case False
    with read_cases[of s t] have "stamped (read s t) = None" by simp
    then show ?thesis by (simp add: reads_unstamped)
  qed
qed simp

lemma inactive_after_window:
  assumes "stamped s = Some t" and "window < now - t"
  shows "\<not> active (run_state read s ts) now"
proof (cases "run_state read s ts = s")
  case True
  with active_within[OF assms(1), of now] assms(2) show ?thesis by simp
next
  case False
  with reads_cases[of s ts] show ?thesis by (simp add: unstamped_inactive)
qed

lemma stays_inactive:
  assumes "\<not> active s now"
  shows "\<not> active (run_state read (read s now) ts) later"
  using read_expired[OF assms] reads_unstamped unstamped_inactive by blast

end

end
