(* ===== verification/Rollout_FSM.thy ===== *)
theory Rollout_FSM
  imports Velkir_Interfaces "HOL-Library.Multiset"
begin

text \<open>
  The rollout state machine of \<^verbatim>\<open>internal/orchestration\<close> (states.go, events.go, transitions.go): the
  states and events, the guard context, the transition table as data in declaration order, and
  \<^verbatim>\<open>Machine.Apply\<close>, which takes the first matching row. The empty state of the source, the exit after
  a deletion, is the constructor \<open>StateExit\<close>.

  The lemmas show that the table does not depend on its order under the documented meaning of the
  quorum guard, and under which guards a row leads to a failover, a completed rollout or Steady. The
  operator derives the live state anew on every pass (\<^verbatim>\<open>Rollout_Dispatch\<close>) and applies the table to it, so
  nothing here follows the next state from one event to another.
\<close>

section \<open>States, events, rows\<close>

datatype State =
    StateBootstrap | StateSteady | StateRolloutPending | StateRolloutReplicas
  | StateRolloutPrimary | StateFailoverInFlight | StateRolloutComplete | StateDegraded
  | StateDegradedQuorumLost | StateExit

definition AllStates :: "State list" where
  "AllStates =
     [StateBootstrap, StateSteady, StateRolloutPending, StateRolloutReplicas, StateRolloutPrimary,
      StateFailoverInFlight, StateRolloutComplete, StateDegraded, StateDegradedQuorumLost]"

datatype Event =
    EventCRCreated | EventQuorumPrimaryAgreed | EventReconcileTick | EventRolloutTrigger
  | EventSwitchMaster | EventSplitBrainDetected | EventReplicaSelected | EventReplicaRolled
  | EventAllReplicasRolled | EventQuorumLost | EventQuorumLostSustained | EventQuorumReached
  | EventSpecChanged | EventFailoverEnd | EventFailoverEndForTimeout | EventFailoverAbort
  | EventFailoverTimeoutExceeded | EventOldPrimaryReady | EventRecovered | EventCRDeleted

definition AllEvents :: "Event list" where
  "AllEvents =
     [EventCRCreated, EventQuorumPrimaryAgreed, EventReconcileTick, EventRolloutTrigger,
      EventSwitchMaster, EventSplitBrainDetected, EventReplicaSelected, EventReplicaRolled,
      EventAllReplicasRolled, EventQuorumLost, EventQuorumLostSustained, EventQuorumReached,
      EventSpecChanged, EventFailoverEnd, EventFailoverEndForTimeout, EventFailoverAbort,
      EventFailoverTimeoutExceeded, EventOldPrimaryReady, EventRecovered, EventCRDeleted]"

record GuardCtx =
  QuorumOK :: bool
  SplitBrain :: bool
  QuorumPrimaryAgreed :: bool
  Pod0LabeledPrimary :: bool
  CandidateReplicaReady :: bool
  HasMoreReplicas :: bool
  NewPrimaryStable :: bool
  OldPrimaryNowReplica :: bool
  OldPrimaryReplicaReady :: bool
  RolloutSuspendedFromPending :: bool
  CKQUORUMOKHysteresisPassed :: bool

record SideEffect =
  EventReason :: string
  RequeueAfter :: duration

definition noSideEffect :: SideEffect where
  "noSideEffect = \<lparr>EventReason = [], RequeueAfter = 0\<rparr>"

definition emits :: "string \<Rightarrow> SideEffect" where
  "emits r = \<lparr>EventReason = r, RequeueAfter = 0\<rparr>"

record Transition =
  Tag :: string
  From :: State
  OnEvent :: Event
  Guard :: "(GuardCtx \<Rightarrow> bool) option"
  NextState :: State
  Effect :: SideEffect

definition row :: "string \<Rightarrow> State \<Rightarrow> Event \<Rightarrow> (GuardCtx \<Rightarrow> bool) option \<Rightarrow> State \<Rightarrow> SideEffect \<Rightarrow> Transition"
  where
  "row tag from e g nxt se =
     \<lparr>Tag = tag, From = from, OnEvent = e, Guard = g, NextState = nxt, Effect = se\<rparr>"

section \<open>The transition table\<close>

definition bootstrapAndReplicaRows :: "Transition list" where
  "bootstrapAndReplicaRows =
     [row ''T1'' StateBootstrap EventCRCreated (Some (\<lambda>c. \<not> QuorumPrimaryAgreed c)) StateBootstrap
        \<lparr>EventReason = [], RequeueAfter = 5 * Second\<rparr>,
      row ''T2'' StateBootstrap EventQuorumPrimaryAgreed
        (Some (\<lambda>c. QuorumPrimaryAgreed c \<and> Pod0LabeledPrimary c)) StateSteady
        (emits ''BootstrapCompleted''),
      row ''T3'' StateSteady EventRolloutTrigger (Some (\<lambda>c. QuorumOK c)) StateRolloutPending
        (emits ''RolloutStarted''),
      row ''T4'' StateSteady EventRolloutTrigger (Some (\<lambda>c. \<not> QuorumOK c)) StateSteady
        \<lparr>EventReason = ''RolloutDeferred'', RequeueAfter = 10 * Second\<rparr>,
      row ''T5'' StateSteady EventSwitchMaster None StateFailoverInFlight
        (emits ''UnexpectedFailover''),
      row ''T6'' StateSteady EventSplitBrainDetected None StateDegraded
        (emits ''SplitBrainDetected''),
      row ''T7'' StateRolloutPending EventReconcileTick
        (Some (\<lambda>c. QuorumOK c \<and> QuorumPrimaryAgreed c \<and> CandidateReplicaReady c))
        StateRolloutReplicas noSideEffect,
      row ''T8'' StateRolloutPending EventReconcileTick (Some (\<lambda>c. \<not> QuorumOK c \<or> SplitBrain c))
        StateDegraded (emits ''RolloutAbortedQuorumLost''),
      row ''T9'' StateRolloutReplicas EventReplicaSelected None StateRolloutReplicas noSideEffect,
      row ''T10'' StateRolloutReplicas EventReplicaRolled (Some (\<lambda>c. HasMoreReplicas c))
        StateRolloutReplicas noSideEffect,
      row ''T11'' StateRolloutReplicas EventAllReplicasRolled None StateRolloutPrimary
        (emits ''ReplicasRolled''),
      row ''T12'' StateRolloutReplicas EventQuorumLost None StateDegraded
        (emits ''RolloutAbortedQuorumLost''),
      row ''T13'' StateRolloutReplicas EventSpecChanged None StateRolloutReplicas
        (emits ''SpecChangeDeferred'')]"

definition primaryAndRecoveryRows :: "Transition list" where
  "primaryAndRecoveryRows =
     [row ''T14'' StateRolloutPrimary EventReconcileTick
        (Some (\<lambda>c. QuorumOK c \<and> CandidateReplicaReady c)) StateFailoverInFlight
        (emits ''FailoverInitiated''),
      row ''T15'' StateRolloutPrimary EventReconcileTick
        (Some (\<lambda>c. \<not> QuorumOK c \<or> \<not> CandidateReplicaReady c)) StateDegraded
        (emits ''PrimaryRolloutBlocked''),
      row ''T16'' StateFailoverInFlight EventFailoverEnd
        (Some (\<lambda>c. NewPrimaryStable c \<and> QuorumPrimaryAgreed c \<and> \<not> SplitBrain c))
        StateRolloutComplete (emits ''FailoverSucceeded''),
      row ''T17'' StateFailoverInFlight EventFailoverEndForTimeout None StateRolloutComplete
        (emits ''FailoverSucceededWithTimeout''),
      row ''T18'' StateFailoverInFlight EventFailoverAbort None StateDegraded
        (emits ''FailoverAborted''),
      row ''T19'' StateFailoverInFlight EventFailoverTimeoutExceeded None StateDegraded
        (emits ''FailoverStalled''),
      row ''T20'' StateRolloutComplete EventReconcileTick (Some (\<lambda>c. OldPrimaryNowReplica c))
        StateRolloutComplete noSideEffect,
      row ''T21'' StateRolloutComplete EventOldPrimaryReady (Some (\<lambda>c. OldPrimaryReplicaReady c))
        StateSteady (emits ''RolloutCompleted''),
      row ''T22'' StateDegraded EventRecovered
        (Some (\<lambda>c. QuorumOK c \<and> \<not> SplitBrain c \<and> \<not> RolloutSuspendedFromPending c))
        StateSteady (emits ''DegradedResolved''),
      row ''T23'' StateDegraded EventRecovered
        (Some (\<lambda>c. QuorumOK c \<and> \<not> SplitBrain c \<and> RolloutSuspendedFromPending c))
        StateRolloutPending (emits ''RolloutResumed'')]"

definition quorumAndExitRows :: "Transition list" where
  "quorumAndExitRows =
     [row ''T25-Bootstrap'' StateBootstrap EventQuorumLostSustained None StateDegradedQuorumLost
        (emits ''QuorumLost''),
      row ''T26-Steady'' StateSteady EventQuorumLostSustained None StateDegradedQuorumLost
        (emits ''QuorumLost''),
      row ''T27-RolloutPending'' StateRolloutPending EventQuorumLostSustained None
        StateDegradedQuorumLost (emits ''QuorumLost''),
      row ''T28-RolloutReplicas'' StateRolloutReplicas EventQuorumLostSustained None
        StateDegradedQuorumLost (emits ''QuorumLost''),
      row ''T29-RolloutPrimary'' StateRolloutPrimary EventQuorumLostSustained None
        StateDegradedQuorumLost (emits ''QuorumLost''),
      row ''T30-FailoverInFlight'' StateFailoverInFlight EventQuorumLostSustained None
        StateDegradedQuorumLost (emits ''QuorumLost''),
      row ''T31-RolloutComplete'' StateRolloutComplete EventQuorumLostSustained None
        StateDegradedQuorumLost (emits ''QuorumLost''),
      row ''T32-Degraded'' StateDegraded EventQuorumLostSustained None StateDegradedQuorumLost
        (emits ''QuorumLost''),
      row ''T33'' StateDegradedQuorumLost EventQuorumReached
        (Some (\<lambda>c. CKQUORUMOKHysteresisPassed c \<and> \<not> RolloutSuspendedFromPending c)) StateSteady
        (emits ''QuorumReached''),
      row ''T34'' StateDegradedQuorumLost EventQuorumReached
        (Some (\<lambda>c. CKQUORUMOKHysteresisPassed c \<and> RolloutSuspendedFromPending c))
        StateRolloutPending (emits ''QuorumReached''),
      row ''T24-Bootstrap'' StateBootstrap EventCRDeleted None StateExit noSideEffect,
      row ''T24-Steady'' StateSteady EventCRDeleted None StateExit noSideEffect,
      row ''T24-RolloutPending'' StateRolloutPending EventCRDeleted None StateExit noSideEffect,
      row ''T24-RolloutReplicas'' StateRolloutReplicas EventCRDeleted None StateExit noSideEffect,
      row ''T24-RolloutPrimary'' StateRolloutPrimary EventCRDeleted None StateExit noSideEffect,
      row ''T24-FailoverInFlight'' StateFailoverInFlight EventCRDeleted None StateExit noSideEffect,
      row ''T24-RolloutComplete'' StateRolloutComplete EventCRDeleted None StateExit noSideEffect,
      row ''T24-Degraded'' StateDegraded EventCRDeleted None StateExit noSideEffect,
      row ''T24-DegradedQuorumLost'' StateDegradedQuorumLost EventCRDeleted None StateExit
        noSideEffect]"

definition defaultTransitions :: "Transition list" where
  "defaultTransitions = bootstrapAndReplicaRows @ primaryAndRecoveryRows @ quorumAndExitRows"

record Machine =
  transitions :: "Transition list"

definition NewMachine :: Machine where
  "NewMachine = \<lparr>transitions = defaultTransitions\<rparr>"

section \<open>Apply\<close>

definition row_matches :: "State \<Rightarrow> Event \<Rightarrow> GuardCtx \<Rightarrow> Transition \<Rightarrow> bool" where
  "row_matches s e c t \<longleftrightarrow>
     From t = s \<and> OnEvent t = e \<and> (case Guard t of None \<Rightarrow> True | Some g \<Rightarrow> g c)"

fun apply_rows :: "Transition list \<Rightarrow> State \<Rightarrow> Event \<Rightarrow> GuardCtx \<Rightarrow> State \<times> SideEffect \<times> bool" where
  "apply_rows [] s e c = (s, noSideEffect, False)"
| "apply_rows (t # ts) s e c =
     (if row_matches s e c t then (NextState t, Effect t, True) else apply_rows ts s e c)"

definition Apply :: "Machine \<Rightarrow> State \<Rightarrow> Event \<Rightarrow> GuardCtx \<Rightarrow> State \<times> SideEffect \<times> bool" where
  "Apply m s e c = apply_rows (transitions m) s e c"

definition Transitions :: "Machine \<Rightarrow> Transition list" where
  "Transitions m = transitions m"

section \<open>Lemmas on the lookup\<close>

lemmas fsm_rows = bootstrapAndReplicaRows_def primaryAndRecoveryRows_def quorumAndExitRows_def

lemma row_simps [simp]:
  "From (row tag f e g n se) = f" "OnEvent (row tag f e g n se) = e"
  "Guard (row tag f e g n se) = g" "NextState (row tag f e g n se) = n"
  "Effect (row tag f e g n se) = se"
  by (simp_all add: row_def)

lemma row_matches_row [simp]:
  "row_matches s e c (row tag f ev g n se) \<longleftrightarrow>
     f = s \<and> ev = e \<and> (case g of None \<Rightarrow> True | Some h \<Rightarrow> h c)"
  by (simp add: row_matches_def)

lemma apply_rows_filter:
  "apply_rows ts s e c =
     (case filter (row_matches s e c) ts of
        [] \<Rightarrow> (s, noSideEffect, False)
      | t # _ \<Rightarrow> (NextState t, Effect t, True))"
  by (induction ts) auto

lemma apply_rows_fired:
  "apply_rows ts s e c = (s', se, True) \<Longrightarrow>
     \<exists>t \<in> set ts. row_matches s e c t \<and> NextState t = s' \<and> Effect t = se"
  by (induction ts) (auto split: if_splits)

lemma short_filter_perm:
  assumes "mset ts' = mset ts" and "length (filter P ts) \<le> 1"
  shows "filter P ts' = filter P ts"
proof -
  have m: "mset (filter P ts') = mset (filter P ts)"
    using assms(1) by (simp add: mset_filter)
  show ?thesis
  proof (cases "filter P ts")
    case Nil
    with m show ?thesis by simp
  next
    case (Cons t rest)
    with assms(2) have "filter P ts = [t]" by simp
    with m have "mset (filter P ts') = {#t#}" by simp
    then have "filter P ts' = [t]" by (simp only: mset_single_iff)
    with \<open>filter P ts = [t]\<close> show ?thesis by simp
  qed
qed

lemma apply_rows_perm:
  assumes "mset ts' = mset ts" and "length (filter (row_matches s e c) ts) \<le> 1"
  shows "apply_rows ts' s e c = apply_rows ts s e c"
  using short_filter_perm[OF assms] by (simp add: apply_rows_filter)

text \<open>The table without tags and effects, on which the case analyses run.\<close>

definition row_key :: "Transition \<Rightarrow> State \<times> Event \<times> (GuardCtx \<Rightarrow> bool) option \<times> State" where
  "row_key t = (From t, OnEvent t, Guard t, NextState t)"

fun key_matches ::
  "State \<Rightarrow> Event \<Rightarrow> GuardCtx \<Rightarrow> State \<times> Event \<times> (GuardCtx \<Rightarrow> bool) option \<times> State \<Rightarrow> bool" where
  "key_matches s e c (f, ev, g, n) \<longleftrightarrow>
     f = s \<and> ev = e \<and> (case g of None \<Rightarrow> True | Some h \<Rightarrow> h c)"

lemma row_key_row [simp]: "row_key (row tag f e g n se) = (f, e, g, n)"
  by (simp add: row_key_def)

lemma key_matches_row_key [simp]: "key_matches s e c (row_key t) = row_matches s e c t"
  by (simp add: row_key_def row_matches_def)

definition table_keys :: "(State \<times> Event \<times> (GuardCtx \<Rightarrow> bool) option \<times> State) list" where
  "table_keys = map row_key defaultTransitions"

lemmas table_keys_eq =
  table_keys_def [unfolded defaultTransitions_def fsm_rows, simplified list.map append.simps row_key_row]

lemma filter_length_keys:
  "length (filter (row_matches s e c) defaultTransitions) =
     length (filter (key_matches s e c) table_keys)"
  by (simp add: table_keys_def filter_map o_def)

lemma table_deterministic:
  assumes "SplitBrain c \<Longrightarrow> \<not> QuorumOK c"
  shows "length (filter (row_matches s e c) defaultTransitions) \<le> 1"
  unfolding filter_length_keys table_keys_eq
  using assms by (cases s) (cases e; simp)+

lemma fsm_fired_key:
  assumes "Apply NewMachine s e c = (s', se, True)"
  shows "\<exists>g. (s, e, g, s') \<in> set table_keys \<and> (case g of None \<Rightarrow> True | Some h \<Rightarrow> h c)"
proof -
  obtain t where "t \<in> set defaultTransitions" "row_matches s e c t" "NextState t = s'"
    using apply_rows_fired[of defaultTransitions s e c s' se] assms
    by (auto simp: Apply_def NewMachine_def)
  then show ?thesis
    by (intro exI[of _ "Guard t"]) (auto simp: table_keys_def row_key_def row_matches_def)
qed

lemma fsm_unmatched: "Apply NewMachine s e c = (s', se, False) \<Longrightarrow> s' = s \<and> se = noSideEffect"
  by (auto simp: Apply_def apply_rows_filter split: list.splits)

section \<open>Properties\<close>

definition healthy :: GuardCtx where
  "healthy =
     \<lparr>QuorumOK = True, SplitBrain = False, QuorumPrimaryAgreed = True, Pod0LabeledPrimary = True,
      CandidateReplicaReady = True, HasMoreReplicas = False, NewPrimaryStable = True,
      OldPrimaryNowReplica = True, OldPrimaryReplicaReady = True,
      RolloutSuspendedFromPending = False, CKQUORUMOKHysteresisPassed = True\<rparr>"

text \<open>
  The transition table does not depend on the order of its rows. Under the documented meaning of
  the quorum guard, that it is false when a split brain is suspected, at most one row matches any
  state, event and guard context, so \<^verbatim>\<open>Apply\<close> gives the same state, side effect and flag for
  every reordering of the rows as for the table as written.
\<close>

theorem apply_order_independent:
  assumes "mset ts = mset defaultTransitions" and "SplitBrain c \<Longrightarrow> \<not> QuorumOK c"
  shows "Apply \<lparr>transitions = ts\<rparr> s e c = Apply NewMachine s e c"
  using apply_rows_perm[OF assms(1) table_deterministic[OF assms(2)]]
  by (simp add: Apply_def NewMachine_def)

theorem apply_order_independent_witness:
  "Apply \<lparr>transitions = rev defaultTransitions\<rparr> StateRolloutPending EventReconcileTick healthy =
     Apply NewMachine StateRolloutPending EventReconcileTick healthy"
  by (rule apply_order_independent) (simp_all add: healthy_def)

text \<open>
  The guarded entries. A transition into FailoverInFlight is a switch-master seen in Steady, or
  the tick of RolloutPrimary with the quorum in hand and a caught-up candidate; a transition into
  RolloutComplete from the failover is a timeout end, or an end with a stable new primary the quorum
  agrees on and no split brain; a transition into Steady needs an agreed primary, the quorum, its
  recovery hysteresis or a ready replica in the old primary's place.
\<close>

theorem guarded_entries:
  assumes "Apply NewMachine s e c = (s', se, True)"
  shows "(s' = StateFailoverInFlight \<longrightarrow>
      s = StateSteady \<and> e = EventSwitchMaster \<or>
      s = StateRolloutPrimary \<and> e = EventReconcileTick \<and> QuorumOK c \<and> CandidateReplicaReady c)
    \<and> (s' = StateRolloutComplete \<and> s = StateFailoverInFlight \<longrightarrow>
      e = EventFailoverEndForTimeout \<or>
      e = EventFailoverEnd \<and> NewPrimaryStable c \<and> QuorumPrimaryAgreed c \<and> \<not> SplitBrain c)
    \<and> (s' = StateSteady \<and> s \<noteq> StateSteady \<longrightarrow>
      QuorumPrimaryAgreed c \<or> QuorumOK c \<or> CKQUORUMOKHysteresisPassed c \<or> OldPrimaryReplicaReady c)"
  using fsm_fired_key[OF assms] unfolding table_keys_eq by auto

theorem guarded_entries_witness:
  "Apply NewMachine StateRolloutPrimary EventReconcileTick healthy =
     (StateFailoverInFlight, emits ''FailoverInitiated'', True) \<and> QuorumOK healthy"
proof -
  have a: "Apply NewMachine StateRolloutPrimary EventReconcileTick healthy =
      (StateFailoverInFlight, emits ''FailoverInitiated'', True)"
    by (simp add: Apply_def NewMachine_def defaultTransitions_def fsm_rows healthy_def)
  then show ?thesis using guarded_entries[OF a] by simp
qed

end
