(* ===== verification/Sentinel_Types.thy ===== *)
theory Sentinel_Types
  imports Velkir_Interfaces
begin

text \<open>
  The types of \<^verbatim>\<open>internal/sentinel/types.go\<close>: endpoints, the tri-state quorum signal, the snapshot
  the observer publishes and its lock-free holder. The +odown maps are association lists; the atomic value
  holding a pointer is an option, since only \<^verbatim>\<open>store\<close> writes it.
\<close>

record Endpoint =
  Name :: string
  EpAddr :: string

datatype Source = SourceNone | SourcePubsub | SourcePoll | SourceMerge

datatype QuorumStatus = QuorumStatusUnknown | QuorumStatusOK | QuorumStatusLost

fun QuorumStatus_String :: "QuorumStatus \<Rightarrow> string" where
  "QuorumStatus_String QuorumStatusOK = ''OK''"
| "QuorumStatus_String QuorumStatusLost = ''Lost''"
| "QuorumStatus_String QuorumStatusUnknown = ''Unknown''"

record ObservedPrimary =
  Addr :: string
  Epoch :: int
  Quorum :: QuorumStatus
  OPQuorumOK :: bool
  UpdatedAt :: gotime
  LastPolledAt :: gotime
  OPSource :: Source
  ODown :: "(string \<times> gotime) list"
  ODownPull :: "(string \<times> gotime) list"

definition zeroObservedPrimary :: ObservedPrimary where
  "zeroObservedPrimary =
     \<lparr>Addr = [], Epoch = 0, Quorum = QuorumStatusUnknown, OPQuorumOK = False, UpdatedAt = 0,
      LastPolledAt = 0, OPSource = SourceNone, ODown = [], ODownPull = []\<rparr>"

record Snapshot =
  Present :: bool
  Primary :: ObservedPrimary

type_synonym snapshotHolder = "ObservedPrimary option"

definition load :: "snapshotHolder \<Rightarrow> ObservedPrimary \<times> bool" where
  "load h = (case h of None \<Rightarrow> (zeroObservedPrimary, False) | Some p \<Rightarrow> (p, True))"

definition store :: "snapshotHolder \<Rightarrow> ObservedPrimary \<Rightarrow> snapshotHolder" where
  "store h p = Some p"

lemma load_store [simp]: "load (store h p) = (p, True)"
  by (simp add: load_def store_def)

lemma QuorumStatus_String_inject: "QuorumStatus_String a = QuorumStatus_String b \<longleftrightarrow> a = b"
  by (cases a; cases b) simp_all

end
