(* ===== verification/SQ_Aggregate.thy ===== *)
theory SQ_Aggregate
  imports Sentinel_Types "HOL-Library.Multiset"
begin

text \<open>
  \<^verbatim>\<open>internal/sqaggregate\<close>: the verdict the reconciler draws from the per-sentinel SentinelQuorum
  records. The loop over the records is \<open>agg_loop\<close>; its vote map is an association list in order of
  first insertion, and the Go iteration over it, whose order the language leaves open, visits
  \<open>order votes\<close> for a parameter \<open>order\<close> that permutes it.

  The lemmas reduce \<open>Aggregate\<close> to a specification by counting over the fresh records, from which
  the independence of both orders follows.
\<close>

section \<open>Definitions\<close>

record SentinelQuorumStatus =
  SQObservedPrimary :: string
  QuorumReachable :: "bool option"
  LastObservedTime :: "gotime option"

record AggResult =
  PrimaryPod :: string
  PrimaryConfirmed :: bool
  QuorumLost :: bool
  AggQuorum :: QuorumStatus
  FreshCount :: nat
  StaleCount :: nat

type_synonym votes = "(string \<times> nat) list"

record agg_state =
  fresh :: nat
  stale :: nat
  votes :: votes
  quorumOK :: nat

definition agg_step :: "gotime \<Rightarrow> duration \<Rightarrow> SentinelQuorumStatus \<Rightarrow> agg_state \<Rightarrow> agg_state" where
  "agg_step now freshnessWindow st a =
     (case LastObservedTime st of
        None \<Rightarrow> a\<lparr>stale := stale a + 1\<rparr>
      | Some t \<Rightarrow>
          if IsZero t then a\<lparr>stale := stale a + 1\<rparr>
          else if Sub now t > freshnessWindow then a\<lparr>stale := stale a + 1\<rparr>
          else
            a\<lparr>fresh := fresh a + 1,
              votes := (if SQObservedPrimary st \<noteq> [] then incr (SQObservedPrimary st) (votes a)
                        else votes a),
              quorumOK := (if QuorumReachable st = Some True then quorumOK a + 1
                           else quorumOK a)\<rparr>)"

definition agg_loop :: "gotime \<Rightarrow> duration \<Rightarrow> SentinelQuorumStatus list \<Rightarrow> agg_state" where
  "agg_loop now freshnessWindow sqs =
     fold (agg_step now freshnessWindow) sqs \<lparr>fresh = 0, stale = 0, votes = [], quorumOK = 0\<rparr>"

fun first_majority :: "nat \<Rightarrow> votes \<Rightarrow> string option" where
  "first_majority n [] = None"
| "first_majority n ((p, k) # vs) = (if k * 2 > n then Some p else first_majority n vs)"

definition Aggregate ::
  "(votes \<Rightarrow> votes) \<Rightarrow> gotime \<Rightarrow> duration \<Rightarrow> int \<Rightarrow> SentinelQuorumStatus list \<Rightarrow> AggResult" where
  "Aggregate order now freshnessWindow quorum sqs =
     (let a = agg_loop now freshnessWindow sqs;
          winner = first_majority (fresh a) (order (votes a));
          status =
            (if sqs = [] then QuorumStatusUnknown
             else if fresh a = 0 then QuorumStatusLost
             else if int (quorumOK a) < quorum then QuorumStatusLost
             else QuorumStatusOK)
      in \<lparr>PrimaryPod = (case winner of None \<Rightarrow> [] | Some p \<Rightarrow> p),
          PrimaryConfirmed = (winner \<noteq> None),
          QuorumLost = (status = QuorumStatusLost),
          AggQuorum = status,
          FreshCount = fresh a,
          StaleCount = stale a\<rparr>)"

section \<open>Specification by counting\<close>

definition is_fresh :: "gotime \<Rightarrow> duration \<Rightarrow> SentinelQuorumStatus \<Rightarrow> bool" where
  "is_fresh now w st \<longleftrightarrow>
     (case LastObservedTime st of None \<Rightarrow> False | Some t \<Rightarrow> \<not> IsZero t \<and> Sub now t \<le> w)"

definition fresh_records :: "gotime \<Rightarrow> duration \<Rightarrow> SentinelQuorumStatus list \<Rightarrow> SentinelQuorumStatus list"
  where
  "fresh_records now w sqs = filter (is_fresh now w) sqs"

definition votes_for :: "string \<Rightarrow> SentinelQuorumStatus list \<Rightarrow> nat" where
  "votes_for p rs = length (filter (\<lambda>st. SQObservedPrimary st = p) rs)"

definition reachable_count :: "SentinelQuorumStatus list \<Rightarrow> nat" where
  "reachable_count rs = length (filter (\<lambda>st. QuorumReachable st = Some True) rs)"

definition majority_pod :: "string \<Rightarrow> SentinelQuorumStatus list \<Rightarrow> bool" where
  "majority_pod p rs \<longleftrightarrow> p \<noteq> [] \<and> 2 * votes_for p rs > length rs"

section \<open>Lemmas\<close>

lemma agg_step_fresh:
  "is_fresh now w st \<Longrightarrow> agg_step now w st a =
     a\<lparr>fresh := fresh a + 1,
       votes := (if SQObservedPrimary st \<noteq> [] then incr (SQObservedPrimary st) (votes a) else votes a),
       quorumOK := (if QuorumReachable st = Some True then quorumOK a + 1 else quorumOK a)\<rparr>"
  by (auto simp: agg_step_def is_fresh_def split: option.splits)

lemma agg_step_stale: "\<not> is_fresh now w st \<Longrightarrow> agg_step now w st a = a\<lparr>stale := stale a + 1\<rparr>"
  by (auto simp: agg_step_def is_fresh_def split: option.splits)

text \<open>The loop invariant: counters count, and the vote map holds the votes of the fresh records.\<close>

definition agg_inv :: "SentinelQuorumStatus list \<Rightarrow> nat \<Rightarrow> agg_state \<Rightarrow> bool" where
  "agg_inv rs n a \<longleftrightarrow>
     fresh a = length rs \<and> stale a = n \<and> quorumOK a = reachable_count rs \<and>
     distinct (map fst (votes a)) \<and>
     (\<forall>p. map_of (votes a) p =
        (if p = [] \<or> votes_for p rs = 0 then None else Some (votes_for p rs)))"

lemma agg_inv_step:
  assumes "agg_inv rs n a"
  shows "agg_inv (if is_fresh now w st then rs @ [st] else rs)
    (if is_fresh now w st then n else Suc n) (agg_step now w st a)"
  using assms
  by (auto simp: agg_inv_def agg_step_fresh agg_step_stale map_of_incr distinct_incr
      votes_for_def reachable_count_def)

lemma agg_inv_fold:
  "agg_inv rs n a \<Longrightarrow>
     agg_inv (rs @ fresh_records now w sqs) (n + (length sqs - length (fresh_records now w sqs)))
       (fold (agg_step now w) sqs a)"
proof (induction sqs arbitrary: rs n a)
  case Nil
  then show ?case by (simp add: fresh_records_def)
next
  case (Cons st sqs)
  have le: "length (filter (is_fresh now w) sqs) \<le> length sqs" by simp
  show ?case
    using Cons.IH[OF agg_inv_step[OF Cons.prems, of now w st]] le
    by (cases "is_fresh now w st") (simp_all add: fresh_records_def Suc_diff_le)
qed

lemma agg_loop_inv:
  "agg_inv (fresh_records now w sqs) (length sqs - length (fresh_records now w sqs))
     (agg_loop now w sqs)"
proof -
  have "agg_inv [] 0 \<lparr>fresh = 0, stale = 0, votes = [], quorumOK = 0\<rparr>"
    by (simp add: agg_inv_def votes_for_def reachable_count_def)
  from agg_inv_fold[OF this, of now w sqs] show ?thesis by (simp add: agg_loop_def)
qed

lemma first_majority_Some:
  "first_majority n vs = Some p \<Longrightarrow> \<exists>k. (p, k) \<in> set vs \<and> k * 2 > n"
  by (induction n vs rule: first_majority.induct) (auto split: if_splits)

lemma first_majority_None: "first_majority n vs = None \<longleftrightarrow> (\<forall>p k. (p, k) \<in> set vs \<longrightarrow> \<not> k * 2 > n)"
proof (induction n vs rule: first_majority.induct)
  case (2 n p k vs)
  then show ?case by (cases "k * 2 > n") auto
qed simp

lemma votes_disjoint: "p \<noteq> q \<Longrightarrow> votes_for p rs + votes_for q rs \<le> length rs"
  by (induction rs) (auto simp: votes_for_def)

lemma majority_unique: "majority_pod p rs \<Longrightarrow> majority_pod q rs \<Longrightarrow> p = q"
  using votes_disjoint[of p q rs] by (fastforce simp: majority_pod_def)

lemma in_votes_iff:
  assumes "agg_inv rs n a"
  shows "(p, k) \<in> set (votes a) \<longleftrightarrow> p \<noteq> [] \<and> k = votes_for p rs \<and> k > 0"
proof -
  have "(p, k) \<in> set (votes a) \<longleftrightarrow> map_of (votes a) p = Some k"
    using assms by (intro map_of_eq_Some_iff[symmetric]) (simp add: agg_inv_def)
  also have "\<dots> \<longleftrightarrow> p \<noteq> [] \<and> k = votes_for p rs \<and> k > 0"
    using assms by (auto simp add: agg_inv_def simp del: map_of_eq_Some_iff)
  finally show ?thesis .
qed

lemma winner_iff:
  assumes inv: "agg_inv rs n a" and ord: "set (order (votes a)) = set (votes a)"
  shows "first_majority (length rs) (order (votes a)) = Some p \<longleftrightarrow> majority_pod p rs"
proof
  assume "first_majority (length rs) (order (votes a)) = Some p"
  from first_majority_Some[OF this] show "majority_pod p rs"
    using ord in_votes_iff[OF inv] by (auto simp: majority_pod_def)
next
  assume m: "majority_pod p rs"
  then have "(p, votes_for p rs) \<in> set (order (votes a))"
    using ord in_votes_iff[OF inv] by (auto simp: majority_pod_def)
  moreover have "votes_for p rs * 2 > length rs" using m by (simp add: majority_pod_def)
  ultimately have "first_majority (length rs) (order (votes a)) \<noteq> None"
    unfolding first_majority_None by blast
  then obtain q where q: "first_majority (length rs) (order (votes a)) = Some q" by blast
  from first_majority_Some[OF q] have "majority_pod q rs"
    using ord in_votes_iff[OF inv] by (auto simp: majority_pod_def)
  with m q show "first_majority (length rs) (order (votes a)) = Some p"
    using majority_unique by blast
qed

lemma agg_loop_counts:
  "fresh (agg_loop now w sqs) = length (fresh_records now w sqs)"
  "stale (agg_loop now w sqs) = length sqs - length (fresh_records now w sqs)"
  "quorumOK (agg_loop now w sqs) = reachable_count (fresh_records now w sqs)"
  using agg_loop_inv[of now w sqs] by (simp_all add: agg_inv_def)

lemma agg_winner:
  assumes "\<And>vs. mset (order vs) = mset vs"
  shows "first_majority (length (fresh_records now w sqs)) (order (votes (agg_loop now w sqs))) = Some p
    \<longleftrightarrow> majority_pod p (fresh_records now w sqs)"
  by (rule winner_iff[OF agg_loop_inv]) (rule mset_eq_setD[OF assms])

lemma counts_perm:
  assumes "mset sqs' = mset sqs"
  shows "length (fresh_records now w sqs') = length (fresh_records now w sqs)"
    and "votes_for p (fresh_records now w sqs') = votes_for p (fresh_records now w sqs)"
    and "reachable_count (fresh_records now w sqs') = reachable_count (fresh_records now w sqs)"
proof -
  have "mset (fresh_records now w sqs') = mset (fresh_records now w sqs)"
    using assms by (simp add: fresh_records_def mset_filter)
  then show "length (fresh_records now w sqs') = length (fresh_records now w sqs)"
    "votes_for p (fresh_records now w sqs') = votes_for p (fresh_records now w sqs)"
    "reachable_count (fresh_records now w sqs') = reachable_count (fresh_records now w sqs)"
    by (simp_all add: votes_for_def reachable_count_def flip: size_mset)
qed

lemma option_eqI: "(\<And>p. a = Some p \<longleftrightarrow> b = Some p) \<Longrightarrow> a = b"
  by (cases a; cases b) auto

section \<open>Properties\<close>

definition sq :: "string \<Rightarrow> bool \<Rightarrow> gotime \<Rightarrow> SentinelQuorumStatus" where
  "sq p r t = \<lparr>SQObservedPrimary = p, QuorumReachable = Some r, LastObservedTime = Some t\<rparr>"

text \<open>
  The aggregator confirms exactly the strict majority. Whatever order the vote map is iterated
  in, \<^verbatim>\<open>Aggregate\<close> confirms a pod if and only if its name is not empty and more than half of the
  fresh records observed it; otherwise the reported pod is empty.
\<close>

theorem aggregate_confirms_majority:
  assumes "\<And>vs. mset (order vs) = mset vs"
  shows "(PrimaryConfirmed (Aggregate order now w quorum sqs) \<and>
      PrimaryPod (Aggregate order now w quorum sqs) = p \<longleftrightarrow>
      majority_pod p (fresh_records now w sqs)) \<and>
    (\<not> PrimaryConfirmed (Aggregate order now w quorum sqs) \<longrightarrow>
      PrimaryPod (Aggregate order now w quorum sqs) = [])"
  using agg_winner[OF assms, of now w sqs p]
  by (auto simp: Aggregate_def Let_def agg_loop_counts)

theorem aggregate_confirms_majority_witness:
  "PrimaryConfirmed (Aggregate rev 100 50 2 [sq ''p-0'' True 90, sq ''p-1'' True 95, sq ''p-0'' False 60]) \<and>
   PrimaryPod (Aggregate rev 100 50 2 [sq ''p-0'' True 90, sq ''p-1'' True 95, sq ''p-0'' False 60]) = ''p-0''"
proof -
  have "majority_pod ''p-0'' (fresh_records 100 50
      [sq ''p-0'' True 90, sq ''p-1'' True 95, sq ''p-0'' False 60])"
    by (simp add: majority_pod_def votes_for_def fresh_records_def is_fresh_def sq_def IsZero_def
        Sub_def window_consts)
  then show ?thesis
    using aggregate_confirms_majority[of rev 100 50 2
        "[sq ''p-0'' True 90, sq ''p-1'' True 95, sq ''p-0'' False 60]" "''p-0''"] by simp
qed

text \<open>
  The verdict does not depend on any order. Reordering the records, as a List call may, and
  iterating the vote map in another order give the same \<^verbatim>\<open>Result\<close> in every field.
\<close>

theorem aggregate_order_independent:
  assumes "\<And>vs. mset (order vs) = mset vs" and "\<And>vs. mset (order' vs) = mset vs"
    and "mset sqs' = mset sqs"
  shows "Aggregate order' now w quorum sqs' = Aggregate order now w quorum sqs"
proof -
  have "first_majority (length (fresh_records now w sqs')) (order' (votes (agg_loop now w sqs'))) =
        first_majority (length (fresh_records now w sqs)) (order (votes (agg_loop now w sqs)))"
    by (rule option_eqI, subst agg_winner[OF assms(1)], subst agg_winner[OF assms(2)])
      (simp add: majority_pod_def counts_perm[OF assms(3)])
  moreover have "sqs' = [] \<longleftrightarrow> sqs = []" "length sqs' = length sqs"
    using mset_eq_length[OF assms(3)] by auto
  ultimately show ?thesis
    by (simp add: Aggregate_def Let_def agg_loop_counts counts_perm[OF assms(3)])
qed

theorem aggregate_order_independent_witness:
  "Aggregate rev 100 50 2 [sq ''p-1'' True 95, sq ''p-0'' True 90] =
   Aggregate id 100 50 2 [sq ''p-0'' True 90, sq ''p-1'' True 95]"
  by (rule aggregate_order_independent) simp_all

text \<open>
  The tri-state. \<^verbatim>\<open>Unknown\<close> is reported exactly on empty input, \<^verbatim>\<open>OK\<close> exactly when there is a
  fresh record and the fresh records that reach their quorum are at least the configured number;
  everything else, in particular a non-empty input whose records are all stale, is \<^verbatim>\<open>Lost\<close>. The
  legacy flag mirrors \<^verbatim>\<open>Lost\<close> and every record is counted as fresh or stale.
\<close>

theorem aggregate_tristate:
  "(AggQuorum (Aggregate order now w quorum sqs) = QuorumStatusUnknown \<longleftrightarrow> sqs = []) \<and>
   (AggQuorum (Aggregate order now w quorum sqs) = QuorumStatusOK \<longleftrightarrow>
      fresh_records now w sqs \<noteq> [] \<and> quorum \<le> int (reachable_count (fresh_records now w sqs))) \<and>
   (QuorumLost (Aggregate order now w quorum sqs) \<longleftrightarrow>
      AggQuorum (Aggregate order now w quorum sqs) = QuorumStatusLost) \<and>
   FreshCount (Aggregate order now w quorum sqs) + StaleCount (Aggregate order now w quorum sqs) =
     length sqs"
proof -
  have "length (fresh_records now w sqs) \<le> length sqs" by (simp add: fresh_records_def)
  moreover have "sqs = [] \<Longrightarrow> fresh_records now w sqs = []" by (simp add: fresh_records_def)
  ultimately show ?thesis
    by (auto simp: Aggregate_def Let_def agg_loop_counts)
qed

end
