(* ===== verification/Watchdog.thy ===== *)
theory Watchdog
  imports Velkir_Interfaces
begin

text \<open>
  \<^verbatim>\<open>internal/orchestration/watchdog.go\<close>: the watchdog that the reconciler arms when it deletes a pod
  during a rollout, its verdict, and the clearing value. The lemmas bound the deadline, show that
  re-arming for the same pod cannot postpone it, and so that a stall is detected however often the
  reconciler runs.
\<close>

record MasterAwareRolloutStatus =
  WaitingForPod :: string
  MADeadline :: "gotime option"
  DeletedAt :: "gotime option"

record WatchdogResult =
  Active :: bool
  Expired :: bool
  PodName :: string
  WDeadline :: gotime

definition Check :: "gotime \<Rightarrow> MasterAwareRolloutStatus option \<Rightarrow> WatchdogResult" where
  "Check now status =
     (case status of
        None \<Rightarrow> \<lparr>Active = False, Expired = False, PodName = [], WDeadline = 0\<rparr>
      | Some st \<Rightarrow>
          (case MADeadline st of
             None \<Rightarrow> \<lparr>Active = False, Expired = False, PodName = [], WDeadline = 0\<rparr>
           | Some d \<Rightarrow>
               if WaitingForPod st = [] then
                 \<lparr>Active = False, Expired = False, PodName = [], WDeadline = 0\<rparr>
               else
                 \<lparr>Active = True, Expired = (\<not> now < d), PodName = WaitingForPod st,
                  WDeadline = d\<rparr>))"

definition clampTimeout :: "int \<Rightarrow> int" where
  "clampTimeout timeoutSeconds = min 3600 (max 60 timeoutSeconds)"

definition Arm ::
  "gotime \<Rightarrow> string \<Rightarrow> int \<Rightarrow> MasterAwareRolloutStatus option \<Rightarrow> MasterAwareRolloutStatus" where
  "Arm now podName timeoutSeconds existing =
     (case existing of
        Some e \<Rightarrow>
          if WaitingForPod e = podName \<and> MADeadline e \<noteq> None then e
          else \<lparr>WaitingForPod = podName,
                MADeadline = Some (now + clampTimeout timeoutSeconds * Second),
                DeletedAt = Some now\<rparr>
      | None \<Rightarrow>
          \<lparr>WaitingForPod = podName,
           MADeadline = Some (now + clampTimeout timeoutSeconds * Second),
           DeletedAt = Some now\<rparr>)"

definition Disarm :: MasterAwareRolloutStatus where
  "Disarm = \<lparr>WaitingForPod = [], MADeadline = None, DeletedAt = None\<rparr>"

text \<open>A sequence of re-arms for one pod, as reconciles run while its replacement is pending.\<close>

definition rearm :: "string \<Rightarrow> MasterAwareRolloutStatus \<Rightarrow> gotime \<times> int \<Rightarrow> MasterAwareRolloutStatus" where
  "rearm podName st i = Arm (fst i) podName (snd i) (Some st)"

lemma Arm_armed: "WaitingForPod (Arm now p t e) = p \<and> MADeadline (Arm now p t e) \<noteq> None"
  by (auto simp: Arm_def split: option.splits)

lemma rearm_fix: "WaitingForPod st = p \<Longrightarrow> MADeadline st \<noteq> None \<Longrightarrow> rearm p st i = st"
  by (simp add: rearm_def Arm_def)

lemma rearm_run:
  "WaitingForPod st = p \<Longrightarrow> MADeadline st \<noteq> None \<Longrightarrow> run_state (rearm p) st is = st"
  by (induction "is") (simp_all add: rearm_fix)

lemma Check_Disarm: "\<not> Active (Check now (Some Disarm))"
  by (simp add: Check_def Disarm_def)

text \<open>
  C36. The watchdog elapses. After an arm at \<open>t\<close> for a named pod, whatever sequence of re-arms for
  that pod follows, with any times and timeouts, the check is active for that pod, reports no stall
  before one minute and reports one from one hour on, and at every instant the verdict is exactly
  whether the clamped timeout has passed since \<open>t\<close>. A cleared watchdog is never active.
\<close>

theorem watchdog_elapses:
  assumes "p \<noteq> []"
  shows "Check now (Some (run_state (rearm p) (Arm t p timeout None) is)) =
      \<lparr>Active = True, Expired = (t + clampTimeout timeout * Second \<le> now), PodName = p,
       WDeadline = t + clampTimeout timeout * Second\<rparr> \<and>
    (Expired (Check now (Some (run_state (rearm p) (Arm t p timeout None) is))) \<longrightarrow> Minute \<le> now - t) \<and>
    (Hour \<le> now - t \<longrightarrow> Expired (Check now (Some (run_state (rearm p) (Arm t p timeout None) is)))) \<and>
    \<not> Active (Check now (Some Disarm))"
proof -
  have r: "run_state (rearm p) (Arm t p timeout None) is = Arm t p timeout None"
    using Arm_armed[of t p timeout None] by (simp add: rearm_run)
  have a: "Check now (Some (Arm t p timeout None)) =
      \<lparr>Active = True, Expired = (t + clampTimeout timeout * Second \<le> now), PodName = p,
       WDeadline = t + clampTimeout timeout * Second\<rparr>"
    using assms by (auto simp: Check_def Arm_def)
  have "60 \<le> clampTimeout timeout" "clampTimeout timeout \<le> 3600"
    by (auto simp: clampTimeout_def)
  then show ?thesis unfolding r a by (auto simp: window_consts Check_Disarm)
qed

theorem watchdog_elapses_witness:
  "Expired (Check (Hour + 7) (Some (run_state (rearm ''p-1'') (Arm 7 ''p-1'' 99999 None)
     [(Hour, 60), (Hour + 5, 3600)])))"
  using watchdog_elapses[of "''p-1''" "Hour + 7" 7 99999 "[(Hour, 60), (Hour + 5, 3600)]"]
  by (simp add: clampTimeout_def window_consts)

end
