(* ===== verification/RESP_Wire.thy ===== *)
theory RESP_Wire
  imports Sentinel_Types
begin

text \<open>
  The RESP-2 wire format: \<^verbatim>\<open>internal/resp/resp.go\<close> and \<^verbatim>\<open>internal/sentinel/conn.go\<close>. A buffered reader
  is the list of bytes the peer still delivers; reading past its end is the I/O error. A reply of Go
  type \<^verbatim>\<open>any\<close> is the datatype \<open>reply\<close>. The recursion of \<^verbatim>\<open>readReply\<close> into array elements is bounded by
  a depth; the depth the model starts with, one more than the number of bytes, is never used up,
  because every level consumes its header line (\<open>readReply_fuel_enough\<close>).

  The lemmas show that the reader undoes the encoding of every reply the protocol can carry, in
  particular of every command the operator sends, and leaves the following bytes alone.
\<close>

section \<open>Encoding\<close>

definition MaxBulkSize :: int where
  "MaxBulkSize = 1048576"

definition CRLF :: string where
  "CRLF = [CHR 0x0D, CHR 0x0A]"

definition encodeArg :: "string \<Rightarrow> string" where
  "encodeArg a = ''$'' @ itoa (int (length a)) @ CRLF @ a @ CRLF"

definition EncodeCommand :: "string list \<Rightarrow> string" where
  "EncodeCommand args = ''*'' @ itoa (int (length args)) @ CRLF @ concat (map encodeArg args)"

section \<open>Reading\<close>

datatype reply = RStr string | RInt int | RArr "reply list"

datatype readErr =
    ErrIO
  | ErrEmptyHeader
  | ErrServer string
  | ErrBadInteger string
  | ErrBadBulkLength string
  | ErrBulkCap int
  | ErrBulkBody
  | ErrBulkTrailer
  | ErrBadArrayLength string
  | ErrArrayElement nat readErr
  | ErrPrefix char
  | ErrShortMessage nat
  | ErrDepth

text \<open>The result of a read, and the bytes the reader has not consumed, also after an error.\<close>

type_synonym 'a readRes = "(readErr + 'a) \<times> string"

text \<open>\<^verbatim>\<open>rd.ReadString\<close> up to and including a newline.\<close>

fun ReadLine :: "string \<Rightarrow> (string \<times> string) option" where
  "ReadLine [] = None"
| "ReadLine (c # cs) =
     (if c = CHR 0x0A then Some ([c], cs)
      else (case ReadLine cs of None \<Rightarrow> None | Some (l, r) \<Rightarrow> Some (c # l, r)))"

definition TrimRightCRLF :: "string \<Rightarrow> string" where
  "TrimRightCRLF s = rev (dropWhile (\<lambda>c. c = CHR 0x0D \<or> c = CHR 0x0A) (rev s))"

text \<open>The element loop of the array case, over the reader of one level below.\<close>

fun readElems :: "(string \<Rightarrow> reply readRes) \<Rightarrow> nat \<Rightarrow> nat \<Rightarrow> string \<Rightarrow> reply list readRes" where
  "readElems rdr i 0 s = (Inr [], s)"
| "readElems rdr i (Suc n) s =
     (case rdr s of
        (Inl e, s') \<Rightarrow> (Inl (ErrArrayElement i e), s')
      | (Inr el, s') \<Rightarrow>
          (case readElems rdr (Suc i) n s' of
             (Inl e, s'') \<Rightarrow> (Inl e, s'')
           | (Inr els, s'') \<Rightarrow> (Inr (el # els), s'')))"

definition readBulk :: "string \<Rightarrow> string \<Rightarrow> reply readRes" where
  "readBulk body s =
     (case atoi body of
        None \<Rightarrow> (Inl (ErrBadBulkLength body), s)
      | Some n \<Rightarrow>
          if n < 0 then (Inr (RStr []), s)
          else if n > MaxBulkSize then (Inl (ErrBulkCap n), s)
          else if length s < nat n then (Inl ErrBulkBody, [])
          else if length s < nat n + 2 then (Inl ErrBulkTrailer, [])
          else (Inr (RStr (take (nat n) s)), drop (nat n + 2) s))"

text \<open>The switch on the prefix of a header line, over the reader of array elements.\<close>

definition readAfterHeader :: "(string \<Rightarrow> reply readRes) \<Rightarrow> string \<Rightarrow> string \<Rightarrow> reply readRes" where
  "readAfterHeader rdr line s =
     (case TrimRightCRLF line of
        [] \<Rightarrow> (Inl ErrEmptyHeader, s)
      | pre # body \<Rightarrow>
          if pre = CHR ''+'' then (Inr (RStr body), s)
          else if pre = CHR ''-'' then (Inl (ErrServer body), s)
          else if pre = CHR '':'' then
            (case atoi body of
               None \<Rightarrow> (Inl (ErrBadInteger body), s)
             | Some n \<Rightarrow> (Inr (RInt n), s))
          else if pre = CHR ''$'' then readBulk body s
          else if pre = CHR ''*'' then
            (case atoi body of
               None \<Rightarrow> (Inl (ErrBadArrayLength body), s)
             | Some n \<Rightarrow>
                 if n < 0 then (Inr (RArr []), s)
                 else (case readElems rdr 0 (nat n) s of
                         (Inl e, s') \<Rightarrow> (Inl e, s')
                       | (Inr els, s') \<Rightarrow> (Inr (RArr els), s')))
          else (Inl (ErrPrefix pre), s))"

fun readReply_fuel :: "nat \<Rightarrow> string \<Rightarrow> reply readRes" where
  "readReply_fuel 0 s = (Inl ErrDepth, s)"
| "readReply_fuel (Suc d) s =
     (case ReadLine s of
        None \<Rightarrow> (Inl ErrIO, [])
      | Some (line, s') \<Rightarrow> readAfterHeader (readReply_fuel d) line s')"

definition readReply :: "string \<Rightarrow> reply readRes" where
  "readReply s = readReply_fuel (length s + 1) s"

section \<open>Pub/sub messages\<close>

record pubsubMessage =
  Channel :: string
  Payload :: string

definition zeroMessage :: pubsubMessage where
  "zeroMessage = \<lparr>Channel = [], Payload = []\<rparr>"

text \<open>A Go type assertion to string that ignores its flag: the empty string for any other type.\<close>

fun as_string :: "reply \<Rightarrow> string" where
  "as_string (RStr s) = s"
| "as_string _ = []"

definition pubsub_of_array :: "reply list \<Rightarrow> readErr + pubsubMessage" where
  "pubsub_of_array arr =
     (if arr = [] then Inr zeroMessage
      else
        (let kind = as_string (arr ! 0) in
         if kind = ''pmessage'' then
           (if length arr < 4 then Inl (ErrShortMessage (length arr))
            else Inr \<lparr>Channel = as_string (arr ! 2), Payload = as_string (arr ! 3)\<rparr>)
         else if kind = ''message'' then
           (if length arr < 3 then Inl (ErrShortMessage (length arr))
            else Inr \<lparr>Channel = as_string (arr ! 1), Payload = as_string (arr ! 2)\<rparr>)
         else Inr zeroMessage))"

definition readPubsubMessage :: "string \<Rightarrow> pubsubMessage readRes" where
  "readPubsubMessage s =
     (case readReply s of
        (Inl e, s') \<Rightarrow> (Inl e, s')
      | (Inr (RArr arr), s') \<Rightarrow> (pubsub_of_array arr, s')
      | (Inr _, s') \<Rightarrow> (Inr zeroMessage, s'))"

section \<open>Connections\<close>

text \<open>
  A connection: the bytes still to be read, the bytes written so far, and the outcomes of the writes
  to come (a write beyond the list succeeds).
\<close>

record conn =
  rd :: string
  sent :: string
  writesOK :: "bool list"

datatype connErr =
    ErrDial
  | ErrWrite string
  | ErrRead string readErr
  | ErrUnexpected reply
  | ErrNoMasterName

definition WriteString :: "conn \<Rightarrow> string \<Rightarrow> bool \<times> conn" where
  "WriteString c s =
     (case writesOK c of
        [] \<Rightarrow> (True, c\<lparr>sent := sent c @ s\<rparr>)
      | ok # oks \<Rightarrow> (ok, c\<lparr>sent := (if ok then sent c @ s else sent c), writesOK := oks\<rparr>))"

definition connRead :: "conn \<Rightarrow> (readErr + reply) \<times> conn" where
  "connRead c =
     (let (res, s) = readReply (rd c) in (res, c\<lparr>rd := s\<rparr>))"

definition authIfNeeded :: "conn \<Rightarrow> string \<Rightarrow> connErr option \<times> conn" where
  "authIfNeeded c password =
     (if password = [] then (None, c)
      else
        (let (ok, c1) = WriteString c (EncodeCommand [''AUTH'', password]) in
         if \<not> ok then (Some (ErrWrite ''AUTH''), c1)
         else
           (case connRead c1 of
              (Inl e, c2) \<Rightarrow> (Some (ErrRead ''AUTH'' e), c2)
            | (Inr r, c2) \<Rightarrow> (if r = RStr ''OK'' then None else Some (ErrUnexpected r), c2))))"

definition pingPubsub :: "conn \<Rightarrow> (connErr + pubsubMessage) \<times> conn" where
  "pingPubsub c =
     (let (ok, c1) = WriteString c (EncodeCommand [''PING'']) in
      if \<not> ok then (Inl (ErrWrite ''PING''), c1)
      else
        (case readPubsubMessage (rd c1) of
           (Inl e, s) \<Rightarrow> (Inl (ErrRead ''PING'' e), c1\<lparr>rd := s\<rparr>)
         | (Inr m, s) \<Rightarrow> (Inr m, c1\<lparr>rd := s\<rparr>)))"

section \<open>SENTINEL FAILOVER\<close>

datatype failoverResult = FailoverOK | ErrFailoverInProgress | FailoverFailed connErr

text \<open>
  The text of a server error is its body after \<^verbatim>\<open>server: \<close>; the other errors of the reader start
  with other words, so the prefix test of the source looks at the body of a server error only.
\<close>

fun isInProg :: "readErr \<Rightarrow> bool" where
  "isInProg (ErrServer body) = HasPrefix body ''INPROG''"
| "isInProg _ = False"

definition FailoverOne :: "bool \<Rightarrow> conn \<Rightarrow> string \<Rightarrow> string \<Rightarrow> failoverResult \<times> conn" where
  "FailoverOne dialOK c masterName password =
     (if masterName = [] then (FailoverFailed ErrNoMasterName, c)
      else if \<not> dialOK then (FailoverFailed ErrDial, c)
      else
        (case authIfNeeded c password of
           (Some e, c1) \<Rightarrow> (FailoverFailed e, c1)
         | (None, c1) \<Rightarrow>
             (let (ok, c2) = WriteString c1 (EncodeCommand [''SENTINEL'', ''FAILOVER'', masterName]) in
              if \<not> ok then (FailoverFailed (ErrWrite ''SENTINEL FAILOVER''), c2)
              else
                (case connRead c2 of
                   (Inl e, c3) \<Rightarrow>
                     (if isInProg e then ErrFailoverInProgress
                      else FailoverFailed (ErrRead ''SENTINEL FAILOVER'' e), c3)
                 | (Inr r, c3) \<Rightarrow>
                     (if r = RStr ''OK'' then FailoverOK else FailoverFailed (ErrUnexpected r), c3)))))"

section \<open>The encoding of replies\<close>

text \<open>
  The RESP-2 encoding of a reply, strings as bulk strings, as a peer sends it; on arrays of strings
  it is \<^verbatim>\<open>EncodeCommand\<close>.
\<close>

fun encodeReply :: "reply \<Rightarrow> string" where
  "encodeReply (RStr a) = encodeArg a"
| "encodeReply (RInt n) = '':'' @ itoa n @ CRLF"
| "encodeReply (RArr rs) = ''*'' @ itoa (int (length rs)) @ CRLF @ concat (map encodeReply rs)"

fun wf_reply :: "reply \<Rightarrow> bool" where
  "wf_reply (RStr a) \<longleftrightarrow> int (length a) \<le> MaxBulkSize"
| "wf_reply (RInt n) \<longleftrightarrow> in_duration n"
| "wf_reply (RArr rs) \<longleftrightarrow> in_duration (int (length rs)) \<and> list_all wf_reply rs"

fun reply_depth :: "reply \<Rightarrow> nat" where
  "reply_depth (RArr rs) = Suc (foldr (\<lambda>r d. max (reply_depth r) d) rs 0)"
| "reply_depth _ = 1"

section \<open>Lemmas\<close>

lemma ReadLine_append:
  "CHR 0x0A \<notin> set l \<Longrightarrow> ReadLine (l @ CHR 0x0A # r) = Some (l @ [CHR 0x0A], r)"
  by (induction l) auto

lemma ReadLine_length: "ReadLine s = Some (l, r) \<Longrightarrow> length r < length s"
  by (induction s arbitrary: l) (auto split: if_splits option.splits)

declare ReadLine.simps(2) [simp del]

lemma length_CRLF [simp]: "length CRLF = 2"
  by (simp add: CRLF_def)

lemma header_line:
  assumes "\<forall>c \<in> set h. c \<noteq> CHR 0x0A \<and> c \<noteq> CHR 0x0D" and "h \<noteq> []"
  shows "ReadLine (h @ CRLF @ r) = Some (h @ CRLF, r)" and "TrimRightCRLF (h @ CRLF) = h"
proof -
  have "ReadLine ((h @ [CHR 0x0D]) @ CHR 0x0A # r) = Some ((h @ [CHR 0x0D]) @ [CHR 0x0A], r)"
    using assms(1) by (intro ReadLine_append) auto
  then show "ReadLine (h @ CRLF @ r) = Some (h @ CRLF, r)" by (simp add: CRLF_def)
  have "rev h \<noteq> []" "hd (rev h) \<in> set h" using assms(2) by (auto simp: hd_rev)
  then have "dropWhile (\<lambda>c. c = CHR 0x0D \<or> c = CHR 0x0A) (rev h) = rev h"
    using assms(1) by (cases "rev h") auto
  then show "TrimRightCRLF (h @ CRLF) = h" by (simp add: TrimRightCRLF_def CRLF_def)
qed

lemma itoa_no_newline: "c \<in> set (itoa n) \<Longrightarrow> c \<noteq> CHR 0x0A \<and> c \<noteq> CHR 0x0D"
  using digits_of_nat_all_digits[of c]
  by (fastforce simp: itoa_def is_digit_def split: if_splits)

lemma number_header:
  assumes "p \<noteq> CHR 0x0A" "p \<noteq> CHR 0x0D"
  shows "ReadLine (p # itoa n @ CRLF @ r) = Some (p # itoa n @ CRLF, r)"
    and "TrimRightCRLF (p # itoa n @ CRLF) = p # itoa n"
proof -
  have h: "\<forall>c \<in> set (p # itoa n). c \<noteq> CHR 0x0A \<and> c \<noteq> CHR 0x0D"
    using assms itoa_no_newline by auto
  from header_line(1)[OF h, of r] show "ReadLine (p # itoa n @ CRLF @ r) = Some (p # itoa n @ CRLF, r)"
    by simp
  from header_line(2)[OF h] show "TrimRightCRLF (p # itoa n @ CRLF) = p # itoa n" by simp
qed

lemma small_in_duration: "0 \<le> n \<Longrightarrow> n \<le> MaxBulkSize \<Longrightarrow> in_duration n"
  by (simp add: MaxBulkSize_def in_duration_def minDuration_def maxDuration_def)

lemma read_arg:
  assumes "int (length a) \<le> MaxBulkSize"
  shows "readReply_fuel (Suc d) (encodeArg a @ r) = (Inr (RStr a), r)"
proof -
  have "atoi (itoa (int (length a))) = Some (int (length a))"
    using assms by (intro atoi_itoa small_in_duration) simp_all
  then show ?thesis
    using assms by (simp add: encodeArg_def number_header readBulk_def readAfterHeader_def)
qed

lemma read_elems_encoded:
  assumes "\<And>x s. x \<in> set rs \<Longrightarrow> rdr (encodeReply x @ s) = (Inr x, s)"
  shows "readElems rdr i (length rs) (concat (map encodeReply rs) @ r) = (Inr rs, r)"
  using assms by (induction rs arbitrary: i) auto

lemma reply_depth_elem: "x \<in> set rs \<Longrightarrow> Suc (reply_depth x) \<le> reply_depth (RArr rs)"
  by (induction rs) auto

lemma read_encoded_fuel:
  "wf_reply x \<Longrightarrow> reply_depth x \<le> d \<Longrightarrow> readReply_fuel d (encodeReply x @ s) = (Inr x, s)"
proof (induction x arbitrary: d s)
  case (RStr a)
  then obtain d' where "d = Suc d'" by (cases d) auto
  with RStr show ?case by (simp add: read_arg del: readReply_fuel.simps)
next
  case (RInt n)
  then obtain d' where "d = Suc d'" by (cases d) auto
  with RInt show ?case by (simp add: number_header atoi_itoa readAfterHeader_def)
next
  case (RArr rs)
  then obtain d' where d: "d = Suc d'" by (cases d) auto
  have "readReply_fuel d' (encodeReply x @ s) = (Inr x, s)" if "x \<in> set rs" for x s
    using RArr.IH[OF that] RArr.prems reply_depth_elem[OF that] that d
    by (auto simp: list_all_iff)
  from read_elems_encoded[of rs "readReply_fuel d'" 0 s, OF this]
  show ?case using RArr.prems d by (simp add: number_header atoi_itoa readAfterHeader_def)
qed

lemma readElems_rest:
  assumes "\<And>s. length (snd (rdr s)) \<le> length s"
  shows "length (snd (readElems rdr i n s)) \<le> length s"
proof (induction n arbitrary: i s)
  case (Suc n)
  obtain res s' where r: "rdr s = (res, s')" by fastforce
  then have "length s' \<le> length s" using assms[of s] by simp
  with r Suc.IH[of "Suc i" s'] show ?case
    by (auto split: sum.splits prod.splits)
qed simp

lemma readAfterHeader_rest:
  assumes "\<And>s. length (snd (rdr s)) \<le> length s"
  shows "length (snd (readAfterHeader rdr line s)) \<le> length s"
  using readElems_rest[OF assms, of 0 _ s]
  by (auto simp: readAfterHeader_def readBulk_def split: list.splits option.splits prod.splits
      sum.splits if_splits) (metis snd_conv)+

lemma readReply_rest: "length (snd (readReply_fuel d s)) \<le> length s"
proof (induction d arbitrary: s)
  case (Suc d)
  show ?case
  proof (cases "ReadLine s")
    case (Some p)
    then obtain l s' where l: "ReadLine s = Some (l, s')" by (cases p) auto
    then show ?thesis
      using ReadLine_length[OF l] readAfterHeader_rest[OF Suc.IH, of l s'] by simp
  qed simp
qed simp

lemma readElems_cong:
  assumes "\<And>t. length t \<le> length s \<Longrightarrow> rdr t = rdr' t" and "\<And>t. length (snd (rdr t)) \<le> length t"
  shows "readElems rdr i n s = readElems rdr' i n s"
  using assms(1)
proof (induction n arbitrary: i s)
  case (Suc n)
  obtain res s' where r: "rdr s = (res, s')" by fastforce
  then have "length s' \<le> length s" using assms(2)[of s] by simp
  then have "readElems rdr (Suc i) n s' = readElems rdr' (Suc i) n s'"
    using Suc.prems by (intro Suc.IH) simp
  moreover have "rdr' s = (res, s')" using r Suc.prems[of s] by simp
  ultimately show ?case using r by (cases res) simp_all
qed simp

lemma readAfterHeader_cong:
  assumes "\<And>t. length t \<le> length s \<Longrightarrow> rdr t = rdr' t" and "\<And>t. length (snd (rdr t)) \<le> length t"
  shows "readAfterHeader rdr line s = readAfterHeader rdr' line s"
proof -
  have e: "readElems rdr 0 n s = readElems rdr' 0 n s" for n
    by (rule readElems_cong) (use assms in auto)
  show ?thesis unfolding readAfterHeader_def e ..
qed

lemma readReply_fuel_enough:
  "length s < d \<Longrightarrow> length s < d' \<Longrightarrow> readReply_fuel d s = readReply_fuel d' s"
proof (induction "length s" arbitrary: s d d' rule: less_induct)
  case less
  obtain e e' where d: "d = Suc e" "d' = Suc e'" using less.prems by (metis lessE)
  show ?case
  proof (cases "ReadLine s")
    case (Some p)
    then obtain l s' where l: "ReadLine s = Some (l, s')" by (cases p) auto
    note lt = ReadLine_length[OF l]
    have "readAfterHeader (readReply_fuel e) l s' = readAfterHeader (readReply_fuel e') l s'"
      by (rule readAfterHeader_cong) (use lt less.prems d in \<open>auto intro!: less.hyps simp: readReply_rest\<close>)
    with l d show ?thesis by simp
  qed (simp add: d)
qed

lemma readReply_eq: "length s < d \<Longrightarrow> readReply s = readReply_fuel d s"
  unfolding readReply_def by (rule readReply_fuel_enough) simp_all

text \<open>The reader as the recursive equation of the source.\<close>

lemma readReply_unfold:
  "readReply s =
     (case ReadLine s of
        None \<Rightarrow> (Inl ErrIO, [])
      | Some (line, s') \<Rightarrow> readAfterHeader readReply line s')"
proof (cases "ReadLine s")
  case (Some p)
  then obtain l s' where l: "ReadLine s = Some (l, s')" by (cases p) auto
  have "readAfterHeader (readReply_fuel (length s)) l s' = readAfterHeader readReply l s'"
    by (rule readAfterHeader_cong)
      (use ReadLine_length[OF l] in \<open>auto simp: readReply_rest readReply_eq[of _ "length s"]\<close>)
  with l show ?thesis by (simp add: readReply_def)
qed (simp add: readReply_def)

lemma encodeReply_length: "reply_depth x \<le> length (encodeReply x)"
proof (induction x)
  case (RArr rs)
  then have "foldr (\<lambda>r d. max (reply_depth r) d) rs 0 \<le> length (concat (map encodeReply rs))"
    by (induction rs) (auto intro: trans_le_add1 trans_le_add2)
  then show ?case by simp
qed (simp_all add: encodeArg_def)

lemma read_encoded: "wf_reply x \<Longrightarrow> readReply (encodeReply x @ s) = (Inr x, s)"
  unfolding readReply_def
  by (rule read_encoded_fuel) (use encodeReply_length[of x] in simp_all)

lemma EncodeCommand_reply: "EncodeCommand args = encodeReply (RArr (map RStr args))"
  by (simp add: EncodeCommand_def o_def)

lemma connRead_encoded:
  "wf_reply x \<Longrightarrow> rd c = encodeReply x @ s \<Longrightarrow> connRead c = (Inr x, c\<lparr>rd := s\<rparr>)"
  by (simp add: connRead_def read_encoded)

lemma WriteString_facts:
  "WriteString c s = (ok, c') \<Longrightarrow> rd c' = rd c \<and> (ok \<longrightarrow> sent c' = sent c @ s)"
  by (auto simp: WriteString_def split: list.splits if_splits)

lemma connRead_sent: "connRead c = (res, c') \<Longrightarrow> sent c' = sent c"
  by (auto simp: connRead_def split: prod.splits)

lemma authIfNeeded_sent:
  "authIfNeeded c pw = (None, c') \<Longrightarrow>
     sent c' = sent c @ (if pw = [] then [] else EncodeCommand [''AUTH'', pw])"
  by (auto simp: authIfNeeded_def dest!: WriteString_facts connRead_sent
      split: prod.splits if_splits sum.splits)

lemma FailoverOne_OK_sent:
  assumes "FailoverOne True c m pw = (FailoverOK, c')" and "m \<noteq> []"
  shows "sent c' = sent c @ (if pw = [] then [] else EncodeCommand [''AUTH'', pw]) @
    EncodeCommand [''SENTINEL'', ''FAILOVER'', m]"
proof -
  obtain r c1 where a: "authIfNeeded c pw = (r, c1)" by fastforce
  with assms have r: "r = None" by (cases r) (simp_all add: FailoverOne_def)
  obtain ok c2 where w: "WriteString c1 (EncodeCommand [''SENTINEL'', ''FAILOVER'', m]) = (ok, c2)"
    by fastforce
  with assms a r have ok: "ok" by (cases ok) (simp_all add: FailoverOne_def)
  obtain res c3 where cr: "connRead c2 = (res, c3)" by fastforce
  with assms a r w ok have "c' = c3" by (cases res) (simp_all add: FailoverOne_def)
  then show ?thesis
    using authIfNeeded_sent[of c pw c1] WriteString_facts[OF w] connRead_sent[OF cr] a r ok by simp
qed

lemma ReadLine_none: "CHR 0x0A \<notin> set p \<Longrightarrow> ReadLine p = None"
  by (induction p) (auto simp: ReadLine.simps)

lemma digit_prefix_error:
  assumes "is_digit c" and "\<forall>d \<in> set ds. is_digit d"
  shows "readReply (c # ds @ CRLF @ r) = (Inl (ErrPrefix c), r)"
proof -
  have h: "\<forall>d \<in> set (c # ds). d \<noteq> CHR 0x0A \<and> d \<noteq> CHR 0x0D"
    using assms by (auto simp: is_digit_def)
  have "c \<notin> {CHR ''+'', CHR ''-'', CHR '':'', CHR ''$'', CHR ''*''}"
    using assms(1) by (auto simp: is_digit_def)
  then show ?thesis
    using header_line(1)[OF h, of r] header_line(2)[OF h]
    by (simp add: readReply_unfold readAfterHeader_def)
qed

lemma newline_header_error:
  "readReply (CRLF @ r) = (Inl ErrEmptyHeader, r)" "readReply (CHR 0x0A # r) = (Inl ErrEmptyHeader, r)"
  by (simp_all add: readReply_unfold readAfterHeader_def CRLF_def ReadLine.simps TrimRightCRLF_def)

text \<open>The three places a deadline can fall inside the header line of an array.\<close>

lemma cut_header_rest_error:
  assumes "\<forall>d \<in> set ds. is_digit d"
    and "CHR ''*'' # ds @ CRLF = p @ q" and "p \<noteq> []" and "q \<noteq> []"
  shows "\<exists>e. readReply (q @ r) = (Inl e, r)"
proof -
  from assms(2,3) obtain p' where p: "ds @ CRLF = p' @ q" by (cases p) auto
  then consider us where "ds = p' @ us" "q = us @ CRLF" | us where "CRLF = us @ q"
    by (metis append_eq_append_conv2)
  then show ?thesis
  proof cases
    case 1
    then show ?thesis
      using assms(1) digit_prefix_error[of "hd us" "tl us" r] newline_header_error(1)[of r]
      by (cases us) auto
  next
    case 2
    then have "q = CRLF \<or> q = [CHR 0x0A]"
      using assms(4) by (auto simp: CRLF_def Cons_eq_append_conv)
    then show ?thesis using newline_header_error[of r] by auto
  qed
qed

section \<open>Properties\<close>

text \<open>
  C23. The reader undoes the encoding. Every reply within the protocol's limits (bulk strings up to
  the cap, 64-bit integers, any nesting of arrays), encoded and followed by any bytes, is read back
  as itself and the following bytes are left in the reader; a command the operator encodes is read
  back as the array of its arguments. The recursion depth of the model is never the reason of an
  outcome: any larger depth gives the same result.
\<close>

theorem readReply_roundtrip:
  assumes "wf_reply x" and "list_all (\<lambda>a. int (length a) \<le> MaxBulkSize) args"
    and "in_duration (int (length args))"
  shows "readReply (encodeReply x @ s) = (Inr x, s) \<and>
    readReply (EncodeCommand args @ s) = (Inr (RArr (map RStr args)), s) \<and>
    (\<forall>d t. length t < d \<longrightarrow> readReply_fuel d t = readReply t)"
  using assms read_encoded[of x s] read_encoded[of "RArr (map RStr args)" s]
    readReply_eq
  by (auto simp: EncodeCommand_reply list_all_iff)

theorem readReply_roundtrip_witness:
  "readReply (encodeReply (RArr [RStr ''flags'', RArr [RInt (- 5)]]) @ ''+OK'') =
     (Inr (RArr [RStr ''flags'', RArr [RInt (- 5)]]), ''+OK'') \<and>
   readReply (EncodeCommand [''SENTINEL'', ''CKQUORUM'', ''velkir'']) =
     (Inr (RArr [RStr ''SENTINEL'', RStr ''CKQUORUM'', RStr ''velkir'']), [])"
  using readReply_roundtrip[of "RArr [RStr ''flags'', RArr [RInt (- 5)]]"
      "[''SENTINEL'', ''CKQUORUM'', ''velkir'']" "''+OK''"]
    readReply_roundtrip[of "RInt 0" "[''SENTINEL'', ''CKQUORUM'', ''velkir'']" "[]"]
  by (simp add: MaxBulkSize_def in_duration_def minDuration_def maxDuration_def)

text \<open>
  A failover counts as requested only when it was. \<^verbatim>\<open>FailoverOne\<close> reports success exactly on a
  dialled connection with a named master, after writing the AUTH command (when there is a password)
  and the SENTINEL FAILOVER command for that master, nothing else, and nothing is written when the
  dial fails or the name is empty.
\<close>

theorem failover_sends_exactly:
  "(FailoverOne dialOK c m pw = (FailoverOK, c') \<longrightarrow>
      dialOK \<and> m \<noteq> [] \<and>
      sent c' = sent c @ (if pw = [] then [] else EncodeCommand [''AUTH'', pw]) @
        EncodeCommand [''SENTINEL'', ''FAILOVER'', m]) \<and>
   (FailoverOne dialOK c m pw = (r, c') \<and> (\<not> dialOK \<or> m = []) \<longrightarrow>
      r \<noteq> FailoverOK \<and> sent c' = sent c)"
proof (cases "dialOK \<and> m \<noteq> []")
  case False
  then show ?thesis by (auto simp: FailoverOne_def split: if_splits)
next
  case True
  then show ?thesis using FailoverOne_OK_sent[of c m pw c'] by simp
qed

theorem failover_sends_exactly_witness:
  "fst (FailoverOne True \<lparr>rd = ''+OK'' @ CRLF @ ''+OK'' @ CRLF, sent = [], writesOK = []\<rparr> ''m'' ''pw'') =
     FailoverOK \<and>
   sent (snd (FailoverOne True \<lparr>rd = ''+OK'' @ CRLF @ ''+OK'' @ CRLF, sent = [], writesOK = []\<rparr> ''m'' ''pw'')) =
     EncodeCommand [''AUTH'', ''pw''] @ EncodeCommand [''SENTINEL'', ''FAILOVER'', ''m'']"
proof -
  let ?c = "\<lparr>rd = ''+OK'' @ CRLF @ ''+OK'' @ CRLF, sent = [], writesOK = []\<rparr>"
  have f: "fst (FailoverOne True ?c ''m'' ''pw'') = FailoverOK"
    by (simp add: FailoverOne_def authIfNeeded_def WriteString_def connRead_def readReply_unfold
        readAfterHeader_def ReadLine.simps TrimRightCRLF_def CRLF_def)
  then have "FailoverOne True ?c ''m'' ''pw'' = (FailoverOK, snd (FailoverOne True ?c ''m'' ''pw''))"
    by (metis prod.collapse)
  with failover_sends_exactly[of True ?c "''m''" "''pw''" "snd (FailoverOne True ?c ''m'' ''pw'')"] f
  show ?thesis by simp
qed

text \<open>
  A read deadline inside a frame loses the frame. When the pub/sub read times out after a part
  of an array's header line has arrived, the reader has consumed that part, and the bytes that
  follow are no longer the frame: whatever the frame is, the next read ends in an error, although
  the same bytes read in one piece give the frame.
\<close>

theorem deadline_inside_frame:
  assumes "wf_reply (RArr rs)" and "encodeReply (RArr rs) = p @ q"
    and "p \<noteq> []" and "CHR 0x0A \<notin> set p"
  shows "readReply (p @ q) = (Inr (RArr rs), []) \<and> readReply p = (Inl ErrIO, []) \<and>
    (\<exists>e s. readReply q = (Inl e, s))"
proof -
  let ?h = "CHR ''*'' # itoa (int (length rs)) @ CRLF"
  let ?b = "concat (map encodeReply rs)"
  have digits: "\<forall>d \<in> set (itoa (int (length rs))). is_digit d"
    using digits_of_nat_all_digits by (auto simp: itoa_def)
  have eq: "?h @ ?b = p @ q" using assms(2) by simp
  have "CHR 0x0A \<in> set ?h" by (simp add: CRLF_def)
  then obtain us where us: "?h = p @ us" "us \<noteq> []" "q = us @ ?b"
    using append_split_before[OF eq _ assms(4)] by blast
  from cut_header_rest_error[OF digits us(1) assms(3) us(2), of ?b]
  obtain e where "readReply q = (Inl e, ?b)" using us(3) by auto
  moreover have "readReply p = (Inl ErrIO, [])"
    using ReadLine_none[OF assms(4)] by (simp add: readReply_unfold)
  ultimately show ?thesis using read_encoded[OF assms(1), of "[]"] assms(2) by simp
qed

theorem deadline_inside_frame_witness:
  "readReply ''*'' = (Inl ErrIO, []) \<and> (\<exists>e s. readReply (''1'' @ CRLF @ encodeArg ''pong'') = (Inl e, s))"
  using deadline_inside_frame[of "[RStr ''pong'']" "''*''" "''1'' @ CRLF @ encodeArg ''pong''"]
  by (simp add: MaxBulkSize_def in_duration_def window_consts itoa_def digits_of_nat.simps)

end
