(* ===== verification/Sentinel_Parse.thy ===== *)
theory Sentinel_Parse
  imports RESP_Wire
begin

text \<open>
  \<^verbatim>\<open>internal/sentinel/parse.go\<close> and the parsers of \<^verbatim>\<open>peers.go\<close> and \<^verbatim>\<open>surgery_guard.go\<close>: pub/sub payloads and
  the replies of the SENTINEL commands. The flat key/value scan the field parsers share is \<open>kv_scan\<close>.

  The contract of a field parser is the locale \<open>field_parser\<close>: it finds the first pair with its key
  and decodes its value, whatever fields stand before and after; every field parser interprets it.
\<close>

section \<open>Pub/sub payloads\<close>

datatype EventKind =
    KindSwitchMaster | KindFailoverEnd | KindFailoverEndTimeout | KindODown | KindODownClear
  | KindTilt | KindTiltClear | KindOther

definition ParseEventKind :: "string \<Rightarrow> EventKind" where
  "ParseEventKind channel =
     (if channel = ''+switch-master'' then KindSwitchMaster
      else if channel = ''+failover-end'' then KindFailoverEnd
      else if channel = ''+failover-end-for-timeout'' then KindFailoverEndTimeout
      else if channel = ''+odown'' then KindODown
      else if channel = ''-odown'' then KindODownClear
      else if channel = ''+tilt'' then KindTilt
      else if channel = ''-tilt'' then KindTiltClear
      else KindOther)"

record SwitchMasterEvent =
  SMMasterName :: string
  OldAddr :: string
  NewAddr :: string

record MasterEvent =
  MEMasterName :: string
  MEAddr :: string

definition ParseSwitchMaster :: "string \<Rightarrow> SwitchMasterEvent option" where
  "ParseSwitchMaster payload =
     (let fields = Fields payload in
      if length fields < 5 then None
      else
        (case atoi (fields ! 2) of
           None \<Rightarrow> None
         | Some oldPort \<Rightarrow>
             if oldPort \<le> 0 then None
             else
               (case atoi (fields ! 4) of
                  None \<Rightarrow> None
                | Some newPort \<Rightarrow>
                    if newPort \<le> 0 then None
                    else
                      Some \<lparr>SMMasterName = fields ! 0,
                            OldAddr = JoinHostPort (fields ! 1) (itoa oldPort),
                            NewAddr = JoinHostPort (fields ! 3) (itoa newPort)\<rparr>)))"

definition ParseMasterEvent :: "string \<Rightarrow> MasterEvent option" where
  "ParseMasterEvent payload =
     (let fields = Fields payload in
      if length fields < 4 \<or> fields ! 0 \<noteq> ''master'' then None
      else
        (case atoi (fields ! 3) of
           None \<Rightarrow> None
         | Some port \<Rightarrow>
             if port \<le> 0 then None
             else
               Some \<lparr>MEMasterName = fields ! 1,
                     MEAddr = JoinHostPort (fields ! 2) (itoa port)\<rparr>))"

section \<open>Replies\<close>

definition ParseGetMasterAddr :: "reply \<Rightarrow> string \<times> bool" where
  "ParseGetMasterAddr r =
     (case r of
        RArr (RStr host # RStr portStr # _) \<Rightarrow>
          if host = [] then ([], False)
          else if atoi portStr = None then ([], False)
          else (JoinHostPort host portStr, True)
      | _ \<Rightarrow> ([], False))"

text \<open>The loop over the pairs of a flat array: the value of the first pair with the key.\<close>

fun kv_scan :: "string \<Rightarrow> reply list \<Rightarrow> reply option" where
  "kv_scan key (k # v # rest) = (if as_string k = key then Some v else kv_scan key rest)"
| "kv_scan key _ = None"

definition scan_reply :: "string \<Rightarrow> reply \<Rightarrow> reply option" where
  "scan_reply key r = (case r of RArr arr \<Rightarrow> kv_scan key arr | _ \<Rightarrow> None)"

definition ParseSentinelMasterEpoch :: "reply \<Rightarrow> int \<times> bool" where
  "ParseSentinelMasterEpoch r =
     (case scan_reply ''config-epoch'' r of
        None \<Rightarrow> (0, False)
      | Some v \<Rightarrow> (case atoi (as_string v) of None \<Rightarrow> (0, False) | Some n \<Rightarrow> (n, True)))"

definition flagsField :: string where
  "flagsField = ''flags''"

record MasterFlags =
  SDown :: bool
  MFODown :: bool

fun masterReplyFlags_scan :: "reply list \<Rightarrow> string \<times> bool" where
  "masterReplyFlags_scan (k # v # rest) =
     (if k = RStr flagsField then (case v of RStr s \<Rightarrow> (s, True) | _ \<Rightarrow> ([], False))
      else masterReplyFlags_scan rest)"
| "masterReplyFlags_scan _ = ([], False)"

definition masterReplyFlags :: "reply \<Rightarrow> string \<times> bool" where
  "masterReplyFlags r = (case r of RArr arr \<Rightarrow> masterReplyFlags_scan arr | _ \<Rightarrow> ([], False))"

definition ParseSentinelMasterFlags :: "reply \<Rightarrow> MasterFlags option" where
  "ParseSentinelMasterFlags r =
     (let (v, ok) = masterReplyFlags r in
      if \<not> ok then None
      else
        Some (fold (\<lambda>tok f. if tok = ''s_down'' then f\<lparr>SDown := True\<rparr>
                            else if tok = ''o_down'' then f\<lparr>MFODown := True\<rparr> else f)
                (Split v CHR '','') \<lparr>SDown = False, MFODown = False\<rparr>))"

definition ParseSentinelMasterAuthPass :: "reply \<Rightarrow> string \<times> bool" where
  "ParseSentinelMasterAuthPass r =
     (case scan_reply ''auth-pass'' r of None \<Rightarrow> ([], False) | Some v \<Rightarrow> (as_string v, True))"

definition ParseSentinelMasterNumOtherSentinels :: "reply \<Rightarrow> int \<times> bool" where
  "ParseSentinelMasterNumOtherSentinels r =
     (case scan_reply ''num-other-sentinels'' r of
        None \<Rightarrow> (0, False)
      | Some v \<Rightarrow> (case atoi (as_string v) of None \<Rightarrow> (0, False) | Some n \<Rightarrow> (n, True)))"

definition ParseSentinelMasterNumSlaves :: "reply \<Rightarrow> int \<times> bool" where
  "ParseSentinelMasterNumSlaves r =
     (case scan_reply ''num-slaves'' r of
        None \<Rightarrow> (0, False)
      | Some v \<Rightarrow> (case atoi (as_string v) of None \<Rightarrow> (0, False) | Some n \<Rightarrow> (n, True)))"

text \<open>Replies never hold a Go error value, since the reader returns those as errors.\<close>

definition ParseCKQuorum :: "reply \<Rightarrow> bool" where
  "ParseCKQuorum r = (case r of RStr s \<Rightarrow> HasPrefix s ''OK '' \<or> s = ''OK'' | _ \<Rightarrow> False)"

definition flagsIndicateElection :: "string \<Rightarrow> bool" where
  "flagsIndicateElection flags \<longleftrightarrow>
     Contains flags ''failover_in_progress'' \<or> Contains flags ''o_down'' \<or> Contains flags ''s_down''"

section \<open>Peer and replica tables\<close>

record PeerInfo =
  PeerName :: string
  RunID :: string
  PeerIP :: string
  PeerPort :: int

record ReplicaInfo =
  ReplicaIP :: string
  ReplicaPort :: int
  ReplicaFlags :: string

text \<open>The key/value loops, over the pairs of one inner array.\<close>

fun peer_fields :: "reply list \<Rightarrow> PeerInfo \<Rightarrow> PeerInfo" where
  "peer_fields (k # v # rest) p =
     peer_fields rest
       (let key = as_string k; val = as_string v in
        if key = ''name'' then p\<lparr>PeerName := val\<rparr>
        else if key = ''runid'' then p\<lparr>RunID := val\<rparr>
        else if key = ''ip'' then p\<lparr>PeerIP := val\<rparr>
        else if key = ''port'' then
          (case atoi val of None \<Rightarrow> p | Some n \<Rightarrow> p\<lparr>PeerPort := n\<rparr>)
        else p)"
| "peer_fields _ p = p"

fun replica_fields :: "reply list \<Rightarrow> ReplicaInfo \<Rightarrow> ReplicaInfo" where
  "replica_fields (k # v # rest) r =
     replica_fields rest
       (let key = as_string k; val = as_string v in
        if key = ''ip'' then r\<lparr>ReplicaIP := val\<rparr>
        else if key = ''port'' then
          (case atoi val of None \<Rightarrow> r | Some n \<Rightarrow> r\<lparr>ReplicaPort := n\<rparr>)
        else if key = flagsField then r\<lparr>ReplicaFlags := val\<rparr>
        else r)"
| "replica_fields _ r = r"

definition parse_peer :: "reply \<Rightarrow> PeerInfo option" where
  "parse_peer item =
     (case item of
        RArr inner \<Rightarrow>
          (let p = peer_fields inner \<lparr>PeerName = [], RunID = [], PeerIP = [], PeerPort = 0\<rparr> in
           if RunID p = [] \<or> PeerIP p = [] \<or> PeerPort p \<le> 0 then None else Some p)
      | _ \<Rightarrow> None)"

definition ParseSentinelsReply :: "reply \<Rightarrow> PeerInfo list" where
  "ParseSentinelsReply r = (case r of RArr outer \<Rightarrow> List.map_filter parse_peer outer | _ \<Rightarrow> [])"

definition parse_replica :: "reply \<Rightarrow> ReplicaInfo option" where
  "parse_replica item =
     (case item of
        RArr inner \<Rightarrow>
          (let r = replica_fields inner \<lparr>ReplicaIP = [], ReplicaPort = 0, ReplicaFlags = []\<rparr> in
           if ReplicaIP r = [] then None else Some r)
      | _ \<Rightarrow> None)"

definition ParseReplicasReply :: "reply \<Rightarrow> ReplicaInfo list" where
  "ParseReplicasReply r = (case r of RArr outer \<Rightarrow> List.map_filter parse_replica outer | _ \<Rightarrow> [])"

section \<open>The contract of a field parser\<close>

text \<open>A flat reply listing the given fields.\<close>

definition fields_reply :: "(string \<times> string) list \<Rightarrow> reply" where
  "fields_reply kvs = RArr (concat (map (\<lambda>(k, v). [RStr k, RStr v]) kvs))"

locale field_parser =
  fixes parse :: "reply \<Rightarrow> 'a option" and key :: string and decode :: "string \<Rightarrow> 'a option"
  assumes key_nonempty: "key \<noteq> []"
    and parse_fields: "parse (fields_reply kvs) = Option.bind (map_of kvs key) decode"
    and parse_other: "\<And>s. parse (RStr s) = None" "\<And>n. parse (RInt n) = None"
begin

lemma parse_found:
  "key \<notin> fst ` set pre \<Longrightarrow> parse (fields_reply (pre @ (key, v) # post)) = decode v"
  by (simp add: parse_fields map_add_def map_of_eq_None_iff[THEN iffD2] split: option.splits)

lemma parse_missing: "key \<notin> fst ` set kvs \<Longrightarrow> parse (fields_reply kvs) = None"
  by (simp add: parse_fields map_of_eq_None_iff[THEN iffD2])

lemma parse_wire:
  assumes "wf_reply (fields_reply (pre @ (key, v) # post))" and "key \<notin> fst ` set pre"
  shows "\<exists>r. readReply (encodeReply (fields_reply (pre @ (key, v) # post)) @ s) = (Inr r, s) \<and>
    parse r = decode v"
  using read_encoded[OF assms(1), of s] parse_found[OF assms(2)] by blast

end

text \<open>A result with its flag as an option.\<close>

definition flagged :: "'a \<times> bool \<Rightarrow> 'a option" where
  "flagged p = (if snd p then Some (fst p) else None)"

lemma kv_scan_fields:
  "kv_scan key (concat (map (\<lambda>(k, v). [RStr k, RStr v]) kvs)) = map_option RStr (map_of kvs key)"
  by (induction kvs) auto

lemma scan_reply_fields: "scan_reply key (fields_reply kvs) = map_option RStr (map_of kvs key)"
  by (simp add: scan_reply_def fields_reply_def kv_scan_fields)

lemma scan_reply_scalar [simp]: "scan_reply key (RStr s) = None" "scan_reply key (RInt n) = None"
  by (simp_all add: scan_reply_def)

lemma flags_scan_fields:
  "masterReplyFlags_scan (concat (map (\<lambda>(k, v). [RStr k, RStr v]) kvs)) =
     (case map_of kvs flagsField of None \<Rightarrow> ([], False) | Some v \<Rightarrow> (v, True))"
  by (induction kvs) auto

interpretation epoch: field_parser "\<lambda>r. flagged (ParseSentinelMasterEpoch r)" "''config-epoch''" atoi
  by unfold_locales
    (auto simp: flagged_def ParseSentinelMasterEpoch_def scan_reply_fields
      split: option.splits)

interpretation auth_pass: field_parser "\<lambda>r. flagged (ParseSentinelMasterAuthPass r)" "''auth-pass''" Some
  by unfold_locales
    (auto simp: flagged_def ParseSentinelMasterAuthPass_def scan_reply_fields
      split: option.splits)

interpretation num_other: field_parser "\<lambda>r. flagged (ParseSentinelMasterNumOtherSentinels r)"
  "''num-other-sentinels''" atoi
  by unfold_locales
    (auto simp: flagged_def ParseSentinelMasterNumOtherSentinels_def scan_reply_fields
      split: option.splits)

interpretation num_slaves: field_parser "\<lambda>r. flagged (ParseSentinelMasterNumSlaves r)" "''num-slaves''" atoi
  by unfold_locales
    (auto simp: flagged_def ParseSentinelMasterNumSlaves_def scan_reply_fields
      split: option.splits)

interpretation flags_field: field_parser "\<lambda>r. flagged (masterReplyFlags r)" flagsField Some
  by unfold_locales
    (auto simp: flagged_def masterReplyFlags_def fields_reply_def flags_scan_fields flagsField_def
      split: option.splits)

section \<open>Lemmas\<close>

lemma kv_scan_odd: "even (length arr) \<Longrightarrow> kv_scan key (arr @ [x]) = kv_scan key arr"
  by (induction key arr rule: kv_scan.induct) auto

lemma flag_fold:
  "fold (\<lambda>tok f. if tok = ''s_down'' then f\<lparr>SDown := True\<rparr>
                 else if tok = ''o_down'' then f\<lparr>MFODown := True\<rparr> else f) toks f =
     \<lparr>SDown = (SDown f \<or> ''s_down'' \<in> set toks), MFODown = (MFODown f \<or> ''o_down'' \<in> set toks)\<rparr>"
  by (induction toks arbitrary: f) auto

lemma ParseSentinelMasterFlags_eq:
  "ParseSentinelMasterFlags r =
     map_option (\<lambda>v. \<lparr>SDown = (''s_down'' \<in> set (Split v CHR '','')),
                     MFODown = (''o_down'' \<in> set (Split v CHR '',''))\<rparr>)
       (flagged (masterReplyFlags r))"
  by (simp add: ParseSentinelMasterFlags_def flagged_def flag_fold split: prod.splits)

section \<open>Properties\<close>

text \<open>
  Every field parser of a SENTINEL MASTER reply reads its field off the wire. For any reply that
  lists key/value fields, in any order and with any other fields, decoding the bytes and parsing
  gives the value of the first occurrence of the field (an integer for the epoch and the two
  counts), and nothing when the field is missing or not a number.
\<close>

theorem master_fields_from_wire:
  assumes "wf_reply (fields_reply kvs)"
  shows "\<exists>r. readReply (encodeReply (fields_reply kvs) @ s) = (Inr r, s) \<and>
    flagged (ParseSentinelMasterEpoch r) = Option.bind (map_of kvs ''config-epoch'') atoi \<and>
    flagged (ParseSentinelMasterNumSlaves r) = Option.bind (map_of kvs ''num-slaves'') atoi \<and>
    flagged (ParseSentinelMasterNumOtherSentinels r) =
      Option.bind (map_of kvs ''num-other-sentinels'') atoi \<and>
    flagged (ParseSentinelMasterAuthPass r) = map_of kvs ''auth-pass'' \<and>
    flagged (masterReplyFlags r) = map_of kvs ''flags''"
  using read_encoded[OF assms, of s] epoch.parse_fields[of kvs] num_slaves.parse_fields[of kvs]
    num_other.parse_fields[of kvs] auth_pass.parse_fields[of kvs] flags_field.parse_fields[of kvs]
  by (intro exI[of _ "fields_reply kvs"]) (simp add: flagsField_def)

theorem master_fields_from_wire_witness:
  "\<exists>r. readReply (encodeReply (fields_reply [(''name'', ''m''), (''config-epoch'', ''42'')]) @ []) =
      (Inr r, []) \<and> flagged (ParseSentinelMasterEpoch r) = Some 42"
proof -
  have "wf_reply (fields_reply [(''name'', ''m''), (''config-epoch'', ''42'')])"
    by (simp add: fields_reply_def MaxBulkSize_def in_duration_def window_consts)
  from master_fields_from_wire[OF this, of "[]"] show ?thesis
    by (auto simp: parse_nat_def is_digit_def digit_val_def in_duration_def window_consts)
qed

text \<open>
  A trailing unpaired element is ignored. On an array of odd length the integer and password
  parsers answer exactly as on the array without its last element, so such a reply is accepted when
  it holds the field.
\<close>

theorem odd_length_reply_accepted:
  assumes "even (length arr)"
  shows "ParseSentinelMasterEpoch (RArr (arr @ [x])) = ParseSentinelMasterEpoch (RArr arr) \<and>
    ParseSentinelMasterNumSlaves (RArr (arr @ [x])) = ParseSentinelMasterNumSlaves (RArr arr) \<and>
    ParseSentinelMasterNumOtherSentinels (RArr (arr @ [x])) =
      ParseSentinelMasterNumOtherSentinels (RArr arr) \<and>
    ParseSentinelMasterAuthPass (RArr (arr @ [x])) = ParseSentinelMasterAuthPass (RArr arr)"
  using kv_scan_odd[OF assms]
  by (simp add: ParseSentinelMasterEpoch_def ParseSentinelMasterNumSlaves_def
      ParseSentinelMasterNumOtherSentinels_def ParseSentinelMasterAuthPass_def scan_reply_def)

theorem odd_length_reply_accepted_witness:
  "ParseSentinelMasterAuthPass (RArr [RStr ''auth-pass'', RStr ''pw'', RStr ''stray'']) = (''pw'', True)"
  using odd_length_reply_accepted[of "[RStr ''auth-pass'', RStr ''pw'']" "RStr ''stray''"]
  by (simp add: ParseSentinelMasterAuthPass_def scan_reply_def)

text \<open>
  Switch-master messages are read back. A payload with the master's name, the old and the new
  address as separate words, with ports in range, parses to that name and the two joined addresses;
  the payload of a master event likewise; and a payload with fewer words parses to nothing.
\<close>

theorem switch_master_roundtrip:
  assumes "list_all is_word [name, oldIP, newIP]" and "0 < oldPort" "0 < newPort"
    and "in_duration oldPort" "in_duration newPort" and "list_all is_word extra"
  shows "ParseSwitchMaster (Join ([name, oldIP, itoa oldPort, newIP, itoa newPort] @ extra) '' '') =
      Some \<lparr>SMMasterName = name, OldAddr = JoinHostPort oldIP (itoa oldPort),
            NewAddr = JoinHostPort newIP (itoa newPort)\<rparr> \<and>
    ParseMasterEvent (Join ([''master'', name, newIP, itoa newPort] @ extra) '' '') =
      Some \<lparr>MEMasterName = name, MEAddr = JoinHostPort newIP (itoa newPort)\<rparr> \<and>
    ParseSwitchMaster (Join [name, oldIP, itoa oldPort, newIP] '' '') = None"
proof -
  have w: "is_word (itoa oldPort)" "is_word (itoa newPort)" using assms(2,3) itoa_word by auto
  have m: "is_word ''master''" by (simp add: is_word_def is_space_def)
  have "Fields (Join ([name, oldIP, itoa oldPort, newIP, itoa newPort] @ extra) '' '') =
      [name, oldIP, itoa oldPort, newIP, itoa newPort] @ extra"
    using assms w by (intro Fields_Join) simp
  moreover have "Fields (Join ([''master'', name, newIP, itoa newPort] @ extra) '' '') =
      [''master'', name, newIP, itoa newPort] @ extra"
    using assms w m by (intro Fields_Join) simp
  moreover have "Fields (Join [name, oldIP, itoa oldPort, newIP] '' '') =
      [name, oldIP, itoa oldPort, newIP]"
    using assms w by (intro Fields_Join) simp
  ultimately show ?thesis
    using assms(2-5)
    by (simp add: ParseSwitchMaster_def ParseMasterEvent_def atoi_itoa Let_def
        del: Join.simps)
qed

theorem switch_master_roundtrip_witness:
  "ParseSwitchMaster (Join ([''m'', ''10.0.0.1'', itoa 6379, ''fd00::2'', itoa 6380] @ []) '' '') =
     Some \<lparr>SMMasterName = ''m'', OldAddr = JoinHostPort ''10.0.0.1'' (itoa 6379),
           NewAddr = JoinHostPort ''fd00::2'' (itoa 6380)\<rparr>"
  using switch_master_roundtrip[of "''m''" "''10.0.0.1''" "''fd00::2''" 6379 6380 "[]"]
  by (simp add: is_word_def is_space_def in_duration_def window_consts del: Join.simps)

text \<open>
  The surgery guard is at least as strict as the flag parser: whenever the flag parser reads an
  s_down or an o_down token from a reply, the election test on the flags of that reply holds.
\<close>

theorem election_guard_covers_flags:
  assumes "ParseSentinelMasterFlags r = Some f" and "SDown f \<or> MFODown f"
  shows "\<exists>v. masterReplyFlags r = (v, True) \<and> flagsIndicateElection v"
proof -
  obtain v where v: "masterReplyFlags r = (v, True)" and
    f: "f = \<lparr>SDown = (''s_down'' \<in> set (Split v CHR '','')), MFODown = (''o_down'' \<in> set (Split v CHR '',''))\<rparr>"
    using assms(1)
    by (auto simp: ParseSentinelMasterFlags_eq flagged_def prod_eq_iff split: if_splits)
  then show ?thesis
    using assms(2) Split_sublist[of _ v "CHR '',''"]
    by (auto simp: flagsIndicateElection_def Contains_iff)
qed

theorem election_guard_covers_flags_witness:
  "\<exists>v. masterReplyFlags (fields_reply [(''flags'', ''master,o_down'')]) = (v, True) \<and>
     flagsIndicateElection v"
  by (rule election_guard_covers_flags[of _ "\<lparr>SDown = False, MFODown = True\<rparr>"])
    (simp_all add: ParseSentinelMasterFlags_def masterReplyFlags_def fields_reply_def flagsField_def)

end
