(* ===== verification/Sentinel_Calls.thy ===== *)
theory Sentinel_Calls
  imports Sentinel_Parse
begin

text \<open>
  The one-shot SENTINEL commands of \<^verbatim>\<open>surgery_guard.go\<close>, \<^verbatim>\<open>peers.go\<close> and \<^verbatim>\<open>tuning.go\<close> of
  \<^verbatim>\<open>internal/sentinel\<close>. The network is a parameter: for every endpoint whether it can be dialled and
  the connection, with the bytes the peer will send. The fan-outs write one slot per endpoint and are
  read after all goroutines have finished, so they are maps over the endpoints.

  The lemmas characterise the two guards that run immediately before destructive surgery.
\<close>

type_synonym network = "Endpoint \<Rightarrow> bool \<times> conn"

section \<open>One command on a fresh connection\<close>

definition sentinelCall :: "bool \<times> conn \<Rightarrow> string \<Rightarrow> string \<Rightarrow> string list \<Rightarrow> connErr + reply" where
  "sentinelCall dc password label args =
     (if \<not> fst dc then Inl ErrDial
      else
        (case authIfNeeded (snd dc) password of
           (Some e, _) \<Rightarrow> Inl e
         | (None, c1) \<Rightarrow>
             (let (ok, c2) = WriteString c1 (EncodeCommand args) in
              if \<not> ok then Inl (ErrWrite label)
              else
                (case connRead c2 of
                   (Inl e, _) \<Rightarrow> Inl (ErrRead label e)
                 | (Inr r, _) \<Rightarrow> Inr r))))"

definition masterReachable :: "bool \<times> conn \<Rightarrow> string \<Rightarrow> connErr option" where
  "masterReachable dc password =
     (case sentinelCall dc password ''PING'' [''PING''] of
        Inl e \<Rightarrow> Some e
      | Inr r \<Rightarrow> if r = RStr ''PONG'' then None else Some (ErrUnexpected r))"

section \<open>Surgery guards\<close>

definition failoverInProgressOne :: "network \<Rightarrow> Endpoint \<Rightarrow> string \<Rightarrow> string \<Rightarrow> connErr + bool" where
  "failoverInProgressOne net ep masterName password =
     (case sentinelCall (net ep) password ''SENTINEL master'' [''SENTINEL'', ''master'', masterName] of
        Inl e \<Rightarrow> Inl e
      | Inr r \<Rightarrow>
          (let (flags, ok) = masterReplyFlags r in
           if \<not> ok then Inr False else Inr (Contains flags ''failover_in_progress'')))"

definition anyFailoverInProgress :: "network \<Rightarrow> Endpoint list \<Rightarrow> string \<Rightarrow> string \<Rightarrow> bool" where
  "anyFailoverInProgress net endpoints masterName password =
     list_ex (\<lambda>ep. failoverInProgressOne net ep masterName password = Inr True) endpoints"

definition masterFlagsOne ::
  "network \<Rightarrow> Endpoint \<Rightarrow> string \<Rightarrow> string \<Rightarrow> connErr + string \<times> bool" where
  "masterFlagsOne net ep masterName password =
     (case sentinelCall (net ep) password ''SENTINEL master'' [''SENTINEL'', ''master'', masterName] of
        Inl e \<Rightarrow> Inl e
      | Inr r \<Rightarrow> Inr (masterReplyFlags r))"

definition recheckElectionQuiet ::
  "network \<Rightarrow> Endpoint list \<Rightarrow> string \<Rightarrow> string \<Rightarrow> Endpoint list" where
  "recheckElectionQuiet net targets masterName password =
     filter (\<lambda>ep.
       case masterFlagsOne net ep masterName password of
         Inl e \<Rightarrow> False
       | Inr (flags, ok) \<Rightarrow> ok \<and> \<not> flagsIndicateElection flags) targets"

record cohortMasterRead =
  cmFlags :: string
  cmFlagsOK :: bool
  cmEpoch :: int
  cmEpochOK :: bool
  cmErr :: bool

definition masterFlagsEpochOne :: "network \<Rightarrow> Endpoint \<Rightarrow> string \<Rightarrow> string \<Rightarrow> cohortMasterRead" where
  "masterFlagsEpochOne net ep masterName password =
     (case sentinelCall (net ep) password ''SENTINEL master'' [''SENTINEL'', ''master'', masterName] of
        Inl e \<Rightarrow> \<lparr>cmFlags = [], cmFlagsOK = False, cmEpoch = 0, cmEpochOK = False, cmErr = True\<rparr>
      | Inr r \<Rightarrow>
          (let (flags, flagsOK) = masterReplyFlags r;
               (epoch, epochOK) = ParseSentinelMasterEpoch r
           in \<lparr>cmFlags = flags, cmFlagsOK = flagsOK, cmEpoch = epoch, cmEpochOK = epochOK,
               cmErr = False\<rparr>))"

fun cohort_loop :: "cohortMasterRead list \<Rightarrow> int \<Rightarrow> bool \<Rightarrow> int \<Rightarrow> bool" where
  "cohort_loop [] maxEpoch frontierKnown agreeEpoch \<longleftrightarrow> frontierKnown \<and> maxEpoch \<ge> agreeEpoch"
| "cohort_loop (r # rs) maxEpoch frontierKnown agreeEpoch \<longleftrightarrow>
     (if cmErr r \<or> \<not> cmFlagsOK r \<or> flagsIndicateElection (cmFlags r) then False
      else if cmEpochOK r \<and> (\<not> frontierKnown \<or> cmEpoch r > maxEpoch)
      then cohort_loop rs (cmEpoch r) True agreeEpoch
      else cohort_loop rs maxEpoch frontierKnown agreeEpoch)"

definition destinationCohortQuiet ::
  "network \<Rightarrow> Endpoint list \<Rightarrow> string \<Rightarrow> string \<Rightarrow> int \<Rightarrow> bool" where
  "destinationCohortQuiet net cohort masterName password agreeEpoch =
     (if cohort = [] then False
      else cohort_loop (map (\<lambda>ep. masterFlagsEpochOne net ep masterName password) cohort)
             0 False agreeEpoch)"

section \<open>Peer, replica and peer-count queries\<close>

definition sentinelsOne :: "network \<Rightarrow> Endpoint \<Rightarrow> string \<Rightarrow> string \<Rightarrow> connErr + PeerInfo list" where
  "sentinelsOne net ep masterName password =
     map_sum id ParseSentinelsReply
       (sentinelCall (net ep) password ''SENTINEL SENTINELS'' [''SENTINEL'', ''SENTINELS'', masterName])"

definition SentinelsAll ::
  "network \<Rightarrow> Endpoint list \<Rightarrow> string \<Rightarrow> string \<Rightarrow> (string \<times> (connErr + PeerInfo list)) list" where
  "SentinelsAll net endpoints masterName password =
     map (\<lambda>ep. (Name ep, sentinelsOne net ep masterName password)) endpoints"

definition replicasOne :: "network \<Rightarrow> Endpoint \<Rightarrow> string \<Rightarrow> string \<Rightarrow> connErr + ReplicaInfo list" where
  "replicasOne net ep masterName password =
     map_sum id ParseReplicasReply
       (sentinelCall (net ep) password ''SENTINEL REPLICAS'' [''SENTINEL'', ''REPLICAS'', masterName])"

definition ReplicasAll ::
  "network \<Rightarrow> Endpoint list \<Rightarrow> string \<Rightarrow> string \<Rightarrow> (string \<times> (connErr + ReplicaInfo list)) list" where
  "ReplicasAll net endpoints masterName password =
     map (\<lambda>ep. (Name ep, replicasOne net ep masterName password)) endpoints"

datatype peerCountErr = PeerCountWire connErr | PeerCountField

definition masterPeerCountOne :: "network \<Rightarrow> Endpoint \<Rightarrow> string \<Rightarrow> string \<Rightarrow> peerCountErr + int" where
  "masterPeerCountOne net ep masterName password =
     (case sentinelCall (net ep) password ''SENTINEL MASTER'' [''SENTINEL'', ''MASTER'', masterName] of
        Inl e \<Rightarrow> Inl (PeerCountWire e)
      | Inr r \<Rightarrow>
          (let (n, ok) = ParseSentinelMasterNumOtherSentinels r in
           if \<not> ok then Inl PeerCountField else Inr n))"

definition MasterPeerCountAll ::
  "network \<Rightarrow> Endpoint list \<Rightarrow> string \<Rightarrow> string \<Rightarrow> (string \<times> (peerCountErr + int)) list" where
  "MasterPeerCountAll net endpoints masterName password =
     map (\<lambda>ep. (Name ep, masterPeerCountOne net ep masterName password)) endpoints"

section \<open>Tuning\<close>

record MasterTuning =
  DownAfterMilliseconds :: int
  FailoverTimeout :: int
  ParallelSyncs :: int

definition tuningKVs :: "MasterTuning \<Rightarrow> (string \<times> string) list" where
  "tuningKVs t =
     (if DownAfterMilliseconds t > 0
      then [(''down-after-milliseconds'', itoa (DownAfterMilliseconds t))] else []) @
     (if FailoverTimeout t > 0 then [(''failover-timeout'', itoa (FailoverTimeout t))] else []) @
     (if ParallelSyncs t > 0 then [(''parallel-syncs'', itoa (ParallelSyncs t))] else [])"

definition writeAndExpectOK :: "conn \<Rightarrow> string list \<Rightarrow> connErr option \<times> conn" where
  "writeAndExpectOK c args =
     (let (ok, c1) = WriteString c (EncodeCommand args) in
      if \<not> ok then (Some (ErrWrite []), c1)
      else
        (case connRead c1 of
           (Inl e, c2) \<Rightarrow> (Some (ErrRead [] e), c2)
         | (Inr r, c2) \<Rightarrow> (if r = RStr ''OK'' then None else Some (ErrUnexpected r), c2)))"

fun setTuningLoop :: "conn \<Rightarrow> string \<Rightarrow> (string \<times> string) list \<Rightarrow> connErr option \<times> conn" where
  "setTuningLoop c masterName [] = (None, c)"
| "setTuningLoop c masterName ((field, v) # kvs) =
     (case writeAndExpectOK c [''SENTINEL'', ''SET'', masterName, field, v] of
        (Some e, c1) \<Rightarrow> (Some e, c1)
      | (None, c1) \<Rightarrow> setTuningLoop c1 masterName kvs)"

definition setTuningOne ::
  "bool \<times> conn \<Rightarrow> string \<Rightarrow> MasterTuning \<Rightarrow> string \<Rightarrow> connErr option \<times> conn" where
  "setTuningOne dc masterName t password =
     (if \<not> fst dc then (Some ErrDial, snd dc)
      else
        (case authIfNeeded (snd dc) password of
           (Some e, c1) \<Rightarrow> (Some e, c1)
         | (None, c1) \<Rightarrow> setTuningLoop c1 masterName (tuningKVs t)))"

definition SetMasterTuningAll ::
  "network \<Rightarrow> Endpoint list \<Rightarrow> string \<Rightarrow> MasterTuning \<Rightarrow> string \<Rightarrow> (string \<times> connErr option) list" where
  "SetMasterTuningAll net endpoints masterName t password =
     (if DownAfterMilliseconds t = 0 \<and> FailoverTimeout t = 0 \<and> ParallelSyncs t = 0 then []
      else map (\<lambda>ep. (Name ep, fst (setTuningOne (net ep) masterName t password))) endpoints)"

section \<open>Lemmas\<close>

definition read_quiet :: "cohortMasterRead \<Rightarrow> bool" where
  "read_quiet r \<longleftrightarrow> \<not> cmErr r \<and> cmFlagsOK r \<and> \<not> flagsIndicateElection (cmFlags r)"

lemma cohort_loop_iff:
  "cohort_loop rs m known a \<longleftrightarrow>
     list_all read_quiet rs \<and> (known \<and> m \<ge> a \<or> (\<exists>r \<in> set rs. cmEpochOK r \<and> cmEpoch r \<ge> a))"
  by (induction rs m known a rule: cohort_loop.induct) (auto simp: read_quiet_def)

lemma writeAndExpectOK_sent:
  "writeAndExpectOK c args = (None, c') \<Longrightarrow> sent c' = sent c @ EncodeCommand args"
  by (auto simp: writeAndExpectOK_def dest!: WriteString_facts connRead_sent
      split: prod.splits if_splits sum.splits)

lemma setTuningLoop_sent:
  "setTuningLoop c m kvs = (None, c') \<Longrightarrow>
     sent c' = sent c @ concat (map (\<lambda>(f, v). EncodeCommand [''SENTINEL'', ''SET'', m, f, v]) kvs)"
  by (induction c m kvs arbitrary: c' rule: setTuningLoop.induct)
    (auto dest!: writeAndExpectOK_sent split: prod.splits option.splits)

section \<open>Properties\<close>

text \<open>
  The pre-surgery re-checks fail safe. The destination cohort counts as quiet exactly when it is
  not empty, every member answered with a flags field that shows no election, and some member's
  readable config-epoch still reaches the one agreed at classification (the maximum-based test of
  the loop); the targets kept for surgery are exactly those that answered with a flags field showing
  no election, in their order.
\<close>

theorem surgery_rechecks:
  "(destinationCohortQuiet net cohort m pw agree \<longleftrightarrow>
      cohort \<noteq> [] \<and>
      (\<forall>ep \<in> set cohort. read_quiet (masterFlagsEpochOne net ep m pw)) \<and>
      (\<exists>ep \<in> set cohort. cmEpochOK (masterFlagsEpochOne net ep m pw) \<and>
         agree \<le> cmEpoch (masterFlagsEpochOne net ep m pw))) \<and>
   (ep \<in> set (recheckElectionQuiet net targets m pw) \<longleftrightarrow>
      ep \<in> set targets \<and>
      (\<exists>flags. masterFlagsOne net ep m pw = Inr (flags, True) \<and> \<not> flagsIndicateElection flags))"
  by (auto simp: destinationCohortQuiet_def cohort_loop_iff list_all_iff recheckElectionQuiet_def
      split: sum.splits)

definition peer_bytes :: string where
  "peer_bytes = encodeReply (fields_reply [(''flags'', ''master''), (''config-epoch'', ''7'')])"

theorem surgery_rechecks_witness:
  "destinationCohortQuiet (\<lambda>_. (True, \<lparr>rd = peer_bytes, sent = [], writesOK = []\<rparr>))
     [\<lparr>Name = ''s-0'', EpAddr = ''10.0.0.1:26379''\<rparr>] ''m'' [] 7"
proof -
  have w: "wf_reply (fields_reply [(''flags'', ''master''), (''config-epoch'', ''7'')])"
    by (simp add: fields_reply_def MaxBulkSize_def in_duration_def window_consts)
  have "masterFlagsEpochOne (\<lambda>_. (True, \<lparr>rd = peer_bytes, sent = [], writesOK = []\<rparr>)) ep ''m'' [] =
      \<lparr>cmFlags = ''master'', cmFlagsOK = True, cmEpoch = 7, cmEpochOK = True, cmErr = False\<rparr>" for ep
    using read_encoded[OF w, of "[]"]
    by (simp add: masterFlagsEpochOne_def sentinelCall_def authIfNeeded_def WriteString_def
        connRead_def peer_bytes_def masterReplyFlags_def fields_reply_def flagsField_def
        ParseSentinelMasterEpoch_def scan_reply_def parse_nat_def is_digit_def digit_val_def
        in_duration_def window_consts)
  then show ?thesis
    by (subst surgery_rechecks[THEN conjunct1])
      (simp add: read_quiet_def flagsIndicateElection_def HasPrefix_def)
qed

text \<open>
  Re-propagating the tuning sends what it reports. A successful \<^verbatim>\<open>setTuningOne\<close> has written the
  AUTH command (when there is a password) and then one SENTINEL SET for each positive field, in the
  order down-after, failover-timeout, parallel-syncs, and nothing else.
\<close>

theorem tuning_sends_exactly:
  assumes "setTuningOne dc m t pw = (None, c')"
  shows "fst dc \<and>
    sent c' = sent (snd dc) @ (if pw = [] then [] else EncodeCommand [''AUTH'', pw]) @
      concat (map (\<lambda>(f, v). EncodeCommand [''SENTINEL'', ''SET'', m, f, v]) (tuningKVs t))"
  using assms
  by (auto simp: setTuningOne_def dest!: authIfNeeded_sent setTuningLoop_sent
      split: if_splits prod.splits option.splits)

theorem tuning_sends_exactly_witness:
  "sent (snd (setTuningOne (True, \<lparr>rd = ''+OK'' @ CRLF, sent = [], writesOK = []\<rparr>) ''m''
       \<lparr>DownAfterMilliseconds = 0, FailoverTimeout = 0, ParallelSyncs = 2\<rparr> [])) =
     EncodeCommand [''SENTINEL'', ''SET'', ''m'', ''parallel-syncs'', itoa 2]"
proof -
  let ?dc = "(True, \<lparr>rd = ''+OK'' @ CRLF, sent = [], writesOK = []\<rparr>)"
  let ?t = "\<lparr>DownAfterMilliseconds = 0, FailoverTimeout = 0, ParallelSyncs = 2\<rparr>"
  have "fst (setTuningOne ?dc ''m'' ?t []) = None"
    by (simp add: setTuningOne_def tuningKVs_def writeAndExpectOK_def authIfNeeded_def WriteString_def
        connRead_def readReply_unfold readAfterHeader_def ReadLine.simps TrimRightCRLF_def CRLF_def)
  then have "setTuningOne ?dc ''m'' ?t [] = (None, snd (setTuningOne ?dc ''m'' ?t []))"
    by (metis prod.collapse)
  from tuning_sends_exactly[OF this] show ?thesis by (simp add: tuningKVs_def)
qed

end
