(* ===== verification/Sentinel_Observer.thy ===== *)
theory Sentinel_Observer
  imports Sentinel_Calls "HOL-Library.AList" "HOL-Library.Multiset"
begin

text \<open>
  \<^verbatim>\<open>internal/sentinel/observer.go\<close>: the per-CR observer that merges pub/sub frames and the pull tick
  into the published snapshot. Its mutex-guarded state is the record \<open>observer\<close>; \<open>dispatch\<close> and
  \<open>pollOnce\<close> are the two critical sections, with the values of \<^verbatim>\<open>time.Now()\<close> they read, the results of
  the endpoint queries and the iteration order of the vote map as arguments. The goroutines
  interleave whole critical sections, so a run of the observer is a sequence of these steps: the
  relation \<open>obs_reach\<close>, which also records the results of the last poll.

  The lemmas: the published address does not depend on the map order; a poll publishes OK exactly
  when one threshold-sized set of sentinels agrees on an address and on CKQUORUM; and the invariants
  of all reachable snapshots.
\<close>

section \<open>State\<close>

record EndpointObservation =
  EOName :: string
  EOPrimaryAddr :: string
  EOQuorumReachable :: bool
  EOReachable :: bool
  EOAt :: gotime
  EOKnownReplicas :: int
  EOKnownSentinels :: int
  EOCountsValid :: bool

definition DefaultPollInterval :: duration where
  "DefaultPollInterval = 10 * Second"

definition reconnectBackoffMin :: duration where
  "reconnectBackoffMin = 2 * Second"

definition reconnectBackoffMax :: duration where
  "reconnectBackoffMax = 60 * Second"

record Options =
  PollInterval :: duration
  PubsubReadDeadline :: duration
  PingTimeout :: duration
  AuthRetryAttempts :: int

definition withDefaults :: "Options \<Rightarrow> Options" where
  "withDefaults opt =
     \<lparr>PollInterval = (if PollInterval opt \<le> 0 then DefaultPollInterval else PollInterval opt),
      PubsubReadDeadline = (if PubsubReadDeadline opt \<le> 0 then 30 * Second else PubsubReadDeadline opt),
      PingTimeout = (if PingTimeout opt \<le> 0 then 5 * Second else PingTimeout opt),
      AuthRetryAttempts = (if AuthRetryAttempts opt \<le> 0 then 3 else AuthRetryAttempts opt)\<rparr>"

record observer =
  masterName :: string
  password :: string
  endpoints :: "Endpoint list"
  holder :: snapshotHolder
  odown :: "(string \<times> gotime) list"
  odownPull :: "(string \<times> gotime) list"
  endpointObs :: "EndpointObservation list option"
  notified :: nat

definition newObserver :: "string \<Rightarrow> string \<Rightarrow> Endpoint list \<Rightarrow> observer" where
  "newObserver m pw eps =
     \<lparr>masterName = m, password = pw, endpoints = eps, holder = None, odown = [], odownPull = [],
      endpointObs = None, notified = 0\<rparr>"

text \<open>\<^verbatim>\<open>start\<close>: the placeholder snapshot and the endpoints that get a subscription.\<close>

definition start :: "observer \<Rightarrow> gotime \<Rightarrow> observer" where
  "start ob now =
     ob\<lparr>holder := store (holder ob)
          (zeroObservedPrimary\<lparr>OPSource := SourceNone, Quorum := QuorumStatusUnknown,
             UpdatedAt := now\<rparr>)\<rparr>"

definition subTargets :: "observer \<Rightarrow> Endpoint list" where
  "subTargets ob = (if length (endpoints ob) > 2 then take 2 (endpoints ob) else endpoints ob)"

definition snapshot :: "observer \<Rightarrow> ObservedPrimary \<times> bool" where
  "snapshot ob = load (holder ob)"

text \<open>The reconnect pause after the next failure, and its reset on an established connection.\<close>

definition nextBackoff :: "duration \<Rightarrow> duration" where
  "nextBackoff b = (if b * 2 > reconnectBackoffMax then reconnectBackoffMax else b * 2)"

section \<open>Publishing\<close>

definition publishLocked ::
  "observer \<Rightarrow> QuorumStatus \<Rightarrow> string \<Rightarrow> int \<Rightarrow> Source \<Rightarrow> gotime \<Rightarrow> gotime \<Rightarrow> observer" where
  "publishLocked ob q addr epoch src lastPolledAt now =
     ob\<lparr>holder := store (holder ob)
          \<lparr>Addr = addr, Epoch = epoch, Quorum = q, OPQuorumOK = (q = QuorumStatusOK),
           UpdatedAt = now, LastPolledAt = lastPolledAt, OPSource = src,
           ODown = odown ob, ODownPull = odownPull ob\<rparr>\<rparr>"

definition notify :: "observer \<Rightarrow> observer" where
  "notify ob = ob\<lparr>notified := notified ob + 1\<rparr>"

record republishFields =
  rfQuorum :: QuorumStatus
  rfAddr :: string
  rfEpoch :: int
  rfSource :: Source
  rfLastPolledAt :: gotime

definition republish ::
  "observer \<Rightarrow> gotime \<Rightarrow> (observer \<Rightarrow> ObservedPrimary \<Rightarrow> observer \<times> republishFields option) \<Rightarrow> observer"
  where
  "republish ob now mutate =
     (let prev = fst (load (holder ob)) in
      case mutate ob prev of
        (_, None) \<Rightarrow> ob
      | (ob', Some f) \<Rightarrow>
          notify (publishLocked ob' (rfQuorum f) (rfAddr f) (rfEpoch f) (rfSource f)
            (rfLastPolledAt f) now))"

definition carry :: "ObservedPrimary \<Rightarrow> string \<Rightarrow> Source \<Rightarrow> republishFields" where
  "carry prev addr src =
     \<lparr>rfQuorum = Quorum prev, rfAddr = addr, rfEpoch = Epoch prev, rfSource = src,
      rfLastPolledAt = LastPolledAt prev\<rparr>"

section \<open>The pub/sub step\<close>

definition dispatch ::
  "gotime \<Rightarrow> gotime \<Rightarrow> Endpoint \<Rightarrow> pubsubMessage \<Rightarrow> observer \<Rightarrow> observer" where
  "dispatch tStamp tPub ep msg ob =
     (case ParseEventKind (Channel msg) of
        KindSwitchMaster \<Rightarrow>
          (case ParseSwitchMaster (Payload msg) of
             None \<Rightarrow> ob
           | Some ev \<Rightarrow>
               if SMMasterName ev \<noteq> masterName ob then ob
               else
                 republish ob tPub (\<lambda>ob' prev.
                   if Addr prev \<noteq> [] \<and> OldAddr ev \<noteq> Addr prev then (ob', None)
                   else (ob', Some (carry prev (NewAddr ev) SourcePubsub))))
      | KindODown \<Rightarrow>
          (case ParseMasterEvent (Payload msg) of
             None \<Rightarrow> ob
           | Some ev \<Rightarrow>
               if MEMasterName ev \<noteq> masterName ob then ob
               else
                 republish ob tPub (\<lambda>ob' prev.
                   (ob'\<lparr>odown := AList.update (Name ep) tStamp (odown ob')\<rparr>,
                    Some (carry prev (Addr prev) (OPSource prev)))))
      | KindODownClear \<Rightarrow>
          (case ParseMasterEvent (Payload msg) of
             None \<Rightarrow> ob
           | Some ev \<Rightarrow>
               if MEMasterName ev \<noteq> masterName ob then ob
               else
                 republish ob tPub (\<lambda>ob' prev.
                   (ob'\<lparr>odown := AList.delete (Name ep) (odown ob')\<rparr>,
                    Some (carry prev (Addr prev) (OPSource prev)))))
      | KindFailoverEnd \<Rightarrow>
          (case ParseMasterEvent (Payload msg) of
             None \<Rightarrow> ob
           | Some ev \<Rightarrow>
               if MEMasterName ev \<noteq> masterName ob then ob
               else republish ob tPub (\<lambda>ob' prev. (ob', Some (carry prev (MEAddr ev) SourcePubsub))))
      | KindFailoverEndTimeout \<Rightarrow>
          (case ParseMasterEvent (Payload msg) of
             None \<Rightarrow> ob
           | Some ev \<Rightarrow>
               if MEMasterName ev \<noteq> masterName ob then ob
               else republish ob tPub (\<lambda>ob' prev. (ob', Some (carry prev (MEAddr ev) SourcePubsub))))
      | KindTilt \<Rightarrow> ob
      | KindTiltClear \<Rightarrow> ob
      | KindOther \<Rightarrow> ob)"

section \<open>Querying one endpoint\<close>

record pollResult =
  rAddr :: string
  rEpoch :: int
  rQuorumOK :: bool
  rFlags :: "MasterFlags option"
  rKnownReplicas :: int
  rKnownSentinels :: int
  rCountsValid :: bool
  rErr :: bool

definition failedResult :: "string \<Rightarrow> int \<Rightarrow> pollResult" where
  "failedResult addr epoch =
     \<lparr>rAddr = addr, rEpoch = epoch, rQuorumOK = False, rFlags = None, rKnownReplicas = 0,
      rKnownSentinels = 0, rCountsValid = False, rErr = True\<rparr>"

definition queryOne :: "bool \<times> conn \<Rightarrow> string \<Rightarrow> string \<Rightarrow> pollResult" where
  "queryOne dc master pw =
     (if \<not> fst dc then failedResult [] 0
      else
        (case authIfNeeded (snd dc) pw of
           (Some _, _) \<Rightarrow> failedResult [] 0
         | (None, c1) \<Rightarrow>
             (let (ok1, c2) = WriteString c1
                    (EncodeCommand [''SENTINEL'', ''GET-MASTER-ADDR-BY-NAME'', master]) in
              if \<not> ok1 then failedResult [] 0
              else
                (case connRead c2 of
                   (Inl _, _) \<Rightarrow> failedResult [] 0
                 | (Inr addrReply, c3) \<Rightarrow>
                     (let addr = fst (ParseGetMasterAddr addrReply);
                          (ok2, c4) = WriteString c3 (EncodeCommand [''SENTINEL'', ''MASTER'', master]) in
                      if \<not> ok2 then failedResult addr 0
                      else
                        (let (mres, c5) = connRead c4;
                             (epoch, flags, nS, nO, valid) =
                               (case mres of
                                  Inl _ \<Rightarrow> (0, None, 0, 0, False)
                                | Inr m \<Rightarrow>
                                    (fst (ParseSentinelMasterEpoch m),
                                     ParseSentinelMasterFlags m,
                                     fst (ParseSentinelMasterNumSlaves m),
                                     fst (ParseSentinelMasterNumOtherSentinels m),
                                     snd (ParseSentinelMasterNumSlaves m) \<and>
                                     snd (ParseSentinelMasterNumOtherSentinels m)));
                             (ok3, c6) = WriteString c5 (EncodeCommand [''SENTINEL'', ''CKQUORUM'', master]) in
                         if \<not> ok3 then failedResult addr epoch
                         else
                           (let qOK = (case connRead c6 of
                                         (Inl _, _) \<Rightarrow> False
                                       | (Inr q, _) \<Rightarrow> ParseCKQuorum q) in
                            \<lparr>rAddr = addr, rEpoch = epoch, rQuorumOK = qOK, rFlags = flags,
                             rKnownReplicas = nS, rKnownSentinels = nO, rCountsValid = valid,
                             rErr = False\<rparr>)))))))"

section \<open>The pull tick\<close>

definition QuorumThreshold :: "nat \<Rightarrow> nat" where
  "QuorumThreshold n = (if n \<le> 2 then n else n div 2 + 1)"

definition breakAddrTie :: "string \<Rightarrow> string \<Rightarrow> string \<Rightarrow> string" where
  "breakAddrTie x y incumbent =
     (if x = incumbent then x else if y = incumbent then y else if x < y then x else y)"

fun pick_winner :: "string \<Rightarrow> string \<times> nat \<Rightarrow> (string \<times> nat) list \<Rightarrow> string \<times> nat" where
  "pick_winner prevAddr w [] = w"
| "pick_winner prevAddr (winner, winnerVotes) ((a, n) # rest) =
     pick_winner prevAddr
       (if n > winnerVotes then (a, n)
        else if n = winnerVotes then (breakAddrTie winner a prevAddr, winnerVotes)
        else (winner, winnerVotes)) rest"

fun reconcileODownPull ::
  "(string \<times> gotime) list \<Rightarrow> (string \<times> MasterFlags option) list \<Rightarrow> gotime \<Rightarrow> (string \<times> gotime) list"
  where
  "reconcileODownPull m [] now = m"
| "reconcileODownPull m ((name, flags) # obs) now =
     reconcileODownPull
       (case flags of
          None \<Rightarrow> m
        | Some f \<Rightarrow>
            if MFODown f then (if map_of m name = None then AList.update name now m else m)
            else AList.delete name m) obs now"

record tally =
  addrCount :: "(string \<times> nat) list"
  addrQuorumCount :: "(string \<times> nat) list"
  reachable :: nat
  maxEpoch :: int

definition tally_step :: "pollResult \<Rightarrow> tally \<Rightarrow> tally" where
  "tally_step r t =
     (if rErr r then t
      else
        t\<lparr>reachable := reachable t + 1,
          addrCount := (if rAddr r \<noteq> [] then incr (rAddr r) (addrCount t) else addrCount t),
          addrQuorumCount :=
            (if rAddr r \<noteq> [] \<and> rQuorumOK r then incr (rAddr r) (addrQuorumCount t)
             else addrQuorumCount t),
          maxEpoch := (if rEpoch r > maxEpoch t then rEpoch r else maxEpoch t)\<rparr>)"

definition tally_all :: "pollResult list \<Rightarrow> tally" where
  "tally_all rs =
     fold tally_step rs \<lparr>addrCount = [], addrQuorumCount = [], reachable = 0, maxEpoch = 0\<rparr>"

definition observe_endpoint :: "gotime \<Rightarrow> Endpoint \<times> pollResult \<Rightarrow> EndpointObservation" where
  "observe_endpoint now er =
     (let r = snd er in
      \<lparr>EOName = Name (fst er), EOPrimaryAddr = rAddr r, EOQuorumReachable = rQuorumOK r,
       EOReachable = (\<not> rErr r), EOAt = now, EOKnownReplicas = rKnownReplicas r,
       EOKnownSentinels = rKnownSentinels r, EOCountsValid = rCountsValid r\<rparr>)"

definition odownObs :: "Endpoint list \<Rightarrow> pollResult list \<Rightarrow> (string \<times> MasterFlags option) list" where
  "odownObs eps results =
     map (\<lambda>(ep, r). (Name ep, if rErr r then None else rFlags r)) (zip eps results)"

text \<open>
  The times: \<open>now\<close> stamps the endpoint observations and new pull-side entries, \<open>tPolled\<close> is the poll
  stamp of the snapshot, \<open>tPub\<close> its update time.
\<close>

definition pollOnce ::
  "((string \<times> nat) list \<Rightarrow> (string \<times> nat) list) \<Rightarrow> gotime \<Rightarrow> gotime \<Rightarrow> gotime \<Rightarrow> pollResult list \<Rightarrow>
   observer \<Rightarrow> observer" where
  "pollOnce order now tPolled tPub results ob =
     (let ob1 = ob\<lparr>endpointObs := Some (map (observe_endpoint now) (zip (endpoints ob) results))\<rparr>;
          t = tally_all results;
          threshold = QuorumThreshold (length (endpoints ob));
          ob2 = ob1\<lparr>odownPull := reconcileODownPull (odownPull ob1) (odownObs (endpoints ob) results) now\<rparr>;
          prev = fst (load (holder ob2));
          epoch = max (Epoch prev) (maxEpoch t)
      in if reachable t < threshold
         then publishLocked ob2 QuorumStatusUnknown (Addr prev) epoch SourcePoll tPolled tPub
         else
           (let winner = fst (pick_winner (Addr prev) ([], 0) (order (addrCount t)));
                quorumOK = (count_of (addrQuorumCount t) winner \<ge> threshold);
                status = (if quorumOK then QuorumStatusOK else QuorumStatusLost);
                src = (if Addr prev \<noteq> [] \<and> Addr prev = winner then SourceMerge else SourcePoll);
                addr = (if \<not> quorumOK then Addr prev else winner)
            in publishLocked ob2 status addr epoch src tPolled tPub))"

section \<open>Runs\<close>

inductive obs_reach :: "string \<Rightarrow> string \<Rightarrow> Endpoint list \<Rightarrow> observer \<Rightarrow> pollResult list option \<Rightarrow> bool"
  for m pw eps where
  reach_start: "obs_reach m pw eps (start (newObserver m pw eps) now) None"
| reach_dispatch:
    "obs_reach m pw eps ob lp \<Longrightarrow> ep \<in> set (subTargets ob) \<Longrightarrow>
     obs_reach m pw eps (dispatch tStamp tPub ep msg ob) lp"
| reach_poll:
    "obs_reach m pw eps ob lp \<Longrightarrow> length results = length eps \<Longrightarrow>
     (\<And>vs. mset (order vs) = mset vs) \<Longrightarrow>
     obs_reach m pw eps (pollOnce order now tPolled tPub results ob) (Some results)"

inductive_cases obs_reachE: "obs_reach m pw eps ob lp"

section \<open>Lemmas on the tally\<close>

definition votes_at :: "pollResult list \<Rightarrow> string \<Rightarrow> nat" where
  "votes_at rs a = length (filter (\<lambda>r. \<not> rErr r \<and> rAddr r = a) rs)"

definition quorum_votes_at :: "pollResult list \<Rightarrow> string \<Rightarrow> nat" where
  "quorum_votes_at rs a = length (filter (\<lambda>r. \<not> rErr r \<and> rAddr r = a \<and> rQuorumOK r) rs)"

definition reached :: "pollResult list \<Rightarrow> nat" where
  "reached rs = length (filter (\<lambda>r. \<not> rErr r) rs)"

definition tally_inv :: "pollResult list \<Rightarrow> tally \<Rightarrow> bool" where
  "tally_inv rs t \<longleftrightarrow>
     reachable t = reached rs \<and> 0 \<le> maxEpoch t \<and>
     (\<forall>r \<in> set rs. \<not> rErr r \<longrightarrow> rEpoch r \<le> maxEpoch t) \<and>
     distinct (map fst (addrCount t)) \<and> all_pos (addrCount t) \<and>
     (\<forall>a. count_of (addrCount t) a = (if a = [] then 0 else votes_at rs a)) \<and>
     (\<forall>a. count_of (addrQuorumCount t) a = (if a = [] then 0 else quorum_votes_at rs a))"

lemma tally_inv_step: "tally_inv rs t \<Longrightarrow> tally_inv (rs @ [r]) (tally_step r t)"
  by (auto simp: tally_inv_def tally_step_def reached_def votes_at_def quorum_votes_at_def
      count_of_incr distinct_incr all_pos_incr)

lemma tally_inv_fold: "tally_inv rs t \<Longrightarrow> tally_inv (rs @ rs') (fold tally_step rs' t)"
proof (induction rs' arbitrary: rs t)
  case (Cons r rs')
  from Cons.IH[OF tally_inv_step[OF Cons.prems, of r]] show ?case by simp
qed simp

lemma tally_all_inv: "tally_inv rs (tally_all rs)"
proof -
  have "tally_inv [] \<lparr>addrCount = [], addrQuorumCount = [], reachable = 0, maxEpoch = 0\<rparr>"
    by (simp add: tally_inv_def reached_def votes_at_def quorum_votes_at_def count_of_def
        all_pos_def)
  from tally_inv_fold[OF this, of rs] show ?thesis by (simp add: tally_all_def)
qed

lemma tally_facts:
  "reachable (tally_all rs) = reached rs" "0 \<le> maxEpoch (tally_all rs)"
  "count_of (addrQuorumCount (tally_all rs)) a = (if a = [] then 0 else quorum_votes_at rs a)"
  using tally_all_inv[of rs] by (simp_all add: tally_inv_def)

lemma tally_member:
  "(a, n) \<in> set (addrCount (tally_all rs)) \<longleftrightarrow> a \<noteq> [] \<and> n = votes_at rs a \<and> 0 < n"
  using tally_all_inv[of rs] tally_mem_iff[of "addrCount (tally_all rs)" a n]
  by (auto simp: tally_inv_def)

lemma quorum_votes_le: "quorum_votes_at rs a \<le> votes_at rs a"
  by (induction rs) (auto simp: quorum_votes_at_def votes_at_def)

lemma votes_at_disjoint: "a \<noteq> b \<Longrightarrow> votes_at rs a + votes_at rs b \<le> reached rs"
  by (induction rs) (auto simp: votes_at_def reached_def)

lemma reached_le: "reached rs \<le> length rs"
  by (simp add: reached_def)

lemma threshold_majority: "0 < n \<Longrightarrow> 2 * QuorumThreshold n > n"
  by (auto simp: QuorumThreshold_def)

section \<open>Lemmas on the winner\<close>

text \<open>What the loop over the vote map computes: most votes, then the incumbent, then the smallest.\<close>

definition best :: "string \<Rightarrow> (string \<times> nat) set \<Rightarrow> string \<times> nat \<Rightarrow> bool" where
  "best inc M w \<longleftrightarrow>
     w \<in> M \<and>
     (\<forall>a n. (a, n) \<in> M \<longrightarrow> n \<le> snd w \<and>
        (n = snd w \<longrightarrow> a = fst w \<or> fst w = inc \<or> (a \<noteq> inc \<and> fst w < a)))"

lemma best_unique:
  assumes "best inc M w" and "best inc M w'"
  shows "w = w'"
proof -
  obtain a n b k where w: "w = (a, n)" "w' = (b, k)" by fastforce
  then have "n = k" using assms by (auto simp: best_def intro: antisym)
  moreover have "b = a \<or> a = inc \<or> (b \<noteq> inc \<and> a < b)" "a = b \<or> b = inc \<or> (a \<noteq> inc \<and> b < a)"
    using assms w \<open>n = k\<close> by (auto simp: best_def)
  ultimately show ?thesis using w by auto
qed

lemma tie_cases:
  "breakAddrTie x y inc = x \<and> (x = inc \<or> (y \<noteq> inc \<and> x < y)) \<or>
   breakAddrTie x y inc = y \<and> (y = inc \<or> (x \<noteq> inc \<and> y < x) \<or> x = y)"
  by (auto simp: breakAddrTie_def)

lemma best_step:
  assumes "best inc M (w, v)"
  shows "best inc (insert (a, n) M)
    (if n > v then (a, n) else if n = v then (breakAddrTie w a inc, v) else (w, v))"
proof -
  have bound: "k \<le> v" if "(b, k) \<in> M" for b k using assms that by (auto simp: best_def)
  have tie: "b = w \<or> w = inc \<or> (b \<noteq> inc \<and> w < b)" if "(b, v) \<in> M" for b
    using assms that by (auto simp: best_def)
  consider "n > v" | "n = v" | "n < v" by linarith
  then show ?thesis
  proof cases
    case 1
    then show ?thesis using bound by (force simp: best_def)
  next
    case 2
    from tie_cases[of w a inc] show ?thesis
    proof
      assume "breakAddrTie w a inc = w \<and> (w = inc \<or> (a \<noteq> inc \<and> w < a))"
      then show ?thesis using 2 assms by (auto simp: best_def)
    next
      assume t: "breakAddrTie w a inc = a \<and> (a = inc \<or> (w \<noteq> inc \<and> a < w) \<or> w = a)"
      have "b = a \<or> a = inc \<or> (b \<noteq> inc \<and> a < b)" if "(b, v) \<in> M" for b
        using t tie[OF that] by auto
      then show ?thesis using 2 t bound by (auto simp: best_def)
    qed
  next
    case 3
    then show ?thesis using assms by (auto simp: best_def)
  qed
qed

lemma pick_winner_best:
  "best inc M (w, v) \<Longrightarrow> best inc (M \<union> set xs) (pick_winner inc (w, v) xs)"
proof (induction xs arbitrary: w v M)
  case (Cons x xs)
  obtain a n where x: "x = (a, n)" by fastforce
  obtain w' v' where w': "(if n > v then (a, n)
      else if n = v then (breakAddrTie w a inc, v) else (w, v)) = (w', v')"
    by fastforce
  have "best inc (insert (a, n) M) (w', v')" using best_step[OF Cons.prems, of a n] w' by simp
  from Cons.IH[OF this] show ?case using x w' by simp
qed simp

lemma pick_winner_start:
  assumes "all_pos xs" and "xs \<noteq> []"
  shows "best inc (set xs) (pick_winner inc ([], 0) xs)"
proof -
  obtain a n ys where xs: "xs = (a, n) # ys" using assms(2) by (cases xs) auto
  have "0 < n" using assms(1) xs by (simp add: all_pos_def)
  then have "pick_winner inc ([], 0) xs = pick_winner inc (a, n) ys" using xs by simp
  moreover have "best inc {(a, n)} (a, n)" by (simp add: best_def)
  ultimately show ?thesis using pick_winner_best[of inc "{(a, n)}" a n ys] xs by simp
qed

lemma pick_winner_order:
  assumes "mset xs = mset ys" and "all_pos ys"
  shows "pick_winner inc ([], 0) xs = pick_winner inc ([], 0) ys"
proof (cases "ys = []")
  case True
  with assms(1) show ?thesis by simp
next
  case False
  have s: "set xs = set ys" using assms(1) by (rule mset_eq_setD)
  with False have "xs \<noteq> []" by auto
  moreover have "all_pos xs" using assms(2) s by (simp add: all_pos_def list_all_iff)
  ultimately show ?thesis
    using pick_winner_start[of xs inc] pick_winner_start[OF assms(2) False, of inc] s
    by (simp add: best_unique)
qed

section \<open>Lemmas on a poll\<close>

definition poll_winner :: "((string \<times> nat) list \<Rightarrow> (string \<times> nat) list) \<Rightarrow> string \<Rightarrow> pollResult list \<Rightarrow> string"
  where
  "poll_winner order inc rs = fst (pick_winner inc ([], 0) (order (addrCount (tally_all rs))))"

lemma poll_winner_quorum:
  assumes perm: "\<And>vs. mset (order vs) = mset vs" and len: "length rs \<le> n" and th: "n < 2 * th"
    and a: "a \<noteq> []" "th \<le> quorum_votes_at rs a" "0 < th"
  shows "poll_winner order inc rs = a"
proof (rule ccontr)
  let ?xs = "order (addrCount (tally_all rs))"
  have s: "set ?xs = set (addrCount (tally_all rs))" by (rule mset_eq_setD[OF perm])
  have va: "th \<le> votes_at rs a" using a(2) quorum_votes_le order.trans by blast
  then have mem: "(a, votes_at rs a) \<in> set ?xs" using a s by (auto simp: tally_member)
  have "all_pos ?xs" using s by (auto simp: all_pos_def list_all_iff tally_member)
  then have b: "best inc (set ?xs) (pick_winner inc ([], 0) ?xs)"
    using mem by (intro pick_winner_start) auto
  obtain w v where w: "pick_winner inc ([], 0) ?xs = (w, v)" by fastforce
  assume "poll_winner order inc rs \<noteq> a"
  then have "w \<noteq> a" using w by (simp add: poll_winner_def)
  moreover have "votes_at rs a \<le> v" "v = votes_at rs w"
    using b w mem s by (auto simp: best_def tally_member)
  ultimately show False
    using votes_at_disjoint[of w a rs] reached_le[of rs] len th va by linarith
qed

lemma poll_published:
  "holder (pollOnce order now tp tu rs ob) =
     Some (let prev = fst (load (holder ob));
               th = QuorumThreshold (length (endpoints ob));
               winner = poll_winner order (Addr prev) rs;
               ok = (th \<le> reached rs \<and> th \<le> (if winner = [] then 0 else quorum_votes_at rs winner));
               status = (if reached rs < th then QuorumStatusUnknown
                         else if ok then QuorumStatusOK else QuorumStatusLost)
           in \<lparr>Addr = (if ok then winner else Addr prev),
               Epoch = max (Epoch prev) (maxEpoch (tally_all rs)), Quorum = status,
               OPQuorumOK = (status = QuorumStatusOK), UpdatedAt = tu, LastPolledAt = tp,
               OPSource = (if reached rs < th then SourcePoll
                           else if Addr prev \<noteq> [] \<and> Addr prev = winner then SourceMerge
                           else SourcePoll),
               ODown = odown ob,
               ODownPull = reconcileODownPull (odownPull ob) (odownObs (endpoints ob) rs) now\<rparr>)"
  by (simp add: pollOnce_def Let_def publishLocked_def store_def tally_facts poll_winner_def)

lemma poll_frame:
  "masterName (pollOnce order now tp tu rs ob) = masterName ob"
  "endpoints (pollOnce order now tp tu rs ob) = endpoints ob"
  "odown (pollOnce order now tp tu rs ob) = odown ob"
  "odownPull (pollOnce order now tp tu rs ob) =
     reconcileODownPull (odownPull ob) (odownObs (endpoints ob) rs) now"
  by (simp_all add: pollOnce_def Let_def publishLocked_def)

text \<open>The verdict of a poll over a non-empty pool, in terms of votes only.\<close>

lemma poll_quorum:
  fixes now tp tu :: gotime
  assumes perm: "\<And>vs. mset (order vs) = mset vs" and len: "length rs = length (endpoints ob)"
    and ne: "endpoints ob \<noteq> []"
  defines "p \<equiv> fst (snapshot (pollOnce order now tp tu rs ob))"
    and "th \<equiv> QuorumThreshold (length (endpoints ob))"
  shows "Quorum p = QuorumStatusUnknown \<longleftrightarrow> reached rs < th"
    and "Quorum p = QuorumStatusOK \<longleftrightarrow> (\<exists>a. a \<noteq> [] \<and> th \<le> quorum_votes_at rs a)"
    and "Quorum p = QuorumStatusOK \<Longrightarrow> Addr p \<noteq> [] \<and> th \<le> quorum_votes_at rs (Addr p)"
    and "Quorum p \<noteq> QuorumStatusOK \<Longrightarrow> Addr p = Addr (fst (snapshot ob))"
proof -
  have th: "0 < th" "length rs < 2 * th"
    using ne len threshold_majority[of "length (endpoints ob)"] by (auto simp: th_def QuorumThreshold_def)
  let ?w = "poll_winner order (Addr (fst (load (holder ob)))) rs"
  have win: "?w = a" if "a \<noteq> []" "th \<le> quorum_votes_at rs a" for a
    using poll_winner_quorum[OF perm le_refl th(2) that th(1)] by blast
  have reach: "th \<le> reached rs" if "th \<le> quorum_votes_at rs a" for a
  proof -
    have "quorum_votes_at rs a \<le> reached rs"
      by (induction rs) (auto simp: quorum_votes_at_def reached_def)
    with that show ?thesis by simp
  qed
  note P = p_def snapshot_def load_def poll_published th_def[symmetric] Let_def
  show "Quorum p = QuorumStatusUnknown \<longleftrightarrow> reached rs < th" by (simp add: P)
  show "Quorum p = QuorumStatusOK \<longleftrightarrow> (\<exists>a. a \<noteq> [] \<and> th \<le> quorum_votes_at rs a)"
    using win reach th(1) by (auto simp: P split: if_splits option.splits)
  show "Quorum p = QuorumStatusOK \<Longrightarrow> Addr p \<noteq> [] \<and> th \<le> quorum_votes_at rs (Addr p)"
    using th(1) by (auto simp: P split: if_splits option.splits)
  show "Quorum p \<noteq> QuorumStatusOK \<Longrightarrow> Addr p = Addr (fst (snapshot ob))"
    by (auto simp: P split: if_splits option.splits)
qed

section \<open>Invariants of the runs\<close>

text \<open>What every pub/sub frame publishes: the prior quorum, epoch and poll stamp.\<close>

definition pubsub_publish ::
  "observer \<Rightarrow> (string \<times> gotime) list \<Rightarrow> string \<Rightarrow> Source \<Rightarrow> gotime \<Rightarrow> observer" where
  "pubsub_publish ob od addr src tu =
     (let prev = fst (snapshot ob) in
      notify (publishLocked (ob\<lparr>odown := od\<rparr>) (Quorum prev) addr (Epoch prev) src (LastPolledAt prev) tu))"

lemma dispatch_cases:
  "dispatch ts tu ep msg ob = ob \<or>
   (\<exists>addr. dispatch ts tu ep msg ob = pubsub_publish ob (odown ob) addr SourcePubsub tu) \<or>
   dispatch ts tu ep msg ob =
     pubsub_publish ob (AList.update (Name ep) ts (odown ob)) (Addr (fst (snapshot ob)))
       (OPSource (fst (snapshot ob))) tu \<or>
   dispatch ts tu ep msg ob =
     pubsub_publish ob (AList.delete (Name ep) (odown ob)) (Addr (fst (snapshot ob)))
       (OPSource (fst (snapshot ob))) tu"
  unfolding dispatch_def republish_def carry_def pubsub_publish_def snapshot_def Let_def
  by (cases "ParseEventKind (Channel msg)") (auto split: option.splits)

lemma dispatch_pubsub_publish:
  obtains "dispatch ts tu ep msg ob = ob"
  | od addr src where "dispatch ts tu ep msg ob = pubsub_publish ob od addr src tu"
      and "od \<in> {odown ob, AList.update (Name ep) ts (odown ob), AList.delete (Name ep) (odown ob)}"
      and "src = SourcePubsub \<or> src = OPSource (fst (snapshot ob)) \<and> addr = Addr (fst (snapshot ob))"
  using dispatch_cases[of ts tu ep msg ob] by blast

lemma pubsub_publish_frame [simp]:
  "masterName (pubsub_publish ob od addr src tu) = masterName ob"
  "endpoints (pubsub_publish ob od addr src tu) = endpoints ob"
  "odown (pubsub_publish ob od addr src tu) = od"
  "odownPull (pubsub_publish ob od addr src tu) = odownPull ob"
  "subTargets (pubsub_publish ob od addr src tu) = subTargets ob"
  "holder (pubsub_publish ob od addr src tu) =
     Some \<lparr>Addr = addr, Epoch = Epoch (fst (snapshot ob)), Quorum = Quorum (fst (snapshot ob)),
           OPQuorumOK = (Quorum (fst (snapshot ob)) = QuorumStatusOK), UpdatedAt = tu,
           LastPolledAt = LastPolledAt (fst (snapshot ob)), OPSource = src, ODown = od,
           ODownPull = odownPull ob\<rparr>"
  by (simp_all add: pubsub_publish_def notify_def publishLocked_def store_def subTargets_def Let_def)

definition obs_inv :: "string \<Rightarrow> Endpoint list \<Rightarrow> observer \<Rightarrow> pollResult list option \<Rightarrow> bool" where
  "obs_inv m eps ob lp \<longleftrightarrow>
     masterName ob = m \<and> endpoints ob = eps \<and>
     (\<exists>p. holder ob = Some p \<and>
        OPQuorumOK p = (Quorum p = QuorumStatusOK) \<and> 0 \<le> Epoch p \<and>
        ODown p = odown ob \<and> ODownPull p = odownPull ob \<and>
        (lp = None \<longrightarrow> Quorum p = QuorumStatusUnknown \<and> LastPolledAt p = 0) \<and>
        (OPQuorumOK p \<and> eps \<noteq> [] \<and> OPSource p \<noteq> SourcePubsub \<longrightarrow>
           (\<exists>rs. lp = Some rs \<and> Addr p \<noteq> [] \<and>
              QuorumThreshold (length eps) \<le> quorum_votes_at rs (Addr p)))) \<and>
     distinct (map fst (odown ob)) \<and> fst ` set (odown ob) \<subseteq> Name ` set (subTargets ob)"

lemma keys_delete_subset: "fst ` set (AList.delete k xs) \<subseteq> fst ` set xs"
  by (auto simp: AList.delete_eq)

lemma keys_update: "fst ` set (AList.update k v xs) = insert k (fst ` set xs)"
  by (simp add: dom_map_of_conv_image_fst[symmetric] update_conv')

lemma obs_inv_start: "obs_inv m eps (start (newObserver m pw eps) now) None"
  by (simp add: obs_inv_def start_def newObserver_def store_def zeroObservedPrimary_def)

lemma obs_inv_dispatch:
  assumes "obs_inv m eps ob lp" and "ep \<in> set (subTargets ob)"
  shows "obs_inv m eps (dispatch ts tu ep msg ob) lp"
proof (cases rule: dispatch_pubsub_publish[of ts tu ep msg ob])
  case 1
  with assms(1) show ?thesis by simp
next
  case (2 od addr src)
  have keys: "distinct (map fst (odown ob))" "fst ` set (odown ob) \<subseteq> Name ` set (subTargets ob)"
    using assms(1) by (simp_all add: obs_inv_def)
  have "distinct (map fst od)" using 2(2) keys(1) by (auto simp: distinct_update distinct_delete)
  moreover have "fst ` set od \<subseteq> Name ` set (subTargets ob)"
  proof -
    from 2(2) consider "od = odown ob" | "od = AList.update (Name ep) ts (odown ob)"
      | "od = AList.delete (Name ep) (odown ob)" by auto
    then have "fst ` set od \<subseteq> insert (Name ep) (fst ` set (odown ob))"
      by cases (use keys_delete_subset[of "Name ep" "odown ob"] in \<open>simp_all add: keys_update subset_insertI subset_insertI2\<close>)
    also have "\<dots> \<subseteq> Name ` set (subTargets ob)" using keys(2) assms(2) by simp
    finally show ?thesis .
  qed
  ultimately show ?thesis
    using assms(1) 2(3) unfolding 2(1) obs_inv_def
    by (auto simp: snapshot_def load_def)
qed

lemma obs_inv_poll:
  assumes inv: "obs_inv m eps ob lp" and len: "length rs = length eps"
    and perm: "\<And>vs. mset (order vs) = mset vs"
  shows "obs_inv m eps (pollOnce order now tp tu rs ob) (Some rs)"
proof -
  have e: "endpoints ob = eps" using inv by (simp add: obs_inv_def)
  obtain p where p: "holder (pollOnce order now tp tu rs ob) = Some p" by (simp add: poll_published)
  then have sp: "fst (snapshot (pollOnce order now tp tu rs ob)) = p" by (simp add: snapshot_def load_def)
  have f: "OPQuorumOK p = (Quorum p = QuorumStatusOK)" "0 \<le> Epoch p"
    "ODown p = odown (pollOnce order now tp tu rs ob)"
    "ODownPull p = odownPull (pollOnce order now tp tu rs ob)"
    using p inv tally_facts(2)[of rs]
    by (auto simp: poll_published poll_frame Let_def obs_inv_def load_def le_max_iff_disj)
  have q: "Quorum p = QuorumStatusOK \<Longrightarrow> eps \<noteq> [] \<Longrightarrow>
      Addr p \<noteq> [] \<and> QuorumThreshold (length eps) \<le> quorum_votes_at rs (Addr p)"
    using poll_quorum(3)[OF perm, where rs = rs and ob = ob and now = now and tp = tp and tu = tu]
      len e sp by simp
  show ?thesis
    using inv p f q by (auto simp: obs_inv_def poll_frame subTargets_def)
qed

lemma obs_reach_inv: "obs_reach m pw eps ob lp \<Longrightarrow> obs_inv m eps ob lp"
  by (induction rule: obs_reach.induct) (auto intro: obs_inv_start obs_inv_dispatch obs_inv_poll)

lemma subTargets_le: "length (subTargets ob) \<le> 2"
  by (simp add: subTargets_def)

lemma odown_bounded:
  assumes "obs_inv m eps ob lp"
  shows "length (odown ob) \<le> 2"
proof -
  have "length (odown ob) = card (fst ` set (odown ob))"
    using assms distinct_card[of "map fst (odown ob)"] by (simp add: obs_inv_def)
  also have "\<dots> \<le> card (Name ` set (subTargets ob))"
    using assms by (intro card_mono) (auto simp: obs_inv_def)
  also have "\<dots> \<le> length (subTargets ob)"
    using card_image_le[of "set (subTargets ob)" Name] card_length[of "subTargets ob"] by simp
  finally show ?thesis using subTargets_le[of ob] by simp
qed

section \<open>Properties\<close>

definition ep3 :: "Endpoint list" where
  "ep3 = [\<lparr>Name = ''s-0'', EpAddr = ''a0''\<rparr>, \<lparr>Name = ''s-1'', EpAddr = ''a1''\<rparr>, \<lparr>Name = ''s-2'', EpAddr = ''a2''\<rparr>]"

definition vote_for :: "string \<Rightarrow> bool \<Rightarrow> pollResult" where
  "vote_for a q =
     \<lparr>rAddr = a, rEpoch = 4, rQuorumOK = q, rFlags = None, rKnownReplicas = 2, rKnownSentinels = 2,
      rCountsValid = True, rErr = False\<rparr>"

text \<open>
  C4. A poll decides by one majority. On a non-empty pool, whatever order the vote map is iterated
  in, a poll publishes Unknown exactly when fewer sentinels than the threshold were reached; it
  publishes OK exactly when some threshold-sized set of reached sentinels agrees both on one
  non-empty address and on CKQUORUM, and then the published address is that one; otherwise the
  previously published address is kept. The threshold is the strict majority, and the whole pool for
  one or two sentinels: a pool of one publishes OK on its single vote, against the comment on the
  function, and a snapshot without quorum keeps its address, against the comment on the field.
\<close>

theorem poll_quorum_sound_complete:
  assumes "\<And>vs. mset (order vs) = mset vs" and "length results = length (endpoints ob)"
    and "endpoints ob \<noteq> []"
  shows "let p = fst (snapshot (pollOnce order now tp tu results ob));
             th = QuorumThreshold (length (endpoints ob))
         in (Quorum p = QuorumStatusUnknown \<longleftrightarrow> reached results < th) \<and>
            (Quorum p = QuorumStatusOK \<longleftrightarrow> (\<exists>a. a \<noteq> [] \<and> th \<le> quorum_votes_at results a)) \<and>
            (Quorum p = QuorumStatusOK \<longrightarrow> Addr p \<noteq> [] \<and> th \<le> quorum_votes_at results (Addr p)) \<and>
            (Quorum p \<noteq> QuorumStatusOK \<longrightarrow> Addr p = Addr (fst (snapshot ob)))"
  using poll_quorum[OF assms] unfolding Let_def by blast

theorem poll_quorum_sound_complete_witness:
  "Quorum (fst (snapshot (pollOnce rev 10 11 12 [vote_for ''p:1'' True, vote_for ''q:1'' True, vote_for ''p:1'' True]
     (start (newObserver ''m'' [] ep3) 5)))) = QuorumStatusOK"
proof -
  have "QuorumThreshold (length ep3) \<le>
      quorum_votes_at [vote_for ''p:1'' True, vote_for ''q:1'' True, vote_for ''p:1'' True] ''p:1''"
    by (simp add: QuorumThreshold_def ep3_def quorum_votes_at_def vote_for_def)
  then show ?thesis
    using poll_quorum_sound_complete[of rev
        "[vote_for ''p:1'' True, vote_for ''q:1'' True, vote_for ''p:1'' True]"
        "start (newObserver ''m'' [] ep3) 5" 10 11 12]
    by (auto simp: start_def newObserver_def ep3_def Let_def)
qed

text \<open>
  The published state does not depend on Go's map iteration order: two polls that differ only in
  that order leave the same observer state.
\<close>

theorem poll_order_independent:
  assumes "\<And>vs. mset (order vs) = mset vs" and "\<And>vs. mset (order' vs) = mset vs"
  shows "pollOnce order now tp tu results ob = pollOnce order' now tp tu results ob"
proof -
  have pos: "all_pos (addrCount (tally_all results))"
    using tally_all_inv[of results] by (simp add: tally_inv_def)
  have "pick_winner inc ([], 0) (order (addrCount (tally_all results))) =
        pick_winner inc ([], 0) (order' (addrCount (tally_all results)))" for inc
    using pick_winner_order[OF assms(1) pos] pick_winner_order[OF assms(2) pos] by simp
  then show ?thesis by (simp add: pollOnce_def Let_def)
qed

theorem poll_order_independent_witness:
  "pollOnce rev 1 2 3 [vote_for ''p'' True, vote_for ''q'' True] (newObserver ''m'' [] ep3) =
   pollOnce id 1 2 3 [vote_for ''p'' True, vote_for ''q'' True] (newObserver ''m'' [] ep3)"
  by (rule poll_order_independent) simp_all

text \<open>
  C29. The invariant of every published snapshot. In every reachable state the legacy flag is the
  tri-state being OK, the epoch is not negative, the two maps of the snapshot are the observer's,
  only the at most two subscribed sentinels have +odown entries, and before the first poll the
  quorum is Unknown with a zero poll stamp. A snapshot with the flag set that was not last written by
  a pub/sub frame names an address on which a threshold of sentinels agreed, with CKQUORUM, in the
  last poll.
\<close>

theorem observer_invariant:
  assumes "obs_reach m pw eps ob lp"
  shows "\<exists>p. snapshot ob = (p, True) \<and>
    (OPQuorumOK p \<longleftrightarrow> Quorum p = QuorumStatusOK) \<and> 0 \<le> Epoch p \<and>
    ODown p = odown ob \<and> ODownPull p = odownPull ob \<and>
    length (ODown p) \<le> 2 \<and> fst ` set (ODown p) \<subseteq> Name ` set (subTargets ob) \<and>
    (lp = None \<longrightarrow> Quorum p = QuorumStatusUnknown \<and> LastPolledAt p = 0) \<and>
    (OPQuorumOK p \<and> eps \<noteq> [] \<and> OPSource p \<noteq> SourcePubsub \<longrightarrow>
       (\<exists>rs. lp = Some rs \<and> Addr p \<noteq> [] \<and>
          QuorumThreshold (length eps) \<le> quorum_votes_at rs (Addr p)))"
proof -
  note inv = obs_reach_inv[OF assms]
  have "length (odown ob) \<le> 2" by (rule odown_bounded[OF inv])
  with inv show ?thesis by (auto simp: obs_inv_def snapshot_def load_def)
qed

theorem observer_invariant_witness:
  "\<exists>p. snapshot (start (newObserver ''m'' [] ep3) 5) = (p, True) \<and> Quorum p = QuorumStatusUnknown"
  using observer_invariant[OF reach_start[of "''m''" "[]" ep3 5]] by blast

text \<open>
  Only a poll refreshes the evidence. A pub/sub frame, whatever it is, leaves the published epoch,
  quorum and poll stamp as they were; a poll sets the poll stamp and never lowers the epoch, which
  covers the epoch of every sentinel it reached.
\<close>

theorem evidence_only_from_polls:
  assumes "holder ob = Some prev"
  shows "(let p = fst (snapshot (dispatch ts tu ep msg ob))
          in Epoch p = Epoch prev \<and> Quorum p = Quorum prev \<and> LastPolledAt p = LastPolledAt prev) \<and>
    (let p = fst (snapshot (pollOnce order now tp tu results ob))
     in LastPolledAt p = tp \<and> UpdatedAt p = tu \<and> Epoch prev \<le> Epoch p \<and>
        (\<forall>r \<in> set results. \<not> rErr r \<longrightarrow> rEpoch r \<le> Epoch p))"
proof -
  have prev: "fst (snapshot ob) = prev" using assms by (simp add: snapshot_def load_def)
  have "let p = fst (snapshot (dispatch ts tu ep msg ob))
      in Epoch p = Epoch prev \<and> Quorum p = Quorum prev \<and> LastPolledAt p = LastPolledAt prev"
    by (cases rule: dispatch_pubsub_publish[of ts tu ep msg ob])
      (simp_all add: prev snapshot_def[of "pubsub_publish _ _ _ _ _"] load_def)
  moreover have "\<forall>r \<in> set results. \<not> rErr r \<longrightarrow> rEpoch r \<le> maxEpoch (tally_all results)"
    using tally_all_inv[of results] by (simp add: tally_inv_def)
  ultimately show ?thesis
    using assms by (auto simp: snapshot_def[of "pollOnce _ _ _ _ _ _"] load_def poll_published Let_def
        le_max_iff_disj)
qed

theorem evidence_only_from_polls_witness:
  "LastPolledAt (fst (snapshot (pollOnce id 10 11 12 [] (start (newObserver ''m'' [] ep3) 5)))) = 11"
  using evidence_only_from_polls[of "start (newObserver ''m'' [] ep3) 5"
      "zeroObservedPrimary\<lparr>UpdatedAt := 5\<rparr>" 0 12 "\<lparr>Name = [], EpAddr = []\<rparr>" zeroMessage id 10 11 "[]"]
  by (simp add: start_def newObserver_def store_def zeroObservedPrimary_def Let_def)

text \<open>
  One sentinel's frame moves the address under a carried quorum. A +switch-master frame for the
  monitored master whose old address is the published one (or arrives while none is published) is
  published at once with its new address, and the quorum flag keeps its value although no poll has
  confirmed the new address; a frame that does not chain leaves the observer unchanged.
\<close>

theorem switch_master_carries_quorum:
  assumes "holder ob = Some prev" and "Channel msg = ''+switch-master''"
    and "ParseSwitchMaster (Payload msg) = Some ev" and "SMMasterName ev = masterName ob"
  shows "(Addr prev = [] \<or> OldAddr ev = Addr prev \<longrightarrow>
      snapshot (dispatch ts tu ep msg ob) =
        (prev\<lparr>Addr := NewAddr ev, OPQuorumOK := (Quorum prev = QuorumStatusOK), UpdatedAt := tu,
              OPSource := SourcePubsub, ODown := odown ob, ODownPull := odownPull ob\<rparr>, True)) \<and>
    (Addr prev \<noteq> [] \<and> OldAddr ev \<noteq> Addr prev \<longrightarrow> dispatch ts tu ep msg ob = ob)"
  using assms
  by (auto simp: dispatch_def ParseEventKind_def republish_def carry_def load_def notify_def
      publishLocked_def store_def snapshot_def)

theorem switch_master_carries_quorum_witness:
  "snapshot (dispatch 8 9 \<lparr>Name = ''s-0'', EpAddr = ''a0''\<rparr>
      \<lparr>Channel = ''+switch-master'', Payload = ''m a 1 b 2''\<rparr>
      ((newObserver ''m'' [] ep3)\<lparr>holder := Some (zeroObservedPrimary\<lparr>Addr := ''a:1'',
         Quorum := QuorumStatusOK\<rparr>)\<rparr>)) =
   (zeroObservedPrimary\<lparr>Addr := ''b:2'', Quorum := QuorumStatusOK, OPQuorumOK := True,
      UpdatedAt := 9, OPSource := SourcePubsub\<rparr>, True)"
proof -
  have "ParseSwitchMaster ''m a 1 b 2'' =
      Some \<lparr>SMMasterName = ''m'', OldAddr = ''a:1'', NewAddr = ''b:2''\<rparr>"
    by code_simp
  with switch_master_carries_quorum[of
      "(newObserver ''m'' [] ep3)\<lparr>holder := Some (zeroObservedPrimary\<lparr>Addr := ''a:1'', Quorum := QuorumStatusOK\<rparr>)\<rparr>"
      "zeroObservedPrimary\<lparr>Addr := ''a:1'', Quorum := QuorumStatusOK\<rparr>"
      "\<lparr>Channel = ''+switch-master'', Payload = ''m a 1 b 2''\<rparr>"
      "\<lparr>SMMasterName = ''m'', OldAddr = ''a:1'', NewAddr = ''b:2''\<rparr>" 8 9
      "\<lparr>Name = ''s-0'', EpAddr = ''a0''\<rparr>"]
  show ?thesis by (simp add: newObserver_def zeroObservedPrimary_def)
qed

text \<open>
  The degenerate pools. A poll over an empty pool publishes OK with an empty
  address, and over a single sentinel the one vote with CKQUORUM is enough for OK.
\<close>

theorem degenerate_pool_quorum:
  assumes "endpoints ob = []" and "\<And>vs. mset (order vs) = mset vs"
    and "endpoints ob1 = [e]" and "a \<noteq> []"
  shows "Quorum (fst (snapshot (pollOnce order now tp tu [] ob))) = QuorumStatusOK \<and>
    Addr (fst (snapshot (pollOnce order now tp tu [] ob))) = [] \<and>
    Quorum (fst (snapshot (pollOnce order now tp tu [vote_for a True] ob1))) = QuorumStatusOK"
proof -
  have "poll_winner order inc [] = []" for inc
    using assms(2)[of "[]"] by (simp add: poll_winner_def tally_all_def)
  then have empty: "Quorum (fst (snapshot (pollOnce order now tp tu [] ob))) = QuorumStatusOK \<and>
      Addr (fst (snapshot (pollOnce order now tp tu [] ob))) = []"
    using assms(1) by (simp add: snapshot_def[of "pollOnce _ _ _ _ _ _"] load_def poll_published
        Let_def QuorumThreshold_def)
  have "QuorumThreshold (length (endpoints ob1)) \<le> quorum_votes_at [vote_for a True] a"
    using assms(3) by (simp add: QuorumThreshold_def quorum_votes_at_def vote_for_def)
  then have "Quorum (fst (snapshot (pollOnce order now tp tu [vote_for a True] ob1))) = QuorumStatusOK"
    using poll_quorum(2)[OF assms(2), of "[vote_for a True]" ob1] assms(3,4) by auto
  with empty show ?thesis by simp
qed

theorem degenerate_pool_quorum_witness:
  "Addr (fst (snapshot (pollOnce id 1 2 3 [] (newObserver ''m'' [] [])))) = []"
  using degenerate_pool_quorum[of "newObserver ''m'' [] []" id "newObserver ''m'' [] [hd ep3]" "hd ep3"
      "''p''" 1 2 3]
  by (simp add: newObserver_def)

end
