(* ===== verification/Triple_Check.thy ===== *)
theory Triple_Check
  imports Sentinel_Observer
begin

text \<open>
  \<^verbatim>\<open>internal/sentinel/triplecheck.go\<close>: the decision whether the operator may start a failover. The
  reasons are a datatype; the detail text, which formats durations and counts, is represented by the
  values it formats.

  The lemmas characterise the decision on every branch, and then follow it over the runs of the
  observer that produces its snapshot.
\<close>

section \<open>Definitions\<close>

datatype TripleCheckReason =
    TripleCheckReasonOK | TripleCheckReasonNoSnapshot | TripleCheckReasonNoQuorum
  | TripleCheckReasonNoODownConsensus | TripleCheckReasonPodReady | TripleCheckReasonStaleSnapshot

datatype TripleCheckDetail =
    NoDetail | DetailNoSnapshot | DetailStale duration duration | DetailNoQuorum
  | DetailNoODown int int | DetailPodReady

record TripleCheckInputs =
  tcSnapshot :: Snapshot
  tcPodReady :: bool
  tcQuorum :: int
  ODownStaleness :: duration
  MaxSnapshotAge :: duration
  Now :: gotime

record FailoverDecision =
  Allow :: bool
  Reason :: TripleCheckReason
  Detail :: TripleCheckDetail

definition ConsensusODown :: "(string \<times> gotime) list \<Rightarrow> gotime \<Rightarrow> duration \<Rightarrow> int" where
  "ConsensusODown od now staleness =
     (if staleness \<le> 0 then int (length (filter (\<lambda>(_, t). \<not> IsZero t) od))
      else
        (let cutoff = now + (- staleness) in
         int (length (filter (\<lambda>(_, t). \<not> IsZero t \<and> (t > cutoff \<or> t = cutoff)) od))))"

definition EvaluateTripleCheck :: "TripleCheckInputs \<Rightarrow> FailoverDecision" where
  "EvaluateTripleCheck inp =
     (let p = Primary (tcSnapshot inp);
          age = Sub (Now inp) (UpdatedAt p);
          consensus = ConsensusODown (ODown p) (Now inp) (ODownStaleness inp)
      in if \<not> Present (tcSnapshot inp) then
           \<lparr>Allow = False, Reason = TripleCheckReasonNoSnapshot, Detail = DetailNoSnapshot\<rparr>
         else if MaxSnapshotAge inp > 0 \<and> age > MaxSnapshotAge inp then
           \<lparr>Allow = False, Reason = TripleCheckReasonStaleSnapshot,
            Detail = DetailStale age (MaxSnapshotAge inp)\<rparr>
         else if \<not> OPQuorumOK p then
           \<lparr>Allow = False, Reason = TripleCheckReasonNoQuorum, Detail = DetailNoQuorum\<rparr>
         else if consensus < tcQuorum inp then
           \<lparr>Allow = False, Reason = TripleCheckReasonNoODownConsensus,
            Detail = DetailNoODown consensus (tcQuorum inp)\<rparr>
         else if tcPodReady inp then
           \<lparr>Allow = False, Reason = TripleCheckReasonPodReady, Detail = DetailPodReady\<rparr>
         else \<lparr>Allow = True, Reason = TripleCheckReasonOK, Detail = NoDetail\<rparr>)"

text \<open>The inputs a caller builds from an observer.\<close>

definition inputs_of :: "observer \<Rightarrow> bool \<Rightarrow> int \<Rightarrow> duration \<Rightarrow> duration \<Rightarrow> gotime \<Rightarrow> TripleCheckInputs" where
  "inputs_of ob ready quorum staleness maxAge now =
     \<lparr>tcSnapshot = \<lparr>Present = snd (snapshot ob), Primary = fst (snapshot ob)\<rparr>, tcPodReady = ready,
      tcQuorum = quorum, ODownStaleness = staleness, MaxSnapshotAge = maxAge, Now = now\<rparr>"

section \<open>Lemmas\<close>

lemma ConsensusODown_le: "ConsensusODown od now staleness \<le> int (length od)"
  by (simp add: ConsensusODown_def Let_def)

lemma ConsensusODown_mono: "0 < s \<Longrightarrow> s \<le> s' \<Longrightarrow> ConsensusODown od now s \<le> ConsensusODown od now s'"
proof -
  assume s: "0 < s" "s \<le> s'"
  have "length (filter (\<lambda>(_, t). \<not> IsZero t \<and> (t > now + (- s) \<or> t = now + (- s))) od)
      \<le> length (filter (\<lambda>(_, t). \<not> IsZero t \<and> (t > now + (- s') \<or> t = now + (- s'))) od)"
    using s by (induction od) auto
  then show ?thesis using s by (simp add: ConsensusODown_def Let_def)
qed

lemma allow_iff:
  "Allow (EvaluateTripleCheck inp) \<longleftrightarrow>
     Present (tcSnapshot inp) \<and>
     (MaxSnapshotAge inp \<le> 0 \<or> Sub (Now inp) (UpdatedAt (Primary (tcSnapshot inp))) \<le> MaxSnapshotAge inp) \<and>
     OPQuorumOK (Primary (tcSnapshot inp)) \<and>
     tcQuorum inp \<le> ConsensusODown (ODown (Primary (tcSnapshot inp))) (Now inp) (ODownStaleness inp) \<and>
     \<not> tcPodReady inp"
  by (auto simp: EvaluateTripleCheck_def Let_def)

section \<open>Properties\<close>

text \<open>The sentinels that reported +odown at most the staleness ago.\<close>

definition down_voters :: "ObservedPrimary \<Rightarrow> gotime \<Rightarrow> duration \<Rightarrow> string set" where
  "down_voters p now staleness = {n. \<exists>t. (n, t) \<in> set (ODown p) \<and> t \<noteq> 0 \<and> now - staleness \<le> t}"

lemma consensus_card:
  assumes "distinct (map fst (ODown p))" and "0 < s"
  shows "ConsensusODown (ODown p) now s = int (card (down_voters p now s))"
proof -
  let ?f = "filter (\<lambda>(n, t). \<not> IsZero t \<and> (t > now + - s \<or> t = now + - s)) (ODown p)"
  have d: "distinct (map fst ?f)" using assms(1) by (rule distinct_map_filter)
  have "down_voters p now s = set (map fst ?f)"
    by (force simp: down_voters_def IsZero_def)
  then have "card (down_voters p now s) = length ?f" using distinct_card[OF d] by simp
  then show ?thesis using assms(2) by (simp add: ConsensusODown_def Let_def case_prod_beta)
qed

lemma reach_snapshot:
  assumes "obs_reach m pw eps ob lp"
  shows "snd (snapshot ob)"
    "OPQuorumOK (fst (snapshot ob)) \<longleftrightarrow> Quorum (fst (snapshot ob)) = QuorumStatusOK"
    "distinct (map fst (ODown (fst (snapshot ob))))"
    "down_voters (fst (snapshot ob)) now s \<subseteq> Name ` set (subTargets ob)"
    "Quorum (fst (snapshot ob)) = QuorumStatusOK \<Longrightarrow> lp \<noteq> None"
    "Quorum (fst (snapshot ob)) = QuorumStatusOK \<Longrightarrow> eps \<noteq> [] \<Longrightarrow> OPSource (fst (snapshot ob)) \<noteq> SourcePubsub \<Longrightarrow>
       \<exists>rs. lp = Some rs \<and> Addr (fst (snapshot ob)) \<noteq> [] \<and>
         QuorumThreshold (length eps) \<le> quorum_votes_at rs (Addr (fst (snapshot ob)))"
proof -
  from obs_reach_inv[OF assms] obtain p where p: "holder ob = Some p" "ODown p = odown ob"
    "OPQuorumOK p = (Quorum p = QuorumStatusOK)" "lp = None \<longrightarrow> Quorum p = QuorumStatusUnknown"
    "OPQuorumOK p \<and> eps \<noteq> [] \<and> OPSource p \<noteq> SourcePubsub \<longrightarrow>
       (\<exists>rs. lp = Some rs \<and> Addr p \<noteq> [] \<and> QuorumThreshold (length eps) \<le> quorum_votes_at rs (Addr p))"
    "distinct (map fst (odown ob))" "fst ` set (odown ob) \<subseteq> Name ` set (subTargets ob)"
    by (auto simp: obs_inv_def)
  have s: "snapshot ob = (p, True)" using p(1) by (simp add: snapshot_def load_def)
  show "snd (snapshot ob)" "OPQuorumOK (fst (snapshot ob)) \<longleftrightarrow> Quorum (fst (snapshot ob)) = QuorumStatusOK"
    "distinct (map fst (ODown (fst (snapshot ob))))"
    "Quorum (fst (snapshot ob)) = QuorumStatusOK \<Longrightarrow> lp \<noteq> None"
    "Quorum (fst (snapshot ob)) = QuorumStatusOK \<Longrightarrow> eps \<noteq> [] \<Longrightarrow> OPSource (fst (snapshot ob)) \<noteq> SourcePubsub \<Longrightarrow>
       \<exists>rs. lp = Some rs \<and> Addr (fst (snapshot ob)) \<noteq> [] \<and>
         QuorumThreshold (length eps) \<le> quorum_votes_at rs (Addr (fst (snapshot ob)))"
    using p s by auto
  show "down_voters (fst (snapshot ob)) now s \<subseteq> Name ` set (subTargets ob)"
    using p(2,7) by (force simp: s down_voters_def)
qed

lemma down_voters_le: "obs_reach m pw eps ob lp \<Longrightarrow> card (down_voters (fst (snapshot ob)) now s) \<le> 2"
proof -
  assume "obs_reach m pw eps ob lp"
  then have "card (down_voters (fst (snapshot ob)) now s) \<le> card (Name ` set (subTargets ob))"
    by (intro card_mono reach_snapshot(4)) auto
  also have "\<dots> \<le> length (subTargets ob)" by (rule order_trans[OF card_image_le card_length]) simp
  finally show ?thesis using subTargets_le[of ob] by simp
qed

text \<open>
  C18. The triple check on the snapshots an observer can publish. In every reachable state of a started
  observer the decision is: refused as stale exactly when a maximum age is set and the snapshot is
  older, else for lack of quorum exactly when the published quorum is not OK, else for lack of
  consensus exactly when fewer distinct sentinels than the configured quorum reported +odown within
  the staleness, else as pod-ready exactly when kubelet calls the pod ready, and allowed otherwise;
  it is never refused for a missing snapshot. Behind an allowed failover stands at least one poll, at
  most two voters, all of them subscribed sentinels, and, unless pub/sub wrote the snapshot last, a
  non-empty address that a threshold of the last poll agreed on. So a configured quorum of three or
  more is never allowed.
\<close>

theorem triple_check_exact:
  assumes "obs_reach m pw eps ob lp" and "eps \<noteq> []" and "0 < staleness"
    and "p = fst (snapshot ob)" and "voters = down_voters p now staleness"
    and "d = EvaluateTripleCheck (inputs_of ob ready quorum staleness maxAge now)"
    and "fresh \<longleftrightarrow> maxAge \<le> 0 \<or> Sub now (UpdatedAt p) \<le> maxAge"
  shows "(Reason d = TripleCheckReasonStaleSnapshot \<longleftrightarrow> \<not> fresh) \<and>
    (Reason d = TripleCheckReasonNoQuorum \<longleftrightarrow> fresh \<and> Quorum p \<noteq> QuorumStatusOK) \<and>
    (Reason d = TripleCheckReasonNoODownConsensus \<longleftrightarrow>
       fresh \<and> Quorum p = QuorumStatusOK \<and> int (card voters) < quorum) \<and>
    (Reason d = TripleCheckReasonPodReady \<longleftrightarrow>
       fresh \<and> Quorum p = QuorumStatusOK \<and> quorum \<le> int (card voters) \<and> ready) \<and>
    (Allow d \<longleftrightarrow> fresh \<and> Quorum p = QuorumStatusOK \<and> quorum \<le> int (card voters) \<and> \<not> ready) \<and>
    (Reason d = TripleCheckReasonOK \<longleftrightarrow> Allow d) \<and> Reason d \<noteq> TripleCheckReasonNoSnapshot \<and>
    (Allow d \<longrightarrow> lp \<noteq> None \<and> quorum \<le> 2 \<and> voters \<subseteq> Name ` set (subTargets ob) \<and>
       (OPSource p \<noteq> SourcePubsub \<longrightarrow>
          (\<exists>rs. lp = Some rs \<and> Addr p \<noteq> [] \<and> QuorumThreshold (length eps) \<le> quorum_votes_at rs (Addr p))))"
proof -
  note r = reach_snapshot[OF assms(1), folded assms(4)]
  have c: "ConsensusODown (ODown p) now staleness = int (card voters)"
    unfolding assms(5) using r(3) assms(3) by (rule consensus_card)
  have v: "card voters \<le> 2" "voters \<subseteq> Name ` set (subTargets ob)"
    unfolding assms(5) using down_voters_le[OF assms(1), folded assms(4)] r(4) by auto
  have d: "d = (if \<not> fresh then \<lparr>Allow = False, Reason = TripleCheckReasonStaleSnapshot,
        Detail = DetailStale (Sub now (UpdatedAt p)) maxAge\<rparr>
      else if Quorum p \<noteq> QuorumStatusOK then \<lparr>Allow = False, Reason = TripleCheckReasonNoQuorum, Detail = DetailNoQuorum\<rparr>
      else if int (card voters) < quorum then \<lparr>Allow = False, Reason = TripleCheckReasonNoODownConsensus,
        Detail = DetailNoODown (int (card voters)) quorum\<rparr>
      else if ready then \<lparr>Allow = False, Reason = TripleCheckReasonPodReady, Detail = DetailPodReady\<rparr>
      else \<lparr>Allow = True, Reason = TripleCheckReasonOK, Detail = NoDetail\<rparr>)"
    unfolding assms(6,7) EvaluateTripleCheck_def inputs_of_def Let_def
    using r(1,2) c by (auto simp: assms(4))
  have "Allow d \<longleftrightarrow> fresh \<and> Quorum p = QuorumStatusOK \<and> quorum \<le> int (card voters) \<and> \<not> ready"
    unfolding d by auto
  moreover from this have "Allow d \<Longrightarrow> quorum \<le> 2" using v(1) by linarith
  ultimately show ?thesis using r(5,6) assms(2) v(2) unfolding d by (auto split: if_splits)
qed

text \<open>
  A stalled poll does not stop the check. After any reachable state with the quorum flag set, one
  pub/sub +odown frame for the monitored master is enough to make the snapshot look fresh again:
  however long ago the last poll was, the freshness test of the check passes at the time of the
  frame, while the poll stamp is unchanged and so arbitrarily older than the maximum age.
\<close>

theorem stalled_poll_looks_fresh:
  assumes "obs_reach m pw eps ob lp" and "ep \<in> set (subTargets ob)"
    and "Channel msg = ''+odown''" and "ParseMasterEvent (Payload msg) = Some ev"
    and "MEMasterName ev = m" and "OPQuorumOK (fst (snapshot ob))" and "0 < maxAge"
    and "maxAge < now - LastPolledAt (fst (snapshot ob))"
  shows "let inp = inputs_of (dispatch now now ep msg ob) ready quorum staleness maxAge now
         in Reason (EvaluateTripleCheck inp) \<notin> {TripleCheckReasonStaleSnapshot,
              TripleCheckReasonNoSnapshot, TripleCheckReasonNoQuorum} \<and>
            maxAge < now - LastPolledAt (Primary (tcSnapshot inp))"
proof -
  obtain p where p: "holder ob = Some p" "OPQuorumOK p = (Quorum p = QuorumStatusOK)"
    "masterName ob = m" using obs_reach_inv[OF assms(1)] by (auto simp: obs_inv_def)
  have s: "fst (snapshot ob) = p" using p(1) by (simp add: snapshot_def load_def)
  have "dispatch now now ep msg ob =
      pubsub_publish ob (AList.update (Name ep) now (odown ob)) (Addr p) (OPSource p) now"
    using assms(3-5) p s
    by (simp add: dispatch_def ParseEventKind_def republish_def carry_def load_def
        pubsub_publish_def snapshot_def)
  then have d: "snapshot (dispatch now now ep msg ob) =
      (\<lparr>Addr = Addr p, Epoch = Epoch p, Quorum = Quorum p, OPQuorumOK = True, UpdatedAt = now,
        LastPolledAt = LastPolledAt p, OPSource = OPSource p,
        ODown = AList.update (Name ep) now (odown ob), ODownPull = odownPull ob\<rparr>, True)"
    using assms(6) p s by (simp add: snapshot_def[of "pubsub_publish _ _ _ _ _"] load_def)
  show ?thesis
    using assms(6-8) s by (simp add: Let_def inputs_of_def d EvaluateTripleCheck_def)
qed

definition polled3 :: observer where
  "polled3 = pollOnce id 10 11 12 [vote_for ''p:1'' True, vote_for ''p:1'' True, vote_for ''p:1'' True]
     (start (newObserver ''m'' [] ep3) 5)"

lemma polled3_reach:
  "obs_reach ''m'' [] ep3 polled3 (Some [vote_for ''p:1'' True, vote_for ''p:1'' True, vote_for ''p:1'' True])"
  unfolding polled3_def by (rule reach_poll[OF reach_start]) (simp_all add: ep3_def)

lemma polled3_snapshot: "OPQuorumOK (fst (snapshot polled3))" "LastPolledAt (fst (snapshot polled3)) = 11"
  unfolding polled3_def by code_simp+

definition down3 :: observer where
  "down3 = dispatch 1000 1000 \<lparr>Name = ''s-0'', EpAddr = ''a0''\<rparr> \<lparr>Channel = ''+odown'', Payload = ''master m p 1''\<rparr> polled3"

lemma down3_reach:
  "obs_reach ''m'' [] ep3 down3 (Some [vote_for ''p:1'' True, vote_for ''p:1'' True, vote_for ''p:1'' True])"
proof -
  have "\<lparr>Name = ''s-0'', EpAddr = ''a0''\<rparr> \<in> set (subTargets polled3)" unfolding polled3_def by code_simp
  then show ?thesis unfolding down3_def by (rule reach_dispatch[OF polled3_reach])
qed

lemma down3_snapshot:
  "ODown (fst (snapshot down3)) = [(''s-0'', 1000)]" "Quorum (fst (snapshot down3)) = QuorumStatusOK"
  "UpdatedAt (fst (snapshot down3)) = 1000"
  unfolding down3_def polled3_def by code_simp+

theorem triple_check_exact_witness:
  "Allow (EvaluateTripleCheck (inputs_of down3 False 1 60 30 1010))"
proof -
  have v: "down_voters (fst (snapshot down3)) 1010 60 = {''s-0''}"
    by (auto simp: down_voters_def down3_snapshot)
  have "ep3 \<noteq> []" by (simp add: ep3_def)
  from triple_check_exact[OF down3_reach this _ refl refl refl refl, of 60 False 1 30 1010]
  show ?thesis by (simp add: v down3_snapshot Sub_def window_consts)
qed

theorem stalled_poll_looks_fresh_witness:
  "Reason (EvaluateTripleCheck (inputs_of
     (dispatch 1000 1000 \<lparr>Name = ''s-0'', EpAddr = ''a0''\<rparr> \<lparr>Channel = ''+odown'', Payload = ''master m p 1''\<rparr> polled3)
     False 1 60 30 1000)) \<noteq> TripleCheckReasonStaleSnapshot"
proof -
  have e: "ParseMasterEvent ''master m p 1'' = Some \<lparr>MEMasterName = ''m'', MEAddr = ''p:1''\<rparr>"
    by code_simp
  have "\<lparr>Name = ''s-0'', EpAddr = ''a0''\<rparr> \<in> set (subTargets polled3)"
    unfolding polled3_def by code_simp
  from stalled_poll_looks_fresh[OF polled3_reach this, of
      "\<lparr>Channel = ''+odown'', Payload = ''master m p 1''\<rparr>" "\<lparr>MEMasterName = ''m'', MEAddr = ''p:1''\<rparr>"
      30 1000 False 1 60]
  show ?thesis using e polled3_snapshot by (simp add: Let_def)
qed

text \<open>
  Three or more +odown votes never arrive. The observer subscribes to at most two sentinels, so
  in every reachable state the check refuses every failover whose configured quorum exceeds two,
  whatever the sentinels report.
\<close>

theorem quorum_above_two_never_allows:
  assumes "obs_reach m pw eps ob lp" and "2 < quorum"
  shows "\<not> Allow (EvaluateTripleCheck (inputs_of ob ready quorum staleness maxAge now))"
proof -
  obtain p where p: "holder ob = Some p" "ODown p = odown ob"
    using obs_reach_inv[OF assms(1)] by (auto simp: obs_inv_def)
  have "length (odown ob) \<le> 2" by (rule odown_bounded[OF obs_reach_inv[OF assms(1)]])
  then have "ConsensusODown (ODown p) now staleness < quorum"
    using ConsensusODown_le[of "ODown p" now staleness] assms(2) p(2) by simp
  then show ?thesis
    using p(1) by (auto simp: allow_iff inputs_of_def snapshot_def load_def)
qed

theorem quorum_above_two_never_allows_witness:
  "\<not> Allow (EvaluateTripleCheck (inputs_of polled3 False 3 60 30 12))"
  by (rule quorum_above_two_never_allows[OF polled3_reach]) simp

end
