(* ===== verification/API_Types.thy ===== *)
theory API_Types
  imports Watchdog
begin

text \<open>
  The custom resource, \<^verbatim>\<open>api/v1beta1/valkey_types.go\<close> and
  \<^verbatim>\<open>api/v1beta1/valkey_status_types.go\<close>, restricted to the fields the modelled components read or
  write, together with the \<^verbatim>\<open>metav1.Condition\<close> values the status subresource holds and the two
  replica counts and two revisions the operator reads from a StatefulSet. A pointer field of the Go type is an option here;
  enumerated strings are datatypes, with a constructor for the empty string where the code tests
  for it.
\<close>

section \<open>Spec\<close>

datatype Mode = ModeStandalone | ModeReplication | ModeSentinel

record BootstrapNodeSpec =
  Host :: string
  Port :: int

record ReadinessGateSpec =
  Enabled :: "bool option"
  GateMaxLagBytes :: "int option"

record ValkeyPodSpec =
  Replicas :: int
  ReadinessGate :: ReadinessGateSpec

record SentinelPodSpec =
  MasterName :: string
  SentinelReplicas :: int
  SpecQuorum :: int
  DownAfterMilliseconds :: int
  FailoverTimeout :: int
  ParallelSyncs :: int

record RolloutSpec =
  MaxUnavailable :: int
  FailoverGracePeriodSeconds :: int
  ReplicaReadyTimeoutSeconds :: int
  MaxLagBytes :: int

record ValkeySpec =
  SpecMode :: Mode
  SpecValkey :: ValkeyPodSpec
  SpecSentinel :: "SentinelPodSpec option"
  BootstrapNode :: "BootstrapNodeSpec option"
  SpecRollout :: RolloutSpec

section \<open>Status\<close>

datatype ConditionStatus = ConditionTrue | ConditionFalse | ConditionUnknown

record Condition =
  CondType :: string
  CondStatus :: ConditionStatus
  Reason :: string
  Message :: string
  ObservedGeneration :: int

datatype PVCResizePhase =
    PVCResizePhaseUnset
  | PVCResizePhaseDetected
  | PVCResizePhaseValidated
  | PVCResizePhaseStsOrphaned
  | PVCResizePhasePVCsPatched
  | PVCResizePhaseStsRecreated
  | PVCResizePhaseVerified
  | PVCResizePhaseAborted

record PVCResizeStatus =
  ResizePhase :: PVCResizePhase
  Attempt :: int
  StartedAt :: "gotime option"
  LastTransitionAt :: "gotime option"
  LastStuckEventAt :: "gotime option"
  ResizeMessage :: string

record FailoverDispatchStatus =
  PreStripAddr :: string
  FDDeadline :: "gotime option"
  PreStripEpoch :: int

datatype SuspendedState = SuspendedRolloutPending | SuspendedRolloutReplicas

record RolloutStatus =
  PVCResize :: "PVCResizeStatus option"
  MasterAware :: "MasterAwareRolloutStatus option"
  SuspendedFrom :: "SuspendedState option"
  FailoverDispatch :: "FailoverDispatchStatus option"

definition emptyRolloutStatus :: RolloutStatus where
  "emptyRolloutStatus =
     \<lparr>PVCResize = None, MasterAware = None, SuspendedFrom = None, FailoverDispatch = None\<rparr>"

record ValkeyStatus =
  Conditions :: "Condition list"
  StatusPhase :: string
  Rollout :: "RolloutStatus option"
  StatusPrimaryPod :: string

record Valkey =
  ObjName :: string
  Namespace :: string
  Generation :: int
  Spec :: ValkeySpec
  Status :: ValkeyStatus

section \<open>StatefulSet\<close>

record StatefulSet =
  StsReplicas :: "int option"
  ReadyReplicas :: int
  UpdateRevision :: string
  CurrentRevision :: string

abbreviation mode_of :: "Valkey \<Rightarrow> Mode" where
  "mode_of v \<equiv> SpecMode (Spec v)"

abbreviation replicas_of :: "Valkey \<Rightarrow> int" where
  "replicas_of v \<equiv> Replicas (SpecValkey (Spec v))"

text \<open>The replica count a StatefulSet asks for, with the code's zero for an unset pointer.\<close>

definition desired :: "StatefulSet \<Rightarrow> int" where
  "desired sts = (case StsReplicas sts of None \<Rightarrow> 0 | Some n \<Rightarrow> n)"

end
