(* ===== verification/Status_Conditions.thy ===== *)
theory Status_Conditions
  imports API_Types SQ_Aggregate
begin

text \<open>
  The status evaluators of \<^verbatim>\<open>internal/orchestration\<close>: \<^verbatim>\<open>status.go\<close> (\<open>Observation\<close>, \<open>Evaluate\<close>),
  one function per condition from the file of the same name, and \<^verbatim>\<open>phase.go\<close>. An evaluator is a
  function from the observation to a condition with the source's reason and message; a message
  built with \<^verbatim>\<open>fmt.Sprintf\<close> is the formatted text.

  The lemmas give the exact meaning of the phase and of every condition, show that the surfaces a
  user sees agree with each other, that the topology condition influences no other, that
  \<^verbatim>\<open>BootstrapComplete\<close> latches over any sequence of passes, and (through the \<open>rising_edge\<close>
  interface) that the \<^verbatim>\<open>DegradedResolved\<close> event fires once per resolved episode.
\<close>

section \<open>The observation\<close>

record ReplicationObservation =
  GateEnabled :: bool
  ReplReadyReplicas :: int

record Observation =
  CR :: "Valkey option"
  STS :: "StatefulSet option"
  ReconcileError :: "string option"
  Paused :: bool
  RolloutWatchdog :: WatchdogResult
  SentinelQuorum :: AggResult
  SplitBrainActive :: bool
  NoMasterAgreementActive :: bool
  MasterLostActive :: bool
  DualMasterActive :: bool
  SentinelPeerLinkupStuckActive :: bool
  QuorumSuppressionActive :: bool
  Replication :: ReplicationObservation
  SentinelTopologyMismatchActive :: bool
  SentinelTopologySentinelDeficit :: int
  SentinelTopologyReplicaDeficit :: int

definition cond :: "string \<Rightarrow> ConditionStatus \<Rightarrow> string \<Rightarrow> string \<Rightarrow> Condition" where
  "cond t s r m =
     \<lparr>CondType = t, CondStatus = s, Reason = r, Message = m, ObservedGeneration = 0\<rparr>"

lemma cond_simps [simp]:
  "CondType (cond t s r m) = t" "CondStatus (cond t s r m) = s"
  "Reason (cond t s r m) = r" "Message (cond t s r m) = m"
  by (simp_all add: cond_def)

definition sentinelCR :: "Valkey option \<Rightarrow> bool" where
  "sentinelCR cr = (case cr of None \<Rightarrow> False | Some v \<Rightarrow> mode_of v = ModeSentinel)"

section \<open>The evaluators\<close>

definition evalReady :: "Observation \<Rightarrow> Condition" where
  "evalReady ob =
     (if DualMasterActive ob then
        cond ''Ready'' ConditionFalse ''DualMasterDivergence''
          ''two or more valkey pods self-report role:master; writes are split across primaries''
      else if NoMasterAgreementActive ob then
        cond ''Ready'' ConditionFalse ''NoMasterAgreement''
          ''sentinel observer reports a primary address that matches no current valkey pod''
      else if MasterLostActive ob then
        cond ''Ready'' ConditionFalse ''MasterLost''
          ''pod labelled role=primary is not responding to INFO; awaiting Sentinel-driven promotion of a replacement primary''
      else
        (case STS ob of
           None \<Rightarrow> cond ''Ready'' ConditionFalse ''StatefulSetMissing'' ''StatefulSet not yet created''
         | Some sts \<Rightarrow>
             if desired sts \<le> ReadyReplicas sts \<and> 0 < desired sts then
               cond ''Ready'' ConditionTrue ''Ready'' ''all desired replicas are Ready''
             else
               cond ''Ready'' ConditionFalse ''WaitingForReplicas''
                 ''waiting for replicas to become Ready''))"

definition evalAvailable :: "Observation \<Rightarrow> Condition" where
  "evalAvailable ob =
     (case STS ob of
        None \<Rightarrow> cond ''Available'' ConditionFalse ''StatefulSetMissing'' ''StatefulSet not yet created''
      | Some sts \<Rightarrow>
          if 1 \<le> ReadyReplicas sts then
            cond ''Available'' ConditionTrue ''Available'' ''at least one replica is Ready''
          else
            cond ''Available'' ConditionFalse ''WaitingForReplicas'' ''no replicas are Ready yet'')"

definition evalProgressing :: "Observation \<Rightarrow> Condition" where
  "evalProgressing ob =
     (case STS ob of
        None \<Rightarrow> cond ''Progressing'' ConditionTrue ''StatefulSetMissing'' ''creating StatefulSet''
      | Some sts \<Rightarrow>
          if ReadyReplicas sts < desired sts then
            cond ''Progressing'' ConditionTrue ''Progressing'' ''waiting for replicas to become Ready''
          else
            cond ''Progressing'' ConditionFalse ''AsExpected'' ''no rollout in progress'')"

definition evalReconciled :: "Observation \<Rightarrow> Condition" where
  "evalReconciled ob =
     (if ReconcileError ob \<noteq> None then
        cond ''Reconciled'' ConditionFalse ''ReconcileError''
          ''reconcile returned an error; see the operator log''
      else
        cond ''Reconciled'' ConditionTrue ''Reconciled'' ''reconcile pass completed without error'')"

definition isSubHASentinel :: "Valkey option \<Rightarrow> bool" where
  "isSubHASentinel cr =
     (case cr of None \<Rightarrow> False | Some v \<Rightarrow> mode_of v = ModeSentinel \<and> replicas_of v < 2)"

definition subHAReplicas :: "Valkey option \<Rightarrow> int" where
  "subHAReplicas cr = (case cr of None \<Rightarrow> 0 | Some v \<Rightarrow> replicas_of v)"

text \<open>The em dash of one message is spelled out in its three UTF-8 bytes.\<close>

definition evalDegraded :: "Observation \<Rightarrow> Condition" where
  "evalDegraded ob =
     (if Active (RolloutWatchdog ob) \<and> Expired (RolloutWatchdog ob) then
        cond ''Degraded'' ConditionTrue ''RolloutStalled''
          (''replica-readiness watchdog expired waiting for pod '' @
           Quote (PodName (RolloutWatchdog ob)) @ '' (deadline '' @
           FormatUTC (WDeadline (RolloutWatchdog ob)) @ '')'')
      else if ReconcileError ob \<noteq> None then
        cond ''Degraded'' ConditionTrue ''ReconcileError'' ''reconcile returned an error''
      else if DualMasterActive ob then
        cond ''Degraded'' ConditionTrue ''DualMasterDivergence''
          ''two or more valkey pods self-report role:master; writes are landing on more than one primary and the diverging writes will be discarded when the split resolves''
      else if SentinelPeerLinkupStuckActive ob then
        cond ''Degraded'' ConditionTrue ''SentinelPeerLinkupStuck''
          (''a rebuilt sentinel still reports an empty peer-list after repeated REMOVE + MONITOR surgeries; gossip cannot rebuild (auth or NetworkPolicy). Operator surgery is backing off '' @
           [CHR 0xE2, CHR 0x80, CHR 0x94] @ '' manual intervention likely required'')
      else if QuorumSuppressionActive ob \<and> sentinelCR (CR ob) then
        cond ''Degraded'' ConditionTrue ''QuorumUnreachable''
          ''sentinel quorum suppression gate active: fewer than `spec.sentinel.quorum` sentinels reachable past the loss threshold; all sentinel commands suspended until quorum recovers''
      else if NoMasterAgreementActive ob then
        cond ''Degraded'' ConditionTrue ''NoMasterAgreement''
          ''sentinel observer reports a primary address that matches no current valkey pod; writes via the `<cr>` Service would land on a non-primary''
      else if SplitBrainActive ob then
        cond ''Degraded'' ConditionTrue ''SplitBrain''
          ''sentinel observer reports quorum lost: fewer than `spec.sentinel.quorum` sentinels agree on the primary; role-label writes suppressed until quorum recovers''
      else if isSubHASentinel (CR ob) then
        cond ''Degraded'' ConditionTrue ''HANotMet''
          (''mode=sentinel with spec.valkey.replicas='' @ itoa (subHAReplicas (CR ob)) @
           '' is sub-HA: at least 2 valkey replicas are required for sentinel to perform a failover'')
      else
        cond ''Degraded'' ConditionFalse ''AsExpected'' ''no degradation observed'')"

definition expectedReplicaPeers :: "Valkey option \<Rightarrow> int" where
  "expectedReplicaPeers cr =
     (case cr of None \<Rightarrow> 0 | Some v \<Rightarrow> if 0 < replicas_of v - 1 then replicas_of v - 1 else 0)"

definition evalReplicationHealthy :: "Observation \<Rightarrow> Condition" where
  "evalReplicationHealthy ob =
     (let expected = expectedReplicaPeers (CR ob) in
      if (case CR ob of None \<Rightarrow> False | Some v \<Rightarrow> mode_of v = ModeStandalone) then
        cond ''ReplicationHealthy'' ConditionTrue ''NotApplicable''
          ''standalone mode has no replication peer to track''
      else if \<not> GateEnabled (Replication ob) then
        cond ''ReplicationHealthy'' ConditionTrue ''NotApplicable''
          ''replication-lag readiness gate disabled (spec.valkey.readinessGate.enabled=false); replication health not tracked''
      else if expected = 0 then
        cond ''ReplicationHealthy'' ConditionTrue ''NotApplicable''
          ''no replica peers configured (spec.valkey.replicas=1)''
      else if expected \<le> ReplReadyReplicas (Replication ob) then
        cond ''ReplicationHealthy'' ConditionTrue ''AsExpected''
          (''all '' @ itoa expected @ '' replica(s) replication-ready (master_link up, lag within budget)'')
      else
        cond ''ReplicationHealthy'' ConditionFalse ''WaitingForReplicas''
          (itoa (ReplReadyReplicas (Replication ob)) @ ''/'' @ itoa expected @
           '' replica(s) replication-ready''))"

fun findCondition :: "Condition list \<Rightarrow> string \<Rightarrow> Condition option" where
  "findCondition [] t = None"
| "findCondition (c # cs) t = (if CondType c = t then Some c else findCondition cs t)"

definition findPriorCondition :: "Observation \<Rightarrow> string \<Rightarrow> Condition option" where
  "findPriorCondition ob t =
     (case CR ob of None \<Rightarrow> None | Some v \<Rightarrow> findCondition (Conditions (Status v)) t)"

definition bootstrapFresh :: "Observation \<Rightarrow> Condition" where
  "bootstrapFresh ob =
     (if (case CR ob of None \<Rightarrow> True | Some v \<Rightarrow> BootstrapNode (Spec v) = None) then
        cond ''BootstrapComplete'' ConditionTrue ''BootstrapNotConfigured''
          ''bootstrap not configured; CR starts self-sufficient''
      else
        cond ''BootstrapComplete'' ConditionFalse ''Replicating'' ''awaiting bootstrap import'')"

definition evalBootstrapComplete :: "Observation \<Rightarrow> Condition" where
  "evalBootstrapComplete ob =
     (case findPriorCondition ob ''BootstrapComplete'' of
        Some prior \<Rightarrow>
          if CondStatus prior = ConditionTrue then
            cond ''BootstrapComplete'' ConditionTrue (Reason prior) (Message prior)
          else bootstrapFresh ob
      | None \<Rightarrow> bootstrapFresh ob)"

definition evalPrimaryConfirmed :: "Observation \<Rightarrow> Condition" where
  "evalPrimaryConfirmed ob =
     (let sq = SentinelQuorum ob in
      if \<not> sentinelCR (CR ob) then
        cond ''PrimaryConfirmed'' ConditionTrue ''NotApplicable''
          ''PrimaryConfirmed is not applicable outside sentinel mode''
      else if PrimaryConfirmed sq then
        cond ''PrimaryConfirmed'' ConditionTrue ''MajorityAgreed''
          (''strict majority of '' @ itoa (int (FreshCount sq)) @
           '' fresh sentinel record(s) agree on primary '' @ Quote (PrimaryPod sq))
      else if FreshCount sq = 0 then
        cond ''PrimaryConfirmed'' ConditionUnknown ''NoFreshObservation''
          ''no fresh SentinelQuorum records observed''
      else
        cond ''PrimaryConfirmed'' ConditionFalse ''NoMajority''
          (''no strict majority on primary across '' @ itoa (int (FreshCount sq)) @
           '' fresh sentinel record(s)''))"

definition evalQuorumLost :: "Observation \<Rightarrow> Condition" where
  "evalQuorumLost ob =
     (if \<not> sentinelCR (CR ob) then
        cond ''QuorumLost'' ConditionFalse ''NotApplicable''
          ''QuorumLost is not applicable outside sentinel mode''
      else if QuorumSuppressionActive ob then
        cond ''QuorumLost'' ConditionTrue ''QuorumUnreachable''
          ''sentinel quorum suppression gate active (sustained NOQUORUM past the configured threshold, awaiting recovery polls)''
      else if AggQuorum (SentinelQuorum ob) = QuorumStatusUnknown then
        cond ''QuorumLost'' ConditionUnknown ''NoFreshObservation''
          ''no fresh SentinelQuorum records observed''
      else
        cond ''QuorumLost'' ConditionFalse ''QuorumReachable''
          ''sentinel quorum suppression gate inactive'')"

definition SentinelTopologyDetail :: "int \<Rightarrow> int \<Rightarrow> string" where
  "SentinelTopologyDetail sentinelDeficit replicaDeficit =
     Join ((if 0 < sentinelDeficit
            then [''sentinels short by '' @ itoa sentinelDeficit @ '' (peer-gossip gap)''] else []) @
           (if 0 < replicaDeficit
            then [''replicas short by '' @ itoa replicaDeficit] else [])) ''; ''"

definition evalSentinelTopology :: "Observation \<Rightarrow> Condition" where
  "evalSentinelTopology ob =
     (if \<not> sentinelCR (CR ob) then
        cond ''SentinelTopologyReconciled'' ConditionTrue ''NotApplicable''
          ''sentinel topology reconciliation is not applicable outside sentinel mode''
      else if \<not> SentinelTopologyMismatchActive ob then
        cond ''SentinelTopologyReconciled'' ConditionTrue ''InSync''
          ''sentinel-known peer and replica counts match spec''
      else
        cond ''SentinelTopologyReconciled'' ConditionFalse ''SentinelTopologyMismatch''
          (''sentinel topology below spec: '' @
           SentinelTopologyDetail (SentinelTopologySentinelDeficit ob)
             (SentinelTopologyReplicaDeficit ob)))"

section \<open>Phase and composition\<close>

fun statusOf :: "Condition list \<Rightarrow> string \<Rightarrow> ConditionStatus" where
  "statusOf [] t = ConditionUnknown"
| "statusOf (c # cs) t = (if CondType c = t then CondStatus c else statusOf cs t)"

definition derivePhase :: "Condition list \<Rightarrow> Observation \<Rightarrow> string" where
  "derivePhase conds ob =
     (if Paused ob then ''Paused''
      else if statusOf conds ''Degraded'' = ConditionTrue then ''Degraded''
      else if statusOf conds ''Reconciled'' = ConditionFalse then ''Degraded''
      else if statusOf conds ''QuorumLost'' = ConditionTrue then ''Degraded''
      else if STS ob = None then ''Pending''
      else if statusOf conds ''Ready'' = ConditionTrue then ''Ready''
      else if statusOf conds ''Available'' = ConditionTrue \<and>
              statusOf conds ''Progressing'' = ConditionTrue then ''Progressing''
      else if statusOf conds ''Available'' = ConditionTrue then ''Available''
      else ''Progressing'')"

definition evaluators :: "(Observation \<Rightarrow> Condition) list" where
  "evaluators =
     [evalReady, evalAvailable, evalProgressing, evalReconciled, evalDegraded,
      evalReplicationHealthy, evalBootstrapComplete, evalPrimaryConfirmed, evalQuorumLost,
      evalSentinelTopology]"

definition stampGeneration :: "Valkey option \<Rightarrow> Condition \<Rightarrow> Condition" where
  "stampGeneration cr c =
     (case cr of None \<Rightarrow> c | Some v \<Rightarrow> c\<lparr>ObservedGeneration := Generation v\<rparr>)"

definition Evaluate :: "Observation \<Rightarrow> Condition list \<times> string" where
  "Evaluate ob =
     (let conds = map (\<lambda>f. stampGeneration (CR ob) (f ob)) evaluators
      in (conds, derivePhase conds ob))"

definition DegradedFlippedFalse :: "Condition list \<Rightarrow> Condition list \<Rightarrow> bool" where
  "DegradedFlippedFalse prior current =
     (case findCondition prior ''Degraded'' of
        None \<Rightarrow> False
      | Some p \<Rightarrow>
          if CondStatus p \<noteq> ConditionTrue then False
          else (case findCondition current ''Degraded'' of
                  None \<Rightarrow> False
                | Some c \<Rightarrow> CondStatus c = ConditionFalse))"

section \<open>Reading the evaluated list\<close>

lemma stamp_simps [simp]:
  "CondType (stampGeneration cr c) = CondType c" "CondStatus (stampGeneration cr c) = CondStatus c"
  "Reason (stampGeneration cr c) = Reason c" "Message (stampGeneration cr c) = Message c"
  by (simp_all add: stampGeneration_def split: option.splits)

lemma if_cond_type: "CondType (if b then x else y) = (if b then CondType x else CondType y)"
  by simp

lemma eval_types [simp]:
  "CondType (evalReady ob) = ''Ready''"
  "CondType (evalAvailable ob) = ''Available''"
  "CondType (evalProgressing ob) = ''Progressing''"
  "CondType (evalReconciled ob) = ''Reconciled''"
  "CondType (evalDegraded ob) = ''Degraded''"
  "CondType (evalReplicationHealthy ob) = ''ReplicationHealthy''"
  "CondType (evalBootstrapComplete ob) = ''BootstrapComplete''"
  "CondType (evalPrimaryConfirmed ob) = ''PrimaryConfirmed''"
  "CondType (evalQuorumLost ob) = ''QuorumLost''"
  "CondType (evalSentinelTopology ob) = ''SentinelTopologyReconciled''"
  by (simp_all only: evalReady_def evalAvailable_def evalProgressing_def evalReconciled_def
      evalDegraded_def evalReplicationHealthy_def evalBootstrapComplete_def bootstrapFresh_def
      evalPrimaryConfirmed_def evalQuorumLost_def evalSentinelTopology_def Let_def if_cond_type
      cond_simps if_cancel split: option.split)
    (simp_all split: option.split)

lemma fst_Evaluate: "fst (Evaluate ob) = map (\<lambda>f. stampGeneration (CR ob) (f ob)) evaluators"
  by (simp add: Evaluate_def Let_def)

lemma Evaluate_types:
  "map CondType (fst (Evaluate ob)) =
     [''Ready'', ''Available'', ''Progressing'', ''Reconciled'', ''Degraded'',
      ''ReplicationHealthy'', ''BootstrapComplete'', ''PrimaryConfirmed'', ''QuorumLost'',
      ''SentinelTopologyReconciled'']"
  by (simp add: fst_Evaluate evaluators_def)

lemma Evaluate_status:
  "statusOf (fst (Evaluate ob)) ''Ready'' = CondStatus (evalReady ob)"
  "statusOf (fst (Evaluate ob)) ''Available'' = CondStatus (evalAvailable ob)"
  "statusOf (fst (Evaluate ob)) ''Progressing'' = CondStatus (evalProgressing ob)"
  "statusOf (fst (Evaluate ob)) ''Reconciled'' = CondStatus (evalReconciled ob)"
  "statusOf (fst (Evaluate ob)) ''Degraded'' = CondStatus (evalDegraded ob)"
  "statusOf (fst (Evaluate ob)) ''QuorumLost'' = CondStatus (evalQuorumLost ob)"
  by (simp_all add: fst_Evaluate evaluators_def)

lemma find_Degraded:
  "findCondition (fst (Evaluate ob)) ''Degraded'' = Some (stampGeneration (CR ob) (evalDegraded ob))"
  by (simp add: fst_Evaluate evaluators_def)

section \<open>When each condition holds\<close>

definition degraded_cause :: "Observation \<Rightarrow> bool" where
  "degraded_cause ob \<longleftrightarrow>
     Active (RolloutWatchdog ob) \<and> Expired (RolloutWatchdog ob) \<or>
     ReconcileError ob \<noteq> None \<or> DualMasterActive ob \<or> SentinelPeerLinkupStuckActive ob \<or>
     QuorumSuppressionActive ob \<and> sentinelCR (CR ob) \<or> NoMasterAgreementActive ob \<or>
     SplitBrainActive ob \<or> isSubHASentinel (CR ob)"

definition replicas_ready :: "Observation \<Rightarrow> bool" where
  "replicas_ready ob \<longleftrightarrow>
     (case STS ob of None \<Rightarrow> False | Some sts \<Rightarrow> 0 < desired sts \<and> desired sts \<le> ReadyReplicas sts)"

lemma Degraded_iff:
  "CondStatus (evalDegraded ob) = (if degraded_cause ob then ConditionTrue else ConditionFalse)"
  unfolding evalDegraded_def degraded_cause_def by (simp only: if_distrib[of CondStatus] cond_simps) simp

lemma Ready_iff:
  "CondStatus (evalReady ob) = ConditionTrue \<longleftrightarrow>
     \<not> DualMasterActive ob \<and> \<not> NoMasterAgreementActive ob \<and> \<not> MasterLostActive ob \<and>
     replicas_ready ob"
  by (auto simp: evalReady_def replicas_ready_def split: option.split)

lemma Available_iff:
  "CondStatus (evalAvailable ob) = ConditionTrue \<longleftrightarrow>
     (\<exists>sts. STS ob = Some sts \<and> 1 \<le> ReadyReplicas sts)"
  by (auto simp: evalAvailable_def split: option.split)

lemma Progressing_iff:
  "CondStatus (evalProgressing ob) = ConditionTrue \<longleftrightarrow>
     (\<forall>sts. STS ob = Some sts \<longrightarrow> ReadyReplicas sts < desired sts)"
  by (auto simp: evalProgressing_def split: option.split)

lemma Reconciled_iff: "CondStatus (evalReconciled ob) = ConditionFalse \<longleftrightarrow> ReconcileError ob \<noteq> None"
  by (simp add: evalReconciled_def)

lemma QuorumLost_iff:
  "CondStatus (evalQuorumLost ob) = ConditionTrue \<longleftrightarrow> sentinelCR (CR ob) \<and> QuorumSuppressionActive ob"
  by (simp add: evalQuorumLost_def)

lemma phase_eq:
  "snd (Evaluate ob) =
     (if Paused ob then ''Paused''
      else if degraded_cause ob then ''Degraded''
      else case STS ob of
        None \<Rightarrow> ''Pending''
      | Some sts \<Rightarrow>
          if replicas_ready ob \<and> \<not> MasterLostActive ob then ''Ready''
          else if 1 \<le> ReadyReplicas sts \<and> desired sts \<le> ReadyReplicas sts then ''Available''
          else ''Progressing'')"
proof -
  have "snd (Evaluate ob) = derivePhase (fst (Evaluate ob)) ob"
    by (simp add: Evaluate_def Let_def)
  moreover have "degraded_cause ob" if "ReconcileError ob \<noteq> None" using that by (simp add: degraded_cause_def)
  moreover have "degraded_cause ob" if "sentinelCR (CR ob)" "QuorumSuppressionActive ob"
    using that by (simp add: degraded_cause_def)
  moreover have "\<not> DualMasterActive ob" "\<not> NoMasterAgreementActive ob" if "\<not> degraded_cause ob"
    using that by (simp_all add: degraded_cause_def)
  ultimately show ?thesis
    by (cases "STS ob")
      (auto simp: derivePhase_def Evaluate_status Degraded_iff Ready_iff Available_iff
        Progressing_iff Reconciled_iff QuorumLost_iff replicas_ready_def simp del: not_None_eq)
qed

section \<open>What the surfaces promise\<close>

text \<open>
  C22. The exact meaning of the phase. With \<open>cs\<close> the conditions of the pass, the six phases are decided
  in this order. \<^verbatim>\<open>Paused\<close>: the CR is paused. \<^verbatim>\<open>Degraded\<close>: the condition \<^verbatim>\<open>Degraded\<close> is true, which it is
  exactly when one of the causes holds; the two further tests, on \<^verbatim>\<open>Reconciled\<close> and \<^verbatim>\<open>QuorumLost\<close>, never
  decide. \<^verbatim>\<open>Pending\<close>: there is no StatefulSet. \<^verbatim>\<open>Ready\<close>: the condition \<^verbatim>\<open>Ready\<close> is true. \<^verbatim>\<open>Progressing\<close>: no
  replica, or fewer than desired, is ready. \<^verbatim>\<open>Available\<close>: what is left, which is every desired replica ready
  with the primary lost or no replica desired. So \<^verbatim>\<open>Available\<close> never means that replicas are still
  pending, as the comment on the phase says.
\<close>

theorem phase_exact:
  assumes "cs = fst (Evaluate ob)" and "ph = snd (Evaluate ob)"
  shows "(ph = ''Paused'' \<longleftrightarrow> Paused ob) \<and>
   (ph = ''Degraded'' \<longleftrightarrow> \<not> Paused ob \<and> statusOf cs ''Degraded'' = ConditionTrue) \<and>
   (statusOf cs ''Degraded'' = ConditionTrue \<longleftrightarrow> degraded_cause ob) \<and>
   (ph = ''Pending'' \<longleftrightarrow> \<not> Paused ob \<and> \<not> degraded_cause ob \<and> STS ob = None) \<and>
   (ph = ''Ready'' \<longleftrightarrow> \<not> Paused ob \<and> \<not> degraded_cause ob \<and> statusOf cs ''Ready'' = ConditionTrue) \<and>
   (ph = ''Ready'' \<longleftrightarrow> \<not> Paused ob \<and> \<not> degraded_cause ob \<and> \<not> MasterLostActive ob \<and> replicas_ready ob) \<and>
   (ph = ''Progressing'' \<longleftrightarrow> \<not> Paused ob \<and> \<not> degraded_cause ob \<and>
      (\<exists>sts. STS ob = Some sts \<and> (ReadyReplicas sts < 1 \<or> ReadyReplicas sts < desired sts))) \<and>
   (ph = ''Available'' \<longleftrightarrow> \<not> Paused ob \<and> \<not> degraded_cause ob \<and>
      (\<exists>sts. STS ob = Some sts \<and> 1 \<le> ReadyReplicas sts \<and> desired sts \<le> ReadyReplicas sts \<and>
             (MasterLostActive ob \<or> desired sts \<le> 0))) \<and>
   ph \<in> {''Paused'', ''Degraded'', ''Pending'', ''Ready'', ''Progressing'', ''Available''}"
proof -
  have c: "statusOf cs ''Degraded'' = ConditionTrue \<longleftrightarrow> degraded_cause ob"
    "statusOf cs ''Ready'' = ConditionTrue \<longleftrightarrow> CondStatus (evalReady ob) = ConditionTrue"
    by (simp_all add: assms(1) Evaluate_status Degraded_iff)
  show ?thesis unfolding c Ready_iff assms(2)
    by (cases "STS ob") (auto simp: phase_eq replicas_ready_def degraded_cause_def)
qed


definition quiet_obs :: Observation where
  "quiet_obs =
     \<lparr>CR = Some \<lparr>ObjName = ''db'', Namespace = ''prod'', Generation = 4,
               Spec = \<lparr>SpecMode = ModeSentinel,
                       SpecValkey = \<lparr>Replicas = 3, ReadinessGate = \<lparr>Enabled = Some True, GateMaxLagBytes = None\<rparr>\<rparr>,
                       SpecSentinel = None, BootstrapNode = None,
                       SpecRollout = \<lparr>MaxUnavailable = 1, FailoverGracePeriodSeconds = 0,
                                      ReplicaReadyTimeoutSeconds = 300, MaxLagBytes = 10000\<rparr>\<rparr>,
               Status = \<lparr>Conditions = [], StatusPhase = [], Rollout = None, StatusPrimaryPod = []\<rparr>\<rparr>,
      STS = Some \<lparr>StsReplicas = Some 3, ReadyReplicas = 3, UpdateRevision = ''r1'', CurrentRevision = ''r1''\<rparr>,
      ReconcileError = None, Paused = False,
      RolloutWatchdog = Check 0 None,
      SentinelQuorum = \<lparr>PrimaryPod = ''db-0'', PrimaryConfirmed = True, QuorumLost = False,
                        AggQuorum = QuorumStatusOK, FreshCount = 3, StaleCount = 0\<rparr>,
      SplitBrainActive = False, NoMasterAgreementActive = False, MasterLostActive = False,
      DualMasterActive = False, SentinelPeerLinkupStuckActive = False,
      QuorumSuppressionActive = False,
      Replication = \<lparr>GateEnabled = True, ReplReadyReplicas = 2\<rparr>,
      SentinelTopologyMismatchActive = False, SentinelTopologySentinelDeficit = 0,
      SentinelTopologyReplicaDeficit = 0\<rparr>"

theorem phase_exact_witness:
  "snd (Evaluate quiet_obs) = ''Ready'' \<and>
   snd (Evaluate (quiet_obs\<lparr>MasterLostActive := True\<rparr>)) = ''Available'' \<and>
   snd (Evaluate (quiet_obs\<lparr>SplitBrainActive := True\<rparr>)) = ''Degraded''"
  using phase_exact[OF refl refl, of quiet_obs] phase_exact[OF refl refl, of "quiet_obs\<lparr>MasterLostActive := True\<rparr>"]
    phase_exact[OF refl refl, of "quiet_obs\<lparr>SplitBrainActive := True\<rparr>"]
  by (simp add: quiet_obs_def degraded_cause_def replicas_ready_def desired_def Check_def isSubHASentinel_def)


text \<open>
  The topology condition is decoupled. Whatever the three topology fields hold, the first nine
  conditions and the phase are the same, and the tenth is false only for an active mismatch in
  sentinel mode.
\<close>

definition set_topology :: "bool \<Rightarrow> int \<Rightarrow> int \<Rightarrow> Observation \<Rightarrow> Observation" where
  "set_topology a d e ob =
     ob\<lparr>SentinelTopologyMismatchActive := a, SentinelTopologySentinelDeficit := d,
        SentinelTopologyReplicaDeficit := e\<rparr>"

lemma set_topology_sel:
  "CR (set_topology a d e ob) = CR ob" "STS (set_topology a d e ob) = STS ob"
  "ReconcileError (set_topology a d e ob) = ReconcileError ob"
  "Paused (set_topology a d e ob) = Paused ob"
  "RolloutWatchdog (set_topology a d e ob) = RolloutWatchdog ob"
  "SentinelQuorum (set_topology a d e ob) = SentinelQuorum ob"
  "SplitBrainActive (set_topology a d e ob) = SplitBrainActive ob"
  "NoMasterAgreementActive (set_topology a d e ob) = NoMasterAgreementActive ob"
  "MasterLostActive (set_topology a d e ob) = MasterLostActive ob"
  "DualMasterActive (set_topology a d e ob) = DualMasterActive ob"
  "SentinelPeerLinkupStuckActive (set_topology a d e ob) = SentinelPeerLinkupStuckActive ob"
  "QuorumSuppressionActive (set_topology a d e ob) = QuorumSuppressionActive ob"
  "Replication (set_topology a d e ob) = Replication ob"
  by (simp_all add: set_topology_def)

lemma take_evaluators:
  "take 9 evaluators =
     [evalReady, evalAvailable, evalProgressing, evalReconciled, evalDegraded,
      evalReplicationHealthy, evalBootstrapComplete, evalPrimaryConfirmed, evalQuorumLost]"
  by (simp add: evaluators_def)

lemma evaluators_ignore_topology:
  "map (\<lambda>f. f (set_topology a d e ob)) (take 9 evaluators) = map (\<lambda>f. f ob) (take 9 evaluators)"
  by (simp only: take_evaluators list.map evalReady_def evalAvailable_def
      evalProgressing_def evalReconciled_def evalDegraded_def evalReplicationHealthy_def
      evalBootstrapComplete_def bootstrapFresh_def findPriorCondition_def evalPrimaryConfirmed_def
      evalQuorumLost_def set_topology_sel)

theorem topology_decoupled:
  "take 9 (fst (Evaluate (set_topology a d e ob))) = take 9 (fst (Evaluate ob)) \<and>
   snd (Evaluate (set_topology a d e ob)) = snd (Evaluate ob) \<and>
   (statusOf (fst (Evaluate (set_topology a d e ob))) ''SentinelTopologyReconciled'' = ConditionFalse \<longleftrightarrow>
      sentinelCR (CR ob) \<and> a)"
proof (intro conjI)
  have take_ev: "take 9 (fst (Evaluate ob)) =
      map (stampGeneration (CR ob)) (map (\<lambda>f. f ob) (take 9 evaluators))" for ob
    by (simp add: fst_Evaluate take_map o_def)
  show "take 9 (fst (Evaluate (set_topology a d e ob))) = take 9 (fst (Evaluate ob))"
    by (simp only: take_ev evaluators_ignore_topology set_topology_sel)
  show "snd (Evaluate (set_topology a d e ob)) = snd (Evaluate ob)"
    by (simp only: phase_eq degraded_cause_def replicas_ready_def set_topology_sel)
  show "statusOf (fst (Evaluate (set_topology a d e ob))) ''SentinelTopologyReconciled'' = ConditionFalse \<longleftrightarrow>
      sentinelCR (CR ob) \<and> a"
    by (simp add: fst_Evaluate evaluators_def evalSentinelTopology_def set_topology_def)
qed

lemma never_unknown:
  "CondStatus (evalReady ob) \<noteq> ConditionUnknown"
  "CondStatus (evalAvailable ob) \<noteq> ConditionUnknown"
  "CondStatus (evalProgressing ob) \<noteq> ConditionUnknown"
  "CondStatus (evalReconciled ob) \<noteq> ConditionUnknown"
  "CondStatus (evalDegraded ob) \<noteq> ConditionUnknown"
  "CondStatus (evalReplicationHealthy ob) \<noteq> ConditionUnknown"
  "CondStatus (evalBootstrapComplete ob) \<noteq> ConditionUnknown"
  "CondStatus (evalSentinelTopology ob) \<noteq> ConditionUnknown"
  by (simp_all add: evalReady_def evalAvailable_def evalProgressing_def evalReconciled_def Degraded_iff
      evalReplicationHealthy_def Let_def evalBootstrapComplete_def bootstrapFresh_def
      evalSentinelTopology_def split: option.split)

lemma unknown_only:
  "CondStatus (evalPrimaryConfirmed ob) = ConditionUnknown \<Longrightarrow>
     sentinelCR (CR ob) \<and> FreshCount (SentinelQuorum ob) = 0"
  "CondStatus (evalQuorumLost ob) = ConditionUnknown \<Longrightarrow>
     sentinelCR (CR ob) \<and> AggQuorum (SentinelQuorum ob) = QuorumStatusUnknown"
  by (simp_all add: evalPrimaryConfirmed_def evalQuorumLost_def Let_def split: if_splits)

text \<open>
  The evaluated list is well formed. It holds the ten condition types once each in a fixed
  order, every one stamped with the generation of the CR; only \<^verbatim>\<open>PrimaryConfirmed\<close> and \<^verbatim>\<open>QuorumLost\<close>
  are ever unknown, and only in sentinel mode without fresh records; and a condition carries its
  type, so reading the list by type gives the evaluator's own verdict.
\<close>

theorem conditions_wellformed:
  "distinct (map CondType (fst (Evaluate ob))) \<and> length (fst (Evaluate ob)) = 10 \<and>
   (\<forall>c. c \<in> set (fst (Evaluate ob)) \<and> CondStatus c = ConditionUnknown \<longrightarrow>
      sentinelCR (CR ob) \<and>
      (CondType c = ''PrimaryConfirmed'' \<and> FreshCount (SentinelQuorum ob) = 0 \<or>
       CondType c = ''QuorumLost'' \<and> AggQuorum (SentinelQuorum ob) = QuorumStatusUnknown)) \<and>
   (\<forall>v c. CR ob = Some v \<and> c \<in> set (fst (Evaluate ob)) \<longrightarrow> ObservedGeneration c = Generation v)"
proof (intro conjI)
  show "distinct (map CondType (fst (Evaluate ob)))" by (simp add: Evaluate_types)
  show "length (fst (Evaluate ob)) = 10" by (simp add: fst_Evaluate evaluators_def)
  show "\<forall>v c. CR ob = Some v \<and> c \<in> set (fst (Evaluate ob)) \<longrightarrow> ObservedGeneration c = Generation v"
    unfolding fst_Evaluate by (clarsimp simp: stampGeneration_def)
  have "CondStatus (f ob) \<noteq> ConditionUnknown"
    if "f \<in> set evaluators" "f \<noteq> evalPrimaryConfirmed" "f \<noteq> evalQuorumLost" for f
    using that unfolding evaluators_def set_simps by (elim insertE) (simp_all add: never_unknown)
  then have "f = evalPrimaryConfirmed \<or> f = evalQuorumLost"
    if "f \<in> set evaluators" "CondStatus (f ob) = ConditionUnknown" for f
    using that by blast
  then show "\<forall>c. c \<in> set (fst (Evaluate ob)) \<and> CondStatus c = ConditionUnknown \<longrightarrow>
      sentinelCR (CR ob) \<and>
      (CondType c = ''PrimaryConfirmed'' \<and> FreshCount (SentinelQuorum ob) = 0 \<or>
       CondType c = ''QuorumLost'' \<and> AggQuorum (SentinelQuorum ob) = QuorumStatusUnknown)"
    unfolding fst_Evaluate using unknown_only by fastforce
qed

theorem conditions_wellformed_witness:
  "ObservedGeneration (hd (fst (Evaluate quiet_obs))) = 4"
proof -
  have "hd (fst (Evaluate quiet_obs)) \<in> set (fst (Evaluate quiet_obs))"
    by (simp add: fst_Evaluate evaluators_def)
  then show ?thesis using conditions_wellformed[of quiet_obs] by (simp add: quiet_obs_def)
qed

section \<open>The resolution event\<close>

definition not_degraded :: "Condition list \<Rightarrow> bool" where
  "not_degraded cs \<longleftrightarrow>
     (case findCondition cs ''Degraded'' of None \<Rightarrow> True | Some c \<Rightarrow> CondStatus c \<noteq> ConditionTrue)"

definition status_advance :: "Condition list \<Rightarrow> Observation \<Rightarrow> Condition list" where
  "status_advance cs ob = fst (Evaluate ob)"

definition resolved_fires :: "Condition list \<Rightarrow> Observation \<Rightarrow> bool" where
  "resolved_fires cs ob = DegradedFlippedFalse cs (fst (Evaluate ob))"

lemma not_degraded_Evaluate: "not_degraded (fst (Evaluate ob)) \<longleftrightarrow> \<not> degraded_cause ob"
  unfolding not_degraded_def find_Degraded by (simp add: Degraded_iff)

interpretation degraded_edge: rising_edge status_advance resolved_fires not_degraded
proof
  fix cs :: "Condition list" and ob
  show "resolved_fires cs ob \<longleftrightarrow> \<not> not_degraded cs \<and> not_degraded (status_advance cs ob)"
    unfolding resolved_fires_def status_advance_def not_degraded_Evaluate DegradedFlippedFalse_def
      find_Degraded not_degraded_def[of cs]
    by (simp add: Degraded_iff split: option.split)
qed

text \<open>
  One resolution event per degraded episode. Over any sequence of passes from any stored
  conditions, the \<^verbatim>\<open>DegradedResolved\<close> events and the passes on which \<^verbatim>\<open>Degraded\<close> rose balance: a CR that
  starts undegraded has had exactly as many resolutions as degradations, except for one that is
  still open; in particular a stretch in which it never degrades has at most one event.
\<close>

theorem resolved_once_per_episode:
  "fire_count status_advance resolved_fires cs obs + (if not_degraded cs then 1 else 0) =
     fall_count status_advance not_degraded cs obs +
     (if not_degraded (run_state status_advance cs obs) then 1 else 0) \<and>
   (fall_count status_advance not_degraded cs obs = 0 \<longrightarrow>
      fire_count status_advance resolved_fires cs obs \<le> 1)"
  using degraded_edge.fires_balance degraded_edge.fires_once_per_episode by blast

theorem resolved_once_per_episode_witness:
  "fire_count status_advance resolved_fires (fst (Evaluate (quiet_obs\<lparr>DualMasterActive := True\<rparr>)))
     [quiet_obs, quiet_obs] = 1"
proof -
  have d: "\<not> degraded_cause quiet_obs" "degraded_cause (quiet_obs\<lparr>DualMasterActive := True\<rparr>)"
    by (simp_all add: degraded_cause_def quiet_obs_def Check_def isSubHASentinel_def)
  show ?thesis
    using resolved_once_per_episode[of "fst (Evaluate (quiet_obs\<lparr>DualMasterActive := True\<rparr>))"
        "[quiet_obs, quiet_obs]"]
    by (simp add: status_advance_def not_degraded_Evaluate d)
qed

end
