(* ===== verification/Status_API.thy ===== *)
theory Status_API
  imports API_Types
begin

text \<open>
  The status subresource as the reconciler writes it. The client sends the difference between two
  copies of the object (\<^verbatim>\<open>client.MergeFrom\<close>) and the API server merges it into the stored object;
  neither is code of this repository, so the merge is a parameter \<open>merge orig new stored\<close> of the
  definitions that patch. What the code relies on is \<open>merge_patch\<close>: a field equal in both copies is
  not sent and keeps its stored value, a field set to nil is removed, and a changed field of an
  object whose stored value is the original one takes the new value, with every time serialised by
  \<open>wire\<close>; a changed string takes the new value whatever is stored. \<open>wire_time\<close> is the documented layout of \<^verbatim>\<open>metav1.Time\<close>, which keeps whole seconds.

  \<open>statusMerge\<close> with \<open>floorSecond\<close> is one such function; it is what the examples are evaluated
  with, and it shows that the hypotheses can hold.
\<close>

type_synonym merge = "ValkeyStatus \<Rightarrow> ValkeyStatus \<Rightarrow> ValkeyStatus \<Rightarrow> ValkeyStatus"

section \<open>Reading through the optional rollout block\<close>

definition rolloutOf :: "ValkeyStatus \<Rightarrow> RolloutStatus" where
  "rolloutOf st = (case Rollout st of None \<Rightarrow> emptyRolloutStatus | Some r \<Rightarrow> r)"

abbreviation dispatchOf :: "ValkeyStatus \<Rightarrow> FailoverDispatchStatus option" where
  "dispatchOf st \<equiv> FailoverDispatch (rolloutOf st)"

abbreviation masterAwareOf :: "ValkeyStatus \<Rightarrow> MasterAwareRolloutStatus option" where
  "masterAwareOf st \<equiv> MasterAware (rolloutOf st)"

abbreviation resizeOf :: "ValkeyStatus \<Rightarrow> PVCResizeStatus option" where
  "resizeOf st \<equiv> PVCResize (rolloutOf st)"

abbreviation suspendedOf :: "ValkeyStatus \<Rightarrow> SuspendedState option" where
  "suspendedOf st \<equiv> SuspendedFrom (rolloutOf st)"

definition updRollout :: "(RolloutStatus \<Rightarrow> RolloutStatus) \<Rightarrow> ValkeyStatus \<Rightarrow> ValkeyStatus" where
  "updRollout f st = st\<lparr>Rollout := Some (f (rolloutOf st))\<rparr>"

lemma rolloutOf_updRollout [simp]: "rolloutOf (updRollout f st) = f (rolloutOf st)"
  by (simp add: rolloutOf_def updRollout_def)

section \<open>The hypotheses\<close>

definition wire_time :: "(gotime \<Rightarrow> gotime) \<Rightarrow> bool" where
  "wire_time wire \<longleftrightarrow> (\<forall>t. wire t \<le> t \<and> t < wire t + Second)"

definition wireDispatch :: "(gotime \<Rightarrow> gotime) \<Rightarrow> FailoverDispatchStatus \<Rightarrow> FailoverDispatchStatus" where
  "wireDispatch wire m = m\<lparr>FDDeadline := map_option wire (FDDeadline m)\<rparr>"

definition wireMasterAware :: "(gotime \<Rightarrow> gotime) \<Rightarrow> MasterAwareRolloutStatus \<Rightarrow> MasterAwareRolloutStatus" where
  "wireMasterAware wire m =
     m\<lparr>MADeadline := map_option wire (MADeadline m), DeletedAt := map_option wire (DeletedAt m)\<rparr>"

definition wireResize :: "(gotime \<Rightarrow> gotime) \<Rightarrow> PVCResizeStatus \<Rightarrow> PVCResizeStatus" where
  "wireResize wire m =
     m\<lparr>StartedAt := map_option wire (StartedAt m), LastTransitionAt := map_option wire (LastTransitionAt m),
       LastStuckEventAt := map_option wire (LastStuckEventAt m)\<rparr>"

definition merged :: "('a \<Rightarrow> 'a) \<Rightarrow> 'a option \<Rightarrow> 'a option \<Rightarrow> 'a option \<Rightarrow> 'a option \<Rightarrow> bool" where
  "merged ser orig new stored res \<longleftrightarrow>
     (orig = new \<longrightarrow> res = stored) \<and>
     (orig \<noteq> new \<longrightarrow> new = None \<longrightarrow> res = None) \<and>
     (orig \<noteq> new \<longrightarrow> stored = orig \<longrightarrow> res = map_option ser new)"

definition merge_patch :: "(gotime \<Rightarrow> gotime) \<Rightarrow> merge \<Rightarrow> bool" where
  "merge_patch wire merge \<longleftrightarrow>
     (\<forall>orig new stored.
        merged (wireDispatch wire) (dispatchOf orig) (dispatchOf new) (dispatchOf stored)
          (dispatchOf (merge orig new stored)) \<and>
        merged (wireMasterAware wire) (masterAwareOf orig) (masterAwareOf new) (masterAwareOf stored)
          (masterAwareOf (merge orig new stored)) \<and>
        merged (wireResize wire) (resizeOf orig) (resizeOf new) (resizeOf stored)
          (resizeOf (merge orig new stored)) \<and>
        suspendedOf (merge orig new stored) =
          (if suspendedOf orig = suspendedOf new then suspendedOf stored else suspendedOf new))"

lemma merge_patchD:
  assumes "merge_patch wire merge"
  shows
    "merged (wireDispatch wire) (dispatchOf orig) (dispatchOf new) (dispatchOf stored)
       (dispatchOf (merge orig new stored))"
    "merged (wireMasterAware wire) (masterAwareOf orig) (masterAwareOf new) (masterAwareOf stored)
       (masterAwareOf (merge orig new stored))"
    "suspendedOf (merge orig new stored) =
       (if suspendedOf orig = suspendedOf new then suspendedOf stored else suspendedOf new)"
    "merged (wireResize wire) (resizeOf orig) (resizeOf new) (resizeOf stored)
       (resizeOf (merge orig new stored))"
  using assms by (simp_all add: merge_patch_def)

section \<open>An instance\<close>

definition floorSecond :: "gotime \<Rightarrow> gotime" where
  "floorSecond t = t - t mod Second"

definition mergeField :: "('a \<Rightarrow> 'a) \<Rightarrow> 'a option \<Rightarrow> 'a option \<Rightarrow> 'a option \<Rightarrow> 'a option" where
  "mergeField ser orig new stored = (if orig = new then stored else map_option ser new)"

definition statusMerge :: merge where
  "statusMerge orig new stored =
     stored\<lparr>Rollout := Some ((rolloutOf stored)
       \<lparr>FailoverDispatch := mergeField (wireDispatch floorSecond) (dispatchOf orig) (dispatchOf new)
          (dispatchOf stored),
        MasterAware := mergeField (wireMasterAware floorSecond) (masterAwareOf orig)
          (masterAwareOf new) (masterAwareOf stored),
        PVCResize := mergeField (wireResize floorSecond) (resizeOf orig) (resizeOf new) (resizeOf stored),
        SuspendedFrom := (if suspendedOf orig = suspendedOf new then suspendedOf stored
          else suspendedOf new)\<rparr>)\<rparr>"

lemma wire_time_floorSecond: "wire_time floorSecond"
  by (simp add: wire_time_def floorSecond_def Second_def)

lemma merge_patch_statusMerge: "merge_patch floorSecond statusMerge"
  by (simp add: merge_patch_def merged_def statusMerge_def mergeField_def rolloutOf_def option.map_id)

end
