(* ===== verification/PVC_Resize.thy ===== *)
theory PVC_Resize
  imports Status_API
begin

text \<open>
  The resize of the data volumes: the detector (\<^verbatim>\<open>internal/pvcresize/detect.go\<close>), the gating
  functions (\<^verbatim>\<open>gating.go\<close>), the transitions (\<^verbatim>\<open>transitions.go\<close>) and their driver
  (\<^verbatim>\<open>internal/controller/valkey_controller_pvcresize.go\<close>).

  A quantity is the integer number of its least units, which is what \<^verbatim>\<open>Cmp\<close> compares; a missing
  request or capacity reads as zero, as the map lookup does. Every answer of the API server and every
  clock reading of one pass is a field of \<open>resizeEnv\<close>, among them the rendering of a quantity. A
  transition returns its result together with the writes it made, in order; the driver returns
  status, writes, events, requeue hint and whether it failed. The texts of events and the gauge are
  left out.

  The lemmas here reduce a pass to a function of the stored block; what runs of the machine do is in
  \<open>PVC_Resize_Runs\<close>.
\<close>

section \<open>Volumes, classes and quantities\<close>

type_synonym quantity = int

record PVC =
  PVCName :: string
  RequestSize :: quantity
  CapacitySize :: quantity
  StorageClassName :: "string option"

record StorageClass =
  ClassName :: string
  AllowVolumeExpansion :: "bool option"

record DataSts = StatefulSet +
  ClaimTemplates :: "(string \<times> quantity) list"

section \<open>The detector\<close>

datatype Outcome = OutcomeNoChange | OutcomeShrinkRejected | OutcomeExpansionNotSupported | OutcomeResizeNeeded

record Result =
  DOutcome :: Outcome
  Current :: quantity
  Desired :: quantity

record Inputs =
  DesiredSize :: quantity
  PVCs :: "PVC list"
  InStorageClass :: "StorageClass option"

fun smallestLoop :: "PVC list \<Rightarrow> bool \<Rightarrow> quantity \<Rightarrow> quantity" where
  "smallestLoop [] first smallest = smallest"
| "smallestLoop (p # ps) first smallest =
     (if first \<or> RequestSize p < smallest then smallestLoop ps False (RequestSize p)
      else smallestLoop ps first smallest)"

definition smallestCurrentSize :: "PVC list \<Rightarrow> quantity" where
  "smallestCurrentSize ps = smallestLoop ps True 0"

definition allowsExpansion :: "StorageClass option \<Rightarrow> bool" where
  "allowsExpansion sc = (case sc of None \<Rightarrow> False | Some c \<Rightarrow> AllowVolumeExpansion c = Some True)"

definition Detect :: "Inputs \<Rightarrow> Result" where
  "Detect inp =
     (if DesiredSize inp = 0 \<or> PVCs inp = [] then \<lparr>DOutcome = OutcomeNoChange, Current = 0, Desired = 0\<rparr>
      else
        (let cur = smallestCurrentSize (PVCs inp); des = DesiredSize inp in
         \<lparr>DOutcome =
            (if des = cur then OutcomeNoChange
             else if des < cur then OutcomeShrinkRejected
             else if \<not> allowsExpansion (InStorageClass inp) then OutcomeExpansionNotSupported
             else OutcomeResizeNeeded),
          Current = cur, Desired = des\<rparr>))"

section \<open>Gating\<close>

definition StallThreshold :: duration where
  "StallThreshold = 10 * Minute"

definition abortRetryBackoffs :: "duration list" where
  "abortRetryBackoffs = [1 * Minute, 5 * Minute, 15 * Minute, 1 * Hour]"

definition StallElapsed :: "gotime \<Rightarrow> gotime \<Rightarrow> duration" where
  "StallElapsed lastTransition now = (if IsZero lastTransition then 0 else Sub now lastTransition)"

definition IsStalled :: "gotime \<Rightarrow> gotime \<Rightarrow> bool" where
  "IsStalled lastTransition now \<longleftrightarrow> StallThreshold \<le> StallElapsed lastTransition now"

definition BackoffForAttempt :: "int \<Rightarrow> duration" where
  "BackoffForAttempt attempt =
     (let idx = max (attempt - 1) 0;
          idx' = (if int (length abortRetryBackoffs) \<le> idx then int (length abortRetryBackoffs) - 1 else idx)
      in abortRetryBackoffs ! nat idx')"

definition BackoffRemaining :: "gotime \<Rightarrow> int \<Rightarrow> gotime \<Rightarrow> duration" where
  "BackoffRemaining lastTransition attempt now =
     (if IsZero lastTransition then 0
      else
        (let wait = BackoffForAttempt attempt; elapsed = Sub now lastTransition
         in if wait \<le> elapsed then 0 else wait - elapsed))"

section \<open>Answers of the API server\<close>

datatype 'a fetched = Found 'a | NotFound | FetchError string

datatype deleteAnswer = DeleteDone | DeleteNotFound | DeleteError string

datatype pvcPatchAnswer = PVCPatched | PVCGone | PVCRejected string | PVCPatchError string

datatype statusAnswer = StatusDone | StatusConflict | StatusError

datatype resizeWrite = OrphanDelete | ResizePVC string quantity

record resizeEnv =
  quantityString :: "quantity \<Rightarrow> string"
  envPVCs :: "PVC list + string"
  envClass :: "string \<Rightarrow> StorageClass fetched"
  envSts :: "DataSts fetched"
  envDelete :: deleteAnswer
  envPVCsAgain :: "PVC list + string"
  envPatch :: "string \<Rightarrow> pvcPatchAnswer"
  answerInit :: statusAnswer
  answerStuck :: statusAnswer
  answerDrive :: statusAnswer
  clockWait :: gotime
  clockInit :: gotime
  clockStall :: gotime
  clockStuck :: gotime
  clockDrive :: gotime

section \<open>Transitions\<close>

datatype Action = ActionRequeue | ActionAdvance | ActionAbort | ActionComplete

record TransitionResult =
  TRAction :: Action
  NextPhase :: PVCResizePhase
  TRReason :: string
  TRMessage :: string
  TRRequeueAfter :: duration
  TREvent :: string

record Target =
  TargetSize :: quantity
  StsRequeueWait :: duration
  PvcRequeueWait :: duration
  PollInterval :: duration
  StsApplyWait :: duration

definition pvcResizeRequeueDefaults :: Target where
  "pvcResizeRequeueDefaults =
     \<lparr>TargetSize = 0, StsRequeueWait = 2 * Second, PvcRequeueWait = 5 * Second, PollInterval = 5 * Second,
      StsApplyWait = 1 * Second\<rparr>"

definition requeued :: "string \<Rightarrow> duration \<Rightarrow> TransitionResult" where
  "requeued msg d =
     \<lparr>TRAction = ActionRequeue, NextPhase = PVCResizePhaseUnset, TRReason = [], TRMessage = msg, TRRequeueAfter = d,
      TREvent = []\<rparr>"

definition advanced :: "PVCResizePhase \<Rightarrow> string \<Rightarrow> duration \<Rightarrow> TransitionResult" where
  "advanced ph msg d =
     \<lparr>TRAction = ActionAdvance, NextPhase = ph, TRReason = [], TRMessage = msg, TRRequeueAfter = d, TREvent = []\<rparr>"

definition aborted :: "string \<Rightarrow> string \<Rightarrow> TransitionResult" where
  "aborted reason msg =
     \<lparr>TRAction = ActionAbort, NextPhase = PVCResizePhaseUnset, TRReason = reason, TRMessage = msg, TRRequeueAfter = 0,
      TREvent = reason\<rparr>"

definition FromValidated :: "resizeEnv \<Rightarrow> Target \<Rightarrow> TransitionResult \<times> resizeWrite list" where
  "FromValidated env t =
     (case envSts env of
        NotFound \<Rightarrow>
          (advanced PVCResizePhaseStsOrphaned ''STS already absent; fast-forwarding to StsOrphaned'' (StsRequeueWait t), [])
      | FetchError e \<Rightarrow> (requeued (''read STS for orphan-delete: '' @ e) (StsRequeueWait t), [])
      | Found sts \<Rightarrow>
          (case envDelete env of
             DeleteNotFound \<Rightarrow>
               (advanced PVCResizePhaseStsOrphaned ''STS deleted by a concurrent actor'' (StsRequeueWait t), [])
           | DeleteError e \<Rightarrow> (requeued (''orphan-delete STS: '' @ e) (StsRequeueWait t), [])
           | DeleteDone \<Rightarrow>
               (advanced PVCResizePhaseStsOrphaned ''StatefulSet orphan-deleted; PVCs preserved for resize''
                  (StsRequeueWait t), [OrphanDelete])))"

fun patchLoop :: "resizeEnv \<Rightarrow> Target \<Rightarrow> PVC list \<Rightarrow> resizeWrite list \<Rightarrow> TransitionResult option \<times> resizeWrite list" where
  "patchLoop env t [] ws = (None, ws)"
| "patchLoop env t (p # ps) ws =
     (if TargetSize t \<le> RequestSize p then patchLoop env t ps ws
      else
        (case envPatch env (PVCName p) of
           PVCGone \<Rightarrow> patchLoop env t ps ws
         | PVCRejected e \<Rightarrow>
             (Some (aborted ''PVCExpansionFailed'' (''PVC '' @ Quote (PVCName p) @ '' rejected resize patch: '' @ e)), ws)
         | PVCPatchError e \<Rightarrow>
             (Some (requeued (''patching PVC '' @ Quote (PVCName p) @ '': '' @ e) (PvcRequeueWait t)), ws)
         | PVCPatched \<Rightarrow> patchLoop env t ps (ws @ [ResizePVC (PVCName p) (TargetSize t)])))"

definition FromStsOrphaned :: "resizeEnv \<Rightarrow> Target \<Rightarrow> TransitionResult \<times> resizeWrite list" where
  "FromStsOrphaned env t =
     (case envSts env of
        Found sts \<Rightarrow> (requeued ''waiting for orphan-deleted STS to clear cache'' (StsRequeueWait t), [])
      | FetchError e \<Rightarrow> (requeued (''read STS while waiting for clearance: '' @ e) (StsRequeueWait t), [])
      | NotFound \<Rightarrow>
          (case envPVCsAgain env of
             Inr e \<Rightarrow> (requeued (''listing PVCs for resize-patch: '' @ e) (PvcRequeueWait t), [])
           | Inl ps \<Rightarrow>
               (case patchLoop env t ps [] of
                  (Some r, ws) \<Rightarrow> (r, ws)
                | (None, ws) \<Rightarrow>
                    (advanced PVCResizePhasePVCsPatched
                       (''all PVCs patched to requested size '' @ quantityString env (TargetSize t)) (PollInterval t), ws))))"

text \<open>The bytes of the sign for "at least".\<close>

definition geSign :: string where
  "geSign = [CHR 0xE2, CHR 0x89, CHR 0xA5]"

fun firstSmaller :: "quantity \<Rightarrow> PVC list \<Rightarrow> PVC option" where
  "firstSmaller q [] = None"
| "firstSmaller q (p # ps) = (if CapacitySize p < q then Some p else firstSmaller q ps)"

definition FromPVCsPatched :: "resizeEnv \<Rightarrow> Target \<Rightarrow> TransitionResult \<times> resizeWrite list" where
  "FromPVCsPatched env t =
     (case envPVCsAgain env of
        Inr e \<Rightarrow> (requeued (''listing PVCs while polling capacity: '' @ e) (PollInterval t), [])
      | Inl ps \<Rightarrow>
          if ps = [] then
            (aborted ''PVCMissing'' ''no PVCs found while polling for capacity expansion; resize cannot proceed'', [])
          else
            (case firstSmaller (TargetSize t) ps of
               Some p \<Rightarrow>
                 (requeued (''PVC '' @ Quote (PVCName p) @ '' status.capacity '' @ quantityString env (CapacitySize p) @
                    '' < desired '' @ quantityString env (TargetSize t) @ ''; CSI expansion in flight'') (PollInterval t), [])
             | None \<Rightarrow>
                 (advanced PVCResizePhaseStsRecreated
                    (''all PVCs report capacity '' @ geSign @ '' '' @ quantityString env (TargetSize t) @ ''; ready for STS recreate'')
                    (StsApplyWait t), [])))"

fun firstSmallTemplate :: "quantity \<Rightarrow> (string \<times> quantity) list \<Rightarrow> (string \<times> quantity) option" where
  "firstSmallTemplate q [] = None"
| "firstSmallTemplate q (c # cs) = (if snd c < q then Some c else firstSmallTemplate q cs)"

definition FromStsRecreated :: "resizeEnv \<Rightarrow> Target \<Rightarrow> TransitionResult \<times> resizeWrite list" where
  "FromStsRecreated env t =
     (case envSts env of
        NotFound \<Rightarrow> (requeued ''awaiting Phase 2 STS recreation'' (StsApplyWait t), [])
      | FetchError e \<Rightarrow> (requeued (''read STS for recreate-check: '' @ e) (StsApplyWait t), [])
      | Found sts \<Rightarrow>
          (case firstSmallTemplate (TargetSize t) (ClaimTemplates sts) of
             Some c \<Rightarrow>
               (requeued (''STS volumeClaimTemplate '' @ Quote (fst c) @ '' has size '' @ quantityString env (snd c) @
                  '' < desired '' @ quantityString env (TargetSize t) @ ''; awaiting Phase 2 re-apply'') (StsApplyWait t), [])
           | None \<Rightarrow>
               (advanced PVCResizePhaseVerified ''StatefulSet recreated at the new size; awaiting pod readiness''
                  (PollInterval t), [])))"

definition FromVerified :: "resizeEnv \<Rightarrow> Target \<Rightarrow> TransitionResult \<times> resizeWrite list" where
  "FromVerified env t =
     (case envSts env of
        Found sts \<Rightarrow>
          (let want = (case StsReplicas sts of None \<Rightarrow> 0 | Some n \<Rightarrow> n) in
           if ReadyReplicas sts < want then
             (requeued (''readyReplicas '' @ itoa (ReadyReplicas sts) @ '' < spec.replicas '' @ itoa want) (PollInterval t), [])
           else
             (\<lparr>TRAction = ActionComplete, NextPhase = PVCResizePhaseUnset, TRReason = [],
               TRMessage = ''PVC resize complete; all pods Ready at the new size'', TRRequeueAfter = 0,
               TREvent = ''PVCResizeComplete''\<rparr>, []))
      | NotFound \<Rightarrow> (requeued ''read STS for ready-check: not found'' (PollInterval t), [])
      | FetchError e \<Rightarrow> (requeued (''read STS for ready-check: '' @ e) (PollInterval t), []))"

section \<open>The recorded phase\<close>

text \<open>A status pair is the reconcile's copy and the stored one.\<close>

definition currentPVCResizePhase :: "ValkeyStatus \<Rightarrow> PVCResizePhase" where
  "currentPVCResizePhase st = (case resizeOf st of None \<Rightarrow> PVCResizePhaseUnset | Some r \<Rightarrow> ResizePhase r)"

definition isPVCResizeInFlight :: "PVCResizePhase \<Rightarrow> bool" where
  "isPVCResizeInFlight ph \<longleftrightarrow>
     ph \<in> {PVCResizePhaseValidated, PVCResizePhaseStsOrphaned, PVCResizePhasePVCsPatched, PVCResizePhaseStsRecreated,
           PVCResizePhaseVerified}"

definition isPVCResizeGuardingPhase2 :: "PVCResizePhase \<Rightarrow> bool" where
  "isPVCResizeGuardingPhase2 ph \<longleftrightarrow>
     ph \<in> {PVCResizePhaseValidated, PVCResizePhaseStsOrphaned, PVCResizePhasePVCsPatched}"

definition patchResize ::
  "merge \<Rightarrow> statusAnswer \<Rightarrow> PVCResizeStatus option \<Rightarrow> ValkeyStatus \<times> ValkeyStatus \<Rightarrow> (ValkeyStatus \<times> ValkeyStatus) \<times> bool" where
  "patchResize merge ans val vs =
     (case ans of
        StatusDone \<Rightarrow>
          (let st = merge (fst vs) (updRollout (\<lambda>r. r\<lparr>PVCResize := val\<rparr>) (fst vs)) (snd vs) in ((st, st), False))
      | StatusConflict \<Rightarrow> (vs, False)
      | StatusError \<Rightarrow> (vs, True))"

definition nextResize :: "gotime \<Rightarrow> PVCResizePhase \<Rightarrow> string \<Rightarrow> PVCResizeStatus option \<Rightarrow> PVCResizeStatus" where
  "nextResize now phase msg prior =
     (let fresh = \<lparr>ResizePhase = phase, Attempt = 1, StartedAt = Some now, LastTransitionAt = Some now,
                   LastStuckEventAt = None, ResizeMessage = msg\<rparr>
      in case prior of
           None \<Rightarrow> fresh
         | Some p \<Rightarrow>
             if StartedAt p = None then fresh
             else fresh\<lparr>StartedAt := StartedAt p,
                        Attempt := (if phase = PVCResizePhaseValidated \<and> ResizePhase p \<noteq> phase
                                    then wrap32 (Attempt p + 1) else Attempt p)\<rparr>)"

definition writePVCResizeStatus ::
  "merge \<Rightarrow> gotime \<Rightarrow> statusAnswer \<Rightarrow> PVCResizePhase \<Rightarrow> string \<Rightarrow> ValkeyStatus \<times> ValkeyStatus \<Rightarrow>
   (ValkeyStatus \<times> ValkeyStatus) \<times> bool" where
  "writePVCResizeStatus merge now ans phase msg vs =
     (if currentPVCResizePhase (fst vs) = phase then (vs, False)
      else patchResize merge ans (Some (nextResize now phase msg (resizeOf (fst vs)))) vs)"

definition clearPVCResizeStatus ::
  "merge \<Rightarrow> statusAnswer \<Rightarrow> ValkeyStatus \<times> ValkeyStatus \<Rightarrow> (ValkeyStatus \<times> ValkeyStatus) \<times> bool" where
  "clearPVCResizeStatus merge ans vs =
     (if resizeOf (fst vs) = None then (vs, False) else patchResize merge ans None vs)"

definition pvcResizeStallRequeue :: duration where
  "pvcResizeStallRequeue = 1 * Minute"

definition pvcResizeIsStalled :: "gotime \<Rightarrow> ValkeyStatus \<Rightarrow> bool" where
  "pvcResizeIsStalled now st =
     (case resizeOf st of
        None \<Rightarrow> False
      | Some r \<Rightarrow>
          if \<not> isPVCResizeInFlight (ResizePhase r) then False
          else (case LastTransitionAt r of None \<Rightarrow> False | Some t \<Rightarrow> IsStalled t now))"

definition pvcResizeAbortedWaitRemaining :: "gotime \<Rightarrow> ValkeyStatus \<Rightarrow> duration" where
  "pvcResizeAbortedWaitRemaining now st =
     (case resizeOf st of
        None \<Rightarrow> 0
      | Some r \<Rightarrow> (case LastTransitionAt r of None \<Rightarrow> 0 | Some t \<Rightarrow> BackoffRemaining t (Attempt r) now))"

section \<open>The driver\<close>

record resizeOut =
  roStatus :: "ValkeyStatus \<times> ValkeyStatus"
  roWrites :: "resizeWrite list"
  roEvents :: "string list"
  roRequeue :: duration
  roError :: bool

definition roOut :: "ValkeyStatus \<times> ValkeyStatus \<Rightarrow> resizeWrite list \<Rightarrow> string list \<Rightarrow> duration \<Rightarrow> bool \<Rightarrow> resizeOut" where
  "roOut vs ws es d e = \<lparr>roStatus = vs, roWrites = ws, roEvents = es, roRequeue = (if e then 0 else d), roError = e\<rparr>"

text \<open>The stall event is recorded once per stall window, and the stamp that says so is stored first.\<close>

definition maybeEmitPVCStuckEvent ::
  "merge \<Rightarrow> gotime \<Rightarrow> statusAnswer \<Rightarrow> ValkeyStatus \<times> ValkeyStatus \<Rightarrow> (ValkeyStatus \<times> ValkeyStatus) \<times> bool \<times> string list" where
  "maybeEmitPVCStuckEvent merge now ans vs =
     (case resizeOf (fst vs) of
        None \<Rightarrow> (vs, False, [])
      | Some r \<Rightarrow>
          if (case (LastStuckEventAt r, LastTransitionAt r) of (Some s, Some t) \<Rightarrow> \<not> s < t | (Some s, None) \<Rightarrow> True | _ \<Rightarrow> False)
          then (vs, False, [])
          else
            (case patchResize merge ans (Some (r\<lparr>LastStuckEventAt := Some now\<rparr>)) vs of
               (vs', e) \<Rightarrow> (vs', e, if ans = StatusDone then [''PVCExpansionStuck''] else [])))"

definition transitionFrom :: "resizeEnv \<Rightarrow> Target \<Rightarrow> PVCResizePhase \<Rightarrow> (TransitionResult \<times> resizeWrite list) option" where
  "transitionFrom env t current =
     (case current of
        PVCResizePhaseValidated \<Rightarrow> Some (FromValidated env t)
      | PVCResizePhaseStsOrphaned \<Rightarrow> Some (FromStsOrphaned env t)
      | PVCResizePhasePVCsPatched \<Rightarrow> Some (FromPVCsPatched env t)
      | PVCResizePhaseStsRecreated \<Rightarrow> Some (FromStsRecreated env t)
      | PVCResizePhaseVerified \<Rightarrow> Some (FromVerified env t)
      | _ \<Rightarrow> None)"

definition drivePVCResize ::
  "merge \<Rightarrow> resizeEnv \<Rightarrow> PVCResizePhase \<Rightarrow> quantity \<Rightarrow> ValkeyStatus \<times> ValkeyStatus \<Rightarrow> resizeOut" where
  "drivePVCResize merge env current want vs =
     (case transitionFrom env (pvcResizeRequeueDefaults\<lparr>TargetSize := want\<rparr>) current of
        None \<Rightarrow> roOut vs [] [] 0 False
      | Some (r, ws) \<Rightarrow>
          (let es = (if TREvent r = [] then [] else [TREvent r]) in
           case TRAction r of
             ActionAdvance \<Rightarrow>
               (case writePVCResizeStatus merge (clockDrive env) (answerDrive env) (NextPhase r) (TRMessage r) vs of
                  (vs', e) \<Rightarrow> roOut vs' ws es (TRRequeueAfter r) e)
           | ActionRequeue \<Rightarrow> roOut vs ws es (TRRequeueAfter r) False
           | ActionAbort \<Rightarrow>
               (case writePVCResizeStatus merge (clockDrive env) (answerDrive env) PVCResizePhaseAborted (TRMessage r) vs of
                  (vs', e) \<Rightarrow> roOut vs' ws es 0 True)
           | ActionComplete \<Rightarrow>
               (case clearPVCResizeStatus merge (answerDrive env) vs of (vs', e) \<Rightarrow> roOut vs' ws es 0 e)))"

definition lookupStorageClassForPVCs :: "(string \<Rightarrow> StorageClass fetched) \<Rightarrow> PVC list \<Rightarrow> StorageClass option + string" where
  "lookupStorageClassForPVCs get ps =
     (if ps = [] then Inl None
      else
        (let name = (case StorageClassName (hd ps) of None \<Rightarrow> [] | Some n \<Rightarrow> n) in
         if name = [] then Inl None
         else (case get name of Found c \<Rightarrow> Inl (Some c) | NotFound \<Rightarrow> Inl None | FetchError e \<Rightarrow> Inr e)))"

definition rejectResize ::
  "merge \<Rightarrow> resizeEnv \<Rightarrow> string \<Rightarrow> string \<Rightarrow> ValkeyStatus \<times> ValkeyStatus \<Rightarrow> resizeOut" where
  "rejectResize merge env event msg vs =
     (case writePVCResizeStatus merge (clockInit env) (answerInit env) PVCResizePhaseAborted msg vs of
        (vs', e) \<Rightarrow> roOut vs' [] (if e then [] else [event]) 0 True)"

definition initiatedMessage :: "(quantity \<Rightarrow> string) \<Rightarrow> Result \<Rightarrow> string" where
  "initiatedMessage q res = ''PVC resize initiated: growing from '' @ q (Current res) @ '' to '' @ q (Desired res)"

definition startOrContinue ::
  "merge \<Rightarrow> resizeEnv \<Rightarrow> Result \<Rightarrow> ValkeyStatus \<times> ValkeyStatus \<Rightarrow> resizeOut" where
  "startOrContinue merge env res vs =
     (let current = currentPVCResizePhase (fst vs);
          wait = (if current = PVCResizePhaseAborted then pvcResizeAbortedWaitRemaining (clockWait env) (fst vs) else 0)
      in if 0 < wait then roOut vs [] [] wait False
         else
           (let msg = initiatedMessage (quantityString env) res;
                (vs1, err, es, cur) =
                  (if isPVCResizeInFlight current then (vs, False, [], current)
                   else (case writePVCResizeStatus merge (clockInit env) (answerInit env) PVCResizePhaseValidated msg vs of
                           (vs', e) \<Rightarrow> (vs', e, if e then [] else [''PVCResizeInitiated''], PVCResizePhaseValidated)))
            in if err then roOut vs1 [] [] 0 True
               else if pvcResizeIsStalled (clockStall env) (fst vs1) then
                 (case maybeEmitPVCStuckEvent merge (clockStuck env) (answerStuck env) vs1 of
                    (vs2, e, stuck) \<Rightarrow> roOut vs2 [] (es @ stuck) pvcResizeStallRequeue e)
               else
                 (let d = drivePVCResize merge env cur (Desired res) vs1
                  in d\<lparr>roEvents := es @ roEvents d\<rparr>)))"

definition shrinkMessage :: "(quantity \<Rightarrow> string) \<Rightarrow> Result \<Rightarrow> string" where
  "shrinkMessage q res =
     ''spec.valkey.persistence.size='' @ q (Desired res) @ '' is smaller than current PVC capacity '' @ q (Current res) @
     ''; shrinking not supported''"

definition unsupportedMessage :: "(quantity \<Rightarrow> string) \<Rightarrow> StorageClass option \<Rightarrow> Result \<Rightarrow> string" where
  "unsupportedMessage q sc res =
     ''StorageClass '' @ Quote (case sc of None \<Rightarrow> ''<unset>'' | Some c \<Rightarrow> ClassName c) @
     '' does not allow volume expansion; cannot grow PVCs from '' @ q (Current res) @ '' to '' @ q (Desired res)"

definition reconcilePVCResize ::
  "merge \<Rightarrow> resizeEnv \<Rightarrow> quantity option \<Rightarrow> ValkeyStatus \<times> ValkeyStatus \<Rightarrow> resizeOut" where
  "reconcilePVCResize merge env persistence vs =
     (case persistence of
        None \<Rightarrow> (case clearPVCResizeStatus merge (answerInit env) vs of (vs', e) \<Rightarrow> roOut vs' [] [] 0 e)
      | Some want \<Rightarrow>
          (case envPVCs env of
             Inr e \<Rightarrow> roOut vs [] [] 0 True
           | Inl ps \<Rightarrow>
               (case lookupStorageClassForPVCs (envClass env) ps of
                  Inr e \<Rightarrow> roOut vs [] [] 0 True
                | Inl sc \<Rightarrow>
                    (let res = Detect \<lparr>DesiredSize = want, PVCs = ps, InStorageClass = sc\<rparr>;
                         q = quantityString env
                     in case DOutcome res of
                          OutcomeNoChange \<Rightarrow>
                            (let current = currentPVCResizePhase (fst vs) in
                             if current \<noteq> PVCResizePhaseUnset then drivePVCResize merge env current want vs
                             else (case clearPVCResizeStatus merge (answerInit env) vs of (vs', e) \<Rightarrow> roOut vs' [] [] 0 e))
                        | OutcomeShrinkRejected \<Rightarrow>
                            rejectResize merge env ''PVCExpansionShrinkRejected'' (shrinkMessage q res) vs
                        | OutcomeExpansionNotSupported \<Rightarrow>
                            rejectResize merge env ''PVCExpansionNotSupported'' (unsupportedMessage q sc res) vs
                        | OutcomeResizeNeeded \<Rightarrow> startOrContinue merge env res vs))))"

section \<open>The machine on the recorded block\<close>

text \<open>
  With a fresh copy of the status, a pass is a function of the stored \<^verbatim>\<open>pvcResize\<close> block alone. The
  abstract machine below works on that block; \<open>reconcile_block\<close> says that the code implements it for
  every server that merges as documented.
\<close>

definition phaseOf :: "PVCResizeStatus option \<Rightarrow> PVCResizePhase" where
  "phaseOf r = (case r of None \<Rightarrow> PVCResizePhaseUnset | Some x \<Rightarrow> ResizePhase x)"

definition stored_as ::
  "(gotime \<Rightarrow> gotime) \<Rightarrow> statusAnswer \<Rightarrow> PVCResizeStatus option \<Rightarrow> PVCResizeStatus option \<Rightarrow> PVCResizeStatus option" where
  "stored_as wire ans val r = (if ans = StatusDone \<and> val \<noteq> r then map_option (wireResize wire) val else r)"

definition write_block ::
  "(gotime \<Rightarrow> gotime) \<Rightarrow> gotime \<Rightarrow> statusAnswer \<Rightarrow> PVCResizePhase \<Rightarrow> string \<Rightarrow> PVCResizeStatus option \<Rightarrow> PVCResizeStatus option" where
  "write_block wire now ans ph msg r =
     (if phaseOf r = ph then r else stored_as wire ans (Some (nextResize now ph msg r)) r)"

definition drive_block ::
  "(gotime \<Rightarrow> gotime) \<Rightarrow> resizeEnv \<Rightarrow> PVCResizePhase \<Rightarrow> quantity \<Rightarrow> PVCResizeStatus option \<Rightarrow> PVCResizeStatus option" where
  "drive_block wire env ph want r =
     (case transitionFrom env (pvcResizeRequeueDefaults\<lparr>TargetSize := want\<rparr>) ph of
        None \<Rightarrow> r
      | Some (t, ws) \<Rightarrow>
          (case TRAction t of
             ActionAdvance \<Rightarrow> write_block wire (clockDrive env) (answerDrive env) (NextPhase t) (TRMessage t) r
           | ActionRequeue \<Rightarrow> r
           | ActionAbort \<Rightarrow> write_block wire (clockDrive env) (answerDrive env) PVCResizePhaseAborted (TRMessage t) r
           | ActionComplete \<Rightarrow> stored_as wire (answerDrive env) None r))"

definition freshCopy :: "ValkeyStatus \<times> ValkeyStatus \<Rightarrow> bool" where
  "freshCopy vs \<longleftrightarrow> fst vs = snd vs"

abbreviation resizeBlock :: "ValkeyStatus \<times> ValkeyStatus \<Rightarrow> PVCResizeStatus option" where
  "resizeBlock vs \<equiv> resizeOf (snd vs)"

lemma phase_block: "freshCopy vs \<Longrightarrow> currentPVCResizePhase (fst vs) = phaseOf (resizeBlock vs)"
  by (simp add: currentPVCResizePhase_def phaseOf_def freshCopy_def)

lemma patch_block:
  assumes "merge_patch wire merge" and "freshCopy vs"
  shows "freshCopy (fst (patchResize merge ans val vs))"
    "resizeBlock (fst (patchResize merge ans val vs)) = stored_as wire ans val (resizeBlock vs)"
    "snd (patchResize merge ans val vs) \<longleftrightarrow> ans = StatusError"
proof -
  obtain s where vs: "vs = (s, s)" using assms(2) by (cases vs) (simp add: freshCopy_def)
  show "freshCopy (fst (patchResize merge ans val vs))" "snd (patchResize merge ans val vs) \<longleftrightarrow> ans = StatusError"
    by (simp_all add: vs patchResize_def freshCopy_def Let_def split: statusAnswer.split)
  show "resizeBlock (fst (patchResize merge ans val vs)) = stored_as wire ans val (resizeBlock vs)"
    using merge_patchD(4)[OF assms(1), of s "updRollout (\<lambda>r. r\<lparr>PVCResize := val\<rparr>) s" s]
    by (cases ans) (auto simp: vs patchResize_def stored_as_def merged_def Let_def)
qed

lemma write_status_block:
  assumes "merge_patch wire merge" and "freshCopy vs"
  shows "freshCopy (fst (writePVCResizeStatus merge now ans ph msg vs))"
    "resizeBlock (fst (writePVCResizeStatus merge now ans ph msg vs)) = write_block wire now ans ph msg (resizeBlock vs)"
    "snd (writePVCResizeStatus merge now ans ph msg vs) \<longleftrightarrow> ans = StatusError \<and> phaseOf (resizeBlock vs) \<noteq> ph"
  using assms(2) patch_block[OF assms] phase_block[OF assms(2)]
  by (auto simp: writePVCResizeStatus_def write_block_def freshCopy_def)

lemma clear_status_block:
  assumes "merge_patch wire merge" and "freshCopy vs"
  shows "freshCopy (fst (clearPVCResizeStatus merge ans vs))"
    "resizeBlock (fst (clearPVCResizeStatus merge ans vs)) = stored_as wire ans None (resizeBlock vs)"
    "snd (clearPVCResizeStatus merge ans vs) \<longleftrightarrow> ans = StatusError \<and> resizeBlock vs \<noteq> None"
  using assms(2) patch_block[OF assms]
  by (auto simp: clearPVCResizeStatus_def freshCopy_def stored_as_def)

lemma roOut_simps [simp]:
  "roStatus (roOut vs ws es d e) = vs" "roWrites (roOut vs ws es d e) = ws" "roEvents (roOut vs ws es d e) = es"
  "roError (roOut vs ws es d e) = e" "roRequeue (roOut vs ws es d e) = (if e then 0 else d)"
  by (simp_all add: roOut_def)

lemma drive_status_block:
  assumes "merge_patch wire merge" and "freshCopy vs"
  shows "freshCopy (roStatus (drivePVCResize merge env ph want vs)) \<and>
    resizeBlock (roStatus (drivePVCResize merge env ph want vs)) = drive_block wire env ph want (resizeBlock vs)"
proof (cases "transitionFrom env (pvcResizeRequeueDefaults\<lparr>TargetSize := want\<rparr>) ph")
  case None
  with assms(2) show ?thesis by (simp add: drivePVCResize_def drive_block_def)
next
  case (Some x)
  obtain t ws where x: "x = (t, ws)" by (cases x)
  with Some assms(2) write_status_block[OF assms] clear_status_block[OF assms] show ?thesis
    by (cases "TRAction t") (simp_all add: drivePVCResize_def drive_block_def Let_def case_prod_beta)
qed

text \<open>What a transition writes and emits does not depend on the status.\<close>

definition drive_effects :: "resizeEnv \<Rightarrow> PVCResizePhase \<Rightarrow> quantity \<Rightarrow> resizeWrite list \<times> string list" where
  "drive_effects env ph want =
     (case transitionFrom env (pvcResizeRequeueDefaults\<lparr>TargetSize := want\<rparr>) ph of
        None \<Rightarrow> ([], [])
      | Some (t, ws) \<Rightarrow> (ws, if TREvent t = [] then [] else [TREvent t]))"

lemma drive_outputs:
  "roWrites (drivePVCResize merge env ph want vs) = fst (drive_effects env ph want)"
  "roEvents (drivePVCResize merge env ph want vs) = snd (drive_effects env ph want)"
  by (auto simp: drivePVCResize_def drive_effects_def Let_def split: option.split prod.split Action.split)

section \<open>The detector\<close>

lemma smallestLoop_Min:
  "smallestLoop ps f m = (if f then (if ps = [] then m else Min (set (map RequestSize ps))) else Min (insert m (set (map RequestSize ps))))"
proof (induction ps arbitrary: f m)
  case (Cons p ps)
  show ?case
  proof (cases "f \<or> RequestSize p < m")
    case True
    then show ?thesis using Cons.IH[of False "RequestSize p"] by (auto simp: min_def)
  next
    case False
    then show ?thesis
      using Cons.IH[of f m]
      by (cases "ps = []") (auto simp: min_def insert_commute)
  qed
qed simp

lemma smallest_Min: "ps \<noteq> [] \<Longrightarrow> smallestCurrentSize ps = Min (set (map RequestSize ps))"
  by (simp add: smallestCurrentSize_def smallestLoop_Min)

section \<open>A pass as a function of the block\<close>

definition verdict :: "resizeEnv \<Rightarrow> quantity \<Rightarrow> (Result \<times> StorageClass option) option" where
  "verdict env want =
     (case envPVCs env of
        Inr e \<Rightarrow> None
      | Inl ps \<Rightarrow>
          (case lookupStorageClassForPVCs (envClass env) ps of
             Inr e \<Rightarrow> None
           | Inl sc \<Rightarrow> Some (Detect \<lparr>DesiredSize = want, PVCs = ps, InStorageClass = sc\<rparr>, sc)))"

definition stalled :: "gotime \<Rightarrow> PVCResizeStatus option \<Rightarrow> bool" where
  "stalled now r =
     (case r of
        None \<Rightarrow> False
      | Some x \<Rightarrow> isPVCResizeInFlight (ResizePhase x) \<and>
                  (case LastTransitionAt x of None \<Rightarrow> False | Some t \<Rightarrow> IsStalled t now))"

definition retryWait :: "gotime \<Rightarrow> PVCResizeStatus option \<Rightarrow> duration" where
  "retryWait now r =
     (case r of
        Some x \<Rightarrow>
          if ResizePhase x \<noteq> PVCResizePhaseAborted then 0
          else (case LastTransitionAt x of None \<Rightarrow> 0 | Some t \<Rightarrow> BackoffRemaining t (Attempt x) now)
      | None \<Rightarrow> 0)"

definition told :: "PVCResizeStatus option \<Rightarrow> bool" where
  "told r =
     (case r of
        None \<Rightarrow> True
      | Some x \<Rightarrow> (case (LastStuckEventAt x, LastTransitionAt x) of
                     (Some s, Some t) \<Rightarrow> \<not> s < t | (Some s, None) \<Rightarrow> True | _ \<Rightarrow> False))"

definition tell :: "gotime \<Rightarrow> PVCResizeStatus option \<Rightarrow> PVCResizeStatus option" where
  "tell now r = map_option (\<lambda>x. x\<lparr>LastStuckEventAt := Some now\<rparr>) r"

type_synonym blockOut = "PVCResizeStatus option \<times> resizeWrite list \<times> string list"

definition start_block :: "(gotime \<Rightarrow> gotime) \<Rightarrow> resizeEnv \<Rightarrow> Result \<Rightarrow> PVCResizeStatus option \<Rightarrow> blockOut" where
  "start_block wire env res r =
     (if 0 < retryWait (clockWait env) r then (r, [], [])
      else if \<not> isPVCResizeInFlight (phaseOf r) \<and> answerInit env = StatusError then (r, [], [])
      else
        (let going = isPVCResizeInFlight (phaseOf r);
             ph = (if going then phaseOf r else PVCResizePhaseValidated);
             es = (if going then [] else [''PVCResizeInitiated'']);
             r1 = (if going then r
                   else write_block wire (clockInit env) (answerInit env) PVCResizePhaseValidated
                          (initiatedMessage (quantityString env) res) r)
         in if stalled (clockStall env) r1 then
              ((if told r1 then r1 else stored_as wire (answerStuck env) (tell (clockStuck env) r1) r1), [],
               es @ (if \<not> told r1 \<and> answerStuck env = StatusDone then [''PVCExpansionStuck''] else []))
            else (drive_block wire env ph (Desired res) r1, fst (drive_effects env ph (Desired res)),
                  es @ snd (drive_effects env ph (Desired res)))))"

definition reject_block :: "(gotime \<Rightarrow> gotime) \<Rightarrow> resizeEnv \<Rightarrow> string \<Rightarrow> string \<Rightarrow> PVCResizeStatus option \<Rightarrow> blockOut" where
  "reject_block wire env event msg r =
     (write_block wire (clockInit env) (answerInit env) PVCResizePhaseAborted msg r, [],
      if answerInit env = StatusError \<and> phaseOf r \<noteq> PVCResizePhaseAborted then [] else [event])"

definition pass_block :: "(gotime \<Rightarrow> gotime) \<Rightarrow> resizeEnv \<Rightarrow> quantity option \<Rightarrow> PVCResizeStatus option \<Rightarrow> blockOut" where
  "pass_block wire env persistence r =
     (case persistence of
        None \<Rightarrow> (stored_as wire (answerInit env) None r, [], [])
      | Some want \<Rightarrow>
          (case verdict env want of
             None \<Rightarrow> (r, [], [])
           | Some (res, sc) \<Rightarrow>
               (case DOutcome res of
                  OutcomeNoChange \<Rightarrow>
                    if phaseOf r \<noteq> PVCResizePhaseUnset
                    then (drive_block wire env (phaseOf r) want r, drive_effects env (phaseOf r) want)
                    else (stored_as wire (answerInit env) None r, [], [])
                | OutcomeShrinkRejected \<Rightarrow>
                    reject_block wire env ''PVCExpansionShrinkRejected'' (shrinkMessage (quantityString env) res) r
                | OutcomeExpansionNotSupported \<Rightarrow>
                    reject_block wire env ''PVCExpansionNotSupported'' (unsupportedMessage (quantityString env) sc res) r
                | OutcomeResizeNeeded \<Rightarrow> start_block wire env res r)))"

lemma stalled_eq: "freshCopy vs \<Longrightarrow> pvcResizeIsStalled now (fst vs) = stalled now (resizeBlock vs)"
  by (auto simp: pvcResizeIsStalled_def stalled_def freshCopy_def split: option.split)

lemma retryWait_eq:
  "freshCopy vs \<Longrightarrow>
     (if currentPVCResizePhase (fst vs) = PVCResizePhaseAborted then pvcResizeAbortedWaitRemaining now (fst vs) else 0) =
     retryWait now (resizeBlock vs)"
  by (simp add: currentPVCResizePhase_def pvcResizeAbortedWaitRemaining_def retryWait_def freshCopy_def split: option.split)

lemma stuck_block:
  assumes "merge_patch wire merge" and "freshCopy vs"
  shows "freshCopy (fst (maybeEmitPVCStuckEvent merge now ans vs))"
    "resizeBlock (fst (maybeEmitPVCStuckEvent merge now ans vs)) =
       (if told (resizeBlock vs) then resizeBlock vs else stored_as wire ans (tell now (resizeBlock vs)) (resizeBlock vs))"
    "snd (snd (maybeEmitPVCStuckEvent merge now ans vs)) =
       (if \<not> told (resizeBlock vs) \<and> ans = StatusDone then [''PVCExpansionStuck''] else [])"
proof -
  have f: "resizeOf (fst vs) = resizeBlock vs" using assms(2) by (simp add: freshCopy_def)
  note p = patch_block[OF assms]
  show "freshCopy (fst (maybeEmitPVCStuckEvent merge now ans vs))"
    using assms(2) p(1) by (simp add: maybeEmitPVCStuckEvent_def f case_prod_beta split: option.split)
  show "resizeBlock (fst (maybeEmitPVCStuckEvent merge now ans vs)) =
       (if told (resizeBlock vs) then resizeBlock vs else stored_as wire ans (tell now (resizeBlock vs)) (resizeBlock vs))"
    "snd (snd (maybeEmitPVCStuckEvent merge now ans vs)) =
       (if \<not> told (resizeBlock vs) \<and> ans = StatusDone then [''PVCExpansionStuck''] else [])"
    by (cases "resizeBlock vs"; simp add: maybeEmitPVCStuckEvent_def f told_def tell_def p(2) case_prod_beta)+
qed

lemma inflight_validated: "\<not> isPVCResizeInFlight (phaseOf r) \<Longrightarrow> phaseOf r \<noteq> PVCResizePhaseValidated"
  by (auto simp: isPVCResizeInFlight_def)

definition outputs :: "resizeOut \<Rightarrow> blockOut" where
  "outputs d = (resizeBlock (roStatus d), roWrites d, roEvents d)"

lemma start_refines:
  assumes "merge_patch wire merge" and "freshCopy vs"
  shows "freshCopy (roStatus (startOrContinue merge env res vs)) \<and>
    outputs (startOrContinue merge env res vs) = start_block wire env res (resizeBlock vs)"
proof -
  let ?r = "resizeBlock vs" and ?ph = "currentPVCResizePhase (fst vs)"
  let ?msg = "initiatedMessage (quantityString env) res"
  let ?w = "writePVCResizeStatus merge (clockInit env) (answerInit env) PVCResizePhaseValidated ?msg vs"
  let ?vs1 = "if isPVCResizeInFlight (phaseOf ?r) then vs else fst ?w"
  let ?es = "if isPVCResizeInFlight (phaseOf ?r) then [] else [''PVCResizeInitiated'']"
  let ?p = "if isPVCResizeInFlight (phaseOf ?r) then phaseOf ?r else PVCResizePhaseValidated"
  have ph: "?ph = phaseOf ?r" by (rule phase_block[OF assms(2)])
  note w = write_status_block[OF assms, of "clockInit env" "answerInit env" PVCResizePhaseValidated ?msg]
  have f1: "freshCopy ?vs1" using assms(2) w(1) by simp
  have b1: "resizeBlock ?vs1 = (if isPVCResizeInFlight (phaseOf ?r) then ?r
      else write_block wire (clockInit env) (answerInit env) PVCResizePhaseValidated ?msg ?r)" using w(2) by simp
  note st = stuck_block[OF assms(1) f1, of "clockStuck env" "answerStuck env"]
  note dr = drive_status_block[OF assms(1) f1, of env ?p "Desired res"]
  note wait = retryWait_eq[OF assms(2), of "clockWait env", unfolded ph]
  have err: "\<not> isPVCResizeInFlight (phaseOf ?r) \<Longrightarrow> snd ?w = (answerInit env = StatusError)"
    using w(3) inflight_validated[of ?r] by simp
  have eq: "startOrContinue merge env res vs =
    (if 0 < retryWait (clockWait env) ?r then roOut vs [] [] (retryWait (clockWait env) ?r) False
     else if \<not> isPVCResizeInFlight (phaseOf ?r) \<and> answerInit env = StatusError then roOut ?vs1 [] [] 0 True
     else if stalled (clockStall env) (resizeBlock ?vs1) then
       (let m = maybeEmitPVCStuckEvent merge (clockStuck env) (answerStuck env) ?vs1
        in roOut (fst m) [] (?es @ snd (snd m)) pvcResizeStallRequeue (fst (snd m)))
     else (let d = drivePVCResize merge env ?p (Desired res) ?vs1 in d\<lparr>roEvents := ?es @ roEvents d\<rparr>))"
    unfolding startOrContinue_def Let_def ph wait stalled_eq[OF f1, symmetric]
    using err by (cases "isPVCResizeInFlight (phaseOf ?r)"; cases "answerInit env") (simp_all add: case_prod_beta)
  have same: "\<not> isPVCResizeInFlight (phaseOf ?r) \<Longrightarrow> answerInit env = StatusError \<Longrightarrow> resizeBlock (fst ?w) = ?r"
    using w(2) by (simp add: write_block_def stored_as_def)
  show ?thesis
    unfolding eq start_block_def Let_def b1[symmetric] outputs_def
    using assms(2) f1 st dr same by (auto simp: drive_outputs)
qed

theorem pass_refines:
  assumes "merge_patch wire merge" and "freshCopy vs"
  shows "freshCopy (roStatus (reconcilePVCResize merge env persistence vs)) \<and>
    outputs (reconcilePVCResize merge env persistence vs) = pass_block wire env persistence (resizeBlock vs)"
proof -
  note ph = phase_block[OF assms(2)]
  note c = clear_status_block[OF assms, of "answerInit env"]
  note w = write_status_block[OF assms, of "clockInit env" "answerInit env" PVCResizePhaseAborted]
  have rej: "freshCopy (roStatus (rejectResize merge env ev msg vs)) \<and>
      outputs (rejectResize merge env ev msg vs) = reject_block wire env ev msg (resizeBlock vs)" for ev msg
    using w by (simp add: rejectResize_def reject_block_def outputs_def case_prod_beta)
  show ?thesis
  proof (cases persistence)
    case None
    then show ?thesis using c by (simp add: reconcilePVCResize_def pass_block_def outputs_def case_prod_beta)
  next
    case (Some want)
    show ?thesis
    proof (cases "verdict env want")
      case None
      with Some assms(2) show ?thesis
        by (auto simp: verdict_def reconcilePVCResize_def pass_block_def outputs_def split: sum.splits)
    next
      case (Some v)
      then obtain ps sc where v: "envPVCs env = Inl ps" "lookupStorageClassForPVCs (envClass env) ps = Inl sc"
        "v = (Detect \<lparr>DesiredSize = want, PVCs = ps, InStorageClass = sc\<rparr>, sc)"
        by (auto simp: verdict_def split: sum.splits)
      show ?thesis
        using Some v \<open>persistence = Some want\<close> rej start_refines[OF assms] c drive_status_block[OF assms] ph
        by (cases "DOutcome (Detect \<lparr>DesiredSize = want, PVCs = ps, InStorageClass = sc\<rparr>)")
          (simp_all add: reconcilePVCResize_def pass_block_def Let_def outputs_def drive_outputs case_prod_beta)
    qed
  qed
qed

end
