(* ===== verification/PVC_Resize_Runs.thy ===== *)
theory PVC_Resize_Runs
  imports PVC_Resize
begin

text \<open>
  What the resize of the data volumes does over several passes: what each pass may write and when it
  may leave a phase, the number of passes a resize needs against a cluster that cooperates, the
  spacing of retries, the deduplication of the stall event, and two situations from which the machine
  does not come back on its own.
\<close>

section \<open>What earns a phase\<close>

lemma patchLoop_result:
  "patchLoop env t ps ws = (res, ws') \<Longrightarrow>
     (\<exists>new. ws' = ws @ new \<and>
        (\<forall>w\<in>set new. \<exists>p\<in>set ps. w = ResizePVC (PVCName p) (TargetSize t) \<and> RequestSize p < TargetSize t)) \<and>
     (res = None \<longrightarrow>
        (\<forall>p\<in>set ps. TargetSize t \<le> RequestSize p \<or> envPatch env (PVCName p) \<in> {PVCPatched, PVCGone})) \<and>
     (\<forall>r. res = Some r \<longrightarrow> TRAction r \<in> {ActionAbort, ActionRequeue})"
proof (induction ps arbitrary: ws)
  case (Cons p ps)
  show ?case
  proof (cases "TargetSize t \<le> RequestSize p")
    case True
    with Cons.prems have e: "patchLoop env t ps ws = (res, ws')" by simp
    from Cons.IH[OF e] True show ?thesis by fastforce
  next
    case False
    show ?thesis
    proof (cases "envPatch env (PVCName p)")
      case PVCPatched
      with Cons.prems False
      have e: "patchLoop env t ps (ws @ [ResizePVC (PVCName p) (TargetSize t)]) = (res, ws')" by simp
      from Cons.IH[OF e] obtain new where
        n: "ws' = (ws @ [ResizePVC (PVCName p) (TargetSize t)]) @ new"
        "\<forall>w\<in>set new. \<exists>p\<in>set ps. w = ResizePVC (PVCName p) (TargetSize t) \<and> RequestSize p < TargetSize t" by blast
      have "ws' = ws @ (ResizePVC (PVCName p) (TargetSize t) # new)" using n(1) by simp
      moreover have "\<forall>w\<in>set (ResizePVC (PVCName p) (TargetSize t) # new).
          \<exists>p\<in>set (p # ps). w = ResizePVC (PVCName p) (TargetSize t) \<and> RequestSize p < TargetSize t"
        using n(2) False by auto
      ultimately show ?thesis using Cons.IH[OF e] PVCPatched by auto
    next
      case PVCGone
      with Cons.prems False have e: "patchLoop env t ps ws = (res, ws')" by simp
      from Cons.IH[OF e] PVCGone show ?thesis by fastforce
    qed (use Cons.prems False in \<open>auto simp: aborted_def requeued_def\<close>)
  qed
qed simp

lemma firstSmaller_None: "firstSmaller q ps = None \<longleftrightarrow> (\<forall>p\<in>set ps. q \<le> CapacitySize p)"
  by (induction ps) auto

lemma firstSmallTemplate_None: "firstSmallTemplate q cs = None \<longleftrightarrow> (\<forall>c\<in>set cs. q \<le> snd c)"
  by (induction cs) auto

definition earned :: "resizeEnv \<Rightarrow> quantity \<Rightarrow> PVCResizePhase \<Rightarrow> bool" where
  "earned env want ph =
     (case ph of
        PVCResizePhaseStsOrphaned \<Rightarrow>
          envSts env = NotFound \<or> (\<exists>sts. envSts env = Found sts) \<and> envDelete env \<in> {DeleteDone, DeleteNotFound}
      | PVCResizePhasePVCsPatched \<Rightarrow>
          envSts env = NotFound \<and>
          (\<exists>ps. envPVCsAgain env = Inl ps \<and>
             (\<forall>p\<in>set ps. want \<le> RequestSize p \<or> envPatch env (PVCName p) \<in> {PVCPatched, PVCGone}))
      | PVCResizePhaseStsRecreated \<Rightarrow>
          (\<exists>ps. envPVCsAgain env = Inl ps \<and> ps \<noteq> [] \<and> (\<forall>p\<in>set ps. want \<le> CapacitySize p))
      | PVCResizePhaseVerified \<Rightarrow>
          (\<exists>sts. envSts env = Found sts \<and> (\<forall>c\<in>set (ClaimTemplates sts). want \<le> snd c))
      | PVCResizePhaseUnset \<Rightarrow>
          (\<exists>sts. envSts env = Found sts \<and> (\<forall>n. StsReplicas sts = Some n \<longrightarrow> n \<le> ReadyReplicas sts))
      | _ \<Rightarrow> True)"

definition successor :: "PVCResizePhase \<Rightarrow> PVCResizePhase" where
  "successor ph =
     (case ph of
        PVCResizePhaseValidated \<Rightarrow> PVCResizePhaseStsOrphaned
      | PVCResizePhaseStsOrphaned \<Rightarrow> PVCResizePhasePVCsPatched
      | PVCResizePhasePVCsPatched \<Rightarrow> PVCResizePhaseStsRecreated
      | PVCResizePhaseStsRecreated \<Rightarrow> PVCResizePhaseVerified
      | _ \<Rightarrow> PVCResizePhaseUnset)"

lemmas from_defs = FromValidated_def FromStsOrphaned_def FromPVCsPatched_def FromStsRecreated_def FromVerified_def
  requeued_def advanced_def aborted_def

lemma transition_earned:
  assumes "transitionFrom env t ph = Some (r, ws)"
  shows "TRAction r = ActionAdvance \<Longrightarrow> NextPhase r = successor ph \<and> ph \<noteq> PVCResizePhaseVerified \<and> earned env (TargetSize t) (successor ph)"
    "TRAction r = ActionComplete \<Longrightarrow> ph = PVCResizePhaseVerified \<and> earned env (TargetSize t) PVCResizePhaseUnset"
    "OrphanDelete \<in> set ws \<Longrightarrow> ph = PVCResizePhaseValidated"
    "ResizePVC n q \<in> set ws \<Longrightarrow> ph = PVCResizePhaseStsOrphaned \<and> q = TargetSize t \<and> envSts env = NotFound \<and>
       (\<exists>ps p. envPVCsAgain env = Inl ps \<and> p \<in> set ps \<and> PVCName p = n \<and> RequestSize p < q)"
proof -
  have loop: "patchLoop env t ps [] = (None, ws') \<Longrightarrow>
      \<forall>p\<in>set ps. TargetSize t \<le> RequestSize p \<or> envPatch env (PVCName p) \<in> {PVCPatched, PVCGone}" for ps ws'
    using patchLoop_result[of env t ps "[]" None ws'] by simp
  have some: "patchLoop env t ps [] = (Some x, ws') \<Longrightarrow> TRAction x \<in> {ActionAbort, ActionRequeue}" for ps x ws'
    using patchLoop_result[of env t ps "[]" "Some x" ws'] by simp
  have written: "patchLoop env t ps [] = (y, ws') \<Longrightarrow> w \<in> set ws' \<Longrightarrow>
      \<exists>p\<in>set ps. w = ResizePVC (PVCName p) (TargetSize t) \<and> RequestSize p < TargetSize t" for ps y ws' w
    using patchLoop_result[of env t ps "[]" y ws'] by auto
  show "TRAction r = ActionAdvance \<Longrightarrow> NextPhase r = successor ph \<and> ph \<noteq> PVCResizePhaseVerified \<and> earned env (TargetSize t) (successor ph)"
    using assms by (cases ph) (auto simp: transitionFrom_def from_defs successor_def earned_def firstSmaller_None
        firstSmallTemplate_None Let_def dest: some loop split: fetched.splits deleteAnswer.splits sum.splits option.splits
        prod.splits if_splits)
  show "TRAction r = ActionComplete \<Longrightarrow> ph = PVCResizePhaseVerified \<and> earned env (TargetSize t) PVCResizePhaseUnset"
    using assms by (cases ph) (auto simp: transitionFrom_def from_defs earned_def Let_def dest: some
        split: fetched.splits deleteAnswer.splits sum.splits option.splits prod.splits if_splits)
  show "OrphanDelete \<in> set ws \<Longrightarrow> ph = PVCResizePhaseValidated"
    using assms by (cases ph) (auto simp: transitionFrom_def from_defs Let_def dest: written
        split: fetched.splits deleteAnswer.splits sum.splits option.splits prod.splits if_splits)
  show "ResizePVC n q \<in> set ws \<Longrightarrow> ph = PVCResizePhaseStsOrphaned \<and> q = TargetSize t \<and> envSts env = NotFound \<and>
       (\<exists>ps p. envPVCsAgain env = Inl ps \<and> p \<in> set ps \<and> PVCName p = n \<and> RequestSize p < q)"
    using assms by (cases ph) (auto simp: transitionFrom_def from_defs Let_def dest: written
        split: fetched.splits deleteAnswer.splits sum.splits option.splits prod.splits if_splits)
qed

lemma phase_option [simp]: "phaseOf None = PVCResizePhaseUnset" "phaseOf (Some x) = ResizePhase x"
  by (simp_all add: phaseOf_def)

lemma phase_stored:
  "phaseOf (stored_as wire ans val r) = (if ans = StatusDone \<and> val \<noteq> r then phaseOf val else phaseOf r)"
  by (simp add: stored_as_def phaseOf_def wireResize_def split: option.split)

lemma phase_next [simp]: "ResizePhase (nextResize now ph msg r) = ph"
  by (simp add: nextResize_def Let_def split: option.split)

lemma phase_write: "phaseOf (write_block wire now ans ph msg r) \<in> {ph, phaseOf r}"
  by (simp add: write_block_def phase_stored)

lemma phase_write_done: "ans = StatusDone \<Longrightarrow> phaseOf (write_block wire now ans ph msg r) = ph"
  using phase_next[of now ph msg r] phase_option(2)[of "nextResize now ph msg r"]
  by (auto simp: write_block_def phase_stored simp del: phase_next phase_option)

lemma drive_phase:
  assumes "phaseOf (drive_block wire env ph want r) = X" and "X \<noteq> phaseOf r" and "X \<noteq> PVCResizePhaseAborted"
  shows "earned env want X \<and> (X = successor ph \<or> X = PVCResizePhaseUnset \<and> ph = PVCResizePhaseVerified)"
proof -
  obtain t ws where t: "transitionFrom env (pvcResizeRequeueDefaults\<lparr>TargetSize := want\<rparr>) ph = Some (t, ws)"
    using assms(1,2) by (auto simp: drive_block_def split: option.splits)
  note e = transition_earned[OF t]
  show ?thesis
  proof (cases "TRAction t")
    case ActionAdvance
    with assms t have "X = NextPhase t"
      using phase_write[of wire "clockDrive env" "answerDrive env" "NextPhase t" "TRMessage t" r]
      by (simp add: drive_block_def)
    with e(1)[OF ActionAdvance] show ?thesis by simp
  next
    case ActionComplete
    with assms t have "X = PVCResizePhaseUnset" by (auto simp: drive_block_def phase_stored split: if_splits)
    with e(2)[OF ActionComplete] show ?thesis by simp
  qed (use assms t phase_write[of wire "clockDrive env" "answerDrive env" PVCResizePhaseAborted "TRMessage t" r] in
      \<open>auto simp: drive_block_def\<close>)
qed

text \<open>What ends a resize without success: the detector refuses it, a claim rejects its patch, or the claims are gone.\<close>

definition refused :: "resizeEnv \<Rightarrow> quantity \<Rightarrow> bool" where
  "refused env want \<longleftrightarrow>
     (\<exists>ps sc. envPVCs env = Inl ps \<and> ps \<noteq> [] \<and> lookupStorageClassForPVCs (envClass env) ps = Inl sc \<and>
        (want < smallestCurrentSize ps \<or> smallestCurrentSize ps < want \<and> \<not> allowsExpansion sc))"

definition broken_off :: "resizeEnv \<Rightarrow> quantity \<Rightarrow> PVCResizePhase \<Rightarrow> bool" where
  "broken_off env want ph \<longleftrightarrow>
     ph = PVCResizePhaseStsOrphaned \<and>
       (\<exists>ps p e. envPVCsAgain env = Inl ps \<and> p \<in> set ps \<and> RequestSize p < want \<and> envPatch env (PVCName p) = PVCRejected e) \<or>
     ph = PVCResizePhasePVCsPatched \<and> envPVCsAgain env = Inl []"

lemma detect_refused:
  "verdict env want = Some (res, sc) \<Longrightarrow> DOutcome res \<in> {OutcomeShrinkRejected, OutcomeExpansionNotSupported} \<Longrightarrow> refused env want"
  by (auto simp: verdict_def Detect_def refused_def Let_def split: sum.splits if_splits)

lemma patchLoop_abort:
  "patchLoop env t ps ws = (Some r, ws') \<Longrightarrow> TRAction r = ActionAbort \<Longrightarrow>
     \<exists>p. p \<in> set ps \<and> RequestSize p < TargetSize t \<and> (\<exists>e. envPatch env (PVCName p) = PVCRejected e)"
proof (induction ps arbitrary: ws)
  case (Cons p ps)
  show ?case
  proof (cases "TargetSize t \<le> RequestSize p")
    case True
    with Cons show ?thesis by fastforce
  next
    case False
    then show ?thesis using Cons
      by (cases "envPatch env (PVCName p)") (fastforce simp: requeued_def not_le)+
  qed
qed simp

lemma transition_abort:
  assumes "transitionFrom env t ph = Some (r, ws)" and "TRAction r = ActionAbort"
  shows "broken_off env (TargetSize t) ph"
  using assms by (cases ph) (auto simp: transitionFrom_def from_defs broken_off_def Let_def dest: patchLoop_abort
      split: fetched.splits deleteAnswer.splits sum.splits option.splits prod.splits if_splits)

lemma drive_aborted:
  assumes "phaseOf (drive_block wire env ph want r) = PVCResizePhaseAborted" and "phaseOf r \<noteq> PVCResizePhaseAborted"
  shows "broken_off env want ph"
proof -
  obtain t ws where t: "transitionFrom env (pvcResizeRequeueDefaults\<lparr>TargetSize := want\<rparr>) ph = Some (t, ws)"
    using assms by (auto simp: drive_block_def split: option.splits)
  have "successor ph \<noteq> PVCResizePhaseAborted" by (simp add: successor_def split: PVCResizePhase.split)
  then have "TRAction t = ActionAbort"
    using assms t transition_earned(1)[OF t]
      phase_write[of wire "clockDrive env" "answerDrive env" "NextPhase t" "TRMessage t" r]
    by (cases "TRAction t") (auto simp: drive_block_def phase_stored split: if_splits)
  from transition_abort[OF t this] show ?thesis by simp
qed

lemma effects_written:
  assumes "drive_effects env ph want = (ws, es)"
  shows "OrphanDelete \<in> set ws \<Longrightarrow> ph = PVCResizePhaseValidated"
    "ResizePVC n q \<in> set ws \<Longrightarrow> ph = PVCResizePhaseStsOrphaned \<and> q = want \<and> envSts env = NotFound \<and>
       (\<exists>ps p. envPVCsAgain env = Inl ps \<and> p \<in> set ps \<and> PVCName p = n \<and> RequestSize p < q)"
proof -
  consider (none) "ws = []" | (some) t where
    "transitionFrom env (pvcResizeRequeueDefaults\<lparr>TargetSize := want\<rparr>) ph = Some (t, ws)"
    using assms by (auto simp: drive_effects_def split: option.splits)
  then show "OrphanDelete \<in> set ws \<Longrightarrow> ph = PVCResizePhaseValidated"
    "ResizePVC n q \<in> set ws \<Longrightarrow> ph = PVCResizePhaseStsOrphaned \<and> q = want \<and> envSts env = NotFound \<and>
       (\<exists>ps p. envPVCsAgain env = Inl ps \<and> p \<in> set ps \<and> PVCName p = n \<and> RequestSize p < q)"
    by (cases; use transition_earned(3,4) in fastforce)+
qed

text \<open>Which driver call a pass makes, if it makes one.\<close>

definition growing :: "resizeEnv \<Rightarrow> quantity \<Rightarrow> bool" where
  "growing env want \<longleftrightarrow>
     (\<exists>ps sc. envPVCs env = Inl ps \<and> ps \<noteq> [] \<and> lookupStorageClassForPVCs (envClass env) ps = Inl sc \<and>
        allowsExpansion sc \<and> smallestCurrentSize ps < want)"

lemma detect_growing:
  "verdict env want = Some (res, sc) \<Longrightarrow> DOutcome res = OutcomeResizeNeeded \<Longrightarrow> growing env want \<and> Desired res = want"
  by (auto simp: verdict_def Detect_def growing_def Let_def split: sum.splits if_splits)

definition driven ::
  "(gotime \<Rightarrow> gotime) \<Rightarrow> resizeEnv \<Rightarrow> quantity \<Rightarrow> PVCResizeStatus option \<Rightarrow> PVCResizeStatus option \<Rightarrow> resizeWrite list \<Rightarrow> bool" where
  "driven wire env want r r' ws \<longleftrightarrow>
     (\<exists>ph r1. ws = fst (drive_effects env ph want) \<and> r' = drive_block wire env ph want r1 \<and>
        (ph = phaseOf r \<and> r1 = r \<or>
         \<not> isPVCResizeInFlight (phaseOf r) \<and> growing env want \<and> ph = PVCResizePhaseValidated \<and>
         phaseOf r1 \<in> {PVCResizePhaseValidated, phaseOf r}))"

lemma driven_here: "driven wire env want r (drive_block wire env (phaseOf r) want r) (fst (drive_effects env (phaseOf r) want))"
  by (auto simp: driven_def)

lemma driven_start:
  "\<not> isPVCResizeInFlight (phaseOf r) \<Longrightarrow> growing env want \<Longrightarrow> phaseOf r1 \<in> {PVCResizePhaseValidated, phaseOf r} \<Longrightarrow>
     driven wire env want r (drive_block wire env PVCResizePhaseValidated want r1)
       (fst (drive_effects env PVCResizePhaseValidated want))"
  unfolding driven_def by blast

lemma start_drives:
  assumes "start_block wire env res r = (r', ws, es)" and "growing env want" and "Desired res = want"
  shows "driven wire env want r r' ws \<or> ws = [] \<and> phaseOf r' = phaseOf r \<or>
    ws = [] \<and> phaseOf r' = PVCResizePhaseValidated \<and> \<not> isPVCResizeInFlight (phaseOf r)"
proof -
  define r1 where "r1 = (if isPVCResizeInFlight (phaseOf r) then r
    else write_block wire (clockInit env) (answerInit env) PVCResizePhaseValidated (initiatedMessage (quantityString env) res) r)"
  have p1: "isPVCResizeInFlight (phaseOf r) \<Longrightarrow> r1 = r"
    "\<not> isPVCResizeInFlight (phaseOf r) \<Longrightarrow> phaseOf r1 = PVCResizePhaseValidated \<or> phaseOf r1 = phaseOf r"
    using phase_write[of wire "clockInit env" "answerInit env" PVCResizePhaseValidated _ r] by (auto simp: r1_def)
  have tp: "phaseOf (if told x then x else stored_as wire a (tell n x) x) = phaseOf x" for a n x
    by (cases x) (simp_all add: phase_stored tell_def)
  consider (off) "r' = r" "ws = []"
    | (stall) "stalled (clockStall env) r1" "ws = []" "phaseOf r' = phaseOf r1"
    | (here) "isPVCResizeInFlight (phaseOf r)" "r' = drive_block wire env (phaseOf r) want r" "ws = fst (drive_effects env (phaseOf r) want)"
    | (new) "\<not> isPVCResizeInFlight (phaseOf r)" "r' = drive_block wire env PVCResizePhaseValidated want r1"
        "ws = fst (drive_effects env PVCResizePhaseValidated want)"
    using assms(1) tp p1(1) unfolding start_block_def Let_def r1_def[symmetric] assms(3)
    by (fastforce split: if_splits)
  then show ?thesis
  proof cases
    case stall
    then show ?thesis using p1 by (cases "isPVCResizeInFlight (phaseOf r)") auto
  next
    case new
    then show ?thesis using driven_start[OF new(1) assms(2), of r1 wire] p1(2) by auto
  qed (use driven_here[of wire env want r] in simp_all)
qed

lemma pass_drives:
  assumes "pass_block wire env persistence r = (r', ws, es)" and "ws \<noteq> [] \<or> phaseOf r' \<noteq> phaseOf r"
  shows "persistence = None \<and> r' = None \<and> ws = [] \<or>
    (\<exists>want. persistence = Some want \<and>
       (phaseOf r' = PVCResizePhaseAborted \<and> refused env want \<and> ws = [] \<or> driven wire env want r r' ws \<or>
        phaseOf r' = PVCResizePhaseValidated \<and> \<not> isPVCResizeInFlight (phaseOf r) \<and> growing env want \<and> ws = []))"
proof (cases persistence)
  case None
  with assms show ?thesis by (auto simp: pass_block_def stored_as_def phaseOf_def split: if_splits)
next
  case (Some want)
  then obtain res sc where v: "verdict env want = Some (res, sc)"
    using assms by (auto simp: pass_block_def split: option.splits)
  have rej: "reject_block wire env ev msg r = (r', ws, es) \<Longrightarrow> ws = [] \<and> phaseOf r' \<in> {PVCResizePhaseAborted, phaseOf r}" for ev msg
    using phase_write[of wire "clockInit env" "answerInit env" PVCResizePhaseAborted msg r] by (auto simp: reject_block_def)
  show ?thesis
  proof (cases "DOutcome res")
    case OutcomeNoChange
    show ?thesis
    proof (cases "phaseOf r = PVCResizePhaseUnset")
      case True
      with OutcomeNoChange assms(1) Some v have "ws = []" "r' = stored_as wire (answerInit env) None r"
        by (auto simp: pass_block_def)
      then have "ws = []" "phaseOf r' = phaseOf r" using True by (simp_all add: phase_stored)
      with assms(2) show ?thesis by simp
    next
      case False
      with OutcomeNoChange assms(1) Some v
      have "drive_block wire env (phaseOf r) want r = r'" "drive_effects env (phaseOf r) want = (ws, es)"
        by (simp_all add: pass_block_def)
      with Some driven_here[of wire env want r] show ?thesis by simp
    qed
  next
    case OutcomeShrinkRejected
    with assms(1) Some v have "reject_block wire env ''PVCExpansionShrinkRejected'' (shrinkMessage (quantityString env) res) r = (r', ws, es)"
      by (simp add: pass_block_def)
    from rej[OF this] detect_refused[OF v] OutcomeShrinkRejected assms(2) Some show ?thesis by auto
  next
    case OutcomeExpansionNotSupported
    with assms(1) Some v have "reject_block wire env ''PVCExpansionNotSupported'' (unsupportedMessage (quantityString env) sc res) r = (r', ws, es)"
      by (simp add: pass_block_def)
    from rej[OF this] detect_refused[OF v] OutcomeExpansionNotSupported assms(2) Some show ?thesis by auto
  next
    case OutcomeResizeNeeded
    with assms(1) Some v have "start_block wire env res r = (r', ws, es)" by (simp add: pass_block_def)
    from start_drives[OF this] detect_growing[OF v OutcomeResizeNeeded] assms(2) Some show ?thesis by auto
  qed
qed

lemma driven_safe:
  assumes "driven wire env want r r' ws"
  shows "ResizePVC n q \<in> set ws \<Longrightarrow> q = want \<and> phaseOf r = PVCResizePhaseStsOrphaned \<and> envSts env = NotFound \<and>
      (\<exists>ps p. envPVCsAgain env = Inl ps \<and> p \<in> set ps \<and> PVCName p = n \<and> RequestSize p < q)"
    "OrphanDelete \<in> set ws \<Longrightarrow> phaseOf r = PVCResizePhaseValidated \<or> \<not> isPVCResizeInFlight (phaseOf r) \<and> growing env want"
    "phaseOf r' = X \<Longrightarrow> X \<notin> {phaseOf r, PVCResizePhaseAborted, PVCResizePhaseValidated} \<Longrightarrow> earned env want X"
proof -
  obtain ph r1 where d: "ws = fst (drive_effects env ph want)" "r' = drive_block wire env ph want r1"
    "ph = phaseOf r \<and> r1 = r \<or> \<not> isPVCResizeInFlight (phaseOf r) \<and> growing env want \<and> ph = PVCResizePhaseValidated \<and>
       phaseOf r1 \<in> {PVCResizePhaseValidated, phaseOf r}"
    using assms unfolding driven_def by blast
  note w = effects_written[of env ph want ws "snd (drive_effects env ph want)", folded d(1)]
  have e: "drive_effects env ph want = (ws, snd (drive_effects env ph want))" by (simp add: d(1))
  show "ResizePVC n q \<in> set ws \<Longrightarrow> q = want \<and> phaseOf r = PVCResizePhaseStsOrphaned \<and> envSts env = NotFound \<and>
      (\<exists>ps p. envPVCsAgain env = Inl ps \<and> p \<in> set ps \<and> PVCName p = n \<and> RequestSize p < q)"
    using effects_written(2)[OF e, of n q] d(3) by auto
  show "OrphanDelete \<in> set ws \<Longrightarrow> phaseOf r = PVCResizePhaseValidated \<or> \<not> isPVCResizeInFlight (phaseOf r) \<and> growing env want"
    using effects_written(1)[OF e] d(3) by auto
  show "phaseOf r' = X \<Longrightarrow> X \<notin> {phaseOf r, PVCResizePhaseAborted, PVCResizePhaseValidated} \<Longrightarrow> earned env want X"
    using drive_phase[of wire env ph want r1 X] d(2,3) by auto
qed

lemma driven_ends:
  assumes "driven wire env want r r' ws"
  shows "phaseOf r' = PVCResizePhaseValidated \<Longrightarrow> phaseOf r \<noteq> PVCResizePhaseValidated \<Longrightarrow>
      \<not> isPVCResizeInFlight (phaseOf r) \<and> growing env want"
    "phaseOf r' = PVCResizePhaseAborted \<Longrightarrow> phaseOf r \<noteq> PVCResizePhaseAborted \<Longrightarrow> broken_off env want (phaseOf r)"
proof -
  obtain ph r1 where d: "r' = drive_block wire env ph want r1"
    "ph = phaseOf r \<and> r1 = r \<or> \<not> isPVCResizeInFlight (phaseOf r) \<and> growing env want \<and> ph = PVCResizePhaseValidated \<and>
       phaseOf r1 \<in> {PVCResizePhaseValidated, phaseOf r}"
    using assms unfolding driven_def by blast
  have "successor ph \<noteq> PVCResizePhaseValidated" by (simp add: successor_def split: PVCResizePhase.split)
  then show "phaseOf r' = PVCResizePhaseValidated \<Longrightarrow> phaseOf r \<noteq> PVCResizePhaseValidated \<Longrightarrow>
      \<not> isPVCResizeInFlight (phaseOf r) \<and> growing env want"
    using drive_phase[of wire env ph want r1 PVCResizePhaseValidated] d by auto
  show "phaseOf r' = PVCResizePhaseAborted \<Longrightarrow> phaseOf r \<noteq> PVCResizePhaseAborted \<Longrightarrow> broken_off env want (phaseOf r)"
    using drive_aborted[of wire env ph want r1] d by (auto simp: broken_off_def)
qed

lemma pass_ends:
  assumes "pass_block wire env persistence r = (r', ws, es)" and "phaseOf r' \<noteq> phaseOf r"
  shows "phaseOf r' = PVCResizePhaseValidated \<Longrightarrow>
      \<exists>want. persistence = Some want \<and> \<not> isPVCResizeInFlight (phaseOf r) \<and> growing env want"
    "phaseOf r' = PVCResizePhaseAborted \<Longrightarrow>
      \<exists>want. persistence = Some want \<and> (refused env want \<or> broken_off env want (phaseOf r))"
  using pass_drives[OF assms(1)] assms(2) driven_ends by fastforce+

lemma pass_safe:
  assumes "pass_block wire env persistence r = (r', ws, es)"
  shows "ResizePVC n q \<in> set ws \<Longrightarrow> persistence = Some q \<and> phaseOf r = PVCResizePhaseStsOrphaned \<and> envSts env = NotFound \<and>
      (\<exists>ps p. envPVCsAgain env = Inl ps \<and> p \<in> set ps \<and> PVCName p = n \<and> RequestSize p < q)"
    "OrphanDelete \<in> set ws \<Longrightarrow> \<exists>want. persistence = Some want \<and>
      (phaseOf r = PVCResizePhaseValidated \<or> \<not> isPVCResizeInFlight (phaseOf r) \<and> growing env want)"
    "phaseOf r' = X \<Longrightarrow> X \<notin> {phaseOf r, PVCResizePhaseAborted, PVCResizePhaseValidated} \<Longrightarrow>
      persistence = None \<and> X = PVCResizePhaseUnset \<or> (\<exists>want. persistence = Some want \<and> earned env want X)"
proof -
  have driven: "\<exists>want. persistence = Some want \<and> driven wire env want r r' ws" if "ws \<noteq> []"
    using pass_drives[OF assms] that by blast
  show "ResizePVC n q \<in> set ws \<Longrightarrow> persistence = Some q \<and> phaseOf r = PVCResizePhaseStsOrphaned \<and> envSts env = NotFound \<and>
      (\<exists>ps p. envPVCsAgain env = Inl ps \<and> p \<in> set ps \<and> PVCName p = n \<and> RequestSize p < q)"
    using driven driven_safe(1) by fastforce
  show "OrphanDelete \<in> set ws \<Longrightarrow> \<exists>want. persistence = Some want \<and>
      (phaseOf r = PVCResizePhaseValidated \<or> \<not> isPVCResizeInFlight (phaseOf r) \<and> growing env want)"
    using driven driven_safe(2) by fastforce
  assume x: "phaseOf r' = X" "X \<notin> {phaseOf r, PVCResizePhaseAborted, PVCResizePhaseValidated}"
  then have "ws \<noteq> [] \<or> phaseOf r' \<noteq> phaseOf r" by auto
  from pass_drives[OF assms this] driven_safe(3)[OF _ x] x
  show "persistence = None \<and> X = PVCResizePhaseUnset \<or> (\<exists>want. persistence = Some want \<and> earned env want X)" by auto
qed

text \<open>
  C8. A resize never shrinks a volume and never moves on early. Whatever the API server answers in a
  pass: a volume is patched only to the size in the spec, only when its request is smaller, and only
  while the StatefulSet is gone. The StatefulSet is deleted only in the phase Validated or in the pass
  that enters it, and that phase is entered only for a growth the storage class allows (a size reverted
  afterwards does not take it back). A new phase is recorded only when it was earned: StsOrphaned when
  the StatefulSet is absent or its deletion was accepted, PVCsPatched when every volume has the
  requested size, took the patch or is gone, StsRecreated when every volume reports the capacity,
  Verified when the templates of the recreated StatefulSet carry the size, Aborted when the size is a
  shrink or a growth the class refuses, a volume rejected its patch or the volumes are gone, and the
  block is removed when all replicas are ready or persistence was dropped.
\<close>

theorem resize_data_safe:
  assumes "merge_patch wire merge" and "d = reconcilePVCResize merge env persistence (st, st)"
    and "before = currentPVCResizePhase st" and "after = currentPVCResizePhase (snd (roStatus d))"
  shows "(ResizePVC n q \<in> set (roWrites d) \<longrightarrow>
       persistence = Some q \<and> before = PVCResizePhaseStsOrphaned \<and> envSts env = NotFound \<and>
       (\<exists>ps p. envPVCsAgain env = Inl ps \<and> p \<in> set ps \<and> PVCName p = n \<and> RequestSize p < q)) \<and>
     (OrphanDelete \<in> set (roWrites d) \<longrightarrow>
       (\<exists>want. persistence = Some want \<and>
          (before = PVCResizePhaseValidated \<or> \<not> isPVCResizeInFlight before \<and> growing env want))) \<and>
     (after = PVCResizePhaseValidated \<and> after \<noteq> before \<longrightarrow>
       (\<exists>want. persistence = Some want \<and> \<not> isPVCResizeInFlight before \<and> growing env want)) \<and>
     (after = PVCResizePhaseAborted \<and> after \<noteq> before \<longrightarrow>
       (\<exists>want. persistence = Some want \<and> (refused env want \<or> broken_off env want before))) \<and>
     (after \<notin> {before, PVCResizePhaseAborted, PVCResizePhaseValidated} \<longrightarrow>
       persistence = None \<and> after = PVCResizePhaseUnset \<or> (\<exists>want. persistence = Some want \<and> earned env want after))"
proof -
  obtain r' ws es where p: "pass_block wire env persistence (resizeOf st) = (r', ws, es)"
    by (cases "pass_block wire env persistence (resizeOf st)") auto
  have o: "outputs d = (r', ws, es)"
    using pass_refines[OF assms(1), of "(st, st)" env persistence] p assms(2) by (simp add: freshCopy_def)
  have ph: "currentPVCResizePhase x = phaseOf (resizeOf x)" for x by (simp add: currentPVCResizePhase_def phaseOf_def)
  have d: "roWrites d = ws" "resizeOf (snd (roStatus d)) = r'" using o by (simp_all add: outputs_def)
  note safe = pass_safe[OF p] and ends = pass_ends[OF p]
  show ?thesis unfolding assms(3,4) d(1) ph d(2)
  proof (intro conjI impI)
    assume "ResizePVC n q \<in> set ws"
    then show "persistence = Some q" "phaseOf (resizeOf st) = PVCResizePhaseStsOrphaned" "envSts env = NotFound"
      "\<exists>ps p. envPVCsAgain env = Inl ps \<and> p \<in> set ps \<and> PVCName p = n \<and> RequestSize p < q"
      using safe(1) by blast+
  qed (use safe(2,3) ends in blast)+
qed

section \<open>A resize against a cluster\<close>

text \<open>
  The cluster as the machine sees it, and one round: the pass with truthful answers, its writes, the
  StatefulSet phase of the same reconcile, which recreates a missing StatefulSet from the spec unless
  the recorded phase guards it, and what the cluster then does on its own (volumes grow to their
  requests, replicas become ready).
\<close>

record resizeCluster =
  rcSts :: "DataSts option"
  rcPVCs :: "PVC list"
  rcStatus :: ValkeyStatus
  rcEvents :: "string list"

definition applyWrite :: "resizeCluster \<Rightarrow> resizeWrite \<Rightarrow> resizeCluster" where
  "applyWrite c w =
     (case w of
        OrphanDelete \<Rightarrow> c\<lparr>rcSts := None\<rparr>
      | ResizePVC n q \<Rightarrow>
          c\<lparr>rcPVCs := map (\<lambda>p. if PVCName p = n then p\<lparr>RequestSize := q\<rparr> else p) (rcPVCs c)\<rparr>)"

definition buildClaimTemplates :: "quantity option \<Rightarrow> (string \<times> quantity) list" where
  "buildClaimTemplates persistence = (case persistence of None \<Rightarrow> [] | Some q \<Rightarrow> [(''data'', q)])"

definition recreateSts :: "int \<Rightarrow> quantity option \<Rightarrow> resizeCluster \<Rightarrow> resizeCluster" where
  "recreateSts replicas persistence c =
     (if isPVCResizeGuardingPhase2 (currentPVCResizePhase (rcStatus c)) then c
      else (case rcSts c of
              Some s \<Rightarrow> c
            | None \<Rightarrow>
                c\<lparr>rcSts := Some \<lparr>StsReplicas = Some replicas, ReadyReplicas = 0, UpdateRevision = [],
                               CurrentRevision = [], ClaimTemplates = buildClaimTemplates persistence\<rparr>\<rparr>))"

definition settle :: "resizeCluster \<Rightarrow> resizeCluster" where
  "settle c =
     c\<lparr>rcPVCs := map (\<lambda>p. p\<lparr>CapacitySize := max (CapacitySize p) (RequestSize p)\<rparr>) (rcPVCs c),
       rcSts := map_option (\<lambda>s. s\<lparr>ReadyReplicas := (case StsReplicas s of None \<Rightarrow> 0 | Some n \<Rightarrow> n)\<rparr>) (rcSts c)\<rparr>"

definition serve :: "(string \<Rightarrow> StorageClass fetched) \<Rightarrow> resizeCluster \<Rightarrow> resizeEnv \<Rightarrow> resizeEnv" where
  "serve get c env =
     env\<lparr>envPVCs := Inl (rcPVCs c), envPVCsAgain := Inl (rcPVCs c), envClass := get,
         envSts := (case rcSts c of None \<Rightarrow> NotFound | Some s \<Rightarrow> Found s), envDelete := DeleteDone,
         envPatch := (\<lambda>n. PVCPatched), answerInit := StatusDone, answerStuck := StatusDone, answerDrive := StatusDone\<rparr>"

definition resizeRound ::
  "merge \<Rightarrow> (string \<Rightarrow> StorageClass fetched) \<Rightarrow> int \<Rightarrow> quantity option \<Rightarrow> resizeCluster \<Rightarrow> resizeEnv \<Rightarrow> resizeCluster" where
  "resizeRound merge get replicas persistence c env =
     (let d = reconcilePVCResize merge (serve get c env) persistence (rcStatus c, rcStatus c);
          c1 = foldl applyWrite c (roWrites d);
          c2 = c1\<lparr>rcStatus := snd (roStatus d), rcEvents := rcEvents c @ roEvents d\<rparr>
      in settle (if roError d then c2 else recreateSts replicas persistence c2))"

text \<open>
  The rounds left, by recorded phase, and what the cluster must look like in it. Volumes are never
  removed, the smallest request is at most the size in the spec, and equals it once patched.
\<close>

definition resizeRank :: "PVCResizePhase \<Rightarrow> nat" where
  "resizeRank ph =
     (case ph of
        PVCResizePhaseStsOrphaned \<Rightarrow> 4 | PVCResizePhasePVCsPatched \<Rightarrow> 3 | PVCResizePhaseStsRecreated \<Rightarrow> 2
      | PVCResizePhaseVerified \<Rightarrow> 1 | _ \<Rightarrow> 5)"

definition resizing :: "quantity \<Rightarrow> resizeCluster \<Rightarrow> PVCResizePhase \<Rightarrow> bool" where
  "resizing want c ph \<longleftrightarrow>
     currentPVCResizePhase (rcStatus c) = ph \<and> rcPVCs c \<noteq> [] \<and> distinct (map PVCName (rcPVCs c)) \<and>
     (case ph of
        PVCResizePhaseStsOrphaned \<Rightarrow> rcSts c = None \<and> smallestCurrentSize (rcPVCs c) < want
      | PVCResizePhasePVCsPatched \<Rightarrow>
          rcSts c = None \<and> smallestCurrentSize (rcPVCs c) = want \<and> (\<forall>p\<in>set (rcPVCs c). want \<le> CapacitySize p)
      | PVCResizePhaseStsRecreated \<Rightarrow>
          smallestCurrentSize (rcPVCs c) = want \<and> (\<forall>p\<in>set (rcPVCs c). want \<le> CapacitySize p) \<and>
          (\<exists>s. rcSts c = Some s \<and> ClaimTemplates s = [(''data'', want)] \<and> StsReplicas s = Some (ReadyReplicas s))
      | PVCResizePhaseVerified \<Rightarrow>
          smallestCurrentSize (rcPVCs c) = want \<and> (\<forall>p\<in>set (rcPVCs c). want \<le> CapacitySize p) \<and>
          (\<exists>s. rcSts c = Some s \<and> ClaimTemplates s = [(''data'', want)] \<and> StsReplicas s = Some (ReadyReplicas s))
      | _ \<Rightarrow> smallestCurrentSize (rcPVCs c) < want)"

lemma serve_simps [simp]:
  "envPVCs (serve get c env) = Inl (rcPVCs c)" "envPVCsAgain (serve get c env) = Inl (rcPVCs c)"
  "envClass (serve get c env) = get" "envSts (serve get c env) = (case rcSts c of None \<Rightarrow> NotFound | Some s \<Rightarrow> Found s)"
  "envDelete (serve get c env) = DeleteDone" "envPatch (serve get c env) n = PVCPatched"
  "answerInit (serve get c env) = StatusDone" "answerStuck (serve get c env) = StatusDone"
  "answerDrive (serve get c env) = StatusDone" "clockStall (serve get c env) = clockStall env"
  "clockInit (serve get c env) = clockInit env" "clockDrive (serve get c env) = clockDrive env"
  "clockWait (serve get c env) = clockWait env" "quantityString (serve get c env) = quantityString env"
  by (simp_all add: serve_def)

lemma smallest_le: "p \<in> set ps \<Longrightarrow> smallestCurrentSize ps \<le> RequestSize p"
  by (cases "ps = []") (auto simp: smallest_Min)

lemma smallest_mem: "ps \<noteq> [] \<Longrightarrow> \<exists>p\<in>set ps. RequestSize p = smallestCurrentSize ps"
proof -
  assume ne: "ps \<noteq> []"
  then have "Min (set (map RequestSize ps)) \<in> set (map RequestSize ps)" by (intro Min_in) auto
  then obtain p where "p \<in> set ps" "RequestSize p = Min (set (map RequestSize ps))" by auto
  with ne show "\<exists>p\<in>set ps. RequestSize p = smallestCurrentSize ps" by (auto simp: smallest_Min)
qed

lemma patchLoop_all:
  assumes "\<And>n. envPatch env n = PVCPatched"
  shows "patchLoop env t ps ws =
    (None, ws @ map (\<lambda>p. ResizePVC (PVCName p) (TargetSize t)) (filter (\<lambda>p. RequestSize p < TargetSize t) ps))"
  using assms by (induction ps arbitrary: ws) auto

lemma foldl_patches:
  "foldl applyWrite c (map (\<lambda>p. ResizePVC (PVCName p) q) ps) =
     c\<lparr>rcPVCs := map (\<lambda>p. if PVCName p \<in> PVCName ` set ps then p\<lparr>RequestSize := q\<rparr> else p) (rcPVCs c)\<rparr>"
proof (induction ps arbitrary: c)
  case (Cons x ps)
  let ?f = "\<lambda>S p. if PVCName p \<in> S then p\<lparr>RequestSize := q\<rparr> else p"
  have one: "applyWrite c (ResizePVC (PVCName x) q) = c\<lparr>rcPVCs := map (?f {PVCName x}) (rcPVCs c)\<rparr>"
    by (simp add: applyWrite_def)
  have "?f (PVCName ` set ps) \<circ> ?f {PVCName x} = ?f (PVCName ` set (x # ps))" by (rule ext) simp
  then show ?case using Cons.IH[of "applyWrite c (ResizePVC (PVCName x) q)"] by (simp add: one)
qed simp

definition raised :: "quantity \<Rightarrow> PVC list \<Rightarrow> PVC list" where
  "raised q ps = map (\<lambda>p. p\<lparr>RequestSize := max q (RequestSize p)\<rparr>) ps"

lemma patched_all:
  assumes "distinct (map PVCName ps)"
  shows "map (\<lambda>p. if PVCName p \<in> PVCName ` set (filter (\<lambda>p. RequestSize p < q) ps) then p\<lparr>RequestSize := q\<rparr> else p) ps = raised q ps"
  unfolding raised_def
proof (rule map_cong[OF refl])
  fix p assume p: "p \<in> set ps"
  have inj: "inj_on PVCName (set ps)" using assms by (simp add: distinct_map)
  have "PVCName p \<in> PVCName ` set (filter (\<lambda>p. RequestSize p < q) ps) \<longleftrightarrow> RequestSize p < q"
    using inj p by (auto simp: inj_on_def)
  moreover have "p\<lparr>RequestSize := RequestSize p\<rparr> = p" by simp
  ultimately show "(if PVCName p \<in> PVCName ` set (filter (\<lambda>p. RequestSize p < q) ps) then p\<lparr>RequestSize := q\<rparr> else p) =
      p\<lparr>RequestSize := max q (RequestSize p)\<rparr>" by (auto simp: max_def)
qed

lemma raised_facts:
  assumes "ps \<noteq> []" and "smallestCurrentSize ps < q"
  shows "smallestCurrentSize (raised q ps) = q" "map PVCName (raised q ps) = map PVCName ps" "raised q ps \<noteq> []"
proof -
  obtain p where p: "p \<in> set ps" "RequestSize p < q" using smallest_mem[OF assms(1)] assms(2) by auto
  have ne: "raised q ps \<noteq> []" using assms(1) by (simp add: raised_def)
  have "Min (set (map RequestSize (raised q ps))) = q"
    by (rule Min_eqI) (use p in \<open>force simp: raised_def image_iff\<close>)+
  with ne show "smallestCurrentSize (raised q ps) = q" "raised q ps \<noteq> []" by (simp_all add: smallest_Min)
  show "map PVCName (raised q ps) = map PVCName ps" by (simp add: raised_def)
qed

text \<open>Truthful answers: the verdict, and the outcome of the driver by phase.\<close>

definition expandable :: "(string \<Rightarrow> StorageClass fetched) \<Rightarrow> PVC list \<Rightarrow> bool" where
  "expandable get ps \<longleftrightarrow> (\<exists>k. lookupStorageClassForPVCs get ps = Inl (Some k) \<and> AllowVolumeExpansion k = Some True)"

lemma verdict_served:
  assumes "rcPVCs c \<noteq> []" and "expandable get (rcPVCs c)" and "0 < want" and "smallestCurrentSize (rcPVCs c) \<le> want"
  shows "\<exists>res sc. verdict (serve get c env) want = Some (res, sc) \<and> Desired res = want \<and>
    DOutcome res = (if smallestCurrentSize (rcPVCs c) = want then OutcomeNoChange else OutcomeResizeNeeded)"
  using assms by (auto simp: verdict_def expandable_def Detect_def Let_def allowsExpansion_def)

lemma drive_error:
  assumes "merge_patch wire merge" and "freshCopy vs" and "answerDrive env \<noteq> StatusError"
    and "transitionFrom env (pvcResizeRequeueDefaults\<lparr>TargetSize := want\<rparr>) ph = Some (t, ws)" and "TRAction t \<noteq> ActionAbort"
  shows "\<not> roError (drivePVCResize merge env ph want vs)"
  using assms(3-5) write_status_block(3)[OF assms(1,2)] clear_status_block(3)[OF assms(1,2)]
  by (cases "TRAction t") (simp_all add: drivePVCResize_def Let_def case_prod_beta)

text \<open>Outcome of a served transition: the block after it and the writes.\<close>

lemma served_transitions:
  fixes want :: quantity
  defines "t \<equiv> pvcResizeRequeueDefaults\<lparr>TargetSize := want\<rparr>"
  shows "\<exists>r. transitionFrom (serve get c env) t PVCResizePhaseValidated =
      Some (r, if rcSts c = None then [] else [OrphanDelete]) \<and>
      TRAction r = ActionAdvance \<and> NextPhase r = PVCResizePhaseStsOrphaned \<and> TREvent r = []"
    and "rcSts c = None \<Longrightarrow> \<exists>r. transitionFrom (serve get c env) t PVCResizePhaseStsOrphaned =
      Some (r, map (\<lambda>p. ResizePVC (PVCName p) want) (filter (\<lambda>p. RequestSize p < want) (rcPVCs c))) \<and>
      TRAction r = ActionAdvance \<and> NextPhase r = PVCResizePhasePVCsPatched \<and> TREvent r = []"
    and "rcPVCs c \<noteq> [] \<Longrightarrow> \<forall>p\<in>set (rcPVCs c). want \<le> CapacitySize p \<Longrightarrow>
      \<exists>r. transitionFrom (serve get c env) t PVCResizePhasePVCsPatched = Some (r, []) \<and>
      TRAction r = ActionAdvance \<and> NextPhase r = PVCResizePhaseStsRecreated \<and> TREvent r = []"
    and "rcSts c = Some s \<Longrightarrow> ClaimTemplates s = [(''data'', want)] \<Longrightarrow>
      \<exists>r. transitionFrom (serve get c env) t PVCResizePhaseStsRecreated = Some (r, []) \<and>
      TRAction r = ActionAdvance \<and> NextPhase r = PVCResizePhaseVerified \<and> TREvent r = []"
    and "rcSts c = Some s \<Longrightarrow> StsReplicas s = Some (ReadyReplicas s) \<Longrightarrow>
      \<exists>r. transitionFrom (serve get c env) t PVCResizePhaseVerified = Some (r, []) \<and>
      TRAction r = ActionComplete \<and> TREvent r = ''PVCResizeComplete''"
proof -
  have loop: "patchLoop (serve get c env) t ps ws =
      (None, ws @ map (\<lambda>p. ResizePVC (PVCName p) want) (filter (\<lambda>p. RequestSize p < want) ps))" for ps ws
    by (subst patchLoop_all) (simp_all add: t_def)
  show "\<exists>r. transitionFrom (serve get c env) t PVCResizePhaseValidated =
      Some (r, if rcSts c = None then [] else [OrphanDelete]) \<and>
      TRAction r = ActionAdvance \<and> NextPhase r = PVCResizePhaseStsOrphaned \<and> TREvent r = []"
    by (cases "rcSts c") (simp_all add: transitionFrom_def FromValidated_def advanced_def)
  show "rcSts c = None \<Longrightarrow> \<exists>r. transitionFrom (serve get c env) t PVCResizePhaseStsOrphaned =
      Some (r, map (\<lambda>p. ResizePVC (PVCName p) want) (filter (\<lambda>p. RequestSize p < want) (rcPVCs c))) \<and>
      TRAction r = ActionAdvance \<and> NextPhase r = PVCResizePhasePVCsPatched \<and> TREvent r = []"
    by (simp add: transitionFrom_def FromStsOrphaned_def loop advanced_def)
  show "rcPVCs c \<noteq> [] \<Longrightarrow> \<forall>p\<in>set (rcPVCs c). want \<le> CapacitySize p \<Longrightarrow>
      \<exists>r. transitionFrom (serve get c env) t PVCResizePhasePVCsPatched = Some (r, []) \<and>
      TRAction r = ActionAdvance \<and> NextPhase r = PVCResizePhaseStsRecreated \<and> TREvent r = []"
    using firstSmaller_None[of want "rcPVCs c"] by (simp add: transitionFrom_def FromPVCsPatched_def advanced_def t_def)
  show "rcSts c = Some s \<Longrightarrow> ClaimTemplates s = [(''data'', want)] \<Longrightarrow>
      \<exists>r. transitionFrom (serve get c env) t PVCResizePhaseStsRecreated = Some (r, []) \<and>
      TRAction r = ActionAdvance \<and> NextPhase r = PVCResizePhaseVerified \<and> TREvent r = []"
    by (simp add: transitionFrom_def FromStsRecreated_def advanced_def t_def)
  show "rcSts c = Some s \<Longrightarrow> StsReplicas s = Some (ReadyReplicas s) \<Longrightarrow>
      \<exists>r. transitionFrom (serve get c env) t PVCResizePhaseVerified = Some (r, []) \<and>
      TRAction r = ActionComplete \<and> TREvent r = ''PVCResizeComplete''"
    by (simp add: transitionFrom_def FromVerified_def)
qed

lemma pass_is_drive:
  assumes "verdict env want = Some (res, sc)" and "isPVCResizeInFlight (currentPVCResizePhase st)"
    and "DOutcome res = OutcomeNoChange \<or>
      DOutcome res = OutcomeResizeNeeded \<and> Desired res = want \<and> \<not> pvcResizeIsStalled (clockStall env) st"
  shows "reconcilePVCResize merge env (Some want) (st, st) =
    drivePVCResize merge env (currentPVCResizePhase st) want (st, st)"
proof -
  obtain ps where v: "envPVCs env = Inl ps" "lookupStorageClassForPVCs (envClass env) ps = Inl sc"
    "res = Detect \<lparr>DesiredSize = want, PVCs = ps, InStorageClass = sc\<rparr>"
    using assms(1) by (auto simp: verdict_def split: sum.splits)
  have ph: "currentPVCResizePhase st \<noteq> PVCResizePhaseUnset" "currentPVCResizePhase st \<noteq> PVCResizePhaseAborted"
    using assms(2) by (auto simp: isPVCResizeInFlight_def)
  show ?thesis
    using assms(2,3) v(1,2) ph unfolding v(3)
    by (auto simp: reconcilePVCResize_def Let_def startOrContinue_def)
qed

lemma drive_advance:
  assumes "merge_patch wire merge" and "freshCopy vs" and "answerDrive env = StatusDone"
    and "transitionFrom env (pvcResizeRequeueDefaults\<lparr>TargetSize := want\<rparr>) ph = Some (t, ws)"
    and "TRAction t = ActionAdvance" and "TREvent t = []" and "phaseOf (resizeBlock vs) \<noteq> NextPhase t"
  shows "let d = drivePVCResize merge env ph want vs in
    currentPVCResizePhase (snd (roStatus d)) = NextPhase t \<and> roWrites d = ws \<and> roEvents d = [] \<and> \<not> roError d \<and>
    (\<exists>r. resizeOf (snd (roStatus d)) = Some r \<and> LastTransitionAt r = Some (wire (clockDrive env)))"
proof -
  let ?n = "nextResize (clockDrive env) (NextPhase t) (TRMessage t) (resizeBlock vs)"
  let ?d = "drivePVCResize merge env ph want vs"
  have b: "resizeOf (snd (roStatus ?d)) = write_block wire (clockDrive env) StatusDone (NextPhase t) (TRMessage t) (resizeBlock vs)"
    using drive_status_block[OF assms(1,2), of env ph want] assms(3-5) by (simp add: drive_block_def)
  have ne: "Some ?n \<noteq> resizeBlock vs" using assms(7) by (metis phase_next phase_option(2))
  have "resizeOf (snd (roStatus ?d)) = Some (wireResize wire ?n)"
    unfolding b using assms(7) ne by (simp add: write_block_def stored_as_def)
  moreover have "LastTransitionAt (wireResize wire ?n) = Some (wire (clockDrive env))" "ResizePhase (wireResize wire ?n) = NextPhase t"
    by (simp_all add: wireResize_def) (simp add: nextResize_def Let_def split: option.split)
  moreover have "roWrites ?d = ws" "roEvents ?d = []"
    using assms(4,6) by (simp_all add: drive_outputs drive_effects_def)
  moreover have "\<not> roError ?d"
    using drive_error[OF assms(1,2), of env want ph t ws] assms(3-5) by simp
  ultimately show ?thesis by (simp add: currentPVCResizePhase_def Let_def)
qed

lemma pass_starts:
  assumes "merge_patch wire merge" and "wire_time wire" and "verdict env want = Some (res, sc)" and "DOutcome res = OutcomeResizeNeeded"
    and "\<not> isPVCResizeInFlight (currentPVCResizePhase st)" and "retryWait (clockWait env) (resizeOf st) \<le> 0"
    and "answerInit env = StatusDone" and "clockStall env - clockInit env \<le> 9 * Minute"
  shows "\<exists>vs1 d. reconcilePVCResize merge env (Some want) (st, st) = d\<lparr>roEvents := ''PVCResizeInitiated'' # roEvents d\<rparr> \<and>
    d = drivePVCResize merge env PVCResizePhaseValidated want vs1 \<and> freshCopy vs1 \<and>
    phaseOf (resizeBlock vs1) = PVCResizePhaseValidated"
proof -
  obtain ps where v: "envPVCs env = Inl ps" "lookupStorageClassForPVCs (envClass env) ps = Inl sc"
    "res = Detect \<lparr>DesiredSize = want, PVCs = ps, InStorageClass = sc\<rparr>"
    using assms(3) by (auto simp: verdict_def split: sum.splits)
  let ?msg = "initiatedMessage (quantityString env) res" and ?r = "resizeOf st"
  let ?n = "nextResize (clockInit env) PVCResizePhaseValidated ?msg ?r"
  let ?w = "writePVCResizeStatus merge (clockInit env) (answerInit env) PVCResizePhaseValidated ?msg (st, st)"
  have fr: "freshCopy (st, st)" by (simp add: freshCopy_def)
  have ph: "currentPVCResizePhase st = phaseOf ?r" by (simp add: currentPVCResizePhase_def phaseOf_def)
  note w = write_status_block[OF assms(1) fr, of "clockInit env" "answerInit env" PVCResizePhaseValidated ?msg]
  have ne: "Some ?n \<noteq> ?r" using assms(5) ph inflight_validated[of ?r] by (metis phase_next phase_option(2))
  have bl: "resizeBlock (fst ?w) = Some (wireResize wire ?n)"
    using w(2) assms(5,7) ph ne inflight_validated[of ?r] by (simp add: write_block_def stored_as_def)
  have l: "LastTransitionAt (wireResize wire ?n) = Some (wire (clockInit env))"
    by (simp add: wireResize_def) (simp add: nextResize_def Let_def split: option.split)
  have "clockStall env - wire (clockInit env) < StallThreshold"
    using assms(2,8) by (auto simp: wire_time_def StallThreshold_def Second_def Minute_def dest: spec[of _ "clockInit env"])
  then have ns: "\<not> stalled (clockStall env) (resizeBlock (fst ?w))"
    unfolding bl by (simp add: stalled_def l IsStalled_def StallElapsed_def Sub_def StallThreshold_def Minute_def minDuration_def
        maxDuration_def min_def max_def)
  have err: "\<not> snd ?w" using w(3) assms(7) by simp
  have st: "pvcResizeIsStalled (clockStall env) (fst (fst ?w)) = stalled (clockStall env) (resizeBlock (fst ?w))"
    by (rule stalled_eq[OF w(1)])
  have wait: "\<not> 0 < (if currentPVCResizePhase st = PVCResizePhaseAborted then pvcResizeAbortedWaitRemaining (clockWait env) st else 0)"
    using assms(6) unfolding retryWait_eq[OF fr, of "clockWait env", unfolded fst_conv snd_conv] by simp
  have des: "Desired res = want" using detect_growing[OF assms(3,4)] by simp
  have "reconcilePVCResize merge env (Some want) (st, st) = startOrContinue merge env res (st, st)"
    using v assms(4) by (simp add: reconcilePVCResize_def Let_def)
  also have "\<dots> = (let d = drivePVCResize merge env PVCResizePhaseValidated want (fst ?w)
      in d\<lparr>roEvents := ''PVCResizeInitiated'' # roEvents d\<rparr>)"
    unfolding startOrContinue_def Let_def using wait assms(5) err st ns des
    by (cases "currentPVCResizePhase st = PVCResizePhaseAborted") (simp_all add: case_prod_beta)
  finally have "reconcilePVCResize merge env (Some want) (st, st) =
      (let d = drivePVCResize merge env PVCResizePhaseValidated want (fst ?w) in d\<lparr>roEvents := ''PVCResizeInitiated'' # roEvents d\<rparr>)" .
  moreover have "phaseOf (resizeBlock (fst ?w)) = PVCResizePhaseValidated" unfolding bl by (simp add: wireResize_def)
  ultimately show ?thesis using w(1) unfolding Let_def by blast
qed

lemma settle_simps [simp]:
  "rcStatus (settle c) = rcStatus c" "rcEvents (settle c) = rcEvents c"
  "map PVCName (rcPVCs (settle c)) = map PVCName (rcPVCs c)" "rcPVCs (settle c) = [] \<longleftrightarrow> rcPVCs c = []"
  "smallestCurrentSize (rcPVCs (settle c)) = smallestCurrentSize (rcPVCs c)"
  "rcSts (settle c) = None \<longleftrightarrow> rcSts c = None"
proof -
  show "smallestCurrentSize (rcPVCs (settle c)) = smallestCurrentSize (rcPVCs c)"
    by (cases "rcPVCs c = []") (simp_all add: settle_def smallest_Min image_comp)
qed (simp_all add: settle_def)

lemma settle_capacity: "p \<in> set (rcPVCs (settle c)) \<Longrightarrow> smallestCurrentSize (rcPVCs c) \<le> CapacitySize p"
  using smallest_le by (fastforce simp: settle_def)

text \<open>One round per phase.\<close>

definition within :: "gotime \<Rightarrow> resizeEnv \<Rightarrow> bool" where
  "within t0 env \<longleftrightarrow>
     t0 \<le> clockInit env \<and> t0 \<le> clockDrive env \<and> clockStall env \<le> t0 + 9 * Minute"

lemma settled_round:
  assumes "d = reconcilePVCResize merge (serve get c env) persistence (rcStatus c, rcStatus c)" and "\<not> roError d"
  shows "resizeRound merge get n persistence c env =
    settle (recreateSts n persistence ((foldl applyWrite c (roWrites d))\<lparr>rcStatus := snd (roStatus d), rcEvents := rcEvents c @ roEvents d\<rparr>))"
  using assms by (simp add: resizeRound_def Let_def)

lemma guarded_no_recreate:
  "isPVCResizeGuardingPhase2 (currentPVCResizePhase (rcStatus c)) \<Longrightarrow> recreateSts n p c = c"
  by (simp add: recreateSts_def)

lemma round_start:
  assumes "merge_patch wire merge" and "wire_time wire" and "expandable get (rcPVCs c)" and "0 < want" and "within t0 env"
    and "\<not> isPVCResizeInFlight (currentPVCResizePhase (rcStatus c))" and "rcPVCs c \<noteq> []" "distinct (map PVCName (rcPVCs c))"
    and "smallestCurrentSize (rcPVCs c) < want" and "retryWait (clockWait env) (resizeOf (rcStatus c)) \<le> 0"
    and "c' = resizeRound merge get n (Some want) c env"
  shows "resizing want c' PVCResizePhaseStsOrphaned \<and> map PVCName (rcPVCs c') = map PVCName (rcPVCs c) \<and>
    rcEvents c' = rcEvents c @ [''PVCResizeInitiated''] \<and>
    (\<exists>r. resizeOf (rcStatus c') = Some r \<and> LastTransitionAt r = Some (wire (clockDrive env)))"
proof -
  let ?env = "serve get c env"
  obtain res sc where v: "verdict ?env want = Some (res, sc)" "DOutcome res = OutcomeResizeNeeded"
    using verdict_served[OF assms(7,3,4), of env] assms(9) by auto
  obtain vs1 d where d: "reconcilePVCResize merge ?env (Some want) (rcStatus c, rcStatus c) = d\<lparr>roEvents := ''PVCResizeInitiated'' # roEvents d\<rparr>"
    "d = drivePVCResize merge ?env PVCResizePhaseValidated want vs1" "freshCopy vs1" "phaseOf (resizeBlock vs1) = PVCResizePhaseValidated"
    using pass_starts[OF assms(1,2) v assms(6)] assms(5,10) by (auto simp: within_def)
  obtain t where t: "transitionFrom ?env (pvcResizeRequeueDefaults\<lparr>TargetSize := want\<rparr>) PVCResizePhaseValidated =
      Some (t, if rcSts c = None then [] else [OrphanDelete])" "TRAction t = ActionAdvance" "NextPhase t = PVCResizePhaseStsOrphaned" "TREvent t = []"
    using served_transitions(1)[where want = want] by blast
  have a: "currentPVCResizePhase (snd (roStatus d)) = PVCResizePhaseStsOrphaned \<and> roWrites d = (if rcSts c = None then [] else [OrphanDelete]) \<and>
    roEvents d = [] \<and> \<not> roError d \<and> (\<exists>r. resizeOf (snd (roStatus d)) = Some r \<and> LastTransitionAt r = Some (wire (clockDrive env)))"
    using drive_advance[OF assms(1) d(3) _ t(1,2,4)] t(3) d(2,4) by (simp add: Let_def)
  define c1 where "c1 = (foldl applyWrite c (roWrites d))\<lparr>rcStatus := snd (roStatus d), rcEvents := rcEvents c @ [''PVCResizeInitiated'']\<rparr>"
  have c1: "rcSts c1 = None" "rcPVCs c1 = rcPVCs c" "currentPVCResizePhase (rcStatus c1) = PVCResizePhaseStsOrphaned"
    using a by (auto simp: c1_def applyWrite_def)
  have "c' = settle (recreateSts n (Some want) c1)"
    using settled_round[OF d(1)[symmetric], of n] a by (simp add: assms(11) c1_def)
  also have "recreateSts n (Some want) c1 = c1" using c1(3) by (intro guarded_no_recreate) (simp add: isPVCResizeGuardingPhase2_def)
  finally have c': "c' = settle c1" .
  show ?thesis unfolding c' using c1 assms(7-9) a by (auto simp: resizing_def c1_def)
qed

lemma round_patch:
  assumes "merge_patch wire merge" and "wire_time wire" and "expandable get (rcPVCs c)" and "0 < want" and "within t0 env"
    and "resizing want c PVCResizePhaseStsOrphaned"
    and "resizeOf (rcStatus c) = Some r" and "LastTransitionAt r = Some (wire t1)" and "t0 \<le> t1"
    and "c' = resizeRound merge get n (Some want) c env"
  shows "resizing want c' PVCResizePhasePVCsPatched \<and> map PVCName (rcPVCs c') = map PVCName (rcPVCs c) \<and> rcEvents c' = rcEvents c"
proof -
  let ?env = "serve get c env" and ?st = "rcStatus c"
  have c: "currentPVCResizePhase ?st = PVCResizePhaseStsOrphaned" "rcSts c = None" "smallestCurrentSize (rcPVCs c) < want"
    "rcPVCs c \<noteq> []" "distinct (map PVCName (rcPVCs c))" using assms(6) by (simp_all add: resizing_def)
  obtain res sc where v: "verdict ?env want = Some (res, sc)" "DOutcome res = OutcomeResizeNeeded" "Desired res = want"
    using verdict_served[OF c(4) assms(3,4), of env] c(3) by auto
  have "clockStall env - wire t1 < StallThreshold"
    using assms(2,5,9) by (auto simp: within_def wire_time_def StallThreshold_def Second_def Minute_def dest: spec[of _ t1])
  then have ns: "\<not> pvcResizeIsStalled (clockStall ?env) ?st"
    using assms(7,8) by (simp add: pvcResizeIsStalled_def IsStalled_def StallElapsed_def Sub_def StallThreshold_def Minute_def minDuration_def
        maxDuration_def min_def max_def)
  define d where "d = drivePVCResize merge ?env PVCResizePhaseStsOrphaned want (?st, ?st)"
  have d: "reconcilePVCResize merge ?env (Some want) (?st, ?st) = d"
    using pass_is_drive[OF v(1), of ?st merge] v(2,3) ns c(1) by (simp add: d_def isPVCResizeInFlight_def)
  obtain t where t: "transitionFrom ?env (pvcResizeRequeueDefaults\<lparr>TargetSize := want\<rparr>) PVCResizePhaseStsOrphaned =
      Some (t, map (\<lambda>p. ResizePVC (PVCName p) want) (filter (\<lambda>p. RequestSize p < want) (rcPVCs c)))"
    "TRAction t = ActionAdvance" "NextPhase t = PVCResizePhasePVCsPatched" "TREvent t = []"
    using served_transitions(2)[OF c(2), where want = want] by blast
  have f: "freshCopy (?st, ?st)" by (simp add: freshCopy_def)
  have ph: "phaseOf (resizeOf ?st) = PVCResizePhaseStsOrphaned" using c(1) by (simp add: currentPVCResizePhase_def phaseOf_def)
  have a: "currentPVCResizePhase (snd (roStatus d)) = PVCResizePhasePVCsPatched"
    "roWrites d = map (\<lambda>p. ResizePVC (PVCName p) want) (filter (\<lambda>p. RequestSize p < want) (rcPVCs c))"
    "roEvents d = []" "\<not> roError d"
    using drive_advance[OF assms(1) f _ t(1,2,4)] t(3) ph by (simp_all add: d_def Let_def)
  define c1 where "c1 = c\<lparr>rcPVCs := raised want (rcPVCs c), rcStatus := snd (roStatus d)\<rparr>"
  have "(foldl applyWrite c (roWrites d))\<lparr>rcStatus := snd (roStatus d), rcEvents := rcEvents c @ roEvents d\<rparr> = c1"
    unfolding a(2,3) foldl_patches patched_all[OF c(5)] c1_def by simp
  with settled_round[OF d[symmetric] a(4), of n] have "c' = settle (recreateSts n (Some want) c1)" by (simp add: assms(10))
  also have "recreateSts n (Some want) c1 = c1"
    using a(1) by (intro guarded_no_recreate) (simp add: c1_def isPVCResizeGuardingPhase2_def)
  finally have c': "c' = settle c1" .
  note r = raised_facts[OF c(4,3)]
  have "smallestCurrentSize (rcPVCs c1) = want" by (simp add: c1_def r)
  with settle_capacity[of _ c1] have "\<forall>p\<in>set (rcPVCs (settle c1)). want \<le> CapacitySize p" by auto
  then show ?thesis unfolding c' using a(1) c(2,5) r by (simp add: resizing_def c1_def)
qed

lemma round_poll:
  assumes "merge_patch wire merge" and "expandable get (rcPVCs c)" and "0 < want"
    and "rcPVCs c \<noteq> []" and "smallestCurrentSize (rcPVCs c) = want"
    and "isPVCResizeInFlight (currentPVCResizePhase (rcStatus c))"
    and "transitionFrom (serve get c env) (pvcResizeRequeueDefaults\<lparr>TargetSize := want\<rparr>) (currentPVCResizePhase (rcStatus c)) = Some (t, [])"
    and "TRAction t = ActionAdvance" and "TREvent t = []" and "NextPhase t \<noteq> currentPVCResizePhase (rcStatus c)"
  shows "\<exists>st. currentPVCResizePhase st = NextPhase t \<and>
    resizeRound merge get n (Some want) c env = settle (recreateSts n (Some want) (c\<lparr>rcStatus := st\<rparr>))"
proof -
  let ?env = "serve get c env" and ?st = "rcStatus c"
  obtain res sc where v: "verdict ?env want = Some (res, sc)" "DOutcome res = OutcomeNoChange"
    using verdict_served[OF assms(4,2,3), of env] assms(5) by auto
  define d where "d = drivePVCResize merge ?env (currentPVCResizePhase ?st) want (?st, ?st)"
  have d: "reconcilePVCResize merge ?env (Some want) (?st, ?st) = d"
    using pass_is_drive[OF v(1) assms(6), of merge] v(2) by (simp add: d_def)
  have f: "freshCopy (?st, ?st)" by (simp add: freshCopy_def)
  have ph: "phaseOf (resizeOf ?st) = currentPVCResizePhase ?st" by (simp add: currentPVCResizePhase_def phaseOf_def)
  have a: "currentPVCResizePhase (snd (roStatus d)) = NextPhase t" "roWrites d = []" "roEvents d = []" "\<not> roError d"
    using drive_advance[OF assms(1) f _ assms(7-9)] assms(10) ph by (simp_all add: d_def Let_def)
  have "resizeRound merge get n (Some want) c env = settle (recreateSts n (Some want) (c\<lparr>rcStatus := snd (roStatus d)\<rparr>))"
    using settled_round[OF d[symmetric] a(4), of n] a(2,3) by simp
  with a(1) show ?thesis by blast
qed

lemma round_expanded:
  assumes "merge_patch wire merge" and "expandable get (rcPVCs c)" and "0 < want" and "resizing want c PVCResizePhasePVCsPatched"
    and "c' = resizeRound merge get n (Some want) c env"
  shows "resizing want c' PVCResizePhaseStsRecreated \<and> map PVCName (rcPVCs c') = map PVCName (rcPVCs c) \<and> rcEvents c' = rcEvents c"
proof -
  have c: "currentPVCResizePhase (rcStatus c) = PVCResizePhasePVCsPatched" "rcSts c = None" "smallestCurrentSize (rcPVCs c) = want"
    "rcPVCs c \<noteq> []" "distinct (map PVCName (rcPVCs c))" "\<forall>p\<in>set (rcPVCs c). want \<le> CapacitySize p"
    using assms(4) by (simp_all add: resizing_def)
  obtain t where t: "transitionFrom (serve get c env) (pvcResizeRequeueDefaults\<lparr>TargetSize := want\<rparr>) PVCResizePhasePVCsPatched = Some (t, [])"
    "TRAction t = ActionAdvance" "NextPhase t = PVCResizePhaseStsRecreated" "TREvent t = []"
    using served_transitions(3)[OF c(4,6)] by blast
  obtain st where st: "currentPVCResizePhase st = PVCResizePhaseStsRecreated"
    "c' = settle (recreateSts n (Some want) (c\<lparr>rcStatus := st\<rparr>))"
    using round_poll[OF assms(1-3) c(4,3), of env t n] t c(1) assms(5) by (auto simp: isPVCResizeInFlight_def)
  show ?thesis
    unfolding st(2) using st(1) c by (auto simp: resizing_def recreateSts_def isPVCResizeGuardingPhase2_def settle_def
        buildClaimTemplates_def smallest_Min image_comp comp_def split: PVCResizePhase.split)
qed

lemma round_ready:
  assumes "merge_patch wire merge" and "expandable get (rcPVCs c)" and "0 < want" and "resizing want c PVCResizePhaseStsRecreated"
    and "c' = resizeRound merge get n (Some want) c env"
  shows "resizing want c' PVCResizePhaseVerified \<and> map PVCName (rcPVCs c') = map PVCName (rcPVCs c) \<and> rcEvents c' = rcEvents c"
proof -
  obtain s where c: "currentPVCResizePhase (rcStatus c) = PVCResizePhaseStsRecreated" "smallestCurrentSize (rcPVCs c) = want"
    "rcPVCs c \<noteq> []" "distinct (map PVCName (rcPVCs c))" "\<forall>p\<in>set (rcPVCs c). want \<le> CapacitySize p"
    "rcSts c = Some s" "ClaimTemplates s = [(''data'', want)]" "StsReplicas s = Some (ReadyReplicas s)"
    using assms(4) by (auto simp: resizing_def)
  obtain t where t: "transitionFrom (serve get c env) (pvcResizeRequeueDefaults\<lparr>TargetSize := want\<rparr>) PVCResizePhaseStsRecreated = Some (t, [])"
    "TRAction t = ActionAdvance" "NextPhase t = PVCResizePhaseVerified" "TREvent t = []"
    using served_transitions(4)[OF c(6,7)] by blast
  obtain st where st: "currentPVCResizePhase st = PVCResizePhaseVerified"
    "c' = settle (recreateSts n (Some want) (c\<lparr>rcStatus := st\<rparr>))"
    using round_poll[OF assms(1-3) c(3,2), of env t n] t c(1) assms(5) by (auto simp: isPVCResizeInFlight_def)
  show ?thesis
    unfolding st(2) using st(1) c by (auto simp: resizing_def recreateSts_def isPVCResizeGuardingPhase2_def settle_def
        smallest_Min image_comp comp_def)
qed

lemma round_complete:
  assumes "merge_patch wire merge" and "expandable get (rcPVCs c)" and "0 < want" and "resizing want c PVCResizePhaseVerified"
    and "c' = resizeRound merge get n (Some want) c env"
  shows "resizeOf (rcStatus c') = None \<and> map PVCName (rcPVCs c') = map PVCName (rcPVCs c) \<and>
    rcEvents c' = rcEvents c @ [''PVCResizeComplete''] \<and>
    (\<forall>p\<in>set (rcPVCs c'). want \<le> RequestSize p \<and> want \<le> CapacitySize p) \<and>
    (\<exists>s. rcSts c' = Some s \<and> ClaimTemplates s = [(''data'', want)])"
proof -
  let ?env = "serve get c env" and ?st = "rcStatus c"
  obtain s where c: "currentPVCResizePhase ?st = PVCResizePhaseVerified" "smallestCurrentSize (rcPVCs c) = want"
    "rcPVCs c \<noteq> []" "\<forall>p\<in>set (rcPVCs c). want \<le> CapacitySize p"
    "rcSts c = Some s" "ClaimTemplates s = [(''data'', want)]" "StsReplicas s = Some (ReadyReplicas s)"
    using assms(4) by (auto simp: resizing_def)
  obtain t where t: "transitionFrom ?env (pvcResizeRequeueDefaults\<lparr>TargetSize := want\<rparr>) PVCResizePhaseVerified = Some (t, [])"
    "TRAction t = ActionComplete" "TREvent t = ''PVCResizeComplete''"
    using served_transitions(5)[OF c(5,7)] by blast
  obtain res sc where v: "verdict ?env want = Some (res, sc)" "DOutcome res = OutcomeNoChange"
    using verdict_served[OF c(3) assms(2,3), of env] c(2) by auto
  define d where "d = drivePVCResize merge ?env PVCResizePhaseVerified want (?st, ?st)"
  have d: "reconcilePVCResize merge ?env (Some want) (?st, ?st) = d"
    using pass_is_drive[OF v(1), of ?st merge] v(2) c(1) by (simp add: d_def isPVCResizeInFlight_def)
  have f: "freshCopy (?st, ?st)" by (simp add: freshCopy_def)
  have "resizeOf (snd (roStatus d)) = None"
    using drive_status_block[OF assms(1) f, of ?env PVCResizePhaseVerified want] t(1,2)
    by (auto simp: d_def drive_block_def stored_as_def)
  moreover have "roWrites d = []" "roEvents d = [''PVCResizeComplete'']"
    using t by (simp_all add: d_def drive_outputs drive_effects_def)
  moreover have "\<not> roError d" using drive_error[OF assms(1) f _ t(1)] t(2) by (simp add: d_def)
  ultimately have c': "resizeOf (rcStatus c') = None"
    "c' = settle (c\<lparr>rcStatus := snd (roStatus d), rcEvents := rcEvents c @ [''PVCResizeComplete'']\<rparr>)"
    using settled_round[OF d[symmetric], of n] c(5) by (simp_all add: assms(5) recreateSts_def isPVCResizeGuardingPhase2_def
        currentPVCResizePhase_def)
  have "\<forall>p\<in>set (rcPVCs c). want \<le> RequestSize p" using smallest_le c(2) by auto
  with c' c(4-6) show ?thesis by (auto simp: settle_def)
qed

lemma round_classes:
  "map StorageClassName (rcPVCs (resizeRound merge get n p c env)) = map StorageClassName (rcPVCs c)"
proof -
  have w: "map StorageClassName (rcPVCs (applyWrite c w)) = map StorageClassName (rcPVCs c)" for c w
    by (cases w) (simp_all add: applyWrite_def)
  have "map StorageClassName (rcPVCs (foldl applyWrite c ws)) = map StorageClassName (rcPVCs c)" for ws
    by (induction ws arbitrary: c) (simp_all add: w)
  moreover have "map StorageClassName (rcPVCs (settle d)) = map StorageClassName (rcPVCs d)" for d
    by (simp add: settle_def comp_def)
  ultimately show ?thesis by (simp add: resizeRound_def Let_def recreateSts_def split: option.split)
qed

lemma expandable_cong:
  assumes "map StorageClassName ps = map StorageClassName qs"
  shows "expandable get ps = expandable get qs"
proof (cases "ps = []")
  case False
  with assms have "StorageClassName (hd ps) = StorageClassName (hd qs)" "qs \<noteq> []" by (metis list.map_sel(1) map_is_Nil_conv)+
  with False show ?thesis by (simp add: expandable_def lookupStorageClassForPVCs_def)
qed (use assms in simp)

text \<open>
  C9. A resize terminates after five passes. Start with no resize in flight and no back-off to wait
  for, volumes of which the smallest request is below the size in the spec, and a storage class that
  allows expansion; let five reconciles follow within nine minutes, each answered truthfully, with
  volumes growing to their requests and replicas becoming ready in between. Then after four passes
  the machine has verified the recreated StatefulSet, and after the fifth the block is removed, every
  volume is still there with request and capacity of at least the new size, the StatefulSet is back
  with the new template, and exactly the two events for initiation and completion were recorded.
\<close>

theorem resize_completes:
  assumes "merge_patch wire merge" and "wire_time wire" and "expandable get (rcPVCs c)" and "0 < want"
    and "\<not> isPVCResizeInFlight (currentPVCResizePhase (rcStatus c))" and "rcPVCs c \<noteq> []" and "distinct (map PVCName (rcPVCs c))"
    and "smallestCurrentSize (rcPVCs c) < want" and "retryWait (clockWait e1) (resizeOf (rcStatus c)) \<le> 0"
    and "within t0 e1" and "within t0 e2"
  shows "let run = foldl (resizeRound merge get n (Some want)); c' = run c [e1, e2, e3, e4, e5] in
    currentPVCResizePhase (rcStatus (run c [e1, e2, e3, e4])) = PVCResizePhaseVerified \<and>
    resizeOf (rcStatus c') = None \<and> map PVCName (rcPVCs c') = map PVCName (rcPVCs c) \<and>
    (\<forall>p\<in>set (rcPVCs c'). want \<le> RequestSize p \<and> want \<le> CapacitySize p) \<and>
    (\<exists>s. rcSts c' = Some s \<and> ClaimTemplates s = [(''data'', want)]) \<and>
    rcEvents c' = rcEvents c @ [''PVCResizeInitiated'', ''PVCResizeComplete'']"
proof -
  let ?R = "resizeRound merge get n (Some want)"
  define c1 where "c1 = ?R c e1"
  define c2 where "c2 = ?R c1 e2"
  define c3 where "c3 = ?R c2 e3"
  define c4 where "c4 = ?R c3 e4"
  define c5 where "c5 = ?R c4 e5"
  have x: "expandable get (rcPVCs (?R d env)) = expandable get (rcPVCs d)" for d env
    by (rule expandable_cong[OF round_classes])
  have e: "expandable get (rcPVCs c1)" "expandable get (rcPVCs c2)" "expandable get (rcPVCs c3)" "expandable get (rcPVCs c4)"
    using assms(3) x by (simp_all add: c1_def c2_def c3_def c4_def)
  note s1 = round_start[OF assms(1-4,10,5-9) c1_def]
  then obtain r where r: "resizeOf (rcStatus c1) = Some r" "LastTransitionAt r = Some (wire (clockDrive e1))" by blast
  have t: "t0 \<le> clockDrive e1" using assms(10) by (simp add: within_def)
  note s2 = round_patch[OF assms(1,2) e(1) assms(4,11) conjunct1[OF s1] r t c2_def]
  note s3 = round_expanded[OF assms(1) e(2) assms(4) conjunct1[OF s2] c3_def]
  note s4 = round_ready[OF assms(1) e(3) assms(4) conjunct1[OF s3] c4_def]
  note s5 = round_complete[OF assms(1) e(4) assms(4) conjunct1[OF s4] c5_def]
  have "currentPVCResizePhase (rcStatus c4) = PVCResizePhaseVerified" using s4 by (simp add: resizing_def)
  then show ?thesis
    using s1 s2 s3 s4 s5 by (simp add: c1_def[symmetric] c2_def[symmetric] c3_def[symmetric] c4_def[symmetric] c5_def[symmetric] Let_def)
qed

definition example_pvc :: "string \<Rightarrow> quantity \<Rightarrow> PVC" where
  "example_pvc name q = \<lparr>PVCName = name, RequestSize = q, CapacitySize = q, StorageClassName = Some ''fast''\<rparr>"

definition example_class :: "string \<Rightarrow> StorageClass fetched" where
  "example_class name =
     (if name = ''fast'' then Found \<lparr>ClassName = ''fast'', AllowVolumeExpansion = Some True\<rparr> else NotFound)"

definition example_cluster :: resizeCluster where
  "example_cluster =
     \<lparr>rcSts = None, rcPVCs = [example_pvc ''data-v-0'' 10, example_pvc ''data-v-1'' 12],
      rcStatus = \<lparr>Conditions = [], StatusPhase = [], Rollout = None, StatusPrimaryPod = []\<rparr>, rcEvents = []\<rparr>"

definition resize_env :: "gotime \<Rightarrow> resizeEnv" where
  "resize_env t =
     \<lparr>quantityString = itoa, envPVCs = Inl [], envClass = example_class, envSts = NotFound, envDelete = DeleteDone,
      envPVCsAgain = Inl [], envPatch = (\<lambda>n. PVCPatched), answerInit = StatusDone, answerStuck = StatusDone,
      answerDrive = StatusDone, clockWait = t, clockInit = t, clockStall = t, clockStuck = t, clockDrive = t\<rparr>"

theorem resize_completes_witness:
  "rcEvents (foldl (resizeRound statusMerge example_class 2 (Some 20)) example_cluster
     [resize_env Second, resize_env (3 * Second), resize_env (8 * Second), resize_env (9 * Second), resize_env (14 * Second)]) =
   [''PVCResizeInitiated'', ''PVCResizeComplete'']"
proof -
  have x: "expandable example_class (rcPVCs example_cluster)"
    by (simp add: expandable_def example_cluster_def example_pvc_def lookupStorageClassForPVCs_def example_class_def)
  have f: "\<not> isPVCResizeInFlight (currentPVCResizePhase (rcStatus example_cluster))" "rcPVCs example_cluster \<noteq> []"
    "distinct (map PVCName (rcPVCs example_cluster))" "smallestCurrentSize (rcPVCs example_cluster) < 20"
    "retryWait (clockWait (resize_env Second)) (resizeOf (rcStatus example_cluster)) \<le> 0"
    by (simp_all add: example_cluster_def example_pvc_def currentPVCResizePhase_def isPVCResizeInFlight_def rolloutOf_def
        emptyRolloutStatus_def smallestCurrentSize_def retryWait_def)
  have w: "within Second (resize_env Second)" "within Second (resize_env (3 * Second))"
    by (simp_all add: within_def resize_env_def Second_def Minute_def)
  have "rcEvents example_cluster = []" by (simp add: example_cluster_def)
  with resize_completes[OF merge_patch_statusMerge wire_time_floorSecond x _ f w, of 2] show ?thesis by (simp add: Let_def)
qed

definition orphaned_status :: ValkeyStatus where
  "orphaned_status =
     \<lparr>Conditions = [], StatusPhase = [],
      Rollout = Some (emptyRolloutStatus\<lparr>PVCResize := Some \<lparr>ResizePhase = PVCResizePhaseStsOrphaned, Attempt = 1,
        StartedAt = None, LastTransitionAt = None, LastStuckEventAt = None, ResizeMessage = []\<rparr>\<rparr>),
      StatusPrimaryPod = []\<rparr>"

theorem resize_data_safe_witness:
  "let d = reconcilePVCResize statusMerge (serve example_class example_cluster (resize_env Second)) (Some 20)
             (orphaned_status, orphaned_status)
   in ResizePVC ''data-v-0'' 20 \<in> set (roWrites d) \<and>
      (\<exists>p\<in>set (rcPVCs example_cluster). PVCName p = ''data-v-0'' \<and> RequestSize p < 20)"
proof -
  let ?env = "serve example_class example_cluster (resize_env Second)"
  let ?d = "reconcilePVCResize statusMerge ?env (Some 20) (orphaned_status, orphaned_status)"
  have ph: "currentPVCResizePhase orphaned_status = PVCResizePhaseStsOrphaned"
    "\<not> pvcResizeIsStalled now orphaned_status" for now
    by (simp_all add: orphaned_status_def currentPVCResizePhase_def rolloutOf_def pvcResizeIsStalled_def)
  have c: "rcPVCs example_cluster \<noteq> []" "expandable example_class (rcPVCs example_cluster)"
    "smallestCurrentSize (rcPVCs example_cluster) < 20" "rcSts example_cluster = None"
    by (simp_all add: example_cluster_def example_pvc_def expandable_def lookupStorageClassForPVCs_def example_class_def
        smallestCurrentSize_def)
  obtain res sc where v: "verdict ?env 20 = Some (res, sc)" "DOutcome res = OutcomeResizeNeeded" "Desired res = 20"
    using verdict_served[OF c(1,2), of 20 "resize_env Second"] c(3) by auto
  have "?d = drivePVCResize statusMerge ?env PVCResizePhaseStsOrphaned 20 (orphaned_status, orphaned_status)"
    using pass_is_drive[OF v(1), of orphaned_status statusMerge] v ph by (simp add: isPVCResizeInFlight_def)
  then have w: "ResizePVC ''data-v-0'' 20 \<in> set (roWrites ?d)"
    using served_transitions(2)[OF c(4), of example_class "resize_env Second" 20]
    by (auto simp: drive_outputs drive_effects_def example_cluster_def example_pvc_def)
  then have "\<exists>p\<in>set (rcPVCs example_cluster). PVCName p = ''data-v-0'' \<and> RequestSize p < 20"
    using resize_data_safe[OF merge_patch_statusMerge refl refl refl, of "''data-v-0''" 20 ?env "Some 20" orphaned_status] by auto
  with w show ?thesis by (simp add: Let_def)
qed

section \<open>Retries\<close>

lemma backoff_table:
  "BackoffForAttempt a =
     (if a \<le> 1 then Minute else if a = 2 then 5 * Minute else if a = 3 then 15 * Minute else Hour)"
proof -
  consider "a \<le> 1" | "a = 2" | "a = 3" | "a = 4" | "4 < a" by linarith
  then show ?thesis
    by cases (simp_all add: BackoffForAttempt_def abortRetryBackoffs_def Let_def numeral_eq_Suc)
qed

lemma backoff_elapsed:
  assumes "BackoffRemaining t a now \<le> 0" and "t \<noteq> 0"
  shows "t + BackoffForAttempt a \<le> now"
proof -
  have "BackoffForAttempt a \<le> Sub now t"
    using assms by (auto simp: BackoffRemaining_def IsZero_def Let_def split: if_splits)
  moreover have "0 < BackoffForAttempt a" by (simp add: backoff_table Minute_def Hour_def)
  ultimately show ?thesis by (auto simp: Sub_def minDuration_def max_def min_def split: if_splits)
qed

lemma start_from_aborted:
  assumes "start_block wire env res (Some x) = (r', ws, es)" and "ResizePhase x = PVCResizePhaseAborted"
    and "phaseOf r' \<noteq> PVCResizePhaseAborted"
  shows "retryWait (clockWait env) (Some x) \<le> 0 \<and> ''PVCResizeInitiated'' \<in> set es"
  using assms by (auto simp: start_block_def Let_def isPVCResizeInFlight_def split: if_splits)

lemma next_attempt:
  "Attempt (nextResize now ph msg (Some x)) =
     (if StartedAt x = None then 1
      else if ph = PVCResizePhaseValidated \<and> ResizePhase x \<noteq> ph then wrap32 (Attempt x + 1) else Attempt x)"
  by (simp add: nextResize_def Let_def)

lemma next_started:
  "StartedAt (nextResize now ph msg (Some x)) = (if StartedAt x = None then Some now else StartedAt x)"
  by (simp add: nextResize_def Let_def)

lemma write_attempt:
  assumes "ph \<noteq> PVCResizePhaseValidated" and "StartedAt x \<noteq> None"
  shows "\<exists>y. write_block wire now ans ph msg (Some x) = Some y \<and> Attempt y = Attempt x"
  using assms next_attempt[of now ph msg x] by (auto simp: write_block_def stored_as_def wireResize_def)

lemma drive_validated_attempt:
  assumes "StartedAt x \<noteq> None"
  shows "\<exists>y. drive_block wire env PVCResizePhaseValidated want (Some x) = Some y \<and> Attempt y = Attempt x"
proof (cases "transitionFrom env (pvcResizeRequeueDefaults\<lparr>TargetSize := want\<rparr>) PVCResizePhaseValidated")
  case (Some p)
  obtain t ws where t: "transitionFrom env (pvcResizeRequeueDefaults\<lparr>TargetSize := want\<rparr>) PVCResizePhaseValidated = Some (t, ws)"
    using Some by (cases p) simp
  note e = transition_earned[OF t]
  show ?thesis
    using t e write_attempt[OF _ assms] by (cases "TRAction t") (auto simp: drive_block_def successor_def)
qed (simp add: drive_block_def)

lemma start_attempt:
  assumes "start_block wire env res (Some x) = (r', ws, es)" and "ResizePhase x = PVCResizePhaseAborted"
    and "phaseOf r' \<noteq> PVCResizePhaseAborted" and "answerInit env = StatusDone" and "StartedAt x \<noteq> None"
  shows "\<exists>y. r' = Some y \<and> Attempt y = wrap32 (Attempt x + 1)"
proof -
  let ?n = "nextResize (clockInit env) PVCResizePhaseValidated (initiatedMessage (quantityString env) res) (Some x)"
  define y where "y = wireResize wire ?n"
  have n: "Some ?n \<noteq> Some x"
  proof
    assume "Some ?n = Some x"
    then have "ResizePhase ?n = ResizePhase x" by simp
    then show False using assms(2) by simp
  qed
  have y: "write_block wire (clockInit env) (answerInit env) PVCResizePhaseValidated (initiatedMessage (quantityString env) res) (Some x) = Some y"
    using assms(2,4) n by (auto simp: write_block_def stored_as_def y_def)
  have a: "Attempt y = wrap32 (Attempt x + 1)" "StartedAt y \<noteq> None"
    using assms(2,5) by (auto simp: y_def wireResize_def next_attempt next_started)
  obtain z where z: "drive_block wire env PVCResizePhaseValidated (Desired res) (Some y) = Some z" "Attempt z = Attempt y"
    using drive_validated_attempt[OF a(2)] by blast
  have tl: "\<exists>z. (if told (Some y) then Some y else stored_as wire b (tell t (Some y)) (Some y)) = Some z \<and> Attempt z = Attempt y" for b t
    by (auto simp: stored_as_def tell_def wireResize_def)
  have "r' = drive_block wire env PVCResizePhaseValidated (Desired res) (Some y) \<or>
      (\<exists>b t. r' = (if told (Some y) then Some y else stored_as wire b (tell t (Some y)) (Some y)))"
    using assms(1-3) start_from_aborted[OF assms(1-3)] assms(4)
    unfolding start_block_def Let_def y by (auto simp: isPVCResizeInFlight_def split: if_splits)
  then show ?thesis
  proof
    assume "r' = drive_block wire env PVCResizePhaseValidated (Desired res) (Some y)"
    with z a(1) show ?thesis by simp
  next
    assume "\<exists>b t. r' = (if told (Some y) then Some y else stored_as wire b (tell t (Some y)) (Some y))"
    with tl a(1) show ?thesis by metis
  qed
qed

text \<open>
  Retries are spaced. A pass leaves the aborted phase, with persistence still in the spec, only
  when a growth the storage class allows is pending, and not before the back-off of the recorded
  attempt has passed since the abort was recorded: one minute, five, fifteen and then an hour for
  every further attempt. It announces the new attempt, and when the write is accepted the attempt
  counter goes up by one.
\<close>

theorem retry_backoff:
  assumes "merge_patch wire merge" and "d = reconcilePVCResize merge env (Some want) (st, st)"
    and "resizeOf st = Some x" and "ResizePhase x = PVCResizePhaseAborted" and "LastTransitionAt x = Some t" and "t \<noteq> 0"
    and "currentPVCResizePhase (snd (roStatus d)) \<noteq> PVCResizePhaseAborted"
  shows "growing env want \<and> ''PVCResizeInitiated'' \<in> set (roEvents d) \<and>
    t + (if Attempt x \<le> 1 then Minute else if Attempt x = 2 then 5 * Minute
         else if Attempt x = 3 then 15 * Minute else Hour) \<le> clockWait env \<and>
    (answerInit env = StatusDone \<and> StartedAt x \<noteq> None \<longrightarrow>
       (\<exists>y. resizeOf (snd (roStatus d)) = Some y \<and> Attempt y = wrap32 (Attempt x + 1)))"
proof -
  obtain r' ws es where p: "pass_block wire env (Some want) (Some x) = (r', ws, es)"
    by (cases "pass_block wire env (Some want) (Some x)") auto
  have o: "resizeOf (snd (roStatus d)) = r'" "roEvents d = es"
    using pass_refines[OF assms(1), of "(st, st)" env "Some want"] p assms(2,3) by (simp_all add: freshCopy_def outputs_def)
  have ph: "phaseOf r' \<noteq> PVCResizePhaseAborted" using assms(7) o(1) by (simp add: currentPVCResizePhase_def phaseOf_def)
  obtain res sc where v: "verdict env want = Some (res, sc)"
    using p ph assms(4) by (auto simp: pass_block_def split: option.splits)
  have tr: "transitionFrom e g PVCResizePhaseAborted = None" for e g by (simp add: transitionFrom_def)
  have need: "DOutcome res = OutcomeResizeNeeded"
    using p v ph assms(4) by (cases "DOutcome res") (auto simp: pass_block_def drive_block_def tr reject_block_def write_block_def)
  have s: "start_block wire env res (Some x) = (r', ws, es)" using p v need by (simp add: pass_block_def)
  from start_from_aborted[OF s assms(4) ph] have e: "BackoffRemaining t (Attempt x) (clockWait env) \<le> 0"
    "''PVCResizeInitiated'' \<in> set es" using assms(4,5) by (simp_all add: retryWait_def)
  show ?thesis
    using detect_growing[OF v need] e(2) o backoff_elapsed[OF e(1) assms(6)] start_attempt[OF s assms(4) ph]
    by (simp add: backoff_table)
qed

definition aborted_block :: "gotime \<Rightarrow> PVCResizeStatus" where
  "aborted_block t =
     \<lparr>ResizePhase = PVCResizePhaseAborted, Attempt = 2, StartedAt = Some 1, LastTransitionAt = Some t,
      LastStuckEventAt = None, ResizeMessage = []\<rparr>"

definition aborted_status :: ValkeyStatus where
  "aborted_status =
     \<lparr>Conditions = [], StatusPhase = [],
      Rollout = Some (emptyRolloutStatus\<lparr>PVCResize := Some (aborted_block Second)\<rparr>), StatusPrimaryPod = []\<rparr>"

definition retried_cluster :: resizeCluster where
  "retried_cluster = example_cluster\<lparr>rcStatus := aborted_status\<rparr>"

theorem retry_backoff_witness:
  "let env = serve example_class retried_cluster (resize_env Hour);
       d = reconcilePVCResize statusMerge env (Some 20) (aborted_status, aborted_status)
   in currentPVCResizePhase (snd (roStatus d)) = PVCResizePhaseStsOrphaned \<and> Second + 5 * Minute \<le> clockWait env \<and>
      (\<exists>y. resizeOf (snd (roStatus d)) = Some y \<and> Attempt y = 3)"
proof -
  let ?env = "serve example_class retried_cluster (resize_env Hour)"
  let ?d = "reconcilePVCResize statusMerge ?env (Some 20) (aborted_status, aborted_status)"
  have b: "resizeOf aborted_status = Some (aborted_block Second)" by (simp add: aborted_status_def rolloutOf_def)
  have c: "expandable example_class (rcPVCs retried_cluster)" "rcPVCs retried_cluster \<noteq> []"
    "distinct (map PVCName (rcPVCs retried_cluster))" "smallestCurrentSize (rcPVCs retried_cluster) < 20"
    "\<not> isPVCResizeInFlight (currentPVCResizePhase (rcStatus retried_cluster))"
    "rcStatus retried_cluster = aborted_status"
    by (simp_all add: retried_cluster_def example_cluster_def example_pvc_def expandable_def lookupStorageClassForPVCs_def
        example_class_def smallestCurrentSize_def currentPVCResizePhase_def b aborted_block_def isPVCResizeInFlight_def)
  have w: "within Hour (resize_env Hour)" by (simp add: within_def resize_env_def Minute_def)
  have rw: "retryWait (clockWait (resize_env Hour)) (resizeOf (rcStatus retried_cluster)) \<le> 0"
    by (simp add: c(6) b retryWait_def aborted_block_def BackoffRemaining_def backoff_table resize_env_def IsZero_def Sub_def
        Second_def Minute_def Hour_def minDuration_def maxDuration_def)
  have st: "rcStatus (resizeRound statusMerge example_class 2 (Some 20) retried_cluster (resize_env Hour)) = snd (roStatus ?d)"
    by (simp add: resizeRound_def Let_def c(6) recreateSts_def split: option.split)
  have ph: "currentPVCResizePhase (snd (roStatus ?d)) = PVCResizePhaseStsOrphaned"
    using round_start[OF merge_patch_statusMerge wire_time_floorSecond c(1) _ w c(5,2-4) rw refl, of 2] st
    by (simp add: resizing_def)
  have x: "ResizePhase (aborted_block Second) = PVCResizePhaseAborted" "LastTransitionAt (aborted_block Second) = Some Second"
    "Second \<noteq> 0" "Attempt (aborted_block Second) = 2" "StartedAt (aborted_block Second) \<noteq> None"
    by (simp_all add: aborted_block_def Second_def)
  have ne: "currentPVCResizePhase (snd (roStatus ?d)) \<noteq> PVCResizePhaseAborted" using ph by simp
  from retry_backoff[OF merge_patch_statusMerge refl b x(1-3) ne] x(4,5) ph show ?thesis
    by (simp add: Let_def wrap32_def)
qed

section \<open>The stall event\<close>

definition pass_st :: "merge \<Rightarrow> ValkeyStatus \<Rightarrow> resizeEnv \<times> quantity option \<Rightarrow> resizeOut" where
  "pass_st merge st x = reconcilePVCResize merge (fst x) (snd x) (st, st)"

fun pass_trace :: "merge \<Rightarrow> ValkeyStatus \<Rightarrow> (resizeEnv \<times> quantity option) list \<Rightarrow> (PVCResizePhase \<times> PVCResizePhase \<times> string list) list" where
  "pass_trace merge st [] = []"
| "pass_trace merge st (x # xs) =
     (let d = pass_st merge st x; st' = snd (roStatus d)
      in (currentPVCResizePhase st, currentPVCResizePhase st', roEvents d) # pass_trace merge st' xs)"

definition stucks :: "string list \<Rightarrow> nat" where
  "stucks es = length (filter (\<lambda>e. e = ''PVCExpansionStuck'') es)"

definition stuckCount :: "(PVCResizePhase \<times> PVCResizePhase \<times> string list) list \<Rightarrow> nat" where
  "stuckCount tr = (\<Sum>e\<leftarrow>tr. stucks (snd (snd e)))"

definition moves :: "(PVCResizePhase \<times> PVCResizePhase \<times> string list) list \<Rightarrow> nat" where
  "moves tr = length (filter (\<lambda>(a, b, es). a \<noteq> b) tr)"

definition untold :: "PVCResizeStatus option \<Rightarrow> nat" where
  "untold r = (if told r then 0 else 1)"

lemma drive_no_stuck: "''PVCExpansionStuck'' \<notin> set (snd (drive_effects env ph want))"
proof -
  have "TREvent t \<noteq> ''PVCExpansionStuck''" if "transitionFrom env g ph = Some (t, ws)" for g t ws
  proof -
    have "patchLoop env g ps [] = (Some y, us) \<Longrightarrow> TREvent y \<noteq> ''PVCExpansionStuck''" for ps y us
    proof -
      have "patchLoop env g ps vs = (Some y, us) \<Longrightarrow> TREvent y \<noteq> ''PVCExpansionStuck''" for vs
        by (induction ps arbitrary: vs) (auto simp: aborted_def requeued_def split: if_splits pvcPatchAnswer.splits)
      then show "patchLoop env g ps [] = (Some y, us) \<Longrightarrow> TREvent y \<noteq> ''PVCExpansionStuck''" by blast
    qed
    then show ?thesis
      using that by (cases ph) (auto simp: transitionFrom_def from_defs Let_def
          split: fetched.splits deleteAnswer.splits sum.splits option.splits prod.splits if_splits)
  qed
  note no = this
  show ?thesis
  proof (cases "transitionFrom env (pvcResizeRequeueDefaults\<lparr>TargetSize := want\<rparr>) ph")
    case (Some p)
    then obtain t ws where t: "transitionFrom env (pvcResizeRequeueDefaults\<lparr>TargetSize := want\<rparr>) ph = Some (t, ws)" by (cases p) auto
    from no[OF t] t show ?thesis by (auto simp: drive_effects_def)
  qed (simp add: drive_effects_def)
qed

lemma told_after_tell:
  assumes "wire_time wire" and "stalled now (Some x)" and "now \<le> now'"
  shows "told (Some (wireResize wire (x\<lparr>LastStuckEventAt := Some now'\<rparr>)))"
proof -
  obtain t where t: "LastTransitionAt x = Some t" "IsStalled t now"
    using assms(2) by (auto simp: stalled_def split: option.splits)
  then have "t + StallThreshold \<le> now"
    by (auto simp: IsStalled_def StallElapsed_def Sub_def StallThreshold_def Minute_def minDuration_def max_def min_def split: if_splits)
  then have "t + Second \<le> now'" using assms(3) by (simp add: StallThreshold_def Minute_def Second_def)
  moreover have "now' < wire now' + Second" "wire t \<le> t" using assms(1) by (simp_all add: wire_time_def)
  ultimately have "\<not> wire now' < wire t" by simp
  then show ?thesis using t(1) by (simp add: told_def wireResize_def)
qed

lemma stucks_none: "''PVCExpansionStuck'' \<notin> set es \<Longrightarrow> stucks es = 0"
  by (auto simp: stucks_def filter_empty_conv)

lemma untold_le: "untold r \<le> 1"
  by (simp add: untold_def)

lemma phase_wire [simp]: "ResizePhase (wireResize wire m) = ResizePhase m"
  by (simp add: wireResize_def)

lemma write_same: "phaseOf (write_block wire now ans ph msg r) = phaseOf r \<Longrightarrow> write_block wire now ans ph msg r = r"
  by (auto simp: write_block_def phase_stored stored_as_def split: if_splits)

lemma drive_same:
  assumes "phaseOf (drive_block wire env ph want r) = phaseOf r"
  shows "drive_block wire env ph want r = r \<or> drive_block wire env ph want r = None"
proof (cases "transitionFrom env (pvcResizeRequeueDefaults\<lparr>TargetSize := want\<rparr>) ph")
  case (Some p)
  then obtain t ws where "transitionFrom env (pvcResizeRequeueDefaults\<lparr>TargetSize := want\<rparr>) ph = Some (t, ws)" by (cases p) auto
  with assms show ?thesis
    by (cases "TRAction t") (auto simp: drive_block_def write_same stored_as_def split: if_splits)
qed (simp add: drive_block_def)

definition paid :: "PVCResizeStatus option \<Rightarrow> PVCResizeStatus option \<Rightarrow> string list \<Rightarrow> bool" where
  "paid r r' es \<longleftrightarrow> stucks es + untold r' \<le> untold r + (if phaseOf r = phaseOf r' then 0 else 1)"

lemma paid_quiet:
  assumes "''PVCExpansionStuck'' \<notin> set es" and "phaseOf r' = phaseOf r \<Longrightarrow> r' = r \<or> r' = None"
  shows "paid r r' es"
  using assms untold_le[of r'] by (auto simp: paid_def stucks_none untold_def told_def)

lemma paid_drive: "''PVCExpansionStuck'' \<notin> set es \<Longrightarrow> paid r (drive_block wire env ph want r) (es @ snd (drive_effects env ph want))"
  using drive_same[of wire env ph want r] drive_no_stuck[of env ph want] by (intro paid_quiet) auto

lemma paid_stall:
  assumes "wire_time wire" and "stalled (clockStall env) r" and "clockStall env \<le> clockStuck env"
    and "''PVCExpansionStuck'' \<notin> set es"
  shows "paid r (if told r then r else stored_as wire (answerStuck env) (tell (clockStuck env) r) r)
    (es @ (if \<not> told r \<and> answerStuck env = StatusDone then [''PVCExpansionStuck''] else []))"
proof -
  obtain x where x: "r = Some x" using assms(2) by (cases r) (auto simp: stalled_def)
  define y where "y = x\<lparr>LastStuckEventAt := Some (clockStuck env)\<rparr>"
  have a: "told (Some (wireResize wire y))" using told_after_tell[OF assms(1) assms(2)[unfolded x] assms(3)] by (simp add: y_def)
  have ph: "ResizePhase (wireResize wire y) = ResizePhase x" by (simp add: wireResize_def y_def)
  have s: "stucks (es @ [''PVCExpansionStuck'']) = 1" using assms(4) by (auto simp: stucks_def filter_empty_conv)
  have t: "y = x \<Longrightarrow> told (Some x)"
  proof -
    assume "y = x"
    then have l: "LastStuckEventAt x = Some (clockStuck env)" by (metis PVCResizeStatus.select_convs(5) PVCResizeStatus.surjective PVCResizeStatus.update_convs(5) y_def)
    obtain u where u: "LastTransitionAt x = Some u" "IsStalled u (clockStall env)"
      using assms(2) by (auto simp: x stalled_def split: option.splits)
    then have "u \<le> clockStall env"
      by (auto simp: IsStalled_def StallElapsed_def Sub_def StallThreshold_def Minute_def minDuration_def max_def min_def split: if_splits)
    with l u(1) assms(3) show "told (Some x)" by (simp add: told_def)
  qed
  show ?thesis
  proof (cases "told r \<or> answerStuck env \<noteq> StatusDone")
    case True
    then show ?thesis using assms(4) by (auto simp: paid_def stucks_none stored_as_def x)
  next
    case False
    then have "stored_as wire (answerStuck env) (tell (clockStuck env) r) r = Some (wireResize wire y)"
      using t by (auto simp: x stored_as_def tell_def y_def[symmetric])
    with False a s ph show ?thesis by (simp add: paid_def untold_def x)
  qed
qed

lemma drive_validated_phase:
  "phaseOf (drive_block wire env PVCResizePhaseValidated want r) \<in> {phaseOf r, PVCResizePhaseStsOrphaned}"
proof (cases "transitionFrom env (pvcResizeRequeueDefaults\<lparr>TargetSize := want\<rparr>) PVCResizePhaseValidated")
  case (Some p)
  then obtain t ws where t: "transitionFrom env (pvcResizeRequeueDefaults\<lparr>TargetSize := want\<rparr>) PVCResizePhaseValidated = Some (t, ws)"
    by (cases p) auto
  have "TRAction t \<noteq> ActionAbort"
    using t by (auto simp: transitionFrom_def FromValidated_def advanced_def requeued_def split: fetched.splits deleteAnswer.splits)
  with t transition_earned(1,2)[OF t] phase_write[of wire "clockDrive env" "answerDrive env" PVCResizePhaseStsOrphaned "TRMessage t" r]
  show ?thesis by (cases "TRAction t") (auto simp: drive_block_def successor_def)
qed (simp add: drive_block_def)

lemma paid_moved:
  assumes "paid r1 r' es" and "phaseOf r1 = phaseOf r' \<or> ''PVCExpansionStuck'' \<notin> set es" and "phaseOf r' \<noteq> phaseOf r"
  shows "paid r r' es"
  using assms untold_le[of r1] untold_le[of r'] by (auto simp: paid_def stucks_none split: if_splits)

lemma paid_start:
  assumes "wire_time wire" and "clockStall env \<le> clockStuck env" and "start_block wire env res r = (r', ws, es)"
  shows "paid r r' es"
proof -
  define going where "going = isPVCResizeInFlight (phaseOf r)"
  define r1 where "r1 = (if going then r else write_block wire (clockInit env) (answerInit env) PVCResizePhaseValidated
      (initiatedMessage (quantityString env) res) r)"
  define ph where "ph = (if going then phaseOf r else PVCResizePhaseValidated)"
  define i where "i = (if going then [] else [''PVCResizeInitiated''])"
  have i: "''PVCExpansionStuck'' \<notin> set i" by (simp add: i_def)
  have p1: "r1 = r \<or> phaseOf r1 = PVCResizePhaseValidated \<and> \<not> going"
    using write_same[of wire "clockInit env" "answerInit env" PVCResizePhaseValidated _ r]
      phase_write[of wire "clockInit env" "answerInit env" PVCResizePhaseValidated _ r] by (auto simp: r1_def)
  consider (off) "r' = r" "es = []"
    | (stall) "stalled (clockStall env) r1" "r' = (if told r1 then r1 else stored_as wire (answerStuck env) (tell (clockStuck env) r1) r1)"
        "es = i @ (if \<not> told r1 \<and> answerStuck env = StatusDone then [''PVCExpansionStuck''] else [])"
    | (drive) "r' = drive_block wire env ph (Desired res) r1" "es = i @ snd (drive_effects env ph (Desired res))"
    using assms(3) unfolding start_block_def Let_def going_def[symmetric] r1_def[symmetric] ph_def[symmetric] i_def[symmetric]
    by (cases "stalled (clockStall env) r1"; cases "0 < retryWait (clockWait env) r"; cases "\<not> going \<and> answerInit env = StatusError")
      (simp_all split: if_splits)
  then show ?thesis
  proof cases
    case off
    then show ?thesis by (simp add: paid_def stucks_def)
  next
    case stall
    have p: "paid r1 r' es" unfolding stall(2,3) by (rule paid_stall[OF assms(1) stall(1) assms(2) i])
    have same: "phaseOf r' = phaseOf r1"
      unfolding stall(2) by (cases r1) (simp_all add: phase_stored tell_def)
    show ?thesis using p1 p same paid_moved[OF p, of r] by (auto simp: going_def isPVCResizeInFlight_def)
  next
    case drive
    have p: "paid r1 r' es" unfolding drive by (rule paid_drive[OF i])
    have no: "''PVCExpansionStuck'' \<notin> set es" using i drive_no_stuck by (simp add: drive(2))
    have "\<not> going \<Longrightarrow> phaseOf r1 = PVCResizePhaseValidated \<Longrightarrow> phaseOf r' \<noteq> phaseOf r"
      using drive_validated_phase[of wire env "Desired res" r1] by (auto simp: drive(1) ph_def going_def isPVCResizeInFlight_def)
    with p1 p paid_moved[OF p _ ] no show ?thesis by blast
  qed
qed

lemma pass_paid:
  assumes "wire_time wire" and "clockStall env \<le> clockStuck env" and "pass_block wire env persistence r = (r', ws, es)"
  shows "paid r r' es"
proof (cases persistence)
  case None
  with assms(3) show ?thesis by (intro paid_quiet) (auto simp: pass_block_def stored_as_def split: if_splits)
next
  case (Some want)
  show ?thesis
  proof (cases "verdict env want")
    case None
    with Some assms(3) show ?thesis by (simp add: pass_block_def paid_def stucks_def)
  next
    case (Some v)
    then obtain res sc where v: "verdict env want = Some (res, sc)" by (cases v) auto
    have rej: "reject_block wire env ev msg r = (r', ws, es) \<Longrightarrow> ev \<noteq> ''PVCExpansionStuck'' \<Longrightarrow> paid r r' es" for ev msg
      using write_same[of wire "clockInit env" "answerInit env" PVCResizePhaseAborted msg r]
      by (intro paid_quiet) (auto simp: reject_block_def split: if_splits)
    show ?thesis
    proof (cases "DOutcome res")
      case OutcomeNoChange
      show ?thesis
      proof (cases "phaseOf r = PVCResizePhaseUnset")
        case True
        with OutcomeNoChange v \<open>persistence = Some want\<close> assms(3) show ?thesis
          by (intro paid_quiet) (auto simp: pass_block_def stored_as_def split: if_splits)
      next
        case False
        with OutcomeNoChange v \<open>persistence = Some want\<close> assms(3)
        have "r' = drive_block wire env (phaseOf r) want r" "es = snd (drive_effects env (phaseOf r) want)"
          by (simp_all add: pass_block_def)
        with paid_drive[of "[]" r wire env "phaseOf r" want] show ?thesis by simp
      qed
    next
      case OutcomeResizeNeeded
      with v \<open>persistence = Some want\<close> assms(3) have "start_block wire env res r = (r', ws, es)" by (simp add: pass_block_def)
      then show ?thesis by (rule paid_start[OF assms(1,2)])
    qed (use v \<open>persistence = Some want\<close> assms(3) rej in \<open>auto simp: pass_block_def\<close>)
  qed
qed

lemma pass_st_block:
  assumes "merge_patch wire merge"
  shows "pass_block wire (fst x) (snd x) (resizeOf st) =
    (resizeOf (snd (roStatus (pass_st merge st x))), roWrites (pass_st merge st x), roEvents (pass_st merge st x))"
  using pass_refines[OF assms, of "(st, st)" "fst x" "snd x"] by (simp add: freshCopy_def outputs_def pass_st_def)

lemma phase_of_status: "currentPVCResizePhase st = phaseOf (resizeOf st)"
  by (simp add: currentPVCResizePhase_def phaseOf_def)

text \<open>
  The stall event is recorded once per stall window. On any sequence of passes, across restarts of
  the operator and refused writes, the number of PVCExpansionStuck events is at most one more than
  the number of passes that changed the recorded phase. The stamp is stored with whole seconds, and
  ten minutes outweigh the loss.
\<close>

theorem stuck_once_per_window:
  assumes "merge_patch wire merge" and "wire_time wire"
    and "\<forall>x\<in>set xs. clockStall (fst x) \<le> clockStuck (fst x)"
  shows "stuckCount (pass_trace merge st xs) \<le> 1 + moves (pass_trace merge st xs)"
proof -
  have "stuckCount (pass_trace merge st xs) \<le> untold (resizeOf st) + moves (pass_trace merge st xs)"
    using assms(3)
  proof (induction xs arbitrary: st)
    case (Cons x xs)
    define d where "d = pass_st merge st x"
    let ?st = "snd (roStatus d)"
    have "clockStall (fst x) \<le> clockStuck (fst x)" using Cons.prems by simp
    from pass_paid[OF assms(2) this pass_st_block[OF assms(1), of x st, folded d_def]]
    have p: "stucks (roEvents d) + untold (resizeOf ?st) \<le>
        untold (resizeOf st) + (if phaseOf (resizeOf st) = phaseOf (resizeOf ?st) then 0 else 1)"
      by (simp add: paid_def)
    have ih: "stuckCount (pass_trace merge ?st xs) \<le> untold (resizeOf ?st) + moves (pass_trace merge ?st xs)"
      by (rule Cons.IH) (use Cons.prems in simp)
    show ?case
      using p ih by (auto simp: Let_def d_def[symmetric] stuckCount_def moves_def phase_of_status)
  qed (simp add: stuckCount_def)
  with untold_le[of "resizeOf st"] show ?thesis by linarith
qed

theorem stuck_once_per_window_witness:
  "stuckCount (pass_trace statusMerge orphaned_status [(resize_env Second, Some 20), (resize_env Hour, Some 20)]) \<le>
   1 + moves (pass_trace statusMerge orphaned_status [(resize_env Second, Some 20), (resize_env Hour, Some 20)])"
proof -
  have "\<forall>x\<in>set [(resize_env Second, Some (20 :: quantity)), (resize_env Hour, Some 20)]. clockStall (fst x) \<le> clockStuck (fst x)"
    by (simp add: resize_env_def)
  from stuck_once_per_window[OF merge_patch_statusMerge wire_time_floorSecond this, of orphaned_status] show ?thesis .
qed

section \<open>Where the machine stays\<close>

lemma aborted_no_change:
  assumes "verdict env want = Some (res, sc)" and "DOutcome res = OutcomeNoChange" and "phaseOf r = PVCResizePhaseAborted"
  shows "pass_block wire env (Some want) r = (r, [], [])"
  using assms by (simp add: pass_block_def drive_block_def drive_effects_def transitionFrom_def)

text \<open>
  An aborted resize is not forgotten when its cause is gone. Once the phase is aborted and the
  spec again asks for the size the volumes have (a rejected shrink that was reverted, say), no
  sequence of passes removes the block or records anything, although the code's comment says that
  such a verdict resets it; the next growth then starts with the back-off and the attempt counter of
  the old failure.
\<close>

theorem aborted_sticks:
  assumes "merge_patch wire merge" and "currentPVCResizePhase st = PVCResizePhaseAborted"
    and "\<forall>x\<in>set xs. \<exists>want res sc. snd x = Some want \<and> verdict (fst x) want = Some (res, sc) \<and> DOutcome res = OutcomeNoChange"
  shows "resizeOf (foldl (\<lambda>s x. snd (roStatus (pass_st merge s x))) st xs) = resizeOf st \<and>
    (\<forall>e\<in>set (pass_trace merge st xs). e = (PVCResizePhaseAborted, PVCResizePhaseAborted, []))"
  using assms(2,3)
proof (induction xs arbitrary: st)
  case (Cons x xs)
  define d where "d = pass_st merge st x"
  let ?st = "snd (roStatus d)"
  obtain want res sc where x: "snd x = Some want" "verdict (fst x) want = Some (res, sc)" "DOutcome res = OutcomeNoChange"
    using Cons.prems(2) by auto
  have "pass_block wire (fst x) (snd x) (resizeOf st) = (resizeOf st, [], [])"
    using aborted_no_change[OF x(2,3)] Cons.prems(1) x(1) by (simp add: phase_of_status)
  with pass_st_block[OF assms(1), of x st] have d: "resizeOf ?st = resizeOf st" "roEvents d = []" by (simp_all add: d_def)
  then have "currentPVCResizePhase ?st = PVCResizePhaseAborted" using Cons.prems(1) by (simp add: phase_of_status)
  with Cons.IH[of ?st] Cons.prems d show ?case by (simp add: Let_def d_def[symmetric])
qed simp

definition same_size :: resizeEnv where
  "same_size = serve example_class example_cluster (resize_env Second)"

theorem aborted_sticks_witness:
  "resizeOf (foldl (\<lambda>s x. snd (roStatus (pass_st statusMerge s x))) aborted_status [(same_size, Some 10), (same_size, Some 10)]) =
   Some (aborted_block Second)"
proof -
  have b: "resizeOf aborted_status = Some (aborted_block Second)" "currentPVCResizePhase aborted_status = PVCResizePhaseAborted"
    by (simp_all add: aborted_status_def rolloutOf_def currentPVCResizePhase_def aborted_block_def)
  have c: "rcPVCs example_cluster \<noteq> []" "expandable example_class (rcPVCs example_cluster)" "smallestCurrentSize (rcPVCs example_cluster) = 10"
    by (simp_all add: example_cluster_def example_pvc_def expandable_def lookupStorageClassForPVCs_def example_class_def
        smallestCurrentSize_def)
  have "\<exists>res sc. verdict same_size 10 = Some (res, sc) \<and> DOutcome res = OutcomeNoChange"
    using verdict_served[OF c(1,2), of 10 "resize_env Second"] c(3) by (auto simp: same_size_def)
  then have "\<forall>x\<in>set [(same_size, Some 10), (same_size, Some 10)]. \<exists>want res sc. snd x = Some want \<and>
      verdict (fst x) want = Some (res, sc) \<and> DOutcome res = OutcomeNoChange" by simp
  from aborted_sticks[OF merge_patch_statusMerge b(2) this] show ?thesis unfolding b(1) by blast
qed

definition waiting :: "quantity \<Rightarrow> resizeEnv \<Rightarrow> bool" where
  "waiting want env \<longleftrightarrow>
     (\<exists>ps. envPVCsAgain env = Inl ps \<and> (\<exists>p\<in>set ps. CapacitySize p < want)) \<and>
     (\<exists>res sc. verdict env want = Some (res, sc) \<and> DOutcome res \<in> {OutcomeNoChange, OutcomeResizeNeeded} \<and>
        (DOutcome res = OutcomeResizeNeeded \<longrightarrow> Desired res = want))"

lemma waiting_drive:
  assumes "envPVCsAgain env = Inl ps" and "p \<in> set ps" and "CapacitySize p < want"
  shows "drive_block wire env PVCResizePhasePVCsPatched want r = r" "drive_effects env PVCResizePhasePVCsPatched want = ([], [])"
proof -
  have "firstSmaller want ps \<noteq> None"
  proof
    assume "firstSmaller want ps = None"
    then have "want \<le> CapacitySize p" using assms(2) by (simp add: firstSmaller_None)
    with assms(3) show False by simp
  qed
  then obtain q where q: "firstSmaller want ps = Some q" by blast
  have "ps \<noteq> []" using assms(2) by auto
  with q assms(1) show "drive_block wire env PVCResizePhasePVCsPatched want r = r"
    "drive_effects env PVCResizePhasePVCsPatched want = ([], [])"
    by (simp_all add: drive_block_def drive_effects_def transitionFrom_def FromPVCsPatched_def requeued_def)
qed

lemma waiting_pass:
  assumes "waiting want env" and "phaseOf r = PVCResizePhasePVCsPatched" and "pass_block wire env (Some want) r = (r', ws, es)"
  shows "phaseOf r' = PVCResizePhasePVCsPatched \<and> ws = [] \<and>
    ((\<exists>res sc. verdict env want = Some (res, sc) \<and> DOutcome res = OutcomeNoChange) \<longrightarrow> es = [])"
proof -
  obtain ps p res sc where w: "envPVCsAgain env = Inl ps" "p \<in> set ps" "CapacitySize p < want"
    "verdict env want = Some (res, sc)" "DOutcome res \<in> {OutcomeNoChange, OutcomeResizeNeeded}"
    "DOutcome res = OutcomeResizeNeeded \<longrightarrow> Desired res = want"
    using assms(1) by (auto simp: waiting_def)
  note d = waiting_drive[OF w(1-3)]
  have fl: "isPVCResizeInFlight PVCResizePhasePVCsPatched" by (simp add: isPVCResizeInFlight_def)
  have tp: "phaseOf (if told x then x else stored_as wire a (tell n x) x) = phaseOf x" for a n x
    by (cases x) (simp_all add: phase_stored tell_def)
  show ?thesis
  proof (cases "DOutcome res = OutcomeNoChange")
    case True
    with assms(2,3) w(4) d show ?thesis by (simp add: pass_block_def)
  next
    case False
    then have n: "DOutcome res = OutcomeResizeNeeded" "Desired res = want" using w(5,6) by auto
    have s: "start_block wire env res r = (r', ws, es)" using assms(3) w(4) n(1) by (simp add: pass_block_def)
    have "ws = []" "r' = r \<or> r' = (if told r then r else stored_as wire (answerStuck env) (tell (clockStuck env) r) r)"
      using s d fl n(2) assms(2) unfolding start_block_def Let_def by (auto split: if_splits)
    with tp[of r "answerStuck env" "clockStuck env"] assms(2) w(4) n(1) show ?thesis by auto
  qed
qed

text \<open>
  An expansion that hangs is not reported, and a size raised in mid-resize starves. While a volume
  reports less capacity than the spec asks for, the phase PVCsPatched is kept for ever, with nothing
  written: in particular a request that is still below the spec, because the size was raised after
  the volumes were patched, is never patched again. That phase guards the StatefulSet, which stays
  deleted. And as long as the requests match the spec, which is so after the patch, the stall guard
  is not consulted: no event is recorded, however much time passes.
\<close>

theorem expansion_wait_unbounded:
  assumes "merge_patch wire merge" and "currentPVCResizePhase st = PVCResizePhasePVCsPatched"
    and "\<forall>x\<in>set xs. snd x = Some want \<and> waiting want (fst x)"
  shows "currentPVCResizePhase (foldl (\<lambda>s x. snd (roStatus (pass_st merge s x))) st xs) = PVCResizePhasePVCsPatched \<and>
    isPVCResizeGuardingPhase2 (currentPVCResizePhase (foldl (\<lambda>s x. snd (roStatus (pass_st merge s x))) st xs)) \<and>
    ((\<forall>x\<in>set xs. \<exists>res sc. verdict (fst x) want = Some (res, sc) \<and> DOutcome res = OutcomeNoChange) \<longrightarrow>
     (\<forall>e\<in>set (pass_trace merge st xs). snd (snd e) = []))"
  using assms(2,3)
proof (induction xs arbitrary: st)
  case Nil
  then show ?case by (simp add: isPVCResizeGuardingPhase2_def)
next
  case (Cons x xs)
  define d where "d = pass_st merge st x"
  let ?st = "snd (roStatus d)"
  have x: "snd x = Some want" "waiting want (fst x)" using Cons.prems(2) by auto
  have ph: "phaseOf (resizeOf st) = PVCResizePhasePVCsPatched" using Cons.prems(1) by (simp add: phase_of_status)
  note w = waiting_pass[OF x(2) ph pass_st_block[OF assms(1), of x st, unfolded x(1), folded d_def]]
  then have "currentPVCResizePhase ?st = PVCResizePhasePVCsPatched" by (simp add: phase_of_status)
  with Cons.IH[of ?st] Cons.prems(2) w show ?case by (simp add: Let_def d_def[symmetric] isPVCResizeGuardingPhase2_def)
qed

definition hung_env :: "gotime \<Rightarrow> resizeEnv" where
  "hung_env t =
     (resize_env t)\<lparr>envPVCs := Inl [(example_pvc ''data-v-0'' 20)\<lparr>CapacitySize := 10\<rparr>],
        envPVCsAgain := Inl [(example_pvc ''data-v-0'' 20)\<lparr>CapacitySize := 10\<rparr>]\<rparr>"

definition patched_status :: ValkeyStatus where
  "patched_status =
     orphaned_status\<lparr>Rollout := Some (emptyRolloutStatus\<lparr>PVCResize := Some \<lparr>ResizePhase = PVCResizePhasePVCsPatched,
        Attempt = 1, StartedAt = Some Second, LastTransitionAt = Some Second, LastStuckEventAt = None, ResizeMessage = []\<rparr>\<rparr>)\<rparr>"

theorem expansion_wait_unbounded_witness:
  "list_all (\<lambda>e. snd (snd e) = []) (pass_trace statusMerge patched_status [(hung_env Hour, Some 20), (hung_env (1000 * Hour), Some 20)])"
proof -
  have p: "currentPVCResizePhase patched_status = PVCResizePhasePVCsPatched"
    by (simp add: patched_status_def currentPVCResizePhase_def rolloutOf_def)
  have v: "\<exists>res sc. verdict (hung_env t) 20 = Some (res, sc) \<and> DOutcome res = OutcomeNoChange" for t
    by (simp add: verdict_def hung_env_def resize_env_def lookupStorageClassForPVCs_def example_pvc_def example_class_def
        Detect_def smallestCurrentSize_def Let_def)
  have w: "waiting 20 (hung_env t)" for t
  proof -
    obtain res sc where "verdict (hung_env t) 20 = Some (res, sc)" "DOutcome res = OutcomeNoChange" using v[of t] by blast
    moreover have "envPVCsAgain (hung_env t) = Inl [(example_pvc ''data-v-0'' 20)\<lparr>CapacitySize := 10\<rparr>]" by (simp add: hung_env_def)
    ultimately show ?thesis by (simp add: waiting_def)
  qed
  have "\<forall>x\<in>set [(hung_env Hour, Some 20), (hung_env (1000 * Hour), Some 20)]. snd x = Some 20 \<and> waiting 20 (fst x)"
    using w by simp
  from expansion_wait_unbounded[OF merge_patch_statusMerge p this] v show ?thesis by (simp add: list_all_iff)
qed

end
