(* ===== verification/Quorum_Gate.thy ===== *)
theory Quorum_Gate
  imports Sentinel_Observer
begin

text \<open>
  The per-CR quorum bookkeeping of \<^verbatim>\<open>internal/controller/valkey_controller.go\<close>: \<open>crQuorumState\<close>
  and the functions that advance it. They are the suppression gate (entry after sustained loss
  confirmed by a newer poll, exit after distinct healthy polls), the split-brain episode tracker,
  the failover observation, the INFO-timeout tracker, the stranded-sentinel pacing and the debounced
  topology dimensions, with the reads that expire a stale latch.

  Every function takes the state and the clock readings the code takes and returns the new state
  with its results. A duration that the code turns into seconds for a gauge stays a duration. The
  per-address map is an association list; the one loop that ranges over it sorts its result.
\<close>

section \<open>State\<close>

record strandedAddrState =
  noProgress :: int
  lastWiped :: gotime

record topologyDimState =
  tsince :: "gotime option"
  tactive :: bool
  tedge :: bool
  tdeficit :: int

definition zeroDim :: topologyDimState where
  "zeroDim = \<lparr>tsince = None, tactive = False, tedge = False, tdeficit = 0\<rparr>"

record crQuorumState =
  lastQuorum :: QuorumStatus
  quorumLostSince :: "gotime option"
  quorumLostSincePoll :: gotime
  quorumOKConsecutivePolls :: int
  quorumOKLastCountedPoll :: gotime
  suppressionActive :: bool
  splitBrainSince :: "gotime option"
  splitBrainPollAt :: gotime
  splitBrainConfirmedAt :: gotime
  splitBrainExpiredPollAt :: gotime
  strandedRecoveryLastFired :: gotime
  strandedNoProgress :: "(string \<times> strandedAddrState) list"
  strandedLinkupStuck :: bool
  strandedLinkupStuckAt :: gotime
  strandedLinkupStuckEdge :: string
  recoveryPromotionLastFired :: gotime
  recoveryDetectionLastProbed :: gotime
  lastOKAddr :: string
  masterInfoTimeoutSince :: "gotime option"
  masterInfoObservedAt :: gotime
  masterInfoRoleDisclaimed :: bool
  topologySentinel :: topologyDimState
  topologyReplica :: topologyDimState
  topologyMismatchObservedAt :: gotime

definition zeroQuorumState :: crQuorumState where
  "zeroQuorumState =
     \<lparr>lastQuorum = QuorumStatusUnknown, quorumLostSince = None, quorumLostSincePoll = 0,
      quorumOKConsecutivePolls = 0, quorumOKLastCountedPoll = 0, suppressionActive = False,
      splitBrainSince = None, splitBrainPollAt = 0, splitBrainConfirmedAt = 0,
      splitBrainExpiredPollAt = 0, strandedRecoveryLastFired = 0, strandedNoProgress = [],
      strandedLinkupStuck = False, strandedLinkupStuckAt = 0, strandedLinkupStuckEdge = [],
      recoveryPromotionLastFired = 0, recoveryDetectionLastProbed = 0, lastOKAddr = [],
      masterInfoTimeoutSince = None, masterInfoObservedAt = 0, masterInfoRoleDisclaimed = False,
      topologySentinel = zeroDim, topologyReplica = zeroDim, topologyMismatchObservedAt = 0\<rparr>"

section \<open>The suppression gate\<close>

record QuorumSuppressionTunables =
  LossThreshold :: duration
  RecoveryPolls :: int
  Phase11Timeout :: duration

definition quorumLossSuppressionThreshold :: duration where
  "quorumLossSuppressionThreshold = 60 * Second"

definition quorumRecoveryHysteresisPolls :: int where
  "quorumRecoveryHysteresisPolls = 2"

definition lossThreshold :: "QuorumSuppressionTunables \<Rightarrow> duration" where
  "lossThreshold t = (if 0 < LossThreshold t then LossThreshold t else quorumLossSuppressionThreshold)"

definition recoveryPolls :: "QuorumSuppressionTunables \<Rightarrow> int" where
  "recoveryPolls t = (if 0 < RecoveryPolls t then RecoveryPolls t else quorumRecoveryHysteresisPolls)"

definition phase11Timeout :: "QuorumSuppressionTunables \<Rightarrow> duration" where
  "phase11Timeout t = (if 0 < Phase11Timeout t then Phase11Timeout t else 30 * Second)"

definition updateQuorumSuppression ::
  "crQuorumState \<Rightarrow> QuorumStatus \<Rightarrow> gotime \<Rightarrow> gotime \<Rightarrow> QuorumSuppressionTunables \<Rightarrow>
   crQuorumState \<times> bool \<times> bool" where
  "updateQuorumSuppression state0 q polledAt now tunables =
     (let state = state0\<lparr>lastQuorum := q\<rparr> in
      case q of
        QuorumStatusUnknown \<Rightarrow> (state, False, False)
      | QuorumStatusOK \<Rightarrow>
          (let s1 = state\<lparr>quorumLostSince := None, quorumLostSincePoll := 0\<rparr> in
           if \<not> suppressionActive s1 then (s1, False, False)
           else if \<not> quorumOKLastCountedPoll s1 < polledAt then (s1, False, False)
           else
             (let s2 = s1\<lparr>quorumOKLastCountedPoll := polledAt,
                          quorumOKConsecutivePolls := quorumOKConsecutivePolls s1 + 1\<rparr> in
              if recoveryPolls tunables \<le> quorumOKConsecutivePolls s2 then
                (s2\<lparr>suppressionActive := False, quorumOKConsecutivePolls := 0,
                    quorumOKLastCountedPoll := 0\<rparr>, False, True)
              else (s2, False, False)))
      | QuorumStatusLost \<Rightarrow>
          (let s1 = state\<lparr>quorumOKConsecutivePolls := 0, quorumOKLastCountedPoll := 0\<rparr> in
           if suppressionActive s1 then (s1, False, False)
           else
             (case quorumLostSince s1 of
                None \<Rightarrow>
                  (s1\<lparr>quorumLostSince := Some now, quorumLostSincePoll := polledAt\<rparr>, False, False)
              | Some since \<Rightarrow>
                  if lossThreshold tunables \<le> Sub now since \<and> quorumLostSincePoll s1 < polledAt then
                    (s1\<lparr>suppressionActive := True\<rparr>, True, False)
                  else (s1, False, False))))"

section \<open>Split-brain episodes\<close>

definition topologyMismatchDebounce :: duration where
  "topologyMismatchDebounce = 60 * Second"

definition topologyObservationFreshnessWindow :: duration where
  "topologyObservationFreshnessWindow = 30 * Second"

definition topologyMismatchFreshnessWindow :: duration where
  "topologyMismatchFreshnessWindow = 2 * topologyMismatchDebounce"

definition splitBrainConfirmationStaleness :: duration where
  "splitBrainConfirmationStaleness = 2 * topologyObservationFreshnessWindow"

definition advanceSplitBrainConfirmation :: "crQuorumState \<Rightarrow> gotime \<Rightarrow> gotime \<Rightarrow> crQuorumState" where
  "advanceSplitBrainConfirmation state polledAt now =
     (if splitBrainPollAt state < polledAt
      then state\<lparr>splitBrainPollAt := polledAt, splitBrainConfirmedAt := now\<rparr> else state)"

definition splitBrainEpisodeExpired :: "crQuorumState \<Rightarrow> gotime \<Rightarrow> crQuorumState \<times> bool" where
  "splitBrainEpisodeExpired state now =
     (if Sub now (splitBrainConfirmedAt state) \<le> splitBrainConfirmationStaleness then (state, False)
      else (state\<lparr>splitBrainExpiredPollAt := splitBrainPollAt state, splitBrainSince := None,
                  splitBrainPollAt := 0, splitBrainConfirmedAt := 0\<rparr>, True))"

text \<open>Re-confirmation and expiry of an episode opened at \<open>since\<close>, the common tail of two branches.\<close>

definition continueEpisode ::
  "crQuorumState \<Rightarrow> gotime \<Rightarrow> gotime \<Rightarrow> gotime \<Rightarrow> crQuorumState \<times> duration \<times> bool" where
  "continueEpisode state since polledAt now =
     (let s1 = advanceSplitBrainConfirmation state polledAt now;
          (s2, expired) = splitBrainEpisodeExpired s1 now
      in if expired then (s2, 0, False)
         else (s2, Sub (splitBrainConfirmedAt s2) since, False))"

definition updateSplitBrainSustained ::
  "crQuorumState \<Rightarrow> bool \<Rightarrow> QuorumStatus \<Rightarrow> gotime \<Rightarrow> gotime \<Rightarrow> crQuorumState \<times> duration \<times> bool" where
  "updateSplitBrainSustained state present q polledAt now =
     (if present \<and> q = QuorumStatusUnknown then
        (case splitBrainSince state of
           None \<Rightarrow> (state, 0, False)
         | Some since \<Rightarrow> continueEpisode state since polledAt now)
      else if \<not> present \<or> q \<noteq> QuorumStatusLost then
        (state\<lparr>splitBrainSince := None, splitBrainPollAt := 0, splitBrainConfirmedAt := 0,
               splitBrainExpiredPollAt := 0\<rparr>, 0, False)
      else
        (case splitBrainSince state of
           None \<Rightarrow>
             if \<not> IsZero (splitBrainExpiredPollAt state) \<and> \<not> splitBrainExpiredPollAt state < polledAt
             then (state, 0, False)
             else (state\<lparr>splitBrainSince := Some now, splitBrainPollAt := polledAt,
                         splitBrainConfirmedAt := now\<rparr>, 0, True)
         | Some since \<Rightarrow> continueEpisode state since polledAt now))"

definition observeFailoverIfAddrChanged ::
  "crQuorumState \<Rightarrow> bool \<Rightarrow> bool \<Rightarrow> string \<Rightarrow> gotime \<Rightarrow> crQuorumState \<times> duration \<times> string \<times> bool" where
  "observeFailoverIfAddrChanged state present quorumOK addr now =
     (if \<not> present \<or> \<not> quorumOK then (state, 0, [], False)
      else
        (case splitBrainSince state of
           None \<Rightarrow> (state\<lparr>lastOKAddr := addr\<rparr>, 0, [], False)
         | Some since \<Rightarrow>
             if lastOKAddr state = [] then (state\<lparr>lastOKAddr := addr\<rparr>, 0, [], False)
             else if lastOKAddr state = addr then (state\<lparr>lastOKAddr := addr\<rparr>, 0, [], False)
             else (state\<lparr>lastOKAddr := addr\<rparr>, Sub now since, ''sentinel_elected'', True)))"

definition observeMasterInfoTimeout :: "crQuorumState \<Rightarrow> bool \<Rightarrow> gotime \<Rightarrow> crQuorumState \<times> duration" where
  "observeMasterInfoTimeout state ok now =
     (let s1 = state\<lparr>masterInfoObservedAt := now\<rparr> in
      if ok then (s1\<lparr>masterInfoTimeoutSince := None\<rparr>, 0)
      else
        (case masterInfoTimeoutSince s1 of
           None \<Rightarrow> (s1\<lparr>masterInfoTimeoutSince := Some now\<rparr>, 0)
         | Some since \<Rightarrow> (s1, Sub now since)))"

text \<open>
  \<open>updateQuorumSuppressionGate\<close>: one Phase 11 pass over the observer's snapshot. The results name
  the gauge value and the metrics and events the pass emits.
\<close>

record gateEffects =
  sustainedGauge :: duration
  splitBrainDetected :: bool
  failoverObserved :: "(duration \<times> string) option"
  quorumLostEvent :: bool
  quorumReachedEvent :: bool

definition updateQuorumSuppressionGate ::
  "Snapshot \<Rightarrow> gotime \<Rightarrow> gotime \<Rightarrow> QuorumSuppressionTunables \<Rightarrow> crQuorumState \<Rightarrow>
   crQuorumState \<times> gateEffects" where
  "updateQuorumSuppressionGate snap now1 now2 tunables state =
     (let p = Primary snap;
          (s1, sustained, episodeStarted) =
            updateSplitBrainSustained state (Present snap) (Quorum p) (LastPolledAt p) now1;
          (s2, dur, trigger, didFailover) =
            observeFailoverIfAddrChanged s1 (Present snap) (OPQuorumOK p) (Addr p) now1;
          failover = (if didFailover then Some (dur, trigger) else None)
      in if \<not> Present snap then
           (s2, \<lparr>sustainedGauge = sustained, splitBrainDetected = episodeStarted,
                 failoverObserved = failover, quorumLostEvent = False, quorumReachedEvent = False\<rparr>)
         else
           (let (s3, justEntered, justExited) =
                  updateQuorumSuppression s2 (Quorum p) (LastPolledAt p) now2 tunables
            in (s3, \<lparr>sustainedGauge = sustained, splitBrainDetected = episodeStarted,
                     failoverObserved = failover, quorumLostEvent = justEntered,
                     quorumReachedEvent = (\<not> justEntered \<and> justExited)\<rparr>)))"

section \<open>Stranded-sentinel pacing\<close>

definition strandedRecoveryCooldown :: duration where
  "strandedRecoveryCooldown = 30 * Second"

definition strandedSurgeryStuckThreshold :: int where
  "strandedSurgeryStuckThreshold = 3"

definition strandedSurgeryMaxBackoffLevel :: int where
  "strandedSurgeryMaxBackoffLevel = 3"

definition strandedLinkupStuckFreshnessWindow :: duration where
  "strandedLinkupStuckFreshnessWindow =
     2 * (strandedRecoveryCooldown * 2 ^ nat strandedSurgeryMaxBackoffLevel)"

definition recoveryPromotionCooldown :: duration where
  "recoveryPromotionCooldown = 60 * Second"

definition strandedAddrBackoffLevel :: "int \<Rightarrow> int" where
  "strandedAddrBackoffLevel n =
     (if n < strandedSurgeryStuckThreshold then 0
      else min (n - strandedSurgeryStuckThreshold + 1) strandedSurgeryMaxBackoffLevel)"

definition strandedProbeCoolingDown :: "crQuorumState \<Rightarrow> gotime \<Rightarrow> bool" where
  "strandedProbeCoolingDown state now \<longleftrightarrow>
     Sub now (strandedRecoveryLastFired state) < strandedRecoveryCooldown"

definition skipEntry :: "gotime \<Rightarrow> string \<times> strandedAddrState \<Rightarrow> bool" where
  "skipEntry now e \<longleftrightarrow>
     (let level = strandedAddrBackoffLevel (noProgress (snd e)) in
      \<not> level < 1 \<and> \<not> strandedRecoveryCooldown * 2 ^ nat level \<le> Sub now (lastWiped (snd e)))"

definition strandedSkipSet :: "crQuorumState \<Rightarrow> gotime \<Rightarrow> string set" where
  "strandedSkipSet state now = set (map fst (filter (skipEntry now) (strandedNoProgress state)))"

definition lookupStranded :: "(string \<times> strandedAddrState) list \<Rightarrow> string \<Rightarrow> strandedAddrState" where
  "lookupStranded m a =
     (case map_of m a of None \<Rightarrow> \<lparr>noProgress = 0, lastWiped = 0\<rparr> | Some rec \<Rightarrow> rec)"

definition wipeOne ::
  "(string \<times> strandedAddrState) list \<Rightarrow> gotime \<Rightarrow> string \<Rightarrow> (string \<times> strandedAddrState) list \<Rightarrow>
   (string \<times> strandedAddrState) list" where
  "wipeOne old now a next =
     (let rec = lookupStranded old a;
          n = (if strandedLinkupStuckFreshnessWindow < Sub now (lastWiped rec) then 0 else noProgress rec)
      in AList.update a \<lparr>noProgress = n + 1, lastWiped = now\<rparr> next)"

definition authFailOne ::
  "string \<Rightarrow> (string \<times> strandedAddrState) list \<Rightarrow> (string \<times> strandedAddrState) list" where
  "authFailOne a next =
     (case map_of next a of
        None \<Rightarrow> next
      | Some rec \<Rightarrow>
          if noProgress rec < strandedSurgeryStuckThreshold
          then AList.update a (rec\<lparr>noProgress := strandedSurgeryStuckThreshold\<rparr>) next else next)"

definition skipOne ::
  "(string \<times> strandedAddrState) list \<Rightarrow> string \<Rightarrow> (string \<times> strandedAddrState) list \<Rightarrow>
   (string \<times> strandedAddrState) list" where
  "skipOne old a next = (case map_of old a of None \<Rightarrow> next | Some rec \<Rightarrow> AList.update a rec next)"

definition nextStranded ::
  "(string \<times> strandedAddrState) list \<Rightarrow> string list \<Rightarrow> string list \<Rightarrow> string list \<Rightarrow> gotime \<Rightarrow>
   (string \<times> strandedAddrState) list" where
  "nextStranded old wiped skipped authFailed now =
     fold (skipOne old) skipped (fold authFailOne authFailed (fold (wipeOne old now) wiped []))"

definition stuckAddrs :: "(string \<times> strandedAddrState) list \<Rightarrow> string list" where
  "stuckAddrs next =
     sort (map fst (filter (\<lambda>e. 1 \<le> strandedAddrBackoffLevel (noProgress (snd e))) next))"

definition detectStrandedPeerLinkupStuck ::
  "crQuorumState \<Rightarrow> string list \<Rightarrow> string list \<Rightarrow> string list \<Rightarrow> gotime \<Rightarrow>
   crQuorumState \<times> string list \<times> bool \<times> int" where
  "detectStrandedPeerLinkupStuck state wiped skipped authFailed now =
     (let next = nextStranded (strandedNoProgress state) wiped skipped authFailed now;
          stuck = stuckAddrs next;
          s1 = state\<lparr>strandedNoProgress := next\<rparr>
      in if stuck = [] then
           (s1\<lparr>strandedLinkupStuck := False, strandedLinkupStuckEdge := []\<rparr>, [], False, 0)
         else
           (let level = fold (\<lambda>a l. max l (strandedAddrBackoffLevel (noProgress (lookupStranded next a))))
                          stuck 0;
                sig = Join stuck '',''
            in (s1\<lparr>strandedLinkupStuck := True, strandedLinkupStuckAt := now,
                   strandedLinkupStuckEdge := sig\<rparr>,
                stuck, strandedLinkupStuckEdge state \<noteq> sig, level)))"

definition clearStrandedLinkupStuck :: "crQuorumState \<Rightarrow> crQuorumState" where
  "clearStrandedLinkupStuck state =
     state\<lparr>strandedNoProgress := [], strandedLinkupStuck := False, strandedLinkupStuckEdge := []\<rparr>"

definition recoveryPromotionCooldownActive :: "crQuorumState \<Rightarrow> gotime \<Rightarrow> bool" where
  "recoveryPromotionCooldownActive state now \<longleftrightarrow>
     \<not> IsZero (recoveryPromotionLastFired state) \<and>
     Sub now (recoveryPromotionLastFired state) < recoveryPromotionCooldown"

definition strandedLinkupStuckActiveOrExpire :: "crQuorumState \<Rightarrow> gotime \<Rightarrow> crQuorumState \<times> bool" where
  "strandedLinkupStuckActiveOrExpire state now =
     (if strandedLinkupStuck state \<and>
         Sub now (strandedLinkupStuckAt state) \<le> strandedLinkupStuckFreshnessWindow
      then (state, True)
      else if strandedLinkupStuck state
      then (state\<lparr>strandedLinkupStuck := False, strandedLinkupStuckEdge := []\<rparr>, False)
      else (state, False))"

section \<open>Topology debounce\<close>

definition fold_dim ::
  "topologyDimState \<Rightarrow> int \<Rightarrow> bool \<Rightarrow> gotime \<Rightarrow> duration \<Rightarrow> topologyDimState \<times> bool \<times> bool" where
  "fold_dim d deficit eligible now debounce =
     (if \<not> eligible \<or> deficit \<le> 0 then (zeroDim, False, False)
      else
        (let d1 = d\<lparr>tdeficit := deficit\<rparr>;
             since = (case tsince d1 of None \<Rightarrow> now | Some t \<Rightarrow> t);
             d2 = d1\<lparr>tsince := Some since\<rparr>
         in if debounce \<le> Sub now since then
              (if \<not> tedge d2 then (d2\<lparr>tactive := True, tedge := True\<rparr>, True, True)
               else (d2\<lparr>tactive := True\<rparr>, True, False))
            else (d2\<lparr>tactive := False\<rparr>, False, False)))"

definition foldTopologyMismatch ::
  "crQuorumState \<Rightarrow> bool \<Rightarrow> int \<Rightarrow> bool \<Rightarrow> int \<Rightarrow> gotime \<Rightarrow> crQuorumState \<times> bool \<times> bool" where
  "foldTopologyMismatch state sentinelEligible sentinelDeficit replicaEligible replicaDeficit now =
     (let (ds, _, sentFire) =
            fold_dim (topologySentinel state) sentinelDeficit sentinelEligible now topologyMismatchDebounce;
          (dr, _, replFire) =
            fold_dim (topologyReplica state) replicaDeficit replicaEligible now topologyMismatchDebounce
      in (state\<lparr>topologySentinel := ds, topologyReplica := dr, topologyMismatchObservedAt := now\<rparr>,
          sentFire, replFire))"

definition topologyMismatchActiveOrExpire ::
  "crQuorumState \<Rightarrow> gotime \<Rightarrow> crQuorumState \<times> bool \<times> int \<times> int" where
  "topologyMismatchActiveOrExpire state now =
     (if IsZero (topologyMismatchObservedAt state) \<or>
         topologyMismatchFreshnessWindow < Sub now (topologyMismatchObservedAt state)
      then (state\<lparr>topologySentinel := zeroDim, topologyReplica := zeroDim\<rparr>, False, 0, 0)
      else
        (let ds = (if tactive (topologySentinel state) then tdeficit (topologySentinel state) else 0);
             dr = (if tactive (topologyReplica state) then tdeficit (topologyReplica state) else 0)
         in (state, 0 < ds \<or> 0 < dr, ds, dr)))"

section \<open>Passes of the gate\<close>

text \<open>A pass: the snapshot the observer returns and the two clock readings.\<close>

type_synonym gatePass = "Snapshot \<times> gotime \<times> gotime"

definition gate_advance :: "QuorumSuppressionTunables \<Rightarrow> crQuorumState \<Rightarrow> gatePass \<Rightarrow> crQuorumState" where
  "gate_advance t s i = fst (updateQuorumSuppressionGate (fst i) (fst (snd i)) (snd (snd i)) t s)"

definition gate_effects :: "QuorumSuppressionTunables \<Rightarrow> crQuorumState \<Rightarrow> gatePass \<Rightarrow> gateEffects" where
  "gate_effects t s i = snd (updateQuorumSuppressionGate (fst i) (fst (snd i)) (snd (snd i)) t s)"

definition reads :: "QuorumStatus \<Rightarrow> gatePass \<Rightarrow> bool" where
  "reads q i \<longleftrightarrow> Present (fst i) \<and> Quorum (Primary (fst i)) = q"

definition polled :: "gatePass \<Rightarrow> gotime" where
  "polled i = LastPolledAt (Primary (fst i))"

abbreviation pass_time :: "gatePass \<Rightarrow> gotime" where
  "pass_time i \<equiv> snd (snd i)"

text \<open>The fields the suppression gate works on, and what the two other trackers leave of them.\<close>

definition supp_part :: "crQuorumState \<Rightarrow> gotime option \<times> gotime \<times> int \<times> gotime \<times> bool" where
  "supp_part s = (quorumLostSince s, quorumLostSincePoll s, quorumOKConsecutivePolls s,
                  quorumOKLastCountedPoll s, suppressionActive s)"

lemma split_brain_supp:
  "supp_part (fst (updateSplitBrainSustained s pr q p now)) = supp_part s"
  by (simp add: updateSplitBrainSustained_def continueEpisode_def advanceSplitBrainConfirmation_def
      splitBrainEpisodeExpired_def supp_part_def Let_def split: option.split)

lemma failover_supp:
  "supp_part (fst (observeFailoverIfAddrChanged s pr ok a now)) = supp_part s"
  by (simp add: observeFailoverIfAddrChanged_def supp_part_def split: option.split)

lemma failover_split:
  "splitBrainSince (fst (observeFailoverIfAddrChanged s pr ok a now)) = splitBrainSince s"
  by (simp add: observeFailoverIfAddrChanged_def split: option.split)

lemma suppression_split:
  "splitBrainSince (fst (updateQuorumSuppression s q p now t)) = splitBrainSince s"
  by (simp add: updateQuorumSuppression_def Let_def split: QuorumStatus.split option.split)

lemma gate_absent:
  "\<not> Present (fst i) \<Longrightarrow> supp_part (gate_advance t s i) = supp_part s \<and>
     \<not> quorumLostEvent (gate_effects t s i) \<and> \<not> quorumReachedEvent (gate_effects t s i)"
  using split_brain_supp[of s "Present (fst i)" "Quorum (Primary (fst i))" "polled i" "fst (snd i)"]
    failover_supp
  by (simp add: gate_advance_def gate_effects_def updateQuorumSuppressionGate_def polled_def Let_def
      split_beta)

text \<open>
  The gate's own automaton over those fields; a pass over a present snapshot runs exactly one step
  of it.
\<close>

lemma gate_present:
  assumes "Present (fst i)"
  obtains s2 where "supp_part s2 = supp_part s"
    and "gate_advance t s i = fst (updateQuorumSuppression s2 (Quorum (Primary (fst i))) (polled i) (pass_time i) t)"
    and "quorumLostEvent (gate_effects t s i) =
           fst (snd (updateQuorumSuppression s2 (Quorum (Primary (fst i))) (polled i) (pass_time i) t))"
    and "quorumReachedEvent (gate_effects t s i) =
           (\<not> fst (snd (updateQuorumSuppression s2 (Quorum (Primary (fst i))) (polled i) (pass_time i) t)) \<and>
            snd (snd (updateQuorumSuppression s2 (Quorum (Primary (fst i))) (polled i) (pass_time i) t)))"
proof -
  define s1 where "s1 = fst (updateSplitBrainSustained s True (Quorum (Primary (fst i))) (polled i) (fst (snd i)))"
  define s2 where "s2 = fst (observeFailoverIfAddrChanged s1 True (OPQuorumOK (Primary (fst i)))
      (Addr (Primary (fst i))) (fst (snd i)))"
  have "supp_part s2 = supp_part s" by (simp add: s2_def s1_def split_brain_supp failover_supp)
  then show ?thesis
    using assms by (intro that[of s2])
      (simp_all add: gate_advance_def gate_effects_def updateQuorumSuppressionGate_def polled_def
        Let_def split_beta s1_def s2_def)
qed

lemma gate_unknown:
  assumes "reads QuorumStatusUnknown i"
  shows "supp_part (gate_advance t s i) = supp_part s \<and>
     \<not> quorumLostEvent (gate_effects t s i) \<and> \<not> quorumReachedEvent (gate_effects t s i)"
proof -
  from assms have p: "Present (fst i)" "Quorum (Primary (fst i)) = QuorumStatusUnknown"
    by (simp_all add: reads_def)
  show ?thesis
    by (rule gate_present[OF p(1), of s t])
      (simp add: p(2) updateQuorumSuppression_def Let_def supp_part_def)
qed

lemma gate_lost:
  assumes "reads QuorumStatusLost i"
  shows "supp_part (gate_advance t s i) =
      (if suppressionActive s then (quorumLostSince s, quorumLostSincePoll s, 0, 0, True)
       else case quorumLostSince s of
         None \<Rightarrow> (Some (pass_time i), polled i, 0, 0, False)
       | Some since \<Rightarrow> (Some since, quorumLostSincePoll s, 0, 0,
           lossThreshold t \<le> Sub (pass_time i) since \<and> quorumLostSincePoll s < polled i))"
    and "quorumLostEvent (gate_effects t s i) \<longleftrightarrow>
      \<not> suppressionActive s \<and> suppressionActive (gate_advance t s i)"
    and "\<not> quorumReachedEvent (gate_effects t s i)"
proof -
  from assms have p: "Present (fst i)" "Quorum (Primary (fst i)) = QuorumStatusLost"
    by (simp_all add: reads_def)
  show "supp_part (gate_advance t s i) =
      (if suppressionActive s then (quorumLostSince s, quorumLostSincePoll s, 0, 0, True)
       else case quorumLostSince s of
         None \<Rightarrow> (Some (pass_time i), polled i, 0, 0, False)
       | Some since \<Rightarrow> (Some since, quorumLostSincePoll s, 0, 0,
           lossThreshold t \<le> Sub (pass_time i) since \<and> quorumLostSincePoll s < polled i))"
    by (rule gate_present[OF p(1), of s t])
      (simp add: p(2) updateQuorumSuppression_def Let_def supp_part_def split: option.split)
  show "quorumLostEvent (gate_effects t s i) \<longleftrightarrow>
      \<not> suppressionActive s \<and> suppressionActive (gate_advance t s i)"
    by (rule gate_present[OF p(1), of s t])
      (simp add: p(2) updateQuorumSuppression_def Let_def supp_part_def split: option.split)
  show "\<not> quorumReachedEvent (gate_effects t s i)"
    by (rule gate_present[OF p(1), of s t])
      (simp add: p(2) updateQuorumSuppression_def Let_def supp_part_def split: option.split)
qed

lemma gate_ok:
  assumes "reads QuorumStatusOK i"
  shows "supp_part (gate_advance t s i) =
      (if \<not> suppressionActive s then (None, 0, quorumOKConsecutivePolls s, quorumOKLastCountedPoll s, False)
       else if \<not> quorumOKLastCountedPoll s < polled i
       then (None, 0, quorumOKConsecutivePolls s, quorumOKLastCountedPoll s, True)
       else if recoveryPolls t \<le> quorumOKConsecutivePolls s + 1 then (None, 0, 0, 0, False)
       else (None, 0, quorumOKConsecutivePolls s + 1, polled i, True))"
    and "quorumReachedEvent (gate_effects t s i) \<longleftrightarrow>
      suppressionActive s \<and> \<not> suppressionActive (gate_advance t s i)"
    and "\<not> quorumLostEvent (gate_effects t s i)"
proof -
  from assms have p: "Present (fst i)" "Quorum (Primary (fst i)) = QuorumStatusOK"
    by (simp_all add: reads_def)
  show "supp_part (gate_advance t s i) =
      (if \<not> suppressionActive s then (None, 0, quorumOKConsecutivePolls s, quorumOKLastCountedPoll s, False)
       else if \<not> quorumOKLastCountedPoll s < polled i
       then (None, 0, quorumOKConsecutivePolls s, quorumOKLastCountedPoll s, True)
       else if recoveryPolls t \<le> quorumOKConsecutivePolls s + 1 then (None, 0, 0, 0, False)
       else (None, 0, quorumOKConsecutivePolls s + 1, polled i, True))"
    by (rule gate_present[OF p(1), of s t])
      (simp add: p(2) updateQuorumSuppression_def Let_def supp_part_def)
  show "quorumReachedEvent (gate_effects t s i) \<longleftrightarrow>
      suppressionActive s \<and> \<not> suppressionActive (gate_advance t s i)"
    by (rule gate_present[OF p(1), of s t])
      (simp add: p(2) updateQuorumSuppression_def Let_def supp_part_def)
  show "\<not> quorumLostEvent (gate_effects t s i)"
    by (rule gate_present[OF p(1), of s t])
      (simp add: p(2) updateQuorumSuppression_def Let_def supp_part_def)
qed

lemma pass_cases:
  obtains (absent) "\<not> Present (fst i)" | (unknown) "reads QuorumStatusUnknown i"
    | (lost) "reads QuorumStatusLost i" | (ok) "reads QuorumStatusOK i"
  by (cases "Quorum (Primary (fst i))") (auto simp: reads_def)

lemma gate_quiet:
  "\<not> Present (fst i) \<or> reads QuorumStatusUnknown i \<Longrightarrow> supp_part (gate_advance t s i) = supp_part s \<and>
     \<not> quorumLostEvent (gate_effects t s i) \<and> \<not> quorumReachedEvent (gate_effects t s i)"
  using gate_absent gate_unknown by blast

lemma supp_sel:
  "suppressionActive s = snd (snd (snd (snd (supp_part s))))"
  "quorumLostSince s = fst (supp_part s)"
  "quorumLostSincePoll s = fst (snd (supp_part s))"
  "quorumOKConsecutivePolls s = fst (snd (snd (supp_part s)))"
  "quorumOKLastCountedPoll s = fst (snd (snd (snd (supp_part s))))"
  by (simp_all add: supp_part_def)

lemma lost_event_iff:
  "quorumLostEvent (gate_effects t s i) \<longleftrightarrow> \<not> suppressionActive s \<and> suppressionActive (gate_advance t s i)"
proof (cases i rule: pass_cases)
  case lost
  then show ?thesis by (rule gate_lost)
next
  case ok
  then show ?thesis using gate_ok(1)[of i t s] gate_ok(3)[of i t s]
    by (simp add: supp_sel(1)[of "gate_advance t s i"] split: if_splits)
qed (simp_all add: gate_absent gate_unknown supp_sel(1))

lemma reached_event_iff:
  "quorumReachedEvent (gate_effects t s i) \<longleftrightarrow> suppressionActive s \<and> \<not> suppressionActive (gate_advance t s i)"
proof (cases i rule: pass_cases)
  case ok
  then show ?thesis by (rule gate_ok)
next
  case lost
  then show ?thesis using gate_lost(1)[of i t s] gate_lost(3)[of i t s]
    by (simp add: supp_sel(1)[of "gate_advance t s i"] split: if_splits)
qed (simp_all add: gate_absent gate_unknown supp_sel(1))

definition lost_fires :: "QuorumSuppressionTunables \<Rightarrow> crQuorumState \<Rightarrow> gatePass \<Rightarrow> bool" where
  "lost_fires t s i = quorumLostEvent (gate_effects t s i)"

definition reached_fires :: "QuorumSuppressionTunables \<Rightarrow> crQuorumState \<Rightarrow> gatePass \<Rightarrow> bool" where
  "reached_fires t s i = quorumReachedEvent (gate_effects t s i)"

definition unsuppressed :: "crQuorumState \<Rightarrow> bool" where
  "unsuppressed s \<longleftrightarrow> \<not> suppressionActive s"

definition splitBrain_fires :: "QuorumSuppressionTunables \<Rightarrow> crQuorumState \<Rightarrow> gatePass \<Rightarrow> bool" where
  "splitBrain_fires t s i = splitBrainDetected (gate_effects t s i)"

definition splitBrainOpen :: "crQuorumState \<Rightarrow> bool" where
  "splitBrainOpen s \<longleftrightarrow> splitBrainSince s \<noteq> None"

interpretation gate_entry: rising_edge "gate_advance t" "lost_fires t" suppressionActive for t
  by unfold_locales (simp add: lost_fires_def lost_event_iff)

interpretation gate_exit: rising_edge "gate_advance t" "reached_fires t" unsuppressed for t
  by unfold_locales (simp add: reached_fires_def unsuppressed_def reached_event_iff)

lemma continue_split:
  "splitBrainSince s = Some since \<Longrightarrow>
     \<not> snd (snd (continueEpisode s since p now))"
  by (simp add: continueEpisode_def Let_def split_beta)

lemma split_brain_edge:
  "snd (snd (updateSplitBrainSustained s pr q p now)) \<longleftrightarrow>
     splitBrainSince s = None \<and> splitBrainSince (fst (updateSplitBrainSustained s pr q p now)) \<noteq> None"
  by (simp add: updateSplitBrainSustained_def continue_split split: option.split)

lemma gate_split_since:
  "splitBrainSince (gate_advance t s i) =
     splitBrainSince (fst (updateSplitBrainSustained s (Present (fst i)) (Quorum (Primary (fst i)))
       (polled i) (fst (snd i))))"
  by (simp add: gate_advance_def updateQuorumSuppressionGate_def Let_def split_beta polled_def
      failover_split suppression_split)

lemma gate_split_effects:
  "splitBrainDetected (gate_effects t s i) =
     snd (snd (updateSplitBrainSustained s (Present (fst i)) (Quorum (Primary (fst i)))
       (polled i) (fst (snd i))))"
  "sustainedGauge (gate_effects t s i) =
     fst (snd (updateSplitBrainSustained s (Present (fst i)) (Quorum (Primary (fst i)))
       (polled i) (fst (snd i))))"
  by (simp_all add: gate_effects_def updateQuorumSuppressionGate_def Let_def split_beta polled_def)

interpretation split_brain: rising_edge "gate_advance t" "splitBrain_fires t" splitBrainOpen for t
  by unfold_locales
    (simp add: splitBrain_fires_def splitBrainOpen_def gate_split_effects gate_split_since split_brain_edge)

section \<open>What opens and closes the gate\<close>

definition gate_run :: "QuorumSuppressionTunables \<Rightarrow> gatePass list \<Rightarrow> crQuorumState" where
  "gate_run t h = run_state (gate_advance t) zeroQuorumState h"

lemma gate_run_snoc: "gate_run t (h @ [i]) = gate_advance t (gate_run t h) i"
  by (simp add: gate_run_def run_state_append)

lemma gate_run_nil: "gate_run t [] = zeroQuorumState"
  by (simp add: gate_run_def)

text \<open>A loss that the gate has open, as a fact about the passes seen.\<close>

definition loss_opened_at :: "gatePass list \<Rightarrow> gotime \<Rightarrow> gotime \<Rightarrow> nat \<Rightarrow> bool" where
  "loss_opened_at h since poll j \<longleftrightarrow>
     j < length h \<and> reads QuorumStatusLost (h ! j) \<and> pass_time (h ! j) = since \<and> polled (h ! j) = poll \<and>
     (\<forall>k. j < k \<and> k < length h \<longrightarrow> \<not> reads QuorumStatusOK (h ! k))"

lemma loss_opened_snoc:
  "loss_opened_at h since poll j \<Longrightarrow> \<not> reads QuorumStatusOK i \<Longrightarrow> loss_opened_at (h @ [i]) since poll j"
  by (auto simp: loss_opened_at_def nth_append less_Suc_eq)

lemma loss_opened_new:
  "reads QuorumStatusLost i \<Longrightarrow> loss_opened_at (h @ [i]) (pass_time i) (polled i) (length h)"
  by (auto simp: loss_opened_at_def)

lemma gate_loss_inv:
  "quorumLostSince (gate_run t h) = Some since \<Longrightarrow>
     \<exists>j. loss_opened_at h since (quorumLostSincePoll (gate_run t h)) j"
proof (induction h arbitrary: since rule: rev_induct)
  case Nil
  then show ?case by (simp add: gate_run_nil zeroQuorumState_def)
next
  case (snoc i h)
  let ?s = "gate_run t h"
  show ?case
  proof (cases i rule: pass_cases)
    case ok
    with snoc.prems gate_ok(1)[OF ok, of t ?s] show ?thesis
      by (simp add: gate_run_snoc supp_sel(2)[of "gate_advance t ?s i"] split: if_splits)
  next
    case lost
    note l = gate_lost(1)[OF lost, of t ?s]
    have nok: "\<not> reads QuorumStatusOK i" using lost by (simp add: reads_def)
    show ?thesis
    proof (cases "quorumLostSince ?s")
      case None
      show ?thesis
      proof (cases "suppressionActive ?s")
        case True
        with snoc.prems l None show ?thesis
          by (simp add: gate_run_snoc supp_sel(2)[of "gate_advance t ?s i"])
      next
        case False
        with snoc.prems l None have "since = pass_time i"
          "quorumLostSincePoll (gate_advance t ?s i) = polled i"
          by (simp_all add: gate_run_snoc supp_sel(2,3)[of "gate_advance t ?s i"])
        with loss_opened_new[OF lost, of h] show ?thesis by (auto simp: gate_run_snoc)
      qed
    next
      case (Some t0)
      with snoc.prems l have "since = t0"
        "quorumLostSincePoll (gate_advance t ?s i) = quorumLostSincePoll ?s"
        by (simp_all add: gate_run_snoc supp_sel(2,3)[of "gate_advance t ?s i"] split: if_splits)
      with snoc.IH[OF Some] loss_opened_snoc[OF _ nok] show ?thesis
        unfolding gate_run_snoc by metis
    qed
  qed (use snoc gate_quiet[of i t ?s] loss_opened_snoc[of h _ _ _ i] in
      \<open>auto simp: gate_run_snoc supp_sel(2,3) reads_def\<close>)
qed

text \<open>
  C5. Entering suppression needs sustained, re-confirmed loss. Over any sequence of passes from the
  fresh state, when a pass emits \<^verbatim>\<open>QuorumLost\<close> it reads a lost quorum itself, and some earlier pass
  also read lost, at least the loss threshold before on the clock and from a strictly older poll,
  with no healthy reading between them. So a single stale reading, replayed by any number of
  reconciles, never suspends the sentinel commands.
\<close>

theorem suppression_entry_evidence:
  assumes "lost_fires t (gate_run t h) i"
  shows "reads QuorumStatusLost i \<and>
    (\<exists>j < length h. reads QuorumStatusLost (h ! j) \<and>
       lossThreshold t \<le> pass_time i - pass_time (h ! j) \<and> polled (h ! j) < polled i \<and>
       (\<forall>k. j < k \<and> k < length h \<longrightarrow> \<not> reads QuorumStatusOK (h ! k)))"
proof -
  let ?s = "gate_run t h"
  have e: "\<not> suppressionActive ?s" "suppressionActive (gate_advance t ?s i)"
    using assms by (simp_all add: lost_fires_def lost_event_iff)
  have lost: "reads QuorumStatusLost i"
  proof (cases i rule: pass_cases)
    case ok
    from e gate_ok(1)[OF ok, of t ?s] show ?thesis
      by (simp add: supp_sel(1)[of "gate_advance t ?s i"])
  qed (use e gate_quiet[of i t ?s] in \<open>simp_all add: supp_sel(1)\<close>)
  from e gate_lost(1)[OF lost, of t ?s] obtain since where
    since: "quorumLostSince ?s = Some since" "lossThreshold t \<le> Sub (pass_time i) since"
      "quorumLostSincePoll ?s < polled i"
    by (cases "quorumLostSince ?s") (simp_all add: supp_sel(1)[of "gate_advance t ?s i"])
  from gate_loss_inv[OF since(1)] obtain j where
    j: "loss_opened_at h since (quorumLostSincePoll ?s) j" by blast
  have "0 < lossThreshold t" by (simp add: lossThreshold_def quorumLossSuppressionThreshold_def window_consts)
  then have "lossThreshold t \<le> pass_time i - since"
    using since(2) by (simp add: Sub_def minDuration_def max_def min_def split: if_splits)
  then show ?thesis using lost j since(3) unfolding loss_opened_at_def by auto
qed

text \<open>The healthy polls counted so far, as positions in the passes seen.\<close>

definition ok_streak :: "gatePass list \<Rightarrow> nat list \<Rightarrow> bool" where
  "ok_streak h js \<longleftrightarrow>
     (\<forall>j\<in>set js. j < length h \<and> reads QuorumStatusOK (h ! j)) \<and>
     sorted_wrt (<) js \<and> sorted_wrt (\<lambda>j k. polled (h ! j) < polled (h ! k)) js \<and>
     (\<forall>k. js \<noteq> [] \<and> hd js \<le> k \<and> k < length h \<longrightarrow> \<not> reads QuorumStatusLost (h ! k))"

lemma ok_streak_nil: "ok_streak h []"
  by (simp add: ok_streak_def)

lemma nth_snoc_less: "j < length h \<Longrightarrow> (h @ [i]) ! j = h ! j"
  by (simp add: nth_append)

lemma ok_streak_keep:
  assumes "ok_streak h js" and "\<not> reads QuorumStatusLost i"
  shows "ok_streak (h @ [i]) js"
proof -
  have "sorted_wrt (\<lambda>j k. polled ((h @ [i]) ! j) < polled ((h @ [i]) ! k)) js"
    using assms(1) unfolding ok_streak_def
    by (elim conjE) (rule sorted_wrt_mono_rel[rotated], assumption, simp add: nth_snoc_less)
  moreover have "\<forall>k. js \<noteq> [] \<and> hd js \<le> k \<and> k < length (h @ [i]) \<longrightarrow> \<not> reads QuorumStatusLost ((h @ [i]) ! k)"
    using assms by (auto simp: ok_streak_def nth_append less_Suc_eq)
  ultimately show ?thesis using assms(1) by (auto simp: ok_streak_def nth_snoc_less)
qed

lemma ok_streak_extend:
  assumes "ok_streak h js" and "reads QuorumStatusOK i"
    and "js \<noteq> [] \<Longrightarrow> polled (h ! last js) < polled i"
  shows "ok_streak (h @ [i]) (js @ [length h])"
proof -
  have nl: "\<not> reads QuorumStatusLost i" using assms(2) by (simp add: reads_def)
  note k = ok_streak_keep[OF assms(1) nl]
  have below: "polled (h ! j) < polled i" if "j \<in> set js" for j
  proof -
    from that have ne: "js \<noteq> []" by auto
    then obtain xs where xs: "js = xs @ [last js]" by (metis append_butlast_last_id)
    have "polled (h ! j) \<le> polled (h ! last js)"
    proof (cases "j = last js")
      case False
      with that xs have "j \<in> set xs" by (metis Un_iff empty_iff empty_set insert_iff list.set(2) set_append)
      moreover have "sorted_wrt (\<lambda>j k. polled (h ! j) < polled (h ! k)) (xs @ [last js])"
        using assms(1) xs unfolding ok_streak_def by metis
      ultimately show ?thesis by (auto simp: sorted_wrt_append)
    qed simp
    with assms(3)[OF ne] show ?thesis by simp
  qed
  have j: "\<forall>j\<in>set js. j < length h" using assms(1) by (simp add: ok_streak_def)
  have "sorted_wrt (\<lambda>j k. polled ((h @ [i]) ! j) < polled ((h @ [i]) ! k)) (js @ [length h])"
    using k j below by (auto simp: ok_streak_def sorted_wrt_append nth_snoc_less)
  moreover have "sorted_wrt (<) (js @ [length h])"
    using assms(1) by (auto simp: ok_streak_def sorted_wrt_append)
  moreover have "\<not> reads QuorumStatusLost ((h @ [i]) ! k)"
    if "hd (js @ [length h]) \<le> k" "k < length (h @ [i])" for k
  proof (cases "js = []")
    case True
    with that have "k = length h" by simp
    with nl show ?thesis by simp
  next
    case False
    with that \<open>ok_streak (h @ [i]) js\<close> show ?thesis by (simp add: ok_streak_def)
  qed
  ultimately show ?thesis
    using k assms(2) by (auto simp: ok_streak_def)
qed

definition exit_inv :: "gatePass list \<Rightarrow> crQuorumState \<Rightarrow> nat list \<Rightarrow> bool" where
  "exit_inv h s js \<longleftrightarrow>
     ok_streak h js \<and> int (length js) = quorumOKConsecutivePolls s \<and>
     quorumOKLastCountedPoll s = (if js = [] then 0 else polled (h ! last js))"

lemma exit_inv_same:
  assumes "exit_inv h s js" and "\<not> reads QuorumStatusLost i"
    and "quorumOKConsecutivePolls s' = quorumOKConsecutivePolls s"
    and "quorumOKLastCountedPoll s' = quorumOKLastCountedPoll s"
  shows "exit_inv (h @ [i]) s' js"
proof -
  have "last js < length h" if "js \<noteq> []" using assms(1) that by (simp add: exit_inv_def ok_streak_def)
  then show ?thesis using assms ok_streak_keep by (auto simp: exit_inv_def nth_snoc_less)
qed

lemma exit_inv_zero:
  "quorumOKConsecutivePolls s = 0 \<Longrightarrow> quorumOKLastCountedPoll s = 0 \<Longrightarrow> exit_inv h s []"
  by (simp add: exit_inv_def ok_streak_nil)

lemma gate_exit_inv: "\<exists>js. exit_inv h (gate_run t h) js"
proof (induction h rule: rev_induct)
  case Nil
  show ?case using exit_inv_zero[of zeroQuorumState "[]"] by (auto simp: gate_run_nil zeroQuorumState_def)
next
  case (snoc i h)
  let ?s = "gate_run t h"
  from snoc obtain js where js: "exit_inv h ?s js" by blast
  show ?case
  proof (cases i rule: pass_cases)
    case lost
    from gate_lost(1)[OF lost, of t ?s] have "quorumOKConsecutivePolls (gate_advance t ?s i) = 0"
      "quorumOKLastCountedPoll (gate_advance t ?s i) = 0"
      by (simp_all add: supp_sel(4,5)[of "gate_advance t ?s i"] split: if_splits option.splits)
    then show ?thesis using exit_inv_zero unfolding gate_run_snoc by blast
  next
    case ok
    note o1 = gate_ok(1)[OF ok, of t ?s]
    have nl: "\<not> reads QuorumStatusLost i" using ok by (simp add: reads_def)
    consider (same) "quorumOKConsecutivePolls (gate_advance t ?s i) = quorumOKConsecutivePolls ?s"
        "quorumOKLastCountedPoll (gate_advance t ?s i) = quorumOKLastCountedPoll ?s"
      | (clear) "quorumOKConsecutivePolls (gate_advance t ?s i) = 0"
        "quorumOKLastCountedPoll (gate_advance t ?s i) = 0"
      | (count) "quorumOKConsecutivePolls (gate_advance t ?s i) = quorumOKConsecutivePolls ?s + 1"
        "quorumOKLastCountedPoll (gate_advance t ?s i) = polled i" "quorumOKLastCountedPoll ?s < polled i"
      using o1 by (simp add: supp_sel(4,5)[of "gate_advance t ?s i"] split: if_splits)
    then show ?thesis
    proof cases
      case same
      with exit_inv_same[OF js nl] show ?thesis unfolding gate_run_snoc by blast
    next
      case clear
      then show ?thesis using exit_inv_zero unfolding gate_run_snoc by blast
    next
      case count
      have "ok_streak (h @ [i]) (js @ [length h])"
        using js count(3) ok by (intro ok_streak_extend) (auto simp: exit_inv_def)
      with count js have "exit_inv (h @ [i]) (gate_advance t ?s i) (js @ [length h])"
        by (simp add: exit_inv_def)
      then show ?thesis unfolding gate_run_snoc by blast
    qed
  qed (use exit_inv_same[OF js, of i "gate_advance t ?s i"] gate_quiet[of i t ?s] in
      \<open>auto simp: gate_run_snoc supp_sel(4,5) reads_def\<close>)
qed

text \<open>
  C6. Leaving suppression needs enough distinct healthy polls. Over any sequence of passes from the
  fresh state, when a pass emits \<^verbatim>\<open>QuorumReached\<close> there are at least \<open>recoveryPolls\<close> passes, the last
  of them this one, that read a healthy quorum with strictly increasing poll stamps, and no pass
  from the first of them on read a lost quorum. Reconciles that re-read one poll count once.
\<close>

theorem suppression_exit_evidence:
  assumes "reached_fires t (gate_run t h) i"
  shows "\<exists>js. ok_streak (h @ [i]) (js @ [length h]) \<and> recoveryPolls t \<le> int (length (js @ [length h]))"
proof -
  let ?s = "gate_run t h"
  have e: "suppressionActive ?s" "\<not> suppressionActive (gate_advance t ?s i)"
    using assms by (simp_all add: reached_fires_def reached_event_iff)
  have ok: "reads QuorumStatusOK i"
  proof (cases i rule: pass_cases)
    case lost
    from e gate_lost(1)[OF lost, of t ?s] show ?thesis
      by (simp add: supp_sel(1)[of "gate_advance t ?s i"])
  qed (use e gate_quiet[of i t ?s] in \<open>simp_all add: supp_sel(1)\<close>)
  from e gate_ok(1)[OF ok, of t ?s] have c: "quorumOKLastCountedPoll ?s < polled i"
    "recoveryPolls t \<le> quorumOKConsecutivePolls ?s + 1"
    by (simp_all add: supp_sel(1)[of "gate_advance t ?s i"] split: if_splits)
  obtain js where js: "exit_inv h ?s js" using gate_exit_inv by blast
  then have "ok_streak (h @ [i]) (js @ [length h])"
    using ok c(1) by (intro ok_streak_extend) (auto simp: exit_inv_def)
  moreover have "recoveryPolls t \<le> int (length (js @ [length h]))"
    using js c(2) by (simp add: exit_inv_def)
  ultimately show ?thesis by blast
qed

text \<open>
  Every entry has its exit. Over any sequence of passes from any state, the \<^verbatim>\<open>QuorumLost\<close> events
  exceed the \<^verbatim>\<open>QuorumReached\<close> events by one exactly when the gate was opened and not yet closed, and
  the \<^verbatim>\<open>SplitBrainDetected\<close> events count the episodes: one per opening, however many passes an
  episode lasts.
\<close>

theorem gate_events_balance:
  "fire_count (gate_advance t) (lost_fires t) s is + (if suppressionActive s then 1 else 0) =
     fire_count (gate_advance t) (reached_fires t) s is +
     (if suppressionActive (run_state (gate_advance t) s is) then 1 else 0) \<and>
   fire_count (gate_advance t) (splitBrain_fires t) s is + (if splitBrainOpen s then 1 else 0) =
     fall_count (gate_advance t) splitBrainOpen s is +
     (if splitBrainOpen (run_state (gate_advance t) s is) then 1 else 0)"
proof
  have "fall_count (gate_advance t) suppressionActive s is =
      fire_count (gate_advance t) (reached_fires t) s is"
    by (induction "is" arbitrary: s) (simp_all add: reached_fires_def reached_event_iff)
  with gate_entry.fires_balance[of t s "is"]
  show "fire_count (gate_advance t) (lost_fires t) s is + (if suppressionActive s then 1 else 0) =
     fire_count (gate_advance t) (reached_fires t) s is +
     (if suppressionActive (run_state (gate_advance t) s is) then 1 else 0)"
    by simp
qed (rule split_brain.fires_balance)

text \<open>The two ways through the gate, on uniform stretches of passes.\<close>

lemma lost_stretch:
  assumes "\<forall>i\<in>set is. reads QuorumStatusLost i \<and> p0 < polled i"
    and "suppressionActive s \<or> quorumLostSince s = Some since \<and> quorumLostSincePoll s = p0"
  shows "suppressionActive (run_state (gate_advance t) s is) \<or>
     quorumLostSince (run_state (gate_advance t) s is) = Some since \<and>
     quorumLostSincePoll (run_state (gate_advance t) s is) = p0"
  using assms
proof (induction "is" arbitrary: s)
  case (Cons i "is")
  then have "reads QuorumStatusLost i" by simp
  from gate_lost(1)[OF this, of t s] Cons.prems(2)
  have "suppressionActive (gate_advance t s i) \<or>
      quorumLostSince (gate_advance t s i) = Some since \<and> quorumLostSincePoll (gate_advance t s i) = p0"
    by (auto simp: supp_sel(1,2,3)[of "gate_advance t s i"] split: if_splits)
  with Cons.IH[of "gate_advance t s i"] Cons.prems(1) show ?case by simp
qed simp

lemma ok_stretch:
  assumes "\<forall>i\<in>set is. reads QuorumStatusOK i" and "sorted_wrt (<) (quorumOKLastCountedPoll s # map polled is)"
    and "suppressionActive s \<longrightarrow> recoveryPolls t \<le> quorumOKConsecutivePolls s + int (length is)" and "is \<noteq> []"
  shows "\<not> suppressionActive (run_state (gate_advance t) s is)"
  using assms
proof (induction "is" arbitrary: s)
  case (Cons i "is")
  then have ok: "reads QuorumStatusOK i" by simp
  let ?s' = "gate_advance t s i"
  note o1 = gate_ok(1)[OF ok, of t s]
  show ?case
  proof (cases "is = []")
    case True
    with Cons.prems o1 show ?thesis
      by (auto simp: supp_sel(1)[of ?s'])
  next
    case False
    show ?thesis
    proof (cases "suppressionActive ?s'")
      case True
      with o1 Cons.prems(2) have "quorumOKLastCountedPoll ?s' = polled i"
        "quorumOKConsecutivePolls ?s' = quorumOKConsecutivePolls s + 1" "suppressionActive s"
        by (auto simp: supp_sel(1,4,5)[of ?s'] split: if_splits)
      with Cons.prems False Cons.IH[of ?s'] show ?thesis by simp
    next
      case inactive: False
      have "\<not> suppressionActive (run_state (gate_advance t) u js)"
        if "\<forall>i\<in>set js. reads QuorumStatusOK i" "\<not> suppressionActive u" for u js
        using that
      proof (induction js arbitrary: u)
        case (Cons j js)
        with gate_ok(1)[of j t u] have "\<not> suppressionActive (gate_advance t u j)"
          by (simp add: supp_sel(1)[of "gate_advance t u j"])
        with Cons show ?case by simp
      qed simp
      with inactive Cons.prems(1) show ?thesis by simp
    qed
  qed
qed simp

text \<open>
  The gate reacts. From a state with no loss open, a stretch of lost readings whose later polls
  are newer than the first and that spans the loss threshold leaves the sentinel commands
  suspended; a following stretch of healthy readings with \<open>recoveryPolls\<close> increasing poll stamps
  releases them. Together with the two evidence theorems this pins both edges of the gate.
\<close>

theorem gate_reacts:
  assumes closed: "\<not> suppressionActive s" "quorumLostSince s = None"
    and lost: "\<forall>i\<in>set (first # mid @ [final]). reads QuorumStatusLost i"
    and newer: "\<forall>i\<in>set (mid @ [final]). polled first < polled i"
    and spans: "lossThreshold t \<le> Sub (pass_time final) (pass_time first)"
    and ok: "\<forall>i\<in>set oks. reads QuorumStatusOK i"
    and distinct: "sorted_wrt (<) (0 # map polled oks)"
    and enough: "recoveryPolls t \<le> int (length oks)"
  shows "suppressionActive (run_state (gate_advance t) s (first # mid @ [final])) \<and>
    \<not> suppressionActive (run_state (gate_advance t) s ((first # mid @ [final]) @ oks))"
proof -
  let ?s1 = "gate_advance t s first"
  have "reads QuorumStatusLost first" using lost by simp
  from gate_lost(1)[OF this, of t s] closed
  have "quorumLostSince ?s1 = Some (pass_time first) \<and> quorumLostSincePoll ?s1 = polled first"
    by (simp add: supp_sel(2,3)[of ?s1])
  then have m: "suppressionActive (run_state (gate_advance t) ?s1 mid) \<or>
     quorumLostSince (run_state (gate_advance t) ?s1 mid) = Some (pass_time first) \<and>
     quorumLostSincePoll (run_state (gate_advance t) ?s1 mid) = polled first"
    using lost newer by (intro lost_stretch) auto
  define sm where "sm = run_state (gate_advance t) ?s1 mid"
  define sf where "sf = gate_advance t sm final"
  have "reads QuorumStatusLost final" using lost by simp
  note lf = gate_lost(1)[OF this, of t sm, folded sf_def]
  have f: "suppressionActive sf" "quorumOKLastCountedPoll sf = 0" "quorumOKConsecutivePolls sf = 0"
    using m lf newer spans unfolding sm_def[symmetric]
    by (auto simp: supp_sel(1,4,5)[of sf] split: if_splits option.splits)
  have r: "run_state (gate_advance t) s (first # mid @ [final]) = sf"
    by (simp add: run_state_append sm_def sf_def)
  have "0 < recoveryPolls t" by (simp add: recoveryPolls_def quorumRecoveryHysteresisPolls_def)
  then have "oks \<noteq> []" using enough by auto
  then have "\<not> suppressionActive (run_state (gate_advance t) sf oks)"
    using ok distinct enough f by (intro ok_stretch) simp_all
  then show ?thesis using f(1) unfolding run_state_append[of _ _ "first # mid @ [final]"] r by simp
qed

section \<open>The snapshot and the failover observation\<close>

text \<open>\<^verbatim>\<open>Manager.Snapshot\<close>: the holder of the CR's observer, if there is one.\<close>

definition managerSnapshot :: "observer option \<Rightarrow> Snapshot" where
  "managerSnapshot ob =
     (case ob of
        None \<Rightarrow> \<lparr>Present = False, Primary = zeroObservedPrimary\<rparr>
      | Some o' \<Rightarrow>
          (case snapshot o' of
             (op, ok) \<Rightarrow> if \<not> ok then \<lparr>Present = False, Primary = zeroObservedPrimary\<rparr>
                         else \<lparr>Present = True, Primary = op\<rparr>))"

lemma split_brain_closed_on_ok:
  "splitBrainSince (fst (updateSplitBrainSustained s True QuorumStatusOK p now)) = None"
  by (simp add: updateSplitBrainSustained_def)

lemma failover_None:
  assumes "Present (fst i) \<Longrightarrow> OPQuorumOK (Primary (fst i)) = (Quorum (Primary (fst i)) = QuorumStatusOK)"
  shows "failoverObserved (gate_effects t s i) = None"
proof (cases "Present (fst i) \<and> OPQuorumOK (Primary (fst i))")
  case True
  with assms have "Quorum (Primary (fst i)) = QuorumStatusOK" by simp
  with True show ?thesis using split_brain_closed_on_ok
    by (simp add: gate_effects_def updateQuorumSuppressionGate_def Let_def split_beta
        observeFailoverIfAddrChanged_def)
next
  case False
  then show ?thesis
    by (auto simp: gate_effects_def updateQuorumSuppressionGate_def Let_def split_beta
        observeFailoverIfAddrChanged_def)
qed

lemma reachable_snapshot_flag:
  assumes "obs_reach m pw eps ob lp"
  shows "OPQuorumOK (Primary (managerSnapshot (Some ob))) =
     (Quorum (Primary (managerSnapshot (Some ob))) = QuorumStatusOK)"
  using obs_reach_inv[OF assms]
  by (auto simp: obs_inv_def managerSnapshot_def snapshot_def load_def zeroObservedPrimary_def
      split: option.splits)

text \<open>
  A completed failover is never recorded. Whatever the gate's state and whatever a reachable
  observer published, the pass observes no failover: the split-brain tracker runs first and a
  healthy reading clears the episode start that the failover observation then needs. The counter
  \<^verbatim>\<open>FailoversTotal\<close> and the duration histogram stay empty, also for the sequence the comment
  describes, a disagreement followed by agreement on another address.
\<close>

theorem failover_never_recorded:
  assumes "obs_reach m pw eps ob lp"
  shows "failoverObserved (gate_effects t s (managerSnapshot (Some ob), now1, now2)) = None"
  using reachable_snapshot_flag[OF assms] by (intro failover_None) simp

section \<open>Latches that expire\<close>

definition linkup_stamp :: "crQuorumState \<Rightarrow> gotime option" where
  "linkup_stamp s = (if strandedLinkupStuck s then Some (strandedLinkupStuckAt s) else None)"

definition linkup_read :: "crQuorumState \<Rightarrow> gotime \<Rightarrow> crQuorumState" where
  "linkup_read s now = fst (strandedLinkupStuckActiveOrExpire s now)"

definition linkup_active :: "crQuorumState \<Rightarrow> gotime \<Rightarrow> bool" where
  "linkup_active s now = snd (strandedLinkupStuckActiveOrExpire s now)"

interpretation linkup: freshness_window linkup_stamp linkup_read linkup_active strandedLinkupStuckFreshnessWindow
  by unfold_locales
    (auto simp: linkup_stamp_def linkup_read_def linkup_active_def strandedLinkupStuckActiveOrExpire_def
      strandedLinkupStuckFreshnessWindow_def strandedRecoveryCooldown_def
      strandedSurgeryMaxBackoffLevel_def window_consts maxDuration_def)

definition topology_deficit :: "topologyDimState \<Rightarrow> int" where
  "topology_deficit d = (if tactive d then tdeficit d else 0)"

definition topology_stamp :: "crQuorumState \<Rightarrow> gotime option" where
  "topology_stamp s =
     (if \<not> IsZero (topologyMismatchObservedAt s) \<and>
         (0 < topology_deficit (topologySentinel s) \<or> 0 < topology_deficit (topologyReplica s))
      then Some (topologyMismatchObservedAt s) else None)"

definition topology_read :: "crQuorumState \<Rightarrow> gotime \<Rightarrow> crQuorumState" where
  "topology_read s now = fst (topologyMismatchActiveOrExpire s now)"

definition topology_active :: "crQuorumState \<Rightarrow> gotime \<Rightarrow> bool" where
  "topology_active s now = fst (snd (topologyMismatchActiveOrExpire s now))"

interpretation topology: freshness_window topology_stamp topology_read topology_active topologyMismatchFreshnessWindow
  by unfold_locales
    (auto simp: topology_stamp_def topology_read_def topology_active_def topology_deficit_def
      topologyMismatchActiveOrExpire_def topologyMismatchFreshnessWindow_def topologyMismatchDebounce_def
      window_consts maxDuration_def zeroDim_def Let_def)

text \<open>One dimension of the topology tracker under the passes and the reads it sees.\<close>

datatype topologyInput = TopologyPass bool int bool int gotime | TopologyRead gotime

fun topology_step :: "crQuorumState \<Rightarrow> topologyInput \<Rightarrow> crQuorumState" where
  "topology_step s (TopologyPass se ds re dr now) = fst (foldTopologyMismatch s se ds re dr now)"
| "topology_step s (TopologyRead now) = topology_read s now"

fun sentinel_dim_fires :: "crQuorumState \<Rightarrow> topologyInput \<Rightarrow> bool" where
  "sentinel_dim_fires s (TopologyPass se ds re dr now) = fst (snd (foldTopologyMismatch s se ds re dr now))"
| "sentinel_dim_fires s (TopologyRead now) = False"

fun replica_dim_fires :: "crQuorumState \<Rightarrow> topologyInput \<Rightarrow> bool" where
  "replica_dim_fires s (TopologyPass se ds re dr now) = snd (snd (foldTopologyMismatch s se ds re dr now))"
| "replica_dim_fires s (TopologyRead now) = False"

definition sentinel_dim_up :: "crQuorumState \<Rightarrow> bool" where
  "sentinel_dim_up s = tedge (topologySentinel s)"

definition replica_dim_up :: "crQuorumState \<Rightarrow> bool" where
  "replica_dim_up s = tedge (topologyReplica s)"

lemma fold_dim_edge:
  "snd (snd (fold_dim d n e now w)) \<longleftrightarrow> \<not> tedge d \<and> tedge (fst (fold_dim d n e now w))"
  by (simp add: fold_dim_def zeroDim_def Let_def)

interpretation sentinel_dim: rising_edge topology_step sentinel_dim_fires sentinel_dim_up
proof
  fix s i
  show "sentinel_dim_fires s i \<longleftrightarrow> \<not> sentinel_dim_up s \<and> sentinel_dim_up (topology_step s i)"
    by (cases i) (simp_all add: foldTopologyMismatch_def Let_def split_beta sentinel_dim_up_def
        fold_dim_edge topology_read_def topologyMismatchActiveOrExpire_def zeroDim_def)
qed

interpretation replica_dim: rising_edge topology_step replica_dim_fires replica_dim_up
proof
  fix s i
  show "replica_dim_fires s i \<longleftrightarrow> \<not> replica_dim_up s \<and> replica_dim_up (topology_step s i)"
    by (cases i) (simp_all add: foldTopologyMismatch_def Let_def split_beta replica_dim_up_def
        fold_dim_edge topology_read_def topologyMismatchActiveOrExpire_def zeroDim_def)
qed

text \<open>
  The topology event fires once per episode in each dimension, whatever passes and status reads
  interleave: the events of a dimension count its rises, and a stretch without a recovery, an
  ineligible pass or an expiry has at most one. The mismatch is active only while passes refresh
  it: two minutes after the last pass every read finds it inactive and drops it, so the condition
  cannot stay on an observation that stopped.
\<close>

theorem topology_events_and_expiry:
  "fire_count topology_step sentinel_dim_fires s is + (if sentinel_dim_up s then 1 else 0) =
     fall_count topology_step sentinel_dim_up s is +
     (if sentinel_dim_up (run_state topology_step s is) then 1 else 0) \<and>
   fire_count topology_step replica_dim_fires s is + (if replica_dim_up s then 1 else 0) =
     fall_count topology_step replica_dim_up s is +
     (if replica_dim_up (run_state topology_step s is) then 1 else 0) \<and>
   (2 * Minute < now - topologyMismatchObservedAt s \<longrightarrow>
      \<not> topology_active (run_state topology_read s ts) now)"
proof (intro conjI impI)
  assume late: "2 * Minute < now - topologyMismatchObservedAt s"
  show "\<not> topology_active (run_state topology_read s ts) now"
  proof (cases "topology_stamp s")
    case None
    then show ?thesis by (simp add: topology.reads_unstamped topology.unstamped_inactive)
  next
    case (Some u)
    then have "u = topologyMismatchObservedAt s" by (simp add: topology_stamp_def split: if_splits)
    with late topology.inactive_after_window[OF Some, of now ts] show ?thesis
      by (simp add: topologyMismatchFreshnessWindow_def topologyMismatchDebounce_def window_consts)
  qed
qed (rule sentinel_dim.fires_balance replica_dim.fires_balance)+

section \<open>Stranded-sentinel pacing\<close>

lemma backoff_range: "0 \<le> strandedAddrBackoffLevel n" "strandedAddrBackoffLevel n \<le> 3"
  "1 \<le> strandedAddrBackoffLevel n \<longleftrightarrow> 3 \<le> n"
  by (simp_all add: strandedAddrBackoffLevel_def strandedSurgeryStuckThreshold_def
      strandedSurgeryMaxBackoffLevel_def min_def)

lemma backoff_mono: "m \<le> n \<Longrightarrow> strandedAddrBackoffLevel m \<le> strandedAddrBackoffLevel n"
  by (simp add: strandedAddrBackoffLevel_def strandedSurgeryStuckThreshold_def
      strandedSurgeryMaxBackoffLevel_def min_def)

text \<open>The record of a surgery at \<open>now\<close> on an address, before the authentication outcome.\<close>

definition wiped_record :: "(string \<times> strandedAddrState) list \<Rightarrow> gotime \<Rightarrow> string \<Rightarrow> strandedAddrState" where
  "wiped_record old now a =
     \<lparr>noProgress = (if strandedLinkupStuckFreshnessWindow < Sub now (lastWiped (lookupStranded old a))
                   then 0 else noProgress (lookupStranded old a)) + 1, lastWiped = now\<rparr>"

lemma map_of_wiped:
  "map_of (fold (wipeOne old now) ws m) a =
     (if a \<in> set ws then Some (wiped_record old now a) else map_of m a)"
  by (induction ws arbitrary: m) (auto simp: wipeOne_def wiped_record_def Let_def update_conv')

lemma map_of_authFailed:
  "map_of (fold authFailOne fs m) a =
     (case map_of m a of
        None \<Rightarrow> None
      | Some r \<Rightarrow> Some (if a \<in> set fs then r\<lparr>noProgress := max 3 (noProgress r)\<rparr> else r))"
proof (induction fs arbitrary: m)
  case (Cons f fs)
  have "map_of (authFailOne f m) a =
      (case map_of m a of
         None \<Rightarrow> None
       | Some r \<Rightarrow> Some (if a = f then r\<lparr>noProgress := max 3 (noProgress r)\<rparr> else r))"
    by (auto simp: authFailOne_def strandedSurgeryStuckThreshold_def update_conv' max_def
        split: option.splits)
  then show ?case by (cases "map_of m a") (auto simp: Cons.IH)
qed (simp split: option.split)

lemma map_of_skipped:
  "map_of (fold (skipOne old) ss m) a =
     (if a \<in> set ss \<and> map_of old a \<noteq> None then map_of old a else map_of m a)"
  by (induction ss arbitrary: m) (auto simp: skipOne_def update_conv' split: option.splits)

lemma map_of_next:
  "map_of (nextStranded old wiped skipped authFailed now) a =
     (if a \<in> set skipped \<and> map_of old a \<noteq> None then map_of old a
      else if a \<in> set wiped then
        Some (let r = wiped_record old now a in
              if a \<in> set authFailed then r\<lparr>noProgress := max 3 (noProgress r)\<rparr> else r)
      else None)"
  by (simp add: nextStranded_def map_of_skipped map_of_authFailed map_of_wiped Let_def)

lemma distinct_next: "distinct (map fst (nextStranded old wiped skipped authFailed now))"
proof -
  have w: "distinct (map fst (fold (wipeOne old now) ws m))" if "distinct (map fst m)" for ws m
    using that by (induction ws arbitrary: m) (auto simp: wipeOne_def Let_def distinct_update)
  have f: "distinct (map fst (fold authFailOne fs m))" if "distinct (map fst m)" for fs m
    using that
    by (induction fs arbitrary: m) (auto simp: authFailOne_def distinct_update split: option.split)
  have "distinct (map fst (fold (skipOne old) ss m))" if "distinct (map fst m)" for ss m
    using that by (induction ss arbitrary: m) (auto simp: skipOne_def distinct_update split: option.split)
  then show ?thesis by (simp add: nextStranded_def w f)
qed

lemma set_stuckAddrs:
  assumes "distinct (map fst next)"
  shows "a \<in> set (stuckAddrs next) \<longleftrightarrow> (\<exists>r. map_of next a = Some r \<and> 3 \<le> noProgress r)"
  using map_of_eq_Some_iff[OF assms] by (force simp: stuckAddrs_def backoff_range)

lemma fold_max_range:
  fixes f :: "'a \<Rightarrow> int"
  shows "lo \<le> hi \<Longrightarrow> (\<And>a. f a \<le> hi) \<Longrightarrow>
     lo \<le> fold (\<lambda>a l. max l (f a)) xs lo \<and> fold (\<lambda>a l. max l (f a)) xs lo \<le> hi"
proof (induction xs arbitrary: lo)
  case (Cons x xs)
  from Cons.IH[of "max lo (f x)"] Cons.prems show ?case by auto
qed simp

text \<open>
  The surgery tracker counts consecutive fruitless surgeries per address and paces them without
  ever ending them. After a dispatch the record of an address is: the old one, if the address was
  paced; otherwise, if it was wiped, a count one above the old one, which restarts when the last
  wipe is older than the freshness window and is raised to the stuck threshold when the password
  could not be set, stamped with the time of the dispatch; otherwise none. The reported addresses
  are exactly those with a count of three or more, in order; the reported level is at most three;
  and an address is paced only while it is stuck and its last surgery is less than four minutes
  old.
\<close>

theorem surgery_tracker:
  fixes s :: crQuorumState
  assumes "detectStrandedPeerLinkupStuck s wiped skipped authFailed now = (s', stuck, fire, level)"
  shows "map_of (strandedNoProgress s') a =
      (if a \<in> set skipped \<and> map_of (strandedNoProgress s) a \<noteq> None then map_of (strandedNoProgress s) a
       else if a \<in> set wiped then
         Some (let r = wiped_record (strandedNoProgress s) now a in
               if a \<in> set authFailed then r\<lparr>noProgress := max 3 (noProgress r)\<rparr> else r)
       else None) \<and>
    sorted stuck \<and>
    (a \<in> set stuck \<longleftrightarrow> (\<exists>r. map_of (strandedNoProgress s') a = Some r \<and> 3 \<le> noProgress r)) \<and>
    strandedLinkupStuck s' = (stuck \<noteq> []) \<and> 0 \<le> level \<and> level \<le> 3 \<and>
    (a \<in> strandedSkipSet s' later \<longrightarrow>
       a \<in> set stuck \<and> (\<exists>r. map_of (strandedNoProgress s') a = Some r \<and> later - lastWiped r < 4 * Minute))"
proof -
  let ?next = "nextStranded (strandedNoProgress s) wiped skipped authFailed now"
  have n: "strandedNoProgress s' = ?next" and st: "stuck = stuckAddrs ?next"
    and up: "strandedLinkupStuck s' = (stuck \<noteq> [])"
    using assms by (auto simp: detectStrandedPeerLinkupStuck_def Let_def split: if_splits)
  have lv: "0 \<le> level \<and> level \<le> 3"
    using assms fold_max_range[of 0 3 "\<lambda>a. strandedAddrBackoffLevel (noProgress (lookupStranded ?next a))"]
    by (auto simp: detectStrandedPeerLinkupStuck_def Let_def backoff_range split: if_splits)
  note d = distinct_next[of "strandedNoProgress s" wiped skipped authFailed now]
  have skip: "a \<in> set stuck \<and> (\<exists>r. map_of ?next a = Some r \<and> later - lastWiped r < 4 * Minute)"
    if skipped_a: "a \<in> strandedSkipSet s' later"
  proof -
    from skipped_a obtain r where r: "map_of ?next a = Some r" "skipEntry later (a, r)"
      using map_of_eq_Some_iff[OF d] by (auto simp: strandedSkipSet_def n)
    let ?lv = "strandedAddrBackoffLevel (noProgress r)"
    from r(2) have l: "1 \<le> ?lv" "Sub later (lastWiped r) < strandedRecoveryCooldown * 2 ^ nat ?lv"
      by (simp_all add: skipEntry_def Let_def)
    have "(2::int) ^ nat ?lv \<le> 2 ^ 3"
      using backoff_range(2)[of "noProgress r"] by (intro power_increasing) auto
    then have "strandedRecoveryCooldown * 2 ^ nat ?lv \<le> 4 * Minute"
      by (simp add: strandedRecoveryCooldown_def window_consts)
    with l(2) have "Sub later (lastWiped r) < 4 * Minute" by simp
    then have "later - lastWiped r < 4 * Minute"
      by (simp add: Sub_less_iff window_consts maxDuration_def minDuration_def)
    with r(1) l(1) show ?thesis using set_stuckAddrs[OF d, of a] by (simp add: st backoff_range)
  qed
  have "sorted stuck" by (simp add: st stuckAddrs_def)
  with skip up lv set_stuckAddrs[OF d, of a] show ?thesis
    unfolding n map_of_next[symmetric] st[symmetric] by blast
qed

section \<open>Concrete runs\<close>

definition reading :: "QuorumStatus \<Rightarrow> gotime \<Rightarrow> gotime \<Rightarrow> gatePass" where
  "reading q poll now =
     (\<lparr>Present = True, Primary = zeroObservedPrimary\<lparr>Quorum := q, OPQuorumOK := (q = QuorumStatusOK),
        LastPolledAt := poll\<rparr>\<rparr>, now, now)"

definition noTunables :: QuorumSuppressionTunables where
  "noTunables = \<lparr>LossThreshold = 0, RecoveryPolls = 0, Phase11Timeout = 0\<rparr>"

definition loss_run :: "gatePass list" where
  "loss_run = [reading QuorumStatusLost 10 Second, reading QuorumStatusUnknown 10 (30 * Second),
               reading QuorumStatusLost 20 (61 * Second)]"

definition recovery_run :: "gatePass list" where
  "recovery_run = [reading QuorumStatusOK 30 (70 * Second), reading QuorumStatusOK 30 (71 * Second),
                   reading QuorumStatusOK 40 (80 * Second)]"

theorem suppression_entry_evidence_witness:
  "reads QuorumStatusLost (reading QuorumStatusLost 20 (61 * Second)) \<and>
   (\<exists>j < length (take 2 loss_run). reads QuorumStatusLost (take 2 loss_run ! j) \<and>
       lossThreshold noTunables \<le>
         pass_time (reading QuorumStatusLost 20 (61 * Second)) - pass_time (take 2 loss_run ! j) \<and>
       polled (take 2 loss_run ! j) < polled (reading QuorumStatusLost 20 (61 * Second)) \<and>
       (\<forall>k. j < k \<and> k < length (take 2 loss_run) \<longrightarrow> \<not> reads QuorumStatusOK (take 2 loss_run ! k)))"
proof -
  have "lost_fires noTunables (gate_run noTunables (take 2 loss_run)) (reading QuorumStatusLost 20 (61 * Second))"
    by code_simp
  then show ?thesis by (rule suppression_entry_evidence)
qed

theorem suppression_exit_evidence_witness:
  "\<exists>js. ok_streak (loss_run @ recovery_run) (js @ [length (loss_run @ take 2 recovery_run)]) \<and>
     1 \<le> length js"
proof -
  have "reached_fires noTunables (gate_run noTunables (loss_run @ take 2 recovery_run))
      (reading QuorumStatusOK 40 (80 * Second))"
    by code_simp
  from suppression_exit_evidence[OF this] show ?thesis
    by (auto simp: loss_run_def recovery_run_def recoveryPolls_def noTunables_def
        quorumRecoveryHysteresisPolls_def)
qed

theorem gate_reacts_witness:
  "suppressionActive (run_state (gate_advance noTunables) zeroQuorumState
     [reading QuorumStatusLost 10 Second, reading QuorumStatusLost 20 (61 * Second)])"
  using gate_reacts[of zeroQuorumState "reading QuorumStatusLost 10 Second" "[]"
      "reading QuorumStatusLost 20 (61 * Second)" noTunables
      "[reading QuorumStatusOK 30 (70 * Second), reading QuorumStatusOK 40 (80 * Second)]"]
  by (simp add: zeroQuorumState_def reading_def reads_def polled_def noTunables_def lossThreshold_def
      recoveryPolls_def quorumLossSuppressionThreshold_def quorumRecoveryHysteresisPolls_def Sub_def
      window_consts minDuration_def maxDuration_def)

theorem failover_never_recorded_witness:
  "failoverObserved (gate_effects noTunables zeroQuorumState
     (managerSnapshot (Some (start (newObserver ''m'' [] ep3) 1)), 5, 5)) = None"
  by (rule failover_never_recorded[OF reach_start])

theorem topology_events_and_expiry_witness:
  "\<not> topology_active (run_state topology_read
     (fst (foldTopologyMismatch (fst (foldTopologyMismatch zeroQuorumState True 1 False 0 Second))
       True 1 False 0 Minute)) [90 * Second]) (4 * Minute)"
  using topology_events_and_expiry[of
      "fst (foldTopologyMismatch (fst (foldTopologyMismatch zeroQuorumState True 1 False 0 Second))
         True 1 False 0 Minute)" "[]" "4 * Minute" "[90 * Second]"]
  by (simp add: foldTopologyMismatch_def Let_def split_beta window_consts)

theorem surgery_tracker_witness:
  "\<exists>s'. detectStrandedPeerLinkupStuck zeroQuorumState [''a:1'', ''b:1''] [] [''b:1''] Hour =
      (s', [''b:1''], True, 1) \<and>
    map_of (strandedNoProgress s') ''b:1'' = Some \<lparr>noProgress = 3, lastWiped = Hour\<rparr>"
proof -
  have d: "detectStrandedPeerLinkupStuck zeroQuorumState [''a:1'', ''b:1''] [] [''b:1''] Hour =
      (fst (detectStrandedPeerLinkupStuck zeroQuorumState [''a:1'', ''b:1''] [] [''b:1''] Hour),
       [''b:1''], True, 1)"
    by code_simp
  have "map_of (strandedNoProgress (fst (detectStrandedPeerLinkupStuck zeroQuorumState
      [''a:1'', ''b:1''] [] [''b:1''] Hour))) ''b:1'' = Some \<lparr>noProgress = 3, lastWiped = Hour\<rparr>"
    using surgery_tracker[OF d, of "''b:1''" 0]
    by (simp add: wiped_record_def zeroQuorumState_def lookupStranded_def Let_def
        strandedLinkupStuckFreshnessWindow_def strandedRecoveryCooldown_def
        strandedSurgeryMaxBackoffLevel_def Sub_def minDuration_def maxDuration_def window_consts)
  with d show ?thesis by blast
qed

end
