(* ===== verification/PerCR_State.thy ===== *)
theory PerCR_State
  imports Quorum_Gate Rollout_FSM API_Types
begin

text \<open>
  \<^verbatim>\<open>internal/controller/percrstate.go\<close>: the in-memory state bag the reconciler keeps per CR, and
  its methods. A nil pointer is \<open>None\<close>; the empty string and the zero time are the source's
  "unset" values and stay values here. Reconciles of one CR are serialised by a mutex, so a method
  is a function from the bag to its result and the new bag.

  The lemmas: the pacing of the dual-master self-heal never leaves its bounds, although the shift
  that computes the backoff wraps; its deferral event is rate bounded; the union that keys the
  dual-master event is a sorted set and an event fires exactly when a new pod joins it; the
  dual-master stamp expires (an interpretation of \<open>freshness_window\<close>); the trigger trackers are
  edge detectors (interpretations of \<open>rising_edge\<close>).
\<close>

section \<open>State\<close>

record rolloutTriggerState =
  lastWasPending :: bool
  lastTarget :: string

record replicasRolledTracker =
  lastWasReplicasRolled :: bool

record fsmTransitionTracker =
  lastState :: "State option"

record failoverInFlightLatch =
  preStripAddr :: string
  latchDeadline :: gotime
  preStripEpoch :: int

record authPasswordCacheEntry =
  cachedPassword :: string
  cachedHash :: string

record primaryStabilityState =
  psAddr :: string
  firstPolled :: gotime
  lastPolled :: gotime
  freshCount :: int

record dualMasterObservation =
  observedAt :: gotime
  obsPods :: "string list"

record dualMasterSelfHealState =
  lastAttempt :: gotime
  attemptCount :: int

record perCRState =
  quorum :: "crQuorumState option"
  rolloutTrigger :: "rolloutTriggerState option"
  replicasRolled :: "replicasRolledTracker option"
  fsmTransition :: "fsmTransitionTracker option"
  staleReplicas :: "(string \<times> gotime) list option"
  sqStatusDigest :: string
  sqLastObservedAt :: gotime
  missingAuthSeen :: gotime
  noPrimarySince :: gotime
  staleReplicaEscapeLastFired :: gotime
  manualRollout :: "string option"
  failoverLatch :: "failoverInFlightLatch option"
  switchMasterEdge :: string
  authPassword :: "authPasswordCacheEntry option"
  primaryStability :: "primaryStabilityState option"
  dualMasterSelfHeal :: "dualMasterSelfHealState option"
  dualMasterDeferEdge :: string
  dualMasterDeferLastAt :: gotime
  dualMasterObserved :: "dualMasterObservation option"
  dualMasterObservedEdge :: string
  dualMasterEventUnion :: "string list"

definition zeroPerCR :: perCRState where
  "zeroPerCR =
     \<lparr>quorum = None, rolloutTrigger = None, replicasRolled = None, fsmTransition = None,
      staleReplicas = None, sqStatusDigest = [], sqLastObservedAt = 0, missingAuthSeen = 0,
      noPrimarySince = 0, staleReplicaEscapeLastFired = 0, manualRollout = None,
      failoverLatch = None, switchMasterEdge = [], authPassword = None, primaryStability = None,
      dualMasterSelfHeal = None, dualMasterDeferEdge = [], dualMasterDeferLastAt = 0,
      dualMasterObserved = None, dualMasterObservedEdge = [], dualMasterEventUnion = []\<rparr>"

section \<open>Accessors\<close>

definition quorumTracker :: "perCRState \<Rightarrow> perCRState \<times> crQuorumState" where
  "quorumTracker s =
     (case quorum s of
        None \<Rightarrow> (s\<lparr>quorum := Some zeroQuorumState\<rparr>, zeroQuorumState)
      | Some q \<Rightarrow> (s, q))"

definition setFailoverLatch :: "failoverInFlightLatch \<Rightarrow> perCRState \<Rightarrow> perCRState" where
  "setFailoverLatch l s = s\<lparr>failoverLatch := Some l\<rparr>"

definition clearFailoverLatch :: "perCRState \<Rightarrow> perCRState" where
  "clearFailoverLatch s = s\<lparr>failoverLatch := None\<rparr>"

definition storeAuthPassword :: "authPasswordCacheEntry option \<Rightarrow> perCRState \<Rightarrow> perCRState" where
  "storeAuthPassword e s = s\<lparr>authPassword := e\<rparr>"

definition clearAuthPassword :: "perCRState \<Rightarrow> perCRState" where
  "clearAuthPassword s = s\<lparr>authPassword := None\<rparr>"

section \<open>Dual-master self-heal budget\<close>

definition dualMasterSelfHealBaseCooldown :: duration where
  "dualMasterSelfHealBaseCooldown = 30 * Second"

definition dualMasterSelfHealMaxBackoff :: duration where
  "dualMasterSelfHealMaxBackoff = 5 * Minute"

definition dualMasterSelfHealMaxAttempts :: int where
  "dualMasterSelfHealMaxAttempts = 5"

definition dualMasterDeferMinInterval :: duration where
  "dualMasterDeferMinInterval = 60 * Second"

text \<open>The shift is on a 64-bit duration and wraps.\<close>

definition selfHealBackoff :: "duration \<Rightarrow> duration \<Rightarrow> int \<Rightarrow> duration" where
  "selfHealBackoff baseCooldown maxBackoff n =
     (let backoff = wrap64 (baseCooldown * 2 ^ nat (n - 1)) in
      if backoff \<le> 0 \<or> maxBackoff < backoff then maxBackoff else backoff)"

definition selfHealAttemptAllowed ::
  "gotime \<Rightarrow> duration \<Rightarrow> duration \<Rightarrow> int \<Rightarrow> perCRState \<Rightarrow> bool" where
  "selfHealAttemptAllowed now baseCooldown maxBackoff maxAttempts s =
     (case dualMasterSelfHeal s of
        None \<Rightarrow> True
      | Some st \<Rightarrow>
          if attemptCount st = 0 then True
          else if maxAttempts \<le> attemptCount st then False
          else \<not> now < lastAttempt st + selfHealBackoff baseCooldown maxBackoff (attemptCount st))"

definition recordSelfHealAttempt :: "gotime \<Rightarrow> perCRState \<Rightarrow> perCRState" where
  "recordSelfHealAttempt now s =
     (let st = (case dualMasterSelfHeal s of
                  None \<Rightarrow> \<lparr>lastAttempt = 0, attemptCount = 0\<rparr> | Some st \<Rightarrow> st)
      in s\<lparr>dualMasterSelfHeal := Some \<lparr>lastAttempt = now, attemptCount = attemptCount st + 1\<rparr>\<rparr>)"

definition resetSelfHeal :: "perCRState \<Rightarrow> perCRState" where
  "resetSelfHeal s = s\<lparr>dualMasterSelfHeal := None\<rparr>"

section \<open>Dual-master events and observation\<close>

definition fireDualMasterDeferEdge :: "string \<Rightarrow> gotime \<Rightarrow> perCRState \<Rightarrow> perCRState \<times> bool" where
  "fireDualMasterDeferEdge sig now s =
     (if dualMasterDeferEdge s = sig then (s, False)
      else if \<not> IsZero (dualMasterDeferLastAt s) \<and>
              Sub now (dualMasterDeferLastAt s) < dualMasterDeferMinInterval then (s, False)
      else (s\<lparr>dualMasterDeferEdge := sig, dualMasterDeferLastAt := now\<rparr>, True))"

definition resetDualMasterDeferEdge :: "perCRState \<Rightarrow> perCRState" where
  "resetDualMasterDeferEdge s = s\<lparr>dualMasterDeferEdge := []\<rparr>"

definition stampDualMasterObserved :: "string list \<Rightarrow> gotime \<Rightarrow> perCRState \<Rightarrow> perCRState" where
  "stampDualMasterObserved pods now s =
     s\<lparr>dualMasterObserved := Some \<lparr>observedAt = now, obsPods = sort pods\<rparr>\<rparr>"

definition fireDualMasterObservedEdge :: "string \<Rightarrow> perCRState \<Rightarrow> perCRState \<times> bool" where
  "fireDualMasterObservedEdge sig s =
     (if dualMasterObservedEdge s = sig then (s, False)
      else (s\<lparr>dualMasterObservedEdge := sig\<rparr>, True))"

definition appendUnique :: "string list \<Rightarrow> string \<Rightarrow> string list" where
  "appendUnique out v = (if out = [] \<or> last out \<noteq> v then out @ [v] else out)"

fun mergeLoop :: "string list \<Rightarrow> string list \<Rightarrow> string list \<Rightarrow> string list" where
  "mergeLoop out (x # xs) (y # ys) =
     (if x < y then mergeLoop (appendUnique out x) xs (y # ys)
      else if y < x then mergeLoop (appendUnique out y) (x # xs) ys
      else mergeLoop (appendUnique out x) xs ys)"
| "mergeLoop out (x # xs) [] = mergeLoop (appendUnique out x) xs []"
| "mergeLoop out [] (y # ys) = mergeLoop (appendUnique out y) [] ys"
| "mergeLoop out [] [] = out"

definition mergeSortedUnique :: "string list \<Rightarrow> string list \<Rightarrow> string list" where
  "mergeSortedUnique a b = mergeLoop [] a b"

definition foldDualMasterEventUnion :: "string list \<Rightarrow> perCRState \<Rightarrow> perCRState \<times> string" where
  "foldDualMasterEventUnion pods s =
     (let u = mergeSortedUnique (dualMasterEventUnion s) (sort pods)
      in (s\<lparr>dualMasterEventUnion := u\<rparr>, Join u '',''))"

definition resetDualMasterState :: "perCRState \<Rightarrow> perCRState" where
  "resetDualMasterState s =
     s\<lparr>dualMasterObserved := None, dualMasterObservedEdge := [], dualMasterEventUnion := []\<rparr>"

definition clearDualMasterObserved :: "perCRState \<Rightarrow> perCRState" where
  "clearDualMasterObserved s = resetDualMasterState s"

definition dualMasterObservedFreshnessWindow :: duration where
  "dualMasterObservedFreshnessWindow = 2 * strandedRecoveryCooldown"

definition dualMasterActiveFromStamp :: "dualMasterObservation option \<Rightarrow> gotime \<Rightarrow> bool" where
  "dualMasterActiveFromStamp obs now =
     (case obs of
        None \<Rightarrow> False
      | Some ob \<Rightarrow>
          if length (obsPods ob) < 2 then False
          else Sub now (observedAt ob) \<le> dualMasterObservedFreshnessWindow)"

definition dualMasterActiveOrExpire ::
  "(dualMasterObservation option \<Rightarrow> bool) \<Rightarrow> perCRState \<Rightarrow> perCRState \<times> bool" where
  "dualMasterActiveOrExpire isActive s =
     (if isActive (dualMasterObserved s) then (s, True)
      else if dualMasterObserved s \<noteq> None then (resetDualMasterState s, False)
      else (s, False))"

section \<open>Other trackers\<close>

definition observePrimaryStability :: "string \<Rightarrow> gotime \<Rightarrow> perCRState \<Rightarrow> perCRState \<times> int \<times> duration" where
  "observePrimaryStability addr polledAt s =
     (if addr = [] then (s\<lparr>primaryStability := None\<rparr>, 0, 0)
      else
        (let fresh = (s\<lparr>primaryStability := Some \<lparr>psAddr = addr, firstPolled = polledAt,
                        lastPolled = polledAt, freshCount = 1\<rparr>\<rparr>, 1, 0)
         in case primaryStability s of
              None \<Rightarrow> fresh
            | Some st \<Rightarrow>
                if psAddr st \<noteq> addr then fresh
                else
                  (let st' = (if lastPolled st < polledAt
                              then st\<lparr>freshCount := freshCount st + 1, lastPolled := polledAt\<rparr>
                              else st)
                   in (s\<lparr>primaryStability := Some st'\<rparr>, freshCount st',
                       Sub (lastPolled st') (firstPolled st')))))"

definition fireSwitchMasterEdge :: "string \<Rightarrow> perCRState \<Rightarrow> perCRState \<times> bool" where
  "fireSwitchMasterEdge host s =
     (if switchMasterEdge s = host then (s, False) else (s\<lparr>switchMasterEdge := host\<rparr>, True))"

definition resetSwitchMasterEdge :: "perCRState \<Rightarrow> perCRState" where
  "resetSwitchMasterEdge s = s\<lparr>switchMasterEdge := []\<rparr>"

definition observeMissingAuthFirstSeen :: "gotime \<Rightarrow> perCRState \<Rightarrow> perCRState \<times> gotime" where
  "observeMissingAuthFirstSeen now s =
     (let s' = (if IsZero (missingAuthSeen s) then s\<lparr>missingAuthSeen := now\<rparr> else s)
      in (s', missingAuthSeen s'))"

definition clearMissingAuthSeen :: "perCRState \<Rightarrow> perCRState" where
  "clearMissingAuthSeen s = s\<lparr>missingAuthSeen := 0\<rparr>"

definition observeNoPrimarySince :: "gotime \<Rightarrow> perCRState \<Rightarrow> perCRState \<times> gotime" where
  "observeNoPrimarySince now s =
     (let s' = (if IsZero (noPrimarySince s) then s\<lparr>noPrimarySince := now\<rparr> else s)
      in (s', noPrimarySince s'))"

definition clearNoPrimarySince :: "perCRState \<Rightarrow> perCRState" where
  "clearNoPrimarySince s = s\<lparr>noPrimarySince := 0\<rparr>"

definition staleReplicaEscapeDwell :: duration where
  "staleReplicaEscapeDwell = 10 * Minute"

definition staleReplicaEscapeCooldown :: duration where
  "staleReplicaEscapeCooldown = 10 * Minute"

definition staleReplicaEscapeAllowed :: "gotime \<Rightarrow> perCRState \<Rightarrow> bool" where
  "staleReplicaEscapeAllowed now s \<longleftrightarrow>
     IsZero (staleReplicaEscapeLastFired s) \<or>
     staleReplicaEscapeCooldown \<le> Sub now (staleReplicaEscapeLastFired s)"

definition staleReplicaEscapeArmedAt :: "gotime \<Rightarrow> gotime \<Rightarrow> perCRState \<Rightarrow> bool" where
  "staleReplicaEscapeArmedAt since now s \<longleftrightarrow>
     \<not> IsZero since \<and> staleReplicaEscapeDwell \<le> Sub now since \<and> staleReplicaEscapeAllowed now s"

definition recordStaleReplicaEscape :: "gotime \<Rightarrow> perCRState \<Rightarrow> perCRState" where
  "recordStaleReplicaEscape now s = s\<lparr>staleReplicaEscapeLastFired := now\<rparr>"

definition sentinelQuorumFreshnessWindow :: duration where
  "sentinelQuorumFreshnessWindow = 60 * Second"

definition sqKeepAliveInterval :: duration where
  "sqKeepAliveInterval = sentinelQuorumFreshnessWindow div 2"

definition sqStatusWriteSkippable :: "string \<Rightarrow> gotime \<Rightarrow> perCRState \<Rightarrow> bool" where
  "sqStatusWriteSkippable digest obsAt s =
     (if sqStatusDigest s \<noteq> digest \<or> IsZero (sqLastObservedAt s) then False
      else Sub obsAt (sqLastObservedAt s) < sqKeepAliveInterval)"

definition setSQDigest :: "string \<Rightarrow> gotime \<Rightarrow> perCRState \<Rightarrow> perCRState" where
  "setSQDigest digest obsAt s = s\<lparr>sqStatusDigest := digest, sqLastObservedAt := obsAt\<rparr>"

definition pruneStale :: "perCRState \<Rightarrow> perCRState" where
  "pruneStale s =
     (resetDualMasterState
        (s\<lparr>quorum := None, rolloutTrigger := None, replicasRolled := None, fsmTransition := None,
           staleReplicas := None, sqStatusDigest := [], sqLastObservedAt := 0, missingAuthSeen := 0,
           noPrimarySince := 0, staleReplicaEscapeLastFired := 0\<rparr>))
     \<lparr>dualMasterDeferEdge := [], dualMasterDeferLastAt := 0, dualMasterSelfHeal := None\<rparr>"

section \<open>The recovery survey's verdict\<close>

text \<open>The parts of \<^verbatim>\<open>valkeyPodSurvey\<close> the observation reads; a master is its pod name.\<close>

record surveyVerdict =
  svDialed :: bool
  svDialFailures :: int
  svPendingPods :: int
  svMasters :: "string list"

definition observeDualMasterFromSurvey ::
  "surveyVerdict option \<Rightarrow> bool \<Rightarrow> gotime \<Rightarrow> perCRState \<Rightarrow> perCRState \<times> bool" where
  "observeDualMasterFromSurvey survey failoverInFlight now s =
     (case survey of
        None \<Rightarrow> (s, False)
      | Some sv \<Rightarrow>
          if \<not> svDialed sv then (s, False)
          else if length (svMasters sv) < 2 then
            (if svDialFailures sv = 0 \<and> svPendingPods sv = 0
             then (clearDualMasterObserved s, False) else (s, False))
          else
            (let s1 = stampDualMasterObserved (svMasters sv) now s in
             if failoverInFlight then (s1, False)
             else
               (let (s2, sig) = foldDualMasterEventUnion (svMasters sv) s1
                in fireDualMasterObservedEdge sig s2)))"

section \<open>The merge\<close>

lemma strict_sorted_last:
  fixes out :: "'a :: linorder list"
  assumes "sorted_wrt (<) out" and "x \<in> set out"
  shows "x \<le> last out"
proof -
  obtain zs where "out = zs @ [last out]" using assms(2) by (metis append_butlast_last_id empty_iff empty_set)
  with assms have "x \<in> set zs \<or> x = last out" "sorted_wrt (<) (zs @ [last out])"
    by (metis Un_iff empty_set insert_iff list.set(2) empty_iff set_append, metis)
  then show ?thesis by (auto simp: sorted_wrt_append)
qed

lemma appendUnique_spec:
  assumes "sorted_wrt (<) out" and "\<forall>x\<in>set out. x \<le> v"
  shows "sorted_wrt (<) (appendUnique out v) \<and> set (appendUnique out v) = insert v (set out)"
proof (cases "out = [] \<or> last out \<noteq> v")
  case True
  have "x < v" if "x \<in> set out" for x
  proof -
    from that have "out \<noteq> []" by auto
    with True assms(2) have "last out < v" by (simp add: order.not_eq_order_implies_strict)
    with strict_sorted_last[OF assms(1) that] show ?thesis by simp
  qed
  with True assms(1) show ?thesis by (auto simp: appendUnique_def sorted_wrt_append)
next
  case False
  then show ?thesis using assms(1) last_in_set[of out] by (auto simp: appendUnique_def)
qed

lemma mergeLoop_spec:
  assumes "sorted_wrt (<) out" "sorted a" "sorted b" "\<forall>x\<in>set out. \<forall>y\<in>set a \<union> set b. x \<le> y"
  shows "sorted_wrt (<) (mergeLoop out a b) \<and> set (mergeLoop out a b) = set out \<union> set a \<union> set b"
  using assms
proof (induction out a b rule: mergeLoop.induct)
  case (1 out x xs y ys)
  consider "x < y" | "y < x" | "x = y" by fastforce
  then show ?case
  proof cases
    case 1
    have low: "\<forall>w\<in>set xs \<union> set (y # ys). x \<le> w"
      using "1.prems"(2,3) 1 by (auto intro: order.trans[OF less_imp_le[OF 1]])
    note u = appendUnique_spec[of out x]
    from "1.IH"(1)[OF 1] u "1.prems" low show ?thesis using 1 by simp
  next
    case 2
    then have n: "\<not> x < y" by simp
    have low: "\<forall>w\<in>set (x # xs) \<union> set ys. y \<le> w"
      using "1.prems"(2,3) 2 by (auto intro: order.trans[OF less_imp_le[OF 2]])
    note u = appendUnique_spec[of out y]
    from "1.IH"(2)[OF n 2] u "1.prems" low show ?thesis using 2 n by simp blast
  next
    case 3
    then have n: "\<not> x < y" "\<not> y < x" by simp_all
    have low: "\<forall>w\<in>set xs \<union> set ys. x \<le> w" using "1.prems"(2,3) 3 by auto
    note u = appendUnique_spec[of out x]
    from "1.IH"(3)[OF n] u "1.prems" low show ?thesis using 3 by simp
  qed
next
  case (2 out x xs)
  with appendUnique_spec[of out x] show ?case by simp
next
  case (3 out y ys)
  with appendUnique_spec[of out y] show ?case by simp
qed simp

lemma mergeSortedUnique_spec:
  "sorted a \<Longrightarrow> sorted b \<Longrightarrow>
     sorted_wrt (<) (mergeSortedUnique a b) \<and> set (mergeSortedUnique a b) = set a \<union> set b"
  using mergeLoop_spec[of "[]" a b] by (simp add: mergeSortedUnique_def)

lemma Join_empty_iff: "(\<forall>w\<in>set ws. w \<noteq> []) \<Longrightarrow> Join ws sep = [] \<longleftrightarrow> ws = []"
proof (cases ws)
  case (Cons a ws')
  assume "\<forall>w\<in>set ws. w \<noteq> []"
  with Cons show ?thesis by (cases ws') simp_all
qed simp

definition pod_name :: "string \<Rightarrow> bool" where
  "pod_name n \<longleftrightarrow> n \<noteq> [] \<and> CHR '','' \<notin> set n"

lemma Join_inj:
  assumes "\<forall>w\<in>set us. pod_name w" and "\<forall>w\<in>set vs. pod_name w"
  shows "Join us '','' = Join vs '','' \<longleftrightarrow> us = vs"
proof
  assume e: "Join us '','' = Join vs '',''"
  have ne: "\<forall>w\<in>set us. w \<noteq> []" "\<forall>w\<in>set vs. w \<noteq> []"
    and free: "\<forall>w\<in>set us. CHR '','' \<notin> set w" "\<forall>w\<in>set vs. CHR '','' \<notin> set w"
    using assms by (simp_all add: pod_name_def)
  show "us = vs"
  proof (cases "us = [] \<or> vs = []")
    case True
    with e Join_empty_iff[OF ne(1), of "'',''"] Join_empty_iff[OF ne(2), of "'',''"] show ?thesis by metis
  next
    case False
    with e Split_Join[OF _ free(1)] Split_Join[OF _ free(2)] show ?thesis by metis
  qed
qed simp

section \<open>The dual-master episode\<close>

text \<open>
  Specification: an episode is a set of pods, with the stamp of the last scan. A scan that may fire
  reports exactly when it brings a pod the episode has not seen.
\<close>

datatype dmInput = Survey "surveyVerdict option" bool gotime | StatusRead gotime

record dmSpec =
  specStamp :: "dualMasterObservation option"
  specPods :: "string set"

fun dm_spec :: "dmSpec \<Rightarrow> dmInput \<Rightarrow> dmSpec \<times> bool" where
  "dm_spec e (Survey survey failoverInFlight now) =
     (case survey of
        None \<Rightarrow> (e, False)
      | Some sv \<Rightarrow>
          if \<not> svDialed sv then (e, False)
          else if length (svMasters sv) < 2 then
            (if svDialFailures sv = 0 \<and> svPendingPods sv = 0
             then (\<lparr>specStamp = None, specPods = {}\<rparr>, False) else (e, False))
          else
            (let stamp = Some \<lparr>observedAt = now, obsPods = sort (svMasters sv)\<rparr> in
             if failoverInFlight then (e\<lparr>specStamp := stamp\<rparr>, False)
             else (\<lparr>specStamp = stamp, specPods = specPods e \<union> set (svMasters sv)\<rparr>,
                   \<not> set (svMasters sv) \<subseteq> specPods e)))"
| "dm_spec e (StatusRead now) =
     (if dualMasterActiveFromStamp (specStamp e) now \<or> specStamp e = None then (e, False)
      else (\<lparr>specStamp = None, specPods = {}\<rparr>, False))"

fun dm_step :: "perCRState \<Rightarrow> dmInput \<Rightarrow> perCRState \<times> bool" where
  "dm_step s (Survey survey failoverInFlight now) =
     observeDualMasterFromSurvey survey failoverInFlight now s"
| "dm_step s (StatusRead now) =
     (fst (dualMasterActiveOrExpire (\<lambda>ob. dualMasterActiveFromStamp ob now) s), False)"

definition dm_abs :: "perCRState \<Rightarrow> dmSpec" where
  "dm_abs s = \<lparr>specStamp = dualMasterObserved s, specPods = set (dualMasterEventUnion s)\<rparr>"

definition dm_inv :: "perCRState \<Rightarrow> bool" where
  "dm_inv s \<longleftrightarrow>
     sorted_wrt (<) (dualMasterEventUnion s) \<and> list_all pod_name (dualMasterEventUnion s) \<and>
     dualMasterObservedEdge s = Join (dualMasterEventUnion s) '',''"

fun dm_input_ok :: "dmInput \<Rightarrow> bool" where
  "dm_input_ok (Survey survey failoverInFlight now) =
     (case survey of None \<Rightarrow> True | Some sv \<Rightarrow> list_all pod_name (svMasters sv))"
| "dm_input_ok (StatusRead now) = True"

lemma union_step:
  assumes "dm_inv s" and "list_all pod_name pods"
  defines "u \<equiv> mergeSortedUnique (dualMasterEventUnion s) (sort pods)"
  shows "sorted_wrt (<) u" and "set u = set (dualMasterEventUnion s) \<union> set pods"
    and "list_all pod_name u"
    and "dualMasterObservedEdge s = Join u '','' \<longleftrightarrow> set pods \<subseteq> set (dualMasterEventUnion s)"
proof -
  let ?v = "dualMasterEventUnion s"
  have v: "sorted_wrt (<) ?v" "list_all pod_name ?v" "dualMasterObservedEdge s = Join ?v '',''"
    using assms(1) by (simp_all add: dm_inv_def)
  from mergeSortedUnique_spec[OF strict_sorted_imp_sorted[OF v(1)] sorted_sort[of pods]]
  show u: "sorted_wrt (<) u" "set u = set ?v \<union> set pods" by (simp_all add: u_def)
  with v(2) assms(2) show p: "list_all pod_name u" by (auto simp: list_all_iff)
  have "Join u '','' = Join ?v '','' \<longleftrightarrow> u = ?v"
    using p v(2) by (intro Join_inj) (simp_all add: list_all_iff)
  also have "\<dots> \<longleftrightarrow> set u = set ?v" using u(1) v(1) strict_sorted_equal by auto
  finally show "dualMasterObservedEdge s = Join u '','' \<longleftrightarrow> set pods \<subseteq> set ?v"
    using u(2) v(3) by auto
qed

lemma dm_step_refines:
  assumes "dm_inv s" and "dm_input_ok i"
  shows "dm_inv (fst (dm_step s i)) \<and> dm_abs (fst (dm_step s i)) = fst (dm_spec (dm_abs s) i) \<and>
     snd (dm_step s i) = snd (dm_spec (dm_abs s) i)"
proof (cases i)
  case (StatusRead now)
  then show ?thesis
    using assms(1)
    by (auto simp: dualMasterActiveOrExpire_def resetDualMasterState_def dm_inv_def dm_abs_def)
next
  case (Survey survey fl now)
  show ?thesis
  proof (cases survey)
    case None
    with Survey assms(1) show ?thesis by (simp add: observeDualMasterFromSurvey_def)
  next
    case (Some sv)
    have names: "list_all pod_name (svMasters sv)" using assms(2) Survey Some by simp
    note u = union_step[OF assms(1) names]
    show ?thesis
    proof (cases "svDialed sv \<and> \<not> length (svMasters sv) < 2 \<and> \<not> fl")
      case True
      then show ?thesis
        using u unfolding Survey Some
        by (simp add: observeDualMasterFromSurvey_def Let_def foldDualMasterEventUnion_def
            fireDualMasterObservedEdge_def stampDualMasterObserved_def dm_abs_def dm_inv_def split_beta)
    next
      case False
      then show ?thesis
        using assms(1) unfolding Survey Some
        by (auto simp: observeDualMasterFromSurvey_def Let_def clearDualMasterObserved_def
            resetDualMasterState_def stampDualMasterObserved_def dm_abs_def dm_inv_def)
    qed
  qed
qed

fun dm_run :: "perCRState \<Rightarrow> dmInput list \<Rightarrow> perCRState \<times> bool list" where
  "dm_run s [] = (s, [])"
| "dm_run s (i # is) =
     (let (s1, e) = dm_step s i; (s2, es) = dm_run s1 is in (s2, e # es))"

fun dm_spec_run :: "dmSpec \<Rightarrow> dmInput list \<Rightarrow> dmSpec \<times> bool list" where
  "dm_spec_run s [] = (s, [])"
| "dm_spec_run s (i # is) =
     (let (s1, e) = dm_spec s i; (s2, es) = dm_spec_run s1 is in (s2, e # es))"

text \<open>
  C21. The dual-master event follows the set of pods. Over any sequence of survey verdicts and status
  reads, with pod names that are neither empty nor contain a comma, the state bag implements the
  specification in which an episode is a set: the same stamps, the same episode and the same events.
  So within one episode a scan fires exactly when it names a pod never named before, however the
  roles permute, and a complete scan with at most one master or an expired stamp ends the episode.
\<close>

theorem dual_master_refines:
  assumes "list_all dm_input_ok is"
  shows "dm_abs (fst (dm_run zeroPerCR is)) = fst (dm_spec_run \<lparr>specStamp = None, specPods = {}\<rparr> is) \<and>
    snd (dm_run zeroPerCR is) = snd (dm_spec_run \<lparr>specStamp = None, specPods = {}\<rparr> is)"
proof -
  have "dm_abs (fst (dm_run s is)) = fst (dm_spec_run (dm_abs s) is) \<and>
      snd (dm_run s is) = snd (dm_spec_run (dm_abs s) is)" if "dm_inv s" for s
    using that assms
  proof (induction "is" arbitrary: s)
    case (Cons i "is")
    then have ok: "dm_input_ok i" "list_all dm_input_ok is" by simp_all
    from dm_step_refines[OF Cons.prems(1) ok(1)] Cons.IH[of "fst (dm_step s i)"] ok(2)
    show ?case by (simp add: Let_def split_beta)
  qed simp
  from this[of zeroPerCR] show ?thesis by (simp add: dm_inv_def dm_abs_def zeroPerCR_def)
qed

theorem dual_master_refines_witness:
  "snd (dm_run zeroPerCR
     [Survey (Some \<lparr>svDialed = True, svDialFailures = 0, svPendingPods = 0, svMasters = [''b'', ''a'']\<rparr>) False Second,
      Survey (Some \<lparr>svDialed = True, svDialFailures = 0, svPendingPods = 0, svMasters = [''a'', ''b'']\<rparr>) False (2 * Second),
      Survey (Some \<lparr>svDialed = True, svDialFailures = 1, svPendingPods = 0, svMasters = [''a'', ''c'']\<rparr>) False (3 * Second)]) =
   [True, False, True]"
  using dual_master_refines[of
     "[Survey (Some \<lparr>svDialed = True, svDialFailures = 0, svPendingPods = 0, svMasters = [''b'', ''a'']\<rparr>) False Second,
       Survey (Some \<lparr>svDialed = True, svDialFailures = 0, svPendingPods = 0, svMasters = [''a'', ''b'']\<rparr>) False (2 * Second),
       Survey (Some \<lparr>svDialed = True, svDialFailures = 1, svPendingPods = 0, svMasters = [''a'', ''c'']\<rparr>) False (3 * Second)]"]
  by (simp add: pod_name_def)

section \<open>Bounds on the self-heal\<close>

lemma wrap64_mod: "wrap64 x mod 2 ^ 64 = x mod 2 ^ 64"
  by (simp add: wrap64_def mod_simps)

text \<open>
  A multiple of \<open>2 ^ j\<close> wraps to a multiple of \<open>2 ^ j\<close>, so past the exact range the wrapped backoff
  is either not positive or at least \<open>2 ^ 39\<close> nanoseconds, above five minutes.
\<close>

lemma wrap64_dvd:
  assumes "2 ^ j dvd x" and "j \<le> 64"
  shows "(2 ^ j :: int) dvd wrap64 x"
proof -
  have p: "(2 ^ j :: int) dvd 2 ^ 64" using assms(2) by (rule le_imp_power_dvd)
  have "(2 ^ j :: int) dvd wrap64 x mod 2 ^ 64"
    unfolding wrap64_mod using assms(1) p by (simp add: dvd_mod_iff)
  then show ?thesis using p by (simp add: dvd_mod_iff)
qed

lemma backoff_exact:
  assumes "1 \<le> n"
  shows "selfHealBackoff dualMasterSelfHealBaseCooldown dualMasterSelfHealMaxBackoff n =
     min (dualMasterSelfHealBaseCooldown * 2 ^ nat (n - 1)) dualMasterSelfHealMaxBackoff"
proof -
  define k where "k = nat (n - 1)"
  define b :: int where "b = 30000000000 * 2 ^ k"
  have base: "dualMasterSelfHealBaseCooldown * 2 ^ nat (n - 1) = b"
    by (simp add: b_def k_def dualMasterSelfHealBaseCooldown_def window_consts)
  have mx: "dualMasterSelfHealMaxBackoff = 300000000000"
    by (simp add: dualMasterSelfHealMaxBackoff_def window_consts)
  have "(if wrap64 b \<le> 0 \<or> 300000000000 < wrap64 b then 300000000000 else wrap64 b) = min b 300000000000"
  proof (cases "k \<le> 28")
    case True
    then have "(2::int) ^ k \<le> 2 ^ 28" by (intro power_increasing) auto
    then have "b \<le> 30000000000 * 2 ^ 28" by (simp add: b_def)
    moreover have "0 < b" by (simp add: b_def)
    ultimately have "wrap64 b = b" by (simp add: wrap64_def)
    with \<open>0 < b\<close> show ?thesis by (simp add: min_def)
  next
    case False
    then have k: "29 \<le> k" by simp
    have "(2 ^ 39 :: int) dvd 30000000000 * 2 ^ 29" by (simp add: dvd_def)
    also have "(30000000000 * 2 ^ 29 :: int) dvd b"
      unfolding b_def using k by (intro mult_dvd_mono le_imp_power_dvd) auto
    finally have d: "(2 ^ 39 :: int) dvd wrap64 b" by (intro wrap64_dvd) auto
    have "wrap64 b \<le> 0 \<or> 2 ^ 39 \<le> wrap64 b" using zdvd_imp_le[OF d] by linarith
    moreover have "(30000000000 * 2 ^ 29 :: int) \<le> b"
      unfolding b_def using k by (intro mult_left_mono power_increasing) auto
    ultimately show ?thesis by (auto simp: min_def)
  qed
  then show ?thesis unfolding selfHealBackoff_def base mx Let_def .
qed

definition selfHealAllowedNow :: "gotime \<Rightarrow> perCRState \<Rightarrow> bool" where
  "selfHealAllowedNow now s =
     selfHealAttemptAllowed now dualMasterSelfHealBaseCooldown dualMasterSelfHealMaxBackoff
       dualMasterSelfHealMaxAttempts s"

text \<open>The attempts made on a sequence of passes that all see the split, by the time of the pass.\<close>

fun selfHealAttempts :: "perCRState \<Rightarrow> gotime list \<Rightarrow> gotime list" where
  "selfHealAttempts s [] = []"
| "selfHealAttempts s (now # ts) =
     (if selfHealAllowedNow now s then now # selfHealAttempts (recordSelfHealAttempt now s) ts
      else selfHealAttempts s ts)"

definition healGap :: "nat \<Rightarrow> duration" where
  "healGap j = min (30 * Second * 2 ^ j) (5 * Minute)"

lemma allowed_gap:
  assumes "dualMasterSelfHeal s = Some \<lparr>lastAttempt = l, attemptCount = c\<rparr>" and "1 \<le> c"
    and "selfHealAllowedNow now s"
  shows "c < 5 \<and> l + healGap (nat (c - 1)) \<le> now"
proof -
  have "c < 5" using assms
    by (auto simp: selfHealAllowedNow_def selfHealAttemptAllowed_def dualMasterSelfHealMaxAttempts_def
        split: if_splits)
  moreover have "healGap (nat (c - 1)) =
      selfHealBackoff dualMasterSelfHealBaseCooldown dualMasterSelfHealMaxBackoff c"
    unfolding backoff_exact[OF assms(2)]
    by (simp add: healGap_def dualMasterSelfHealBaseCooldown_def dualMasterSelfHealMaxBackoff_def)
  ultimately show ?thesis using assms
    by (auto simp: selfHealAllowedNow_def selfHealAttemptAllowed_def split: if_splits)
qed

lemma attempts_spaced:
  assumes "dualMasterSelfHeal s = Some \<lparr>lastAttempt = l, attemptCount = c\<rparr>" and "1 \<le> c" and "c \<le> 5"
  shows "int (length (selfHealAttempts s ts)) \<le> 5 - c \<and>
    (\<forall>j < length (selfHealAttempts s ts).
       healGap (nat (c - 1) + j) \<le> (l # selfHealAttempts s ts) ! Suc j - (l # selfHealAttempts s ts) ! j)"
  using assms
proof (induction ts arbitrary: s l c)
  case (Cons now ts)
  show ?case
  proof (cases "selfHealAllowedNow now s")
    case True
    from allowed_gap[OF Cons.prems(1,2) True] have g: "c < 5" "l + healGap (nat (c - 1)) \<le> now" by simp_all
    let ?s' = "recordSelfHealAttempt now s"
    have r: "dualMasterSelfHeal ?s' = Some \<lparr>lastAttempt = now, attemptCount = c + 1\<rparr>"
      using Cons.prems(1) by (simp add: recordSelfHealAttempt_def)
    have e: "nat c + j = nat (c - 1) + Suc j" for j using Cons.prems(2) by simp
    from Cons.IH[OF r] g Cons.prems(2)
    have IH: "int (length (selfHealAttempts ?s' ts)) \<le> 5 - (c + 1)"
      "\<forall>j < length (selfHealAttempts ?s' ts). healGap (nat (c - 1) + Suc j) \<le>
         (now # selfHealAttempts ?s' ts) ! Suc j - (now # selfHealAttempts ?s' ts) ! j"
      by (simp_all add: e)
    have "healGap (nat (c - 1) + j) \<le>
        (l # now # selfHealAttempts ?s' ts) ! Suc j - (l # now # selfHealAttempts ?s' ts) ! j"
      if "j < Suc (length (selfHealAttempts ?s' ts))" for j
    proof (cases j)
      case 0
      with g show ?thesis by simp
    next
      case (Suc j')
      with that IH(2) show ?thesis by simp
    qed
    with True IH(1) show ?thesis by simp
  next
    case False
    with Cons.IH[OF Cons.prems] show ?thesis by simp
  qed
qed simp

text \<open>
  The dual-master self-heal is bounded. On any sequence of passes that see the same split, at
  most five attempts are made, and between the attempts \<open>j\<close> and \<open>j + 1\<close> passes at least the doubling
  cooldown \<open>30s * 2^j\<close>, capped at five minutes. The bound holds for every attempt count, although
  the 64-bit shift that computes the cooldown wraps.
\<close>

theorem self_heal_bounded:
  "length (selfHealAttempts zeroPerCR ts) \<le> 5 \<and>
   (\<forall>j. Suc j < length (selfHealAttempts zeroPerCR ts) \<longrightarrow>
      healGap j \<le> selfHealAttempts zeroPerCR ts ! Suc j - selfHealAttempts zeroPerCR ts ! j) \<and>
   (1 \<le> n \<longrightarrow> selfHealBackoff dualMasterSelfHealBaseCooldown dualMasterSelfHealMaxBackoff n = healGap (nat (n - 1)))"
proof (intro conjI)
  show "1 \<le> n \<longrightarrow> selfHealBackoff dualMasterSelfHealBaseCooldown dualMasterSelfHealMaxBackoff n = healGap (nat (n - 1))"
    using backoff_exact[of n]
    by (simp add: healGap_def dualMasterSelfHealBaseCooldown_def dualMasterSelfHealMaxBackoff_def)
  show "length (selfHealAttempts zeroPerCR ts) \<le> 5"
    and "\<forall>j. Suc j < length (selfHealAttempts zeroPerCR ts) \<longrightarrow>
      healGap j \<le> selfHealAttempts zeroPerCR ts ! Suc j - selfHealAttempts zeroPerCR ts ! j"
  proof (atomize (full), cases ts)
    case (Cons now ts')
    let ?s = "recordSelfHealAttempt now zeroPerCR"
    have "dualMasterSelfHeal ?s = Some \<lparr>lastAttempt = now, attemptCount = 1\<rparr>"
      by (simp add: recordSelfHealAttempt_def zeroPerCR_def)
    from attempts_spaced[OF this, of ts']
    show "length (selfHealAttempts zeroPerCR ts) \<le> 5 \<and>
      (\<forall>j. Suc j < length (selfHealAttempts zeroPerCR ts) \<longrightarrow>
        healGap j \<le> selfHealAttempts zeroPerCR ts ! Suc j - selfHealAttempts zeroPerCR ts ! j)"
      using Cons by (simp add: selfHealAllowedNow_def selfHealAttemptAllowed_def zeroPerCR_def)
  qed simp
qed

theorem self_heal_bounded_witness:
  "selfHealBackoff dualMasterSelfHealBaseCooldown dualMasterSelfHealMaxBackoff 60 = 5 * Minute \<and>
   selfHealAttempts zeroPerCR [1, Minute, Hour] = [1, Minute, Hour] \<and>
   healGap 1 \<le> Hour - Minute"
proof -
  have a: "selfHealAttempts zeroPerCR [1, Minute, Hour] = [1, Minute, Hour]" by code_simp
  show ?thesis
    using self_heal_bounded[of "[1, Minute, Hour]" 60] unfolding a
    by (auto simp: healGap_def window_consts)
qed

section \<open>The deferral event\<close>

datatype deferInput = DeferFire string gotime | DeferReset

fun defer_times :: "perCRState \<Rightarrow> deferInput list \<Rightarrow> gotime list" where
  "defer_times s [] = []"
| "defer_times s (DeferFire sig now # is) =
     (let (s1, fired) = fireDualMasterDeferEdge sig now s
      in if fired then now # defer_times s1 is else defer_times s1 is)"
| "defer_times s (DeferReset # is) = defer_times (resetDualMasterDeferEdge s) is"

fun defer_clock :: "deferInput list \<Rightarrow> gotime list" where
  "defer_clock [] = []"
| "defer_clock (DeferFire sig now # is) = now # defer_clock is"
| "defer_clock (DeferReset # is) = defer_clock is"

lemma defer_times_after:
  assumes "dualMasterDeferLastAt s = l" and "0 < l" and "\<forall>t\<in>set (defer_clock is). 0 < t"
  shows "sorted_wrt (\<lambda>t u. Minute \<le> u - t) (l # defer_times s is)"
  using assms
proof (induction "is" arbitrary: s l)
  case (Cons i "is")
  show ?case
  proof (cases i)
    case DeferReset
    with Cons.IH[of "resetDualMasterDeferEdge s" l] Cons.prems show ?thesis
      by (simp add: resetDualMasterDeferEdge_def)
  next
    case (DeferFire sig now)
    let ?r = "fireDualMasterDeferEdge sig now s"
    show ?thesis
    proof (cases "snd ?r")
      case True
      then have "dualMasterDeferMinInterval \<le> Sub now l" and r: "dualMasterDeferLastAt (fst ?r) = now"
        using Cons.prems(1,2)
        by (auto simp: fireDualMasterDeferEdge_def IsZero_def split: if_splits)
      then have g: "Minute \<le> now - l"
        by (simp add: dualMasterDeferMinInterval_def window_consts Sub_def minDuration_def maxDuration_def
            split: if_splits)
      have "0 < now" using Cons.prems(3) DeferFire by simp
      from Cons.IH[OF r this] Cons.prems(3) DeferFire
      have IH: "sorted_wrt (\<lambda>t u. Minute \<le> u - t) (now # defer_times (fst ?r) is)" by simp
      with g have "Minute \<le> u - l" if "u \<in> set (defer_times (fst ?r) is)" for u
      proof -
        from that IH have "Minute \<le> u - now" by simp
        with g show ?thesis by (simp add: window_consts)
      qed
      with IH g True DeferFire show ?thesis by (simp add: Let_def split_beta)
    next
      case False
      then have "?r = (s, False)" by (simp add: fireDualMasterDeferEdge_def split: if_splits)
      then have "defer_times s (i # is) = defer_times s is" unfolding DeferFire by simp
      moreover have "\<forall>t\<in>set (defer_clock is). 0 < t" using Cons.prems(3) DeferFire by simp
      ultimately show ?thesis using Cons.IH[OF Cons.prems(1,2)] by simp
    qed
  qed
qed simp

lemma defer_rate:
  assumes "\<forall>t\<in>set (defer_clock is). 0 < t"
  shows "sorted_wrt (\<lambda>t u. Minute \<le> u - t) (defer_times s is)"
  using assms
proof (induction "is" arbitrary: s)
  case (Cons i "is")
  show ?case
  proof (cases i)
    case DeferReset
    with Cons show ?thesis by simp
  next
    case (DeferFire sig now)
    let ?r = "fireDualMasterDeferEdge sig now s"
    show ?thesis
    proof (cases "snd ?r")
      case True
      then have r: "dualMasterDeferLastAt (fst ?r) = now"
        by (auto simp: fireDualMasterDeferEdge_def split: if_splits)
      from defer_times_after[OF r, of "is"] Cons.prems DeferFire True show ?thesis
        by (simp add: Let_def split_beta)
    next
      case False
      with Cons DeferFire show ?thesis by (simp add: Let_def split_beta)
    qed
  qed
qed simp

section \<open>The dual-master stamp as a latch\<close>

definition dual_stamp :: "perCRState \<Rightarrow> gotime option" where
  "dual_stamp s =
     (case dualMasterObserved s of
        None \<Rightarrow> None
      | Some ob \<Rightarrow> if length (obsPods ob) < 2 then None else Some (observedAt ob))"

definition dual_read :: "perCRState \<Rightarrow> gotime \<Rightarrow> perCRState" where
  "dual_read s now = fst (dualMasterActiveOrExpire (\<lambda>ob. dualMasterActiveFromStamp ob now) s)"

definition dual_active :: "perCRState \<Rightarrow> gotime \<Rightarrow> bool" where
  "dual_active s now = snd (dualMasterActiveOrExpire (\<lambda>ob. dualMasterActiveFromStamp ob now) s)"

interpretation dual_master: freshness_window dual_stamp dual_read dual_active dualMasterObservedFreshnessWindow
proof
  show "0 \<le> dualMasterObservedFreshnessWindow" "dualMasterObservedFreshnessWindow < maxDuration"
    by (simp_all add: dualMasterObservedFreshnessWindow_def strandedRecoveryCooldown_def window_consts)
  fix s :: perCRState and now
  show "dual_active s now \<longleftrightarrow>
      (case dual_stamp s of None \<Rightarrow> False | Some t \<Rightarrow> Sub now t \<le> dualMasterObservedFreshnessWindow)"
    by (simp add: dual_active_def dualMasterActiveOrExpire_def dualMasterActiveFromStamp_def
        dual_stamp_def split: option.split)
  show "dual_active s now \<Longrightarrow> dual_read s now = s"
    by (simp add: dual_active_def dual_read_def dualMasterActiveOrExpire_def split: if_splits)
  show "\<not> dual_active s now \<Longrightarrow> dual_stamp (dual_read s now) = None"
    by (cases "dualMasterObserved s")
      (simp_all add: dual_active_def dual_read_def dualMasterActiveOrExpire_def dual_stamp_def
        resetDualMasterState_def split: if_splits)
qed

text \<open>
  Alarms cannot outlive their evidence. A two-master stamp is believed for one minute and a
  stuck-surgery flag for eight; past that, whatever status reads happened in between, the alarm is
  inactive, and once a read has found it inactive it stays so until a new stamp. The deferral event
  of the self-heal fires at most once a minute, for any alternation of reasons and re-arms.
\<close>

theorem alarms_expire:
  assumes "\<forall>t\<in>set (defer_clock is). 0 < t"
  shows "(\<forall>t now ts. dual_stamp s = Some t \<and> Minute < now - t \<longrightarrow>
      \<not> dual_active (run_state dual_read s ts) now) \<and>
    (\<forall>now ts later. \<not> dual_active s now \<longrightarrow> \<not> dual_active (run_state dual_read (dual_read s now) ts) later) \<and>
    (\<forall>t now ts. linkup_stamp q = Some t \<and> 8 * Minute < now - t \<longrightarrow>
      \<not> linkup_active (run_state linkup_read q ts) now) \<and>
    sorted_wrt (\<lambda>t u. Minute \<le> u - t) (defer_times s is)"
proof (intro conjI allI impI)
  fix t now ts
  assume "dual_stamp s = Some t \<and> Minute < now - t"
  then show "\<not> dual_active (run_state dual_read s ts) now"
    by (intro dual_master.inactive_after_window)
      (auto simp: dualMasterObservedFreshnessWindow_def strandedRecoveryCooldown_def window_consts)
next
  fix now ts later
  assume "\<not> dual_active s now"
  then show "\<not> dual_active (run_state dual_read (dual_read s now) ts) later"
    by (rule dual_master.stays_inactive)
next
  fix t now ts
  assume "linkup_stamp q = Some t \<and> 8 * Minute < now - t"
  then show "\<not> linkup_active (run_state linkup_read q ts) now"
    by (intro linkup.inactive_after_window)
      (auto simp: strandedLinkupStuckFreshnessWindow_def strandedRecoveryCooldown_def
        strandedSurgeryMaxBackoffLevel_def window_consts)
qed (rule defer_rate[OF assms])

theorem alarms_expire_witness:
  "\<not> dual_active (run_state dual_read (stampDualMasterObserved [''b'', ''a''] Second zeroPerCR) [Minute])
     (62 * Second) \<and>
   defer_times zeroPerCR [DeferFire ''x'' Second, DeferFire ''y'' Minute, DeferFire ''y'' (61 * Second)] =
     [Second, 61 * Second]"
proof -
  have d: "defer_times zeroPerCR [DeferFire ''x'' Second, DeferFire ''y'' Minute, DeferFire ''y'' (61 * Second)] =
     [Second, 61 * Second]"
    by code_simp
  let ?s = "stampDualMasterObserved [''b'', ''a''] Second zeroPerCR"
  have p: "\<forall>t\<in>set (defer_clock []). 0 < t" by simp
  have st: "dual_stamp ?s = Some Second" by (simp add: dual_stamp_def stampDualMasterObserved_def)
  have "\<not> dual_active (run_state dual_read ?s [Minute]) (62 * Second)"
    using conjunct1[OF alarms_expire[OF p, of ?s zeroQuorumState], rule_format, of Second "62 * Second" "[Minute]"]
      st by (simp only: window_consts) simp
  with d show ?thesis by blast
qed

end
