(* ===== verification/Pod_Model.thy ===== *)
theory Pod_Model
  imports API_Types "HOL-Library.AList"
begin

text \<open>
  What the reconciler reads of a pod, and the small helpers over pods and pod lists:
  \<^verbatim>\<open>internal/controller/pod_helpers.go\<close> and the pod helpers of
  \<^verbatim>\<open>internal/controller/valkey_controller.go\<close>. A pod is a name, its labels (an association list; a
  lookup of an absent key gives the empty string, as in Go), its IP, whether it is terminating, and
  its conditions. \<open>SplitHostPort\<close> is the function of Go's \<^verbatim>\<open>net\<close> package the code parses addresses
  with.
\<close>

section \<open>Addresses\<close>

definition SplitHostPort :: "string \<Rightarrow> (string \<times> string) option" where
  "SplitHostPort hp =
     (case LastIndexByte hp (CHR '':'') of
        None \<Rightarrow> None
      | Some i \<Rightarrow>
          (let port = drop (Suc i) hp in
           if hp \<noteq> [] \<and> hd hp = CHR ''['' then
             (case IndexByte hp (CHR '']'') of
                None \<Rightarrow> None
              | Some e \<Rightarrow>
                  if Suc e \<noteq> i then None
                  else
                    (let host = take (e - 1) (drop 1 hp) in
                     if CHR ''['' \<in> set (drop 1 hp) \<or> CHR '']'' \<in> set (drop (Suc e) hp) then None
                     else Some (host, port)))
           else
             (let host = take i hp in
              if CHR '':'' \<in> set host then None
              else if CHR ''['' \<in> set hp \<or> CHR '']'' \<in> set hp then None
              else Some (host, port))))"

lemma SplitHostPort_empty: "SplitHostPort [] = None"
  by (simp add: SplitHostPort_def)

lemma LastIndexByte_append:
  "c \<notin> set s \<Longrightarrow> LastIndexByte (t @ c # s) c = Some (length t)"
proof (induction t)
  case Nil
  then have "LastIndexByte s c = None" by (simp add: LastIndexByte_None)
  then show ?case by simp
qed simp

lemma SplitHostPort_plain:
  assumes "\<forall>c\<in>set h. c \<noteq> CHR '':'' \<and> c \<noteq> CHR ''['' \<and> c \<noteq> CHR '']''"
    and "\<forall>c\<in>set p. c \<noteq> CHR '':'' \<and> c \<noteq> CHR ''['' \<and> c \<noteq> CHR '']''"
  shows "SplitHostPort (h @ CHR '':'' # p) = Some (h, p)"
proof -
  have "LastIndexByte (h @ CHR '':'' # p) (CHR '':'') = Some (length h)"
    using assms(2) by (intro LastIndexByte_append) auto
  moreover have "hd (h @ CHR '':'' # p) \<noteq> CHR ''[''"
    using assms(1) by (cases h) auto
  ultimately show ?thesis using assms by (auto simp: SplitHostPort_def Let_def)
qed

section \<open>Pods\<close>

record Pod =
  pName :: string
  pLabels :: "(string \<times> string) list"
  PodIP :: string
  Terminating :: bool
  pConditions :: "(string \<times> ConditionStatus) list"

definition RoleLabel :: string where
  "RoleLabel = ''velkir.ioxie.dev/role''"

definition roleValuePrimary :: string where
  "roleValuePrimary = ''primary''"

definition roleValueReplica :: string where
  "roleValueReplica = ''replica''"

definition podIndexLabel :: string where
  "podIndexLabel = ''apps.kubernetes.io/pod-index''"

definition stsRevisionLabel :: string where
  "stsRevisionLabel = ''controller-revision-hash''"

definition ReplicationReadyGate :: string where
  "ReplicationReadyGate = ''velkir.ioxie.dev/replication-ready''"

definition label :: "Pod \<Rightarrow> string \<Rightarrow> string" where
  "label p k = (case map_of (pLabels p) k of None \<Rightarrow> [] | Some v \<Rightarrow> v)"

abbreviation role :: "Pod \<Rightarrow> string" where
  "role p \<equiv> label p RoleLabel"

abbreviation is_primary :: "Pod \<Rightarrow> bool" where
  "is_primary p \<equiv> role p = roleValuePrimary"

definition setLabel :: "string \<Rightarrow> string \<Rightarrow> Pod \<Rightarrow> Pod" where
  "setLabel k v p = p\<lparr>pLabels := AList.update k v (pLabels p)\<rparr>"

definition delLabel :: "string \<Rightarrow> Pod \<Rightarrow> Pod" where
  "delLabel k p = p\<lparr>pLabels := AList.delete k (pLabels p)\<rparr>"

lemma label_setLabel [simp]: "label (setLabel k v p) k' = (if k' = k then v else label p k')"
  by (simp add: label_def setLabel_def update_conv')

lemma label_delLabel [simp]: "label (delLabel k p) k' = (if k' = k then [] else label p k')"
  by (simp add: label_def delLabel_def delete_conv')

lemma name_setLabel [simp]: "pName (setLabel k v p) = pName p"
  by (simp add: setLabel_def)

lemma role_values [simp]:
  "roleValuePrimary \<noteq> roleValueReplica" "roleValueReplica \<noteq> roleValuePrimary"
  "roleValuePrimary \<noteq> []" "roleValueReplica \<noteq> []" "[] \<noteq> roleValuePrimary" "[] \<noteq> roleValueReplica"
  by (simp_all add: roleValuePrimary_def roleValueReplica_def)

fun podReplicationHealthyC :: "(string \<times> ConditionStatus) list \<Rightarrow> bool" where
  "podReplicationHealthyC [] = True"
| "podReplicationHealthyC ((t, s) # cs) =
     (if t = ReplicationReadyGate then s = ConditionTrue else podReplicationHealthyC cs)"

definition podReplicationHealthy :: "Pod \<Rightarrow> bool" where
  "podReplicationHealthy p = podReplicationHealthyC (pConditions p)"

fun podReadyC :: "(string \<times> ConditionStatus) list \<Rightarrow> bool" where
  "podReadyC [] = False"
| "podReadyC ((t, s) # cs) = (if t = ''Ready'' then s = ConditionTrue else podReadyC cs)"

definition podReady :: "Pod \<Rightarrow> bool" where
  "podReady p = podReadyC (pConditions p)"

definition parseOrdinal :: "string \<Rightarrow> int" where
  "parseOrdinal s =
     (case atoi s of None \<Rightarrow> -1 | Some n \<Rightarrow> if n < 0 \<or> 2147483647 < n then -1 else n)"

definition CutPrefix :: "string \<Rightarrow> string \<Rightarrow> string option" where
  "CutPrefix s p = (if HasPrefix s p then Some (drop (length p) s) else None)"

definition ordinalFromPodName :: "string \<Rightarrow> string \<Rightarrow> int" where
  "ordinalFromPodName podName crName =
     (case CutPrefix podName (crName @ ''-'') of None \<Rightarrow> -1 | Some sfx \<Rightarrow> parseOrdinal sfx)"

definition ordinalFromPod :: "Pod \<Rightarrow> string \<Rightarrow> int" where
  "ordinalFromPod p crName =
     (case map_of (pLabels p) podIndexLabel of
        None \<Rightarrow> ordinalFromPodName (pName p) crName
      | Some idx \<Rightarrow>
          if 0 \<le> parseOrdinal idx then parseOrdinal idx else ordinalFromPodName (pName p) crName)"

definition podIPMatchesAny :: "string \<Rightarrow> Pod list \<Rightarrow> bool" where
  "podIPMatchesAny host pods =
     (if host = [] then False else list_ex (\<lambda>p. PodIP p \<noteq> [] \<and> PodIP p = host) pods)"

definition countPrimaryLabeledPods :: "Pod list \<Rightarrow> nat" where
  "countPrimaryLabeledPods pods = length (filter is_primary pods)"

definition anyValkeyPodLabelled :: "Pod list \<Rightarrow> bool" where
  "anyValkeyPodLabelled pods = list_ex (\<lambda>p. role p = roleValuePrimary \<or> role p = roleValueReplica) pods"

section \<open>Scale-down guard\<close>

text \<open>
  \<open>findPrimaryOrdinal\<close> over the pods the API lists as labelled primary, and the refusal it feeds.
\<close>

fun minOrdinal :: "string \<Rightarrow> Pod list \<Rightarrow> int \<Rightarrow> int" where
  "minOrdinal crName [] m = m"
| "minOrdinal crName (p # ps) m =
     (case CutPrefix (pName p) (crName @ ''-'') of
        None \<Rightarrow> minOrdinal crName ps m
      | Some sfx \<Rightarrow>
          (let ord = parseOrdinal sfx in
           if ord < 0 then minOrdinal crName ps m
           else if m < 0 \<or> ord < m then minOrdinal crName ps ord
           else minOrdinal crName ps m))"

definition findPrimaryOrdinal :: "string \<Rightarrow> Pod list option \<Rightarrow> int \<times> bool" where
  "findPrimaryOrdinal crName listed =
     (case listed of
        None \<Rightarrow> (-1, True)
      | Some pods \<Rightarrow> if pods = [] then (-1, False) else (minOrdinal crName pods (-1), False))"

definition scaleDownPrimaryRefusal :: "int \<Rightarrow> int \<Rightarrow> int \<Rightarrow> bool \<Rightarrow> bool" where
  "scaleDownPrimaryRefusal want current primaryOrd primaryErr =
     (if current \<le> want then False
      else if primaryErr then True
      else 0 \<le> primaryOrd \<and> want \<le> primaryOrd)"

end
