(* ===== verification/Velkir_Text.thy ===== *)
theory Velkir_Text
  imports Velkir_Prelude
begin

text \<open>
  The functions of Go's package strings that the parsers and renderers of configuration text use, and
  the lemmas on lines and first tokens they share. The strings are ASCII: the blanks and letters
  beyond it that \<^verbatim>\<open>TrimSpace\<close>, \<^verbatim>\<open>Fields\<close> and \<^verbatim>\<open>ToLower\<close> also know are left out. A text file is
  read the way its consumers read it, split at newlines.
\<close>

abbreviation newline :: char where
  "newline \<equiv> CHR 0x0A"

definition TrimRight :: "string \<Rightarrow> char \<Rightarrow> string" where
  "TrimRight s c = rev (dropWhile (\<lambda>x. x = c) (rev s))"

definition Cut :: "string \<Rightarrow> char \<Rightarrow> (string \<times> string) option" where
  "Cut s c = (case IndexByte s c of None \<Rightarrow> None | Some i \<Rightarrow> Some (take i s, drop (Suc i) s))"

definition TrimSpace :: "string \<Rightarrow> string" where
  "TrimSpace s = rev (dropWhile is_space (rev (dropWhile is_space s)))"

definition lower_byte :: "char \<Rightarrow> char" where
  "lower_byte c = (let n = (of_char c :: nat) in if 65 \<le> n \<and> n \<le> 90 then char_of (n + 32) else c)"

definition ToLower :: "string \<Rightarrow> string" where
  "ToLower s = map lower_byte s"

definition is_letter :: "char \<Rightarrow> bool" where
  "is_letter c \<longleftrightarrow> (let n = (of_char c :: nat) in 65 \<le> n \<and> n \<le> 90 \<or> 97 \<le> n \<and> n \<le> 122)"

section \<open>Lines\<close>

definition unlines :: "string list \<Rightarrow> string" where
  "unlines ls = concat (map (\<lambda>l. l @ [newline]) ls)"

definition one_line :: "string \<Rightarrow> bool" where
  "one_line l \<longleftrightarrow> newline \<notin> set l"

definition trim_lines :: "string list \<Rightarrow> string list" where
  "trim_lines ls = rev (dropWhile (\<lambda>l. l = []) (rev ls))"

lemma unlines_append [simp]: "unlines (xs @ ys) = unlines xs @ unlines ys"
  by (simp add: unlines_def)

lemma unlines_Cons: "unlines (x # xs) = x @ newline # unlines xs"
  by (simp add: unlines_def)

lemma unlines_Nil [simp]: "unlines [] = []"
  by (simp add: unlines_def)

lemma Split_unlines: "list_all one_line ls \<Longrightarrow> Split (unlines ls @ t) newline = ls @ Split t newline"
  by (induction ls) (simp_all add: unlines_Cons one_line_def Split_append_sep)

lemma Split_lines: "list_all one_line (Split s newline)"
proof (induction s newline rule: Split.induct)
  case (2 c cs)
  obtain w ws where "Split cs newline = w # ws" by (cases "Split cs newline") auto
  with 2 show ?case by (auto simp: one_line_def)
qed (simp add: one_line_def)

lemma TrimRight_ends: "s = [] \<or> last s \<noteq> c \<Longrightarrow> TrimRight s c = s"
  unfolding TrimRight_def by (cases s rule: rev_cases) auto

lemma TrimRight_snoc: "TrimRight (s @ [c]) c = TrimRight s c"
  by (simp add: TrimRight_def)

lemma trim_lines_snoc [simp]: "trim_lines (ls @ [[]]) = trim_lines ls"
  by (simp add: trim_lines_def)

lemma trim_lines_ends: "l \<noteq> [] \<Longrightarrow> trim_lines (ls @ [l]) = ls @ [l]"
  by (simp add: trim_lines_def)

lemma TrimRight_unlines:
  "list_all one_line ls \<Longrightarrow>
   (let s = TrimRight (unlines ls) newline in if s = [] then [] else s @ [newline]) = unlines (trim_lines ls)"
proof (induction ls rule: rev_induct)
  case Nil
  show ?case by (simp add: TrimRight_def trim_lines_def)
next
  case (snoc l ls)
  show ?case
  proof (cases "l = []")
    case True
    then have "TrimRight (unlines (ls @ [l])) newline = TrimRight (unlines ls) newline"
      by (simp add: unlines_Cons TrimRight_snoc)
    with True snoc show ?thesis by simp
  next
    case False
    have "newline \<notin> set l" using snoc.prems by (simp add: one_line_def)
    then have "last l \<noteq> newline" using False last_in_set by metis
    then have "TrimRight (unlines ls @ l) newline = unlines ls @ l" using False by (intro TrimRight_ends) simp
    moreover have "unlines (ls @ [l]) = (unlines ls @ l) @ [newline]" by (simp add: unlines_Cons)
    ultimately have "TrimRight (unlines (ls @ [l])) newline = unlines ls @ l" by (simp add: TrimRight_snoc del: append_assoc)
    with False show ?thesis by (simp add: Let_def trim_lines_ends unlines_Cons)
  qed
qed

lemma set_trim_lines: "l \<in> set (trim_lines ls) \<Longrightarrow> l \<in> set ls"
  unfolding trim_lines_def by (metis set_dropWhileD set_rev)

lemma filter_trim_lines: "\<not> P [] \<Longrightarrow> filter P (trim_lines ls) = filter P ls"
proof (induction ls rule: rev_induct)
  case (snoc l ls)
  then show ?case by (cases "l = []") (simp_all add: trim_lines_ends)
qed (simp add: trim_lines_def)

lemma itoa_one_line [simp]: "newline \<notin> set (itoa n)"
proof
  assume "newline \<in> set (itoa n)"
  then have "is_digit newline" by (auto simp: itoa_def dest: digits_of_nat_all_digits split: if_splits)
  then show False by (simp add: is_digit_def)
qed

section \<open>The first token\<close>

definition first_token :: "string \<Rightarrow> string" where
  "first_token s = takeWhile (\<lambda>c. \<not> is_space c) (dropWhile is_space s)"

lemma Fields_acc_first:
  "w \<noteq> [] \<Longrightarrow> \<exists>ws. Fields_acc w s = (rev w @ takeWhile (\<lambda>c. \<not> is_space c) s) # ws"
proof (induction s arbitrary: w)
  case (Cons c s)
  show ?case
  proof (cases "is_space c")
    case False
    obtain ws where "Fields_acc (c # w) s = (rev (c # w) @ takeWhile (\<lambda>c. \<not> is_space c) s) # ws"
      using Cons.IH[of "c # w"] by auto
    with False show ?thesis by simp
  qed (use Cons.prems in simp)
qed simp

lemma takeWhile_stop: "takeWhile P b = [] \<Longrightarrow> takeWhile P (u @ b) = takeWhile P u"
  by (induction u) auto

lemma dropWhile_head: "dropWhile P s = c # t \<Longrightarrow> \<not> P c"
  using hd_dropWhile[of P s] by simp

lemma Fields_first: "if first_token s = [] then Fields s = [] else \<exists>ws. Fields s = first_token s # ws"
proof (induction s)
  case Nil
  show ?case by (simp add: Fields_def first_token_def)
next
  case (Cons c s)
  show ?case
  proof (cases "is_space c")
    case True
    then have "Fields (c # s) = Fields s" "first_token (c # s) = first_token s" by (simp_all add: Fields_def first_token_def)
    with Cons show ?thesis by simp
  next
    case False
    obtain ws where "Fields_acc [c] s = (rev [c] @ takeWhile (\<lambda>c. \<not> is_space c) s) # ws"
      using Fields_acc_first[of "[c]" s] by auto
    with False show ?thesis by (simp add: Fields_def first_token_def)
  qed
qed

lemma dropWhile_space_ends: "dropWhile is_space (dropWhile is_space s) = dropWhile is_space s"
  by (induction s) auto

lemma first_token_TrimSpace [simp]: "first_token (TrimSpace s) = first_token s"
proof -
  define t where "t = dropWhile is_space s"
  have d: "dropWhile is_space t = t" unfolding t_def by (rule dropWhile_space_ends)
  define u where "u = rev (dropWhile is_space (rev t))"
  define b where "b = rev (takeWhile is_space (rev t))"
  have tu: "t = u @ b" unfolding u_def b_def by (metis rev_append rev_rev_ident takeWhile_dropWhile_id)
  have b: "\<forall>c\<in>set b. is_space c" unfolding b_def by (auto dest: set_takeWhileD)
  have "takeWhile (\<lambda>c. \<not> is_space c) t = takeWhile (\<lambda>c. \<not> is_space c) u"
  proof -
    have "takeWhile (\<lambda>c. \<not> is_space c) b = []" using b by (cases b) auto
    then show ?thesis unfolding tu by (rule takeWhile_stop)
  qed
  moreover have "dropWhile is_space u = u"
  proof (cases u)
    case (Cons c cs)
    then have "t = c # cs @ b" using tu by simp
    then have "\<not> is_space c" using dropWhile_head[of is_space s] by (simp add: t_def)
    then show ?thesis by (simp add: Cons)
  qed simp
  moreover have "TrimSpace s = u" by (simp add: TrimSpace_def u_def t_def)
  moreover have "first_token s = takeWhile (\<lambda>c. \<not> is_space c) t" by (simp add: first_token_def t_def)
  ultimately show ?thesis by (simp add: first_token_def)
qed

lemma TrimSpace_empty: "TrimSpace s = [] \<longleftrightarrow> first_token s = []"
proof (cases "dropWhile is_space s")
  case Nil
  then show ?thesis unfolding TrimSpace_def first_token_def Nil by simp
next
  case (Cons c t)
  then have "\<not> is_space c" by (rule dropWhile_head)
  with Cons show ?thesis by (simp add: TrimSpace_def first_token_def)
qed

lemma TrimSpace_head:
  assumes "TrimSpace s = c # t"
  shows "\<not> is_space c"
proof -
  have "dropWhile is_space s = TrimSpace s @ rev (takeWhile is_space (rev (dropWhile is_space s)))"
    unfolding TrimSpace_def by (metis rev_append rev_rev_ident takeWhile_dropWhile_id)
  then have "dropWhile is_space s = c # t @ rev (takeWhile is_space (rev (dropWhile is_space s)))"
    using assms by simp
  then show ?thesis by (rule dropWhile_head)
qed

lemma hd_TrimSpace: "TrimSpace s = c # t \<Longrightarrow> first_token s = c # takeWhile (\<lambda>c. \<not> is_space c) t"
  using TrimSpace_head[of s c t] first_token_TrimSpace[of s] by (simp add: first_token_def[of "c # t"])

lemma first_token_append:
  assumes "first_token k \<noteq> []"
  shows "first_token (k @ CHR '' '' # v) = first_token k"
proof -
  obtain c t where ct: "dropWhile is_space k = c # t" using assms by (cases "dropWhile is_space k") (auto simp: first_token_def)
  then have "\<not> is_space c" by (rule dropWhile_head)
  moreover have "dropWhile is_space (k @ CHR '' '' # v) = c # t @ CHR '' '' # v"
  proof -
    have "\<exists>x\<in>set k. \<not> is_space x" using ct by (metis dropWhile_eq_Nil_conv list.distinct(1))
    then show ?thesis using ct by (auto simp: dropWhile_append dropWhile_eq_Nil_conv)
  qed
  moreover have "takeWhile (\<lambda>c. \<not> is_space c) (t @ CHR '' '' # v) = takeWhile (\<lambda>c. \<not> is_space c) t"
    by (rule takeWhile_stop) simp
  ultimately show ?thesis using ct by (simp add: first_token_def)
qed

lemma first_token_no_space: "c \<in> set (first_token s) \<Longrightarrow> \<not> is_space c"
  unfolding first_token_def by (auto dest: set_takeWhileD)

lemma lower_byte_space [simp]: "is_space (lower_byte c) = is_space c"
proof -
  have "65 \<le> n \<Longrightarrow> n \<le> 90 \<Longrightarrow> of_char (char_of (n + 32) :: char) = (n + 32 :: nat)" for n :: nat
    by (simp add: of_char_of)
  then show ?thesis by (auto simp: lower_byte_def is_space_def Let_def)
qed

end
