(* ===== verification/Info_Replication.thy ===== *)
theory Info_Replication
  imports Velkir_Text
begin

text \<open>
  \<^verbatim>\<open>internal/valkey/lagchecker.go\<close>: the parser of the reply to INFO replication and the lag it
  reports. The loop over the lines is a fold of \<open>info_line\<close> over the split body, with the local
  variables of the function as a record. The lemmas: a text that gives the fields of a replica one value
  each is read back, whatever the order and the other lines, and a reply that lacks an offset is reported as
  having no lag.
\<close>

definition RoleMaster :: string where
  "RoleMaster = ''master''"

record LagState =
  LSRole :: string
  LinkUp :: bool
  LagBytes :: int
  MasterReplOffset :: int
  HaveMasterOffset :: bool
  MasterHost :: string
  SlaveReplOffset :: int
  HaveSlaveOffset :: bool

record info_vars =
  iv_role :: string
  iv_linkUp :: bool
  iv_masterHost :: string
  iv_masterOff :: int
  iv_slaveOff :: int
  iv_haveMasterOff :: bool
  iv_haveSlave :: bool

definition info_vars0 :: info_vars where
  "info_vars0 =
     \<lparr>iv_role = [], iv_linkUp = False, iv_masterHost = [], iv_masterOff = 0, iv_slaveOff = 0,
      iv_haveMasterOff = False, iv_haveSlave = False\<rparr>"

definition info_field :: "string \<Rightarrow> string \<Rightarrow> info_vars \<Rightarrow> info_vars" where
  "info_field k v iv =
     (if k = ''role'' then iv\<lparr>iv_role := v\<rparr>
      else if k = ''master_host'' then iv\<lparr>iv_masterHost := v\<rparr>
      else if k = ''master_link_status'' then iv\<lparr>iv_linkUp := (v = ''up'')\<rparr>
      else if k = ''master_repl_offset'' then
        (case atoi v of None \<Rightarrow> iv | Some n \<Rightarrow> iv\<lparr>iv_masterOff := n, iv_haveMasterOff := True\<rparr>)
      else if k = ''slave_repl_offset'' then
        (case atoi v of None \<Rightarrow> iv | Some n \<Rightarrow> iv\<lparr>iv_slaveOff := n, iv_haveSlave := True\<rparr>)
      else iv)"

definition info_line :: "info_vars \<Rightarrow> string \<Rightarrow> info_vars" where
  "info_line iv raw =
     (let line = TrimRight raw (CHR 0x0D) in
      if line = [] \<or> HasPrefix line ''#'' then iv
      else (case Cut line (CHR '':'') of None \<Rightarrow> iv | Some (k, v) \<Rightarrow> info_field k v iv))"

definition info_result :: "info_vars \<Rightarrow> LagState" where
  "info_result iv =
     (let st = \<lparr>LSRole = iv_role iv, LinkUp = False, LagBytes = 0,
                MasterReplOffset = iv_masterOff iv, HaveMasterOffset = iv_haveMasterOff iv,
                MasterHost = [], SlaveReplOffset = 0, HaveSlaveOffset = False\<rparr>
      in if iv_role iv = RoleMaster then st
         else st\<lparr>LinkUp := iv_linkUp iv, MasterHost := iv_masterHost iv,
                 SlaveReplOffset := iv_slaveOff iv, HaveSlaveOffset := iv_haveSlave iv,
                 LagBytes := (if iv_haveSlave iv \<and> iv_slaveOff iv \<le> iv_masterOff iv
                              then wrap64 (iv_masterOff iv - iv_slaveOff iv) else 0)\<rparr>)"

definition parseInfoReplication :: "string \<Rightarrow> LagState" where
  "parseInfoReplication body = info_result (foldl info_line info_vars0 (Split body (CHR 0x0A)))"

section \<open>The text a server sends\<close>

definition info_text :: "string list \<Rightarrow> string" where
  "info_text ls = Join (map (\<lambda>l. l @ [CHR 0x0D]) ls @ [[]]) [CHR 0x0A]"

definition kv :: "string \<Rightarrow> string \<Rightarrow> string" where
  "kv k v = k @ '':'' @ v"

definition plain :: "string \<Rightarrow> bool" where
  "plain s \<longleftrightarrow> CHR 0x0A \<notin> set s \<and> CHR 0x0D \<notin> set s"

definition info_keys :: "string list" where
  "info_keys =
     [''role'', ''master_host'', ''master_link_status'', ''master_repl_offset'', ''slave_repl_offset'']"

lemma TrimRight_plain: "CHR 0x0D \<notin> set s \<Longrightarrow> TrimRight (s @ [CHR 0x0D]) (CHR 0x0D) = s"
proof -
  assume "CHR 0x0D \<notin> set s"
  then have "dropWhile (\<lambda>x. x = CHR 0x0D) (rev s) = rev s"
    by (cases "rev s") (auto simp: dropWhile_eq_self_iff)
  then show ?thesis by (simp add: TrimRight_def)
qed

lemma Cut_kv: "CHR '':'' \<notin> set k \<Longrightarrow> Cut (kv k v) (CHR '':'') = Some (k, v)"
  by (induction k) (auto simp: Cut_def kv_def split: option.splits)

lemma Split_info_text:
  assumes "\<forall>l\<in>set ls. plain l"
  shows "Split (info_text ls) (CHR 0x0A) = map (\<lambda>l. l @ [CHR 0x0D]) ls @ [[]]"
  unfolding info_text_def using assms by (intro Split_Join) (auto simp: plain_def)

lemma info_line_empty [simp]: "info_line iv [] = iv"
  by (simp add: info_line_def TrimRight_def)

lemma info_line_kv:
  assumes "k \<in> set info_keys" and "plain v"
  shows "info_line iv (kv k v @ [CHR 0x0D]) = info_field k v iv"
proof -
  from assms(1) have k: "CHR '':'' \<notin> set k" "CHR 0x0D \<notin> set k" "k \<noteq> []" "\<not> HasPrefix k ''#''" "hd k \<noteq> CHR ''#''"
    by (auto simp: info_keys_def HasPrefix_def)
  then have "TrimRight (kv k v @ [CHR 0x0D]) (CHR 0x0D) = kv k v"
    using assms(2) by (intro TrimRight_plain) (auto simp: kv_def plain_def)
  moreover have "kv k v \<noteq> []" "\<not> HasPrefix (kv k v) ''#''"
    using k by (cases k; simp add: kv_def HasPrefix_def)+
  ultimately show ?thesis using k by (simp add: info_line_def Let_def Cut_kv)
qed

lemma parse_lines:
  assumes "\<forall>l\<in>set ls. plain l"
  shows "parseInfoReplication (info_text ls) =
    info_result (foldl info_line info_vars0 (map (\<lambda>l. l @ [CHR 0x0D]) ls))"
  by (simp add: parseInfoReplication_def Split_info_text[OF assms])

lemma digit_plain: "is_digit c \<Longrightarrow> c \<noteq> CHR 0x0A \<and> c \<noteq> CHR 0x0D"
  by (auto simp: is_digit_def)

lemma plain_itoa [simp]: "plain (itoa n)"
  using digits_of_nat_all_digits digit_plain by (fastforce simp: plain_def itoa_def)

lemma info_keys_simps [simp]:
  "''role'' \<in> set info_keys" "''master_host'' \<in> set info_keys" "''master_link_status'' \<in> set info_keys"
  "''master_repl_offset'' \<in> set info_keys" "''slave_repl_offset'' \<in> set info_keys"
  by (simp_all add: info_keys_def)

lemma plain_kv [simp]: "k \<in> set info_keys \<Longrightarrow> plain v \<Longrightarrow> plain (kv k v)"
  by (auto simp: plain_def kv_def info_keys_def)

section \<open>Properties\<close>

text \<open>
  The text of a reply: lines in any order, ended by CR LF as the server sends them or by LF alone.
  A field has one value when some line carries it and no other line with its key disagrees.
\<close>

definition reply_text :: "bool \<Rightarrow> string list \<Rightarrow> string" where
  "reply_text crlf ls = Join (map (\<lambda>l. if crlf then l @ [CHR 0x0D] else l) ls @ [[]]) [CHR 0x0A]"

definition sole_value :: "string list \<Rightarrow> string \<Rightarrow> string \<Rightarrow> bool" where
  "sole_value ls k v \<longleftrightarrow> kv k v \<in> set ls \<and> list_all (\<lambda>l. HasPrefix l (k @ '':'') \<longrightarrow> l = kv k v) ls"

lemma Cut_SomeD: "Cut l c = Some (k, v) \<Longrightarrow> l = k @ [c] @ v"
proof (induction l arbitrary: k v)
  case (Cons x l)
  then show ?case by (cases "x = c") (auto simp: Cut_def split: option.splits)
qed (simp add: Cut_def)

lemma reply_line:
  assumes "plain l"
  shows "info_line iv (if crlf then l @ [CHR 0x0D] else l) =
    (case Cut l (CHR '':'') of None \<Rightarrow> iv | Some (k, v) \<Rightarrow> info_field k v iv)"
proof -
  have t: "TrimRight (if crlf then l @ [CHR 0x0D] else l) (CHR 0x0D) = l"
    using assms TrimRight_plain[of l] TrimRight_ends[of l "CHR 0x0D"] last_in_set[of l]
    by (cases "l = []"; cases "last l = CHR 0x0D") (simp_all add: plain_def)
  have "info_field k v iv = iv" if "HasPrefix l ''#''" "Cut l (CHR '':'') = Some (k, v)" for k v
    using that Cut_SomeD[OF that(2)] by (cases k) (auto simp: HasPrefix_def info_field_def)
  moreover have "Cut [] (CHR '':'') = None" by (simp add: Cut_def)
  ultimately show ?thesis by (auto simp: info_line_def t Let_def split: option.splits)
qed

lemma parse_reply:
  assumes "list_all plain ls"
  shows "parseInfoReplication (reply_text crlf ls) =
    info_result (foldl (\<lambda>iv l. case Cut l (CHR '':'') of None \<Rightarrow> iv | Some (k, v) \<Rightarrow> info_field k v iv) info_vars0 ls)"
proof -
  let ?e = "\<lambda>l. if crlf then l @ [CHR 0x0D] else l"
  have "Split (reply_text crlf ls) (CHR 0x0A) = map ?e ls @ [[]]"
    unfolding reply_text_def using assms by (intro Split_Join) (auto simp: plain_def list_all_iff)
  moreover have "foldl info_line iv (map ?e ls) =
      foldl (\<lambda>iv l. case Cut l (CHR '':'') of None \<Rightarrow> iv | Some (k, v) \<Rightarrow> info_field k v iv) iv ls" for iv
    using assms by (induction ls arbitrary: iv) (simp_all add: reply_line)
  ultimately show ?thesis by (simp add: parseInfoReplication_def)
qed

lemma fold_field:
  fixes f :: "info_vars \<Rightarrow> 'a"
  assumes "sole_value ls k v" and "CHR '':'' \<notin> set k"
    and set: "\<And>iv. f (info_field k v iv) = x" and keep: "\<And>iv k' v'. k' \<noteq> k \<Longrightarrow> f (info_field k' v' iv) = f iv"
  shows "f (foldl (\<lambda>iv l. case Cut l (CHR '':'') of None \<Rightarrow> iv | Some (k, v) \<Rightarrow> info_field k v iv) iv ls) = x"
proof -
  let ?F = "\<lambda>iv l. case Cut l (CHR '':'') of None \<Rightarrow> iv | Some (k, v) \<Rightarrow> info_field k v iv"
  have hit: "f (?F iv (kv k v)) = x" for iv using assms(2) set by (simp add: Cut_kv)
  have line: "f (?F iv l) = (if l = kv k v then x else f iv)" if "HasPrefix l (k @ '':'') \<longrightarrow> l = kv k v" for iv l
  proof (cases "Cut l (CHR '':'')")
    case (Some kv')
    then obtain k' v' where c: "Cut l (CHR '':'') = Some (k', v')" by (cases kv') auto
    then have "k' = k \<Longrightarrow> HasPrefix l (k @ '':'')" using Cut_SomeD[OF c] by (simp add: HasPrefix_def)
    then show ?thesis using c that hit keep by (cases "l = kv k v") auto
  qed (use assms(2) Cut_kv[of k v] in auto)
  define F where "F = ?F"
  have step: "f (F iv l) = (if kv k v = l then x else f iv)" if "HasPrefix l (k @ '':'') \<longrightarrow> l = kv k v" for iv l
    using line[OF that, of iv] by (simp only: F_def eq_commute[of l])
  have fold: "f (foldl F iv ls) = (if kv k v \<in> set ls then x else f iv)"
    if "list_all (\<lambda>l. HasPrefix l (k @ '':'') \<longrightarrow> l = kv k v) ls" for iv ls
    using that
  proof (induction ls arbitrary: iv)
    case (Cons l ls)
    then show ?case using step[of l iv] by simp
  qed simp
  show ?thesis using fold[of ls iv] assms(1) by (simp add: sole_value_def F_def)
qed

text \<open>
  C32. Round trip of INFO replication. From any text whose lines give the five fields of a replica one
  value each, in whatever order, among whatever other lines (comments, blank lines and unknown keys)
  and with either line ending, the parser recovers the role, the master's host, the link state and
  both offsets, and reports as lag the difference of the offsets when the replica is behind and zero
  when it is not. The offsets are any two non-negative 64-bit values, so the subtraction does not
  overflow.
\<close>

theorem info_roundtrip:
  assumes "list_all plain ls"
    and "sole_value ls ''role'' ''slave''" and "sole_value ls ''master_host'' host"
    and "sole_value ls ''master_link_status'' (if up then ''up'' else ''down'')"
    and "sole_value ls ''slave_repl_offset'' (itoa s)" and "sole_value ls ''master_repl_offset'' (itoa m)"
    and "0 \<le> s" and "in_duration s" and "0 \<le> m" and "in_duration m"
  shows "parseInfoReplication (reply_text crlf ls) =
    \<lparr>LSRole = ''slave'', LinkUp = up, LagBytes = max 0 (m - s), MasterReplOffset = m,
     HaveMasterOffset = True, MasterHost = host, SlaveReplOffset = s, HaveSlaveOffset = True\<rparr>"
proof -
  define iv where "iv = foldl (\<lambda>iv l. case Cut l (CHR '':'') of None \<Rightarrow> iv | Some (k, v) \<Rightarrow> info_field k v iv) info_vars0 ls"
  have "iv_role iv = ''slave''"
    unfolding iv_def by (rule fold_field[OF assms(2)]) (auto simp: info_field_def split: option.split)
  moreover have "iv_masterHost iv = host"
    unfolding iv_def by (rule fold_field[OF assms(3)]) (auto simp: info_field_def split: option.split)
  moreover have "iv_linkUp iv = up"
    unfolding iv_def by (rule fold_field[OF assms(4)]) (auto simp: info_field_def split: option.split)
  moreover have "(iv_slaveOff iv, iv_haveSlave iv) = (s, True)"
    unfolding iv_def by (rule fold_field[OF assms(5)]) (auto simp: info_field_def atoi_itoa assms split: option.split)
  moreover have "(iv_masterOff iv, iv_haveMasterOff iv) = (m, True)"
    unfolding iv_def by (rule fold_field[OF assms(6)]) (auto simp: info_field_def atoi_itoa assms split: option.split)
  moreover have "s \<le> m \<Longrightarrow> wrap64 (m - s) = m - s"
    using assms(7-10) by (intro wrap64_id) (auto simp: in_duration_def minDuration_def)
  ultimately show ?thesis
    unfolding parse_reply[OF assms(1)] iv_def[symmetric] by (simp add: info_result_def RoleMaster_def Let_def)
qed

definition example_reply :: "string list" where
  "example_reply =
     [''# Replication'', ''role:slave'', ''master_host:10.0.0.1'', ''master_port:6379'', ''master_link_status:up'',
      ''master_last_io_seconds_ago:0'', ''master_sync_in_progress:0'', ''slave_repl_offset:9990'',
      ''slave_priority:100'', ''slave_read_only:1'', ''master_replid:abcdef'', ''master_repl_offset:9999'',
      ''second_repl_offset:-1'']"

theorem info_roundtrip_witness:
  "parseInfoReplication (reply_text False example_reply) =
    \<lparr>LSRole = ''slave'', LinkUp = True, LagBytes = 9, MasterReplOffset = 9999,
     HaveMasterOffset = True, MasterHost = ''10.0.0.1'', SlaveReplOffset = 9990, HaveSlaveOffset = True\<rparr>"
proof -
  have i: "itoa 9990 = ''9990''" "itoa 9999 = ''9999''"
    by (simp_all add: itoa_def digits_of_nat.simps digit_char_def char_of_def bit_iff_odd)
  have "list_all plain example_reply" by (simp add: example_reply_def plain_def)
  moreover have "sole_value example_reply ''role'' ''slave''" "sole_value example_reply ''master_host'' ''10.0.0.1''"
    "sole_value example_reply ''master_link_status'' (if True then ''up'' else ''down'')"
    "sole_value example_reply ''slave_repl_offset'' (itoa 9990)" "sole_value example_reply ''master_repl_offset'' (itoa 9999)"
    by (simp_all add: i sole_value_def example_reply_def kv_def HasPrefix_def)
  moreover have "in_duration 9990" "in_duration 9999" by (simp_all add: in_duration_def window_consts)
  ultimately show ?thesis using info_roundtrip[of example_reply "''10.0.0.1''" True 9990 9999 False] by simp
qed

section \<open>A reply without an offset\<close>

definition line_key :: "string \<Rightarrow> string option" where
  "line_key raw = map_option fst (Cut (TrimRight raw (CHR 0x0D)) (CHR '':''))"

lemma info_line_no_slave:
  "line_key raw \<noteq> Some ''slave_repl_offset'' \<Longrightarrow> \<not> iv_haveSlave iv \<Longrightarrow> \<not> iv_haveSlave (info_line iv raw)"
  by (auto simp: info_line_def info_field_def line_key_def Let_def split: option.splits)

lemma foldl_no_slave:
  "\<forall>raw\<in>set ls. line_key raw \<noteq> Some ''slave_repl_offset'' \<Longrightarrow> \<not> iv_haveSlave iv \<Longrightarrow>
     \<not> iv_haveSlave (foldl info_line iv ls)"
  by (induction ls arbitrary: iv) (simp_all add: info_line_no_slave)

lemma no_slave_offset_no_lag:
  assumes "\<forall>raw\<in>set (Split body (CHR 0x0A)). line_key raw \<noteq> Some ''slave_repl_offset''"
  shows "LagBytes (parseInfoReplication body) = 0 \<and> \<not> HaveSlaveOffset (parseInfoReplication body)"
  using foldl_no_slave[OF assms, of info_vars0]
  by (simp add: parseInfoReplication_def info_result_def info_vars0_def Let_def)

lemma lag_nonneg: "iv_slaveOff iv \<le> iv_masterOff iv \<Longrightarrow> in_duration (iv_masterOff iv - iv_slaveOff iv) \<Longrightarrow>
    0 \<le> LagBytes (info_result iv)"
  by (simp add: info_result_def Let_def wrap64_id)

end
