(* ===== verification/Failover_Dispatch.thy ===== *)
theory Failover_Dispatch
  imports PerCR_State Pod_Model Status_API Info_Replication "HOL-Library.Product_Lexorder"
begin

text \<open>
  \<^verbatim>\<open>internal/controller/primary_rollout.go\<close>: the failover-in-flight latch, its durable mirror on the
  CR status, and the dispatcher that hands the primary role over during a rollout.

  The dispatcher works on a \<open>dispatchState\<close>: the reconcile's copy of the CR, the status the API
  server stores, the pods it stores, the per-CR memory, and the list of the effects so far, oldest
  first. What the environment answers (the observer's snapshot, the listed pods, the replies to the
  lag check, whether each API call is accepted, the result of SENTINEL FAILOVER and the clock at
  each \<^verbatim>\<open>time.Now()\<close>) is the record \<open>dispatchEnv\<close>.
\<close>

section \<open>The latch\<close>

definition failoverInFlightLatchTTL :: duration where
  "failoverInFlightLatchTTL = 210 * Second"

definition nogoodslaveCooldownTTL :: duration where
  "nogoodslaveCooldownTTL = 15 * Second"

definition maxRolloutSnapshotAge :: duration where
  "maxRolloutSnapshotAge = 3 * DefaultPollInterval"

definition snapshotStale :: "Snapshot \<Rightarrow> gotime \<Rightarrow> duration \<Rightarrow> bool" where
  "snapshotStale snap now maxAge =
     (if maxAge \<le> 0 then False else maxAge < Sub now (LastPolledAt (Primary snap)))"

definition latchActive :: "failoverInFlightLatch \<Rightarrow> gotime \<Rightarrow> string \<Rightarrow> int \<Rightarrow> bool" where
  "latchActive l now obsAddr obsEpoch =
     (if latchDeadline l < now then False
      else if obsAddr \<noteq> [] \<and> obsAddr \<noteq> preStripAddr l then
        (if 0 < preStripEpoch l \<and> obsEpoch < preStripEpoch l then True else False)
      else True)"

definition failoverLatchSetWithDeadline :: "string \<Rightarrow> int \<Rightarrow> gotime \<Rightarrow> perCRState \<Rightarrow> perCRState" where
  "failoverLatchSetWithDeadline addr epoch deadline s =
     setFailoverLatch \<lparr>preStripAddr = addr, latchDeadline = deadline, preStripEpoch = epoch\<rparr> s"

definition failoverLatchSet :: "string \<Rightarrow> gotime \<Rightarrow> perCRState \<Rightarrow> perCRState" where
  "failoverLatchSet addr now s =
     failoverLatchSetWithDeadline addr 0 (now + failoverInFlightLatchTTL) s"

definition failoverLatchSetCooldown :: "string \<Rightarrow> gotime \<Rightarrow> perCRState \<Rightarrow> perCRState" where
  "failoverLatchSetCooldown addr now s =
     setFailoverLatch
       \<lparr>preStripAddr = addr, latchDeadline = now + nogoodslaveCooldownTTL, preStripEpoch = 0\<rparr> s"

definition failoverLatchActivePure :: "gotime \<Rightarrow> string \<Rightarrow> int \<Rightarrow> perCRState \<Rightarrow> bool" where
  "failoverLatchActivePure now addr epoch s =
     (case failoverLatch s of None \<Rightarrow> False | Some l \<Rightarrow> latchActive l now addr epoch)"

definition failoverLatchActive :: "gotime \<Rightarrow> string \<Rightarrow> int \<Rightarrow> perCRState \<Rightarrow> perCRState \<times> bool" where
  "failoverLatchActive now addr epoch s =
     (case failoverLatch s of
        None \<Rightarrow> (s, False)
      | Some l \<Rightarrow> if latchActive l now addr epoch then (s, True) else (clearFailoverLatch s, False))"

section \<open>The durable marker\<close>

text \<open>A status patch: None when the API server refuses it, else the status it stores.\<close>

definition statusPatch ::
  "merge \<Rightarrow> bool \<Rightarrow> ValkeyStatus \<Rightarrow> ValkeyStatus \<Rightarrow> ValkeyStatus \<Rightarrow> ValkeyStatus option" where
  "statusPatch merge ok orig new stored = (if ok then Some (merge orig new stored) else None)"

definition persistFailoverDispatch ::
  "merge \<Rightarrow> bool \<Rightarrow> string \<Rightarrow> int \<Rightarrow> gotime \<Rightarrow> ValkeyStatus \<times> ValkeyStatus \<Rightarrow>
   (ValkeyStatus \<times> ValkeyStatus) \<times> bool" where
  "persistFailoverDispatch merge ok addr epoch deadline vs =
     (case vs of (orig, stored) \<Rightarrow>
        (let new = updRollout (\<lambda>r. r\<lparr>FailoverDispatch :=
                     Some \<lparr>PreStripAddr = addr, FDDeadline = Some deadline, PreStripEpoch = epoch\<rparr>\<rparr>) orig
         in case statusPatch merge ok orig new stored of
              None \<Rightarrow> ((new\<lparr>Rollout := Rollout orig\<rparr>, stored), False)
            | Some st \<Rightarrow> ((st, st), True)))"

definition clearFailoverDispatch ::
  "merge \<Rightarrow> bool \<Rightarrow> ValkeyStatus \<times> ValkeyStatus \<Rightarrow> ValkeyStatus \<times> ValkeyStatus" where
  "clearFailoverDispatch merge ok vs =
     (case vs of (orig, stored) \<Rightarrow>
        if Rollout orig = None \<or> dispatchOf orig = None then (orig, stored)
        else
          (let new = updRollout (\<lambda>r. r\<lparr>FailoverDispatch := None\<rparr>) orig
           in case statusPatch merge ok orig new stored of
                None \<Rightarrow> (new, stored)
              | Some st \<Rightarrow> (st, st)))"

definition observedPrimaryAddrEpoch :: "Snapshot option \<Rightarrow> string \<times> int" where
  "observedPrimaryAddrEpoch ob =
     (case ob of
        None \<Rightarrow> ([], 0)
      | Some snap \<Rightarrow> if \<not> Present snap then ([], 0) else (Addr (Primary snap), Epoch (Primary snap)))"

definition maintainFailoverDispatchMarker ::
  "merge \<Rightarrow> bool \<Rightarrow> Snapshot option \<Rightarrow> gotime \<Rightarrow> gotime \<Rightarrow> (ValkeyStatus \<times> ValkeyStatus) \<times> perCRState \<Rightarrow>
   (ValkeyStatus \<times> ValkeyStatus) \<times> perCRState" where
  "maintainFailoverDispatchMarker merge ok ob now1 now2 w =
     (case w of (vs, s) \<Rightarrow>
        (case dispatchOf (fst vs) of
           None \<Rightarrow> (vs, s)
         | Some marker \<Rightarrow>
             (let (addr, epoch) = observedPrimaryAddrEpoch ob;
                  s1 = (if failoverLatch s = None then
                          (case FDDeadline marker of
                             None \<Rightarrow> s
                           | Some d \<Rightarrow>
                               if now1 < d
                               then failoverLatchSetWithDeadline (PreStripAddr marker)
                                      (PreStripEpoch marker) d s
                               else s)
                        else s);
                  (s2, act) = failoverLatchActive now2 addr epoch s1
              in if act then (vs, s2) else (clearFailoverDispatch merge ok vs, s2))))"

section \<open>Choosing the candidate\<close>

fun classifyLoop :: "Pod list \<Rightarrow> Pod option \<Rightarrow> Pod list \<Rightarrow> Pod option \<times> Pod list" where
  "classifyLoop [] primary candidates = (primary, candidates)"
| "classifyLoop (p # ps) primary candidates =
     (if is_primary p then classifyLoop ps (Some p) candidates
      else if Terminating p then classifyLoop ps primary candidates
      else if PodIP p = [] then classifyLoop ps primary candidates
      else if \<not> podReady p then classifyLoop ps primary candidates
      else classifyLoop ps primary (candidates @ [p]))"

definition classifyPrimaryRolloutPods :: "Pod list option \<Rightarrow> (Pod option \<times> Pod list) option" where
  "classifyPrimaryRolloutPods listed =
     (case listed of None \<Rightarrow> None | Some pods \<Rightarrow> Some (classifyLoop pods None []))"

definition DefaultPort :: int where
  "DefaultPort = 6379"

definition scoreOne :: "(string \<Rightarrow> LagState option) \<Rightarrow> int \<Rightarrow> Pod \<Rightarrow> (Pod \<times> int) option" where
  "scoreOne checkLag maxLagBytes p =
     (case checkLag (JoinHostPort (PodIP p) (itoa DefaultPort)) of
        None \<Rightarrow> None
      | Some st \<Rightarrow>
          if LSRole st = ''master'' then Some (p, 0)
          else if \<not> LinkUp st then None
          else if maxLagBytes < LagBytes st then None
          else Some (p, LagBytes st))"

definition pickPromotionCandidate ::
  "(string \<Rightarrow> LagState option) \<Rightarrow> Pod list \<Rightarrow> int \<Rightarrow> Pod option" where
  "pickPromotionCandidate checkLag candidates maxLagBytes =
     (let eligible = List.map_filter (scoreOne checkLag maxLagBytes) candidates in
      if eligible = [] then None
      else Some (fst (hd (sort_key (\<lambda>(p, lag). (lag, pName p)) eligible))))"

definition rolloutMaxLagBytes :: "Valkey \<Rightarrow> int" where
  "rolloutMaxLagBytes v =
     (if MaxLagBytes (SpecRollout (Spec v)) \<le> 0 then 10000 else MaxLagBytes (SpecRollout (Spec v)))"

section \<open>The dispatcher\<close>

datatype issueResult = IssueOK | IssueInProgress | IssueErr

text \<open>
  \<^verbatim>\<open>Manager.IssueFailover\<close> of \<^verbatim>\<open>internal/sentinel/manager.go\<close>: the endpoints in order, each given by
  whether it can be dialled and by its connection.
\<close>

fun issueLoop :: "string \<Rightarrow> string \<Rightarrow> (bool \<times> conn) list \<Rightarrow> issueResult" where
  "issueLoop mname pw [] = IssueErr"
| "issueLoop mname pw ((dialled, c) # eps) =
     (case fst (FailoverOne dialled c mname pw) of
        FailoverOK \<Rightarrow> IssueOK
      | ErrFailoverInProgress \<Rightarrow> IssueInProgress
      | FailoverFailed e \<Rightarrow> issueLoop mname pw eps)"

definition IssueFailover :: "string \<Rightarrow> string \<Rightarrow> (bool \<times> conn) list \<Rightarrow> issueResult" where
  "IssueFailover mname pw eps =
     (if mname = [] then IssueErr
      else if eps = [] then IssueErr
      else issueLoop mname pw eps)"

datatype action =
    PersistMarker | SetLatch | StripLabel string | SendFailover | RestoreLabel string
  | ClearLatch | ClearMarker | SetCooldown | EmitFailoverDeferredStale | EmitNoSuitableReplica
  | EmitFSM string

record dispatchEnv =
  envObserver :: "Snapshot option"
  envListed :: "Pod list option"
  envLag :: "string \<Rightarrow> LagState option"
  persistOk :: bool
  stripOk :: bool
  envFailover :: issueResult
  restoreOk :: bool
  clearOk :: bool
  nowStale :: gotime
  nowLatch :: gotime
  nowStrip :: gotime
  nowCooldown :: gotime

record dispatchState =
  dsStatus :: ValkeyStatus
  dsStored :: ValkeyStatus
  dsPods :: "Pod list"
  dsMem :: perCRState
  dsActs :: "action list"

definition act :: "action \<Rightarrow> dispatchState \<Rightarrow> dispatchState" where
  "act a w = w\<lparr>dsActs := dsActs w @ [a]\<rparr>"

definition onPod :: "string \<Rightarrow> (Pod \<Rightarrow> Pod) \<Rightarrow> Pod list \<Rightarrow> Pod list" where
  "onPod n f pods = map (\<lambda>p. if pName p = n then f p else p) pods"

text \<open>\<^verbatim>\<open>applyFSM\<close>: the machine's row, with its event recorded when it names one.\<close>

definition applyFSM :: "State \<Rightarrow> Event \<Rightarrow> GuardCtx \<Rightarrow> string list \<times> State \<times> duration \<times> bool" where
  "applyFSM s e c =
     (case Apply NewMachine s e c of
        (nxt, side, ok) \<Rightarrow>
          if \<not> ok then ([], s, 0, False)
          else ((if EventReason side = [] then [] else [EventReason side]), nxt, RequeueAfter side, True))"

definition noGuards :: GuardCtx where
  "noGuards =
     \<lparr>QuorumOK = False, SplitBrain = False, QuorumPrimaryAgreed = False, Pod0LabeledPrimary = False,
      CandidateReplicaReady = False, HasMoreReplicas = False, NewPrimaryStable = False,
      OldPrimaryNowReplica = False, OldPrimaryReplicaReady = False,
      RolloutSuspendedFromPending = False, CKQUORUMOKHysteresisPassed = False\<rparr>"

definition fsmEvents :: "State \<Rightarrow> Event \<Rightarrow> GuardCtx \<Rightarrow> dispatchState \<Rightarrow> dispatchState" where
  "fsmEvents s e c w = w\<lparr>dsActs := dsActs w @ map EmitFSM (fst (applyFSM s e c))\<rparr>"

definition stripPrimaryLabel :: "bool \<Rightarrow> Pod \<Rightarrow> dispatchState \<Rightarrow> dispatchState \<times> bool" where
  "stripPrimaryLabel ok p w =
     (if map_of (pLabels p) RoleLabel = None then (w, True)
      else if \<not> ok then (w, False)
      else (act (StripLabel (pName p)) (w\<lparr>dsPods := onPod (pName p) (delLabel RoleLabel) (dsPods w)\<rparr>), True))"

text \<open>The pod passed in is the stripped copy, so the test for an already present label reads false.\<close>

definition restorePrimaryLabel :: "bool \<Rightarrow> Pod \<Rightarrow> dispatchState \<Rightarrow> dispatchState" where
  "restorePrimaryLabel ok p w =
     (if is_primary p then w
      else if \<not> ok then w
      else act (RestoreLabel (pName p))
             (w\<lparr>dsPods := onPod (pName p) (setLabel RoleLabel roleValuePrimary) (dsPods w)\<rparr>))"

definition clearMarker :: "merge \<Rightarrow> bool \<Rightarrow> dispatchState \<Rightarrow> dispatchState" where
  "clearMarker merge ok w =
     (case clearFailoverDispatch merge ok (dsStatus w, dsStored w) of
        (st, sv) \<Rightarrow> act ClearMarker (w\<lparr>dsStatus := st, dsStored := sv\<rparr>))"

text \<open>Steps 3 to 5: persist, latch, strip, fail over, and the two ways back.\<close>

definition handOff :: "merge \<Rightarrow> dispatchEnv \<Rightarrow> Snapshot \<Rightarrow> Pod \<Rightarrow> dispatchState \<Rightarrow> dispatchState \<times> bool" where
  "handOff merge env snap primary w =
     (let addr = Addr (Primary snap); epoch = Epoch (Primary snap);
          deadline = nowStrip env + failoverInFlightLatchTTL
      in case persistFailoverDispatch merge (persistOk env) addr epoch deadline (dsStatus w, dsStored w) of
           ((st, sv), ok) \<Rightarrow>
             (if \<not> ok then (w\<lparr>dsStatus := st, dsStored := sv\<rparr>, False)
              else
                (let w1 = act PersistMarker (w\<lparr>dsStatus := st, dsStored := sv\<rparr>);
                     w2 = act SetLatch (w1\<lparr>dsMem := failoverLatchSetWithDeadline addr epoch deadline (dsMem w1)\<rparr>);
                     (w3, stripped) = stripPrimaryLabel (stripOk env) primary w2
                 in if \<not> stripped then
                      (let w4 = act ClearLatch (w3\<lparr>dsMem := clearFailoverLatch (dsMem w3)\<rparr>)
                       in (clearMarker merge (clearOk env) w4, False))
                    else
                      (let w4 = act SendFailover w3 in
                       if envFailover env = IssueErr then
                         (let w5 = restorePrimaryLabel (restoreOk env) (delLabel RoleLabel primary) w4;
                              w6 = clearMarker merge (clearOk env) w5
                          in (act SetCooldown
                                (w6\<lparr>dsMem := failoverLatchSetCooldown addr (nowCooldown env) (dsMem w6)\<rparr>), False))
                       else
                         (fsmEvents StateRolloutPrimary EventReconcileTick
                            (noGuards\<lparr>QuorumOK := True, CandidateReplicaReady := True\<rparr>) w4, True)))))"

definition refuse :: "dispatchState \<Rightarrow> dispatchState \<times> bool" where
  "refuse w =
     (fsmEvents StateRolloutPrimary EventReconcileTick
        (noGuards\<lparr>QuorumOK := True, CandidateReplicaReady := False\<rparr>) (act EmitNoSuitableReplica w), True)"

definition runPrimaryRolloutDispatch ::
  "merge \<Rightarrow> dispatchEnv \<Rightarrow> Valkey \<Rightarrow> State \<Rightarrow> dispatchState \<Rightarrow> dispatchState \<times> bool" where
  "runPrimaryRolloutDispatch merge env v state w =
     (if state \<noteq> StateRolloutPrimary then (w, False)
      else (case envObserver env of
        None \<Rightarrow> (w, False)
      | Some snap \<Rightarrow>
          if \<not> Present snap \<or> \<not> OPQuorumOK (Primary snap) then (w, False)
          else if snapshotStale snap (nowStale env) maxRolloutSnapshotAge
          then (act EmitFailoverDeferredStale w, False)
          else
            (let (s1, held) = failoverLatchActive (nowLatch env) (Addr (Primary snap))
                                (Epoch (Primary snap)) (dsMem w);
                 w1 = w\<lparr>dsMem := s1\<rparr>
             in if held then (w1, False)
                else (case classifyPrimaryRolloutPods (envListed env) of
                  None \<Rightarrow> (w1, False)
                | Some (primary, candidates) \<Rightarrow>
                    (case primary of
                       None \<Rightarrow> (w1, False)
                     | Some p \<Rightarrow>
                         if candidates = [] then refuse w1
                         else (case pickPromotionCandidate (envLag env) candidates (rolloutMaxLagBytes v) of
                           None \<Rightarrow> refuse w1
                         | Some c \<Rightarrow> handOff merge env snap p w1))))))"

section \<open>Lemmas on the candidate\<close>

definition viable :: "Pod \<Rightarrow> bool" where
  "viable p \<longleftrightarrow> \<not> is_primary p \<and> \<not> Terminating p \<and> PodIP p \<noteq> [] \<and> podReady p"

lemma classifyLoop_eq:
  "classifyLoop ps pr cs =
     ((case filter is_primary (rev ps) of [] \<Rightarrow> pr | p # _ \<Rightarrow> Some p), cs @ filter viable ps)"
proof (induction ps arbitrary: pr cs)
  case (Cons p ps)
  show ?case
    by (cases "is_primary p") (simp_all add: Cons.IH viable_def split: list.splits)
qed simp

lemma classify_primary:
  assumes "classifyPrimaryRolloutPods listed = Some (Some p, cs)"
  shows "\<exists>pods. listed = Some pods \<and> p \<in> set pods \<and> is_primary p \<and> cs = filter viable pods"
proof -
  obtain pods where l: "listed = Some pods" using assms by (auto simp: classifyPrimaryRolloutPods_def split: option.splits)
  with assms have e: "filter is_primary (rev pods) = p # tl (filter is_primary (rev pods))"
    and c: "cs = filter viable pods"
    by (auto simp: classifyPrimaryRolloutPods_def classifyLoop_eq split: list.splits)
  have "p \<in> set (filter is_primary (rev pods))" by (subst e) simp
  with l c show ?thesis by auto
qed

lemma scoreOne_pod: "scoreOne f m p = Some (q, lag) \<Longrightarrow> q = p"
  by (auto simp: scoreOne_def split: option.splits if_splits)

lemma set_map_filter_eq: "y \<in> set (List.map_filter g xs) \<longleftrightarrow> (\<exists>x\<in>set xs. g x = Some y)"
  by (induction xs) (auto simp: List.map_filter_simps split: option.splits)

lemma eligible_mem:
  "(p, lag) \<in> set (List.map_filter (scoreOne f m) cs) \<longleftrightarrow> p \<in> set cs \<and> scoreOne f m p = Some (p, lag)"
proof -
  have "(p, lag) \<in> set (List.map_filter (scoreOne f m) cs) \<longleftrightarrow> (\<exists>q\<in>set cs. scoreOne f m q = Some (p, lag))"
    by (simp add: set_map_filter_eq)
  then show ?thesis by (auto dest: scoreOne_pod)
qed

lemma hd_sort_key_min:
  fixes f :: "'a \<Rightarrow> 'b :: linorder"
  assumes "xs \<noteq> []"
  shows "hd (sort_key f xs) \<in> set xs \<and> (\<forall>x\<in>set xs. f (hd (sort_key f xs)) \<le> f x)"
proof -
  have ne: "sort_key f xs \<noteq> []" using assms by (metis length_0_conv length_sort)
  then have m: "hd (sort_key f xs) \<in> set xs" by (metis hd_in_set set_sort)
  have "sorted (map f (sort_key f xs))" by (rule sorted_sort_key)
  with ne have "\<forall>x\<in>set (sort_key f xs). f (hd (sort_key f xs)) \<le> f x"
    by (cases "sort_key f xs") auto
  with m show ?thesis by simp
qed

lemma pick_Some:
  assumes "pickPromotionCandidate f cs m = Some c"
  shows "\<exists>lag. c \<in> set cs \<and> scoreOne f m c = Some (c, lag) \<and>
    (\<forall>d\<in>set cs. \<forall>lag'. scoreOne f m d = Some (d, lag') \<longrightarrow> (lag, pName c) \<le> (lag', pName d))"
proof -
  define el where "el = List.map_filter (scoreOne f m) cs"
  define b where "b = hd (sort_key (\<lambda>(p, lag). (lag, pName p)) el)"
  have ne: "el \<noteq> []" and c: "c = fst b"
    using assms by (simp_all add: pickPromotionCandidate_def Let_def el_def b_def split: if_splits)
  have min: "b \<in> set el" "\<forall>x\<in>set el. (case b of (p, lag) \<Rightarrow> (lag, pName p)) \<le> (case x of (p, lag) \<Rightarrow> (lag, pName p))"
    using hd_sort_key_min[OF ne, of "\<lambda>(p, lag). (lag, pName p)"] by (simp_all add: b_def)
  obtain lag where b: "b = (c, lag)" using c by (cases b) simp
  with min(1) have "c \<in> set cs" "scoreOne f m c = Some (c, lag)" by (simp_all add: el_def eligible_mem)
  moreover have "(lag, pName c) \<le> (lag', pName d)"
    if "d \<in> set cs" "scoreOne f m d = Some (d, lag')" for d lag'
  proof -
    have "(d, lag') \<in> set el" using that by (simp add: el_def eligible_mem)
    with min(2) b show ?thesis by fastforce
  qed
  ultimately show ?thesis by blast
qed

lemma pick_None: "pickPromotionCandidate f cs m = None \<longleftrightarrow> (\<forall>d\<in>set cs. scoreOne f m d = None)"
  by (simp add: pickPromotionCandidate_def Let_def map_filter_def filter_empty_conv)
    (metis option.exhaust surj_pair)

lemma pair_le: "((a :: int), (b :: string)) \<le> (c, d) \<longleftrightarrow> a < c \<or> a = c \<and> b \<le> d"
  by (auto simp: less_eq_prod_def)

text \<open>
  The promotion candidate. The preflight returns nothing exactly when no candidate passes it
  (unreachable, link down, or lag above the bound; a pod that calls itself master passes). Otherwise
  it returns a candidate with the least lag, and the least name among those, and, pod names being
  distinct, the choice does not depend on the order in which the pods were listed.
\<close>

theorem candidate_best:
  assumes "distinct (map pName cs)" and "mset cs' = mset cs"
  shows "(pickPromotionCandidate f cs m = None \<longleftrightarrow> (\<forall>d\<in>set cs. scoreOne f m d = None)) \<and>
    (\<forall>c. pickPromotionCandidate f cs m = Some c \<longrightarrow>
       (\<exists>lag. c \<in> set cs \<and> scoreOne f m c = Some (c, lag) \<and>
          (\<forall>d\<in>set cs. \<forall>lag'. scoreOne f m d = Some (d, lag') \<longrightarrow>
             lag < lag' \<or> lag = lag' \<and> pName c \<le> pName d))) \<and>
    pickPromotionCandidate f cs' m = pickPromotionCandidate f cs m"
proof -
  have sets: "set cs' = set cs" using assms(2) by (metis set_mset_mset)
  have same: "pickPromotionCandidate f cs' m = pickPromotionCandidate f cs m"
  proof (cases "pickPromotionCandidate f cs m")
    case None
    then have "pickPromotionCandidate f cs' m = None" by (simp only: pick_None sets)
    with None show ?thesis by simp
  next
    case (Some c)
    then have "pickPromotionCandidate f cs' m \<noteq> None" by (metis pick_None sets option.distinct(1))
    then obtain d where d: "pickPromotionCandidate f cs' m = Some d" by blast
    obtain l1 where c1: "c \<in> set cs" "scoreOne f m c = Some (c, l1)"
      "\<forall>d\<in>set cs. \<forall>l'. scoreOne f m d = Some (d, l') \<longrightarrow> (l1, pName c) \<le> (l', pName d)"
      using pick_Some[OF Some] by blast
    obtain l2 where c2: "d \<in> set cs'" "scoreOne f m d = Some (d, l2)"
      "\<forall>c\<in>set cs'. \<forall>l'. scoreOne f m c = Some (c, l') \<longrightarrow> (l2, pName d) \<le> (l', pName c)"
      using pick_Some[OF d] by blast
    have "(l1, pName c) \<le> (l2, pName d)" "(l2, pName d) \<le> (l1, pName c)"
      using c1 c2 sets by auto
    then have "(l1, pName c) = (l2, pName d)" by (rule order.antisym)
    then have "pName c = pName d" by simp
    with assms(1) c1(1) c2(1) sets have "c = d" by (metis inj_onD distinct_map)
    with Some d show ?thesis by simp
  qed
  have best: "pickPromotionCandidate f cs m = Some c \<longrightarrow>
       (\<exists>lag. c \<in> set cs \<and> scoreOne f m c = Some (c, lag) \<and>
          (\<forall>d\<in>set cs. \<forall>lag'. scoreOne f m d = Some (d, lag') \<longrightarrow>
             lag < lag' \<or> lag = lag' \<and> pName c \<le> pName d))" for c
    using pick_Some[of f cs m c] unfolding pair_le by blast
  show ?thesis using same best pick_None by blast
qed

text \<open>Two replicas for the examples, and a lag check that knows them.\<close>

definition pod_at :: "string \<Rightarrow> string \<Rightarrow> (string \<times> string) list \<Rightarrow> Pod" where
  "pod_at n ip ls =
     \<lparr>pName = n, pLabels = ls, PodIP = ip, Terminating = False, pConditions = [(''Ready'', ConditionTrue)]\<rparr>"

definition replica_state :: "int \<Rightarrow> LagState" where
  "replica_state lag =
     \<lparr>LSRole = ''slave'', LinkUp = True, LagBytes = lag, MasterReplOffset = 0, HaveMasterOffset = False,
      MasterHost = [], SlaveReplOffset = 0, HaveSlaveOffset = False\<rparr>"

definition lag_table :: "string \<Rightarrow> LagState option" where
  "lag_table addr =
     (if addr = ''10.0.0.1:6379'' then Some (replica_state 40)
      else if addr = ''10.0.0.2:6379'' then Some (replica_state 7) else None)"

lemma example_addrs:
  "JoinHostPort ''10.0.0.1'' (itoa DefaultPort) = ''10.0.0.1:6379''"
  "JoinHostPort ''10.0.0.2'' (itoa DefaultPort) = ''10.0.0.2:6379''"
  by (simp_all add: JoinHostPort_def DefaultPort_def itoa_def digits_of_nat.simps)

lemma example_scores:
  "scoreOne lag_table 10000 (pod_at ''v-1'' ''10.0.0.1'' ls) = Some (pod_at ''v-1'' ''10.0.0.1'' ls, 40)"
  "scoreOne lag_table 10000 (pod_at ''v-2'' ''10.0.0.2'' ls) = Some (pod_at ''v-2'' ''10.0.0.2'' ls, 7)"
  unfolding scoreOne_def pod_at_def Pod.simps example_addrs lag_table_def
  by (simp_all add: replica_state_def)

theorem candidate_best_witness:
  "pickPromotionCandidate lag_table [pod_at ''v-2'' ''10.0.0.2'' [], pod_at ''v-1'' ''10.0.0.1'' []] 10000 =
     Some (pod_at ''v-2'' ''10.0.0.2'' [])"
proof -
  let ?cs = "[pod_at ''v-1'' ''10.0.0.1'' [], pod_at ''v-2'' ''10.0.0.2'' []]"
  let ?cs' = "[pod_at ''v-2'' ''10.0.0.2'' [], pod_at ''v-1'' ''10.0.0.1'' []]"
  have d: "distinct (map pName ?cs)" by (simp add: pod_at_def)
  have m: "mset ?cs' = mset ?cs" by simp
  have "pickPromotionCandidate lag_table ?cs' 10000 = pickPromotionCandidate lag_table ?cs 10000"
    using candidate_best[OF d m, of lag_table 10000] by blast
  also have "\<dots> = Some (pod_at ''v-2'' ''10.0.0.2'' [])"
    by (simp add: pickPromotionCandidate_def map_filter_simps example_scores pair_le insort_key.simps Let_def)
  finally show ?thesis .
qed

text \<open>
  A truncated reply looks caught up. A replica whose link is up and whose INFO reply carries no
  \<^verbatim>\<open>slave_repl_offset\<close> line is scored with lag zero, however large the master's offset in the same
  reply, so it passes the offset preflight under every bound and no candidate is preferred to it
  except by name.
\<close>

theorem truncated_reply_wins:
  assumes "\<forall>raw\<in>set (Split body (CHR 0x0A)). line_key raw \<noteq> Some ''slave_repl_offset''"
    and "LinkUp (parseInfoReplication body)"
    and "f (JoinHostPort (PodIP p) (itoa DefaultPort)) = Some (parseInfoReplication body)"
    and "0 \<le> m"
  shows "scoreOne f m p = Some (p, 0)"
  using no_slave_offset_no_lag[OF assms(1)] assms(2-4) by (simp add: scoreOne_def)

definition truncated_info :: string where
  "truncated_info =
     info_text [kv ''role'' ''slave'', kv ''master_link_status'' ''up'', kv ''master_repl_offset'' ''900000000'']"

theorem truncated_reply_wins_witness:
  "scoreOne (\<lambda>addr. Some (parseInfoReplication truncated_info)) 10000 (pod_at ''v-1'' ''10.0.0.1'' []) =
     Some (pod_at ''v-1'' ''10.0.0.1'' [], 0) \<and>
   MasterReplOffset (parseInfoReplication truncated_info) = 900000000"
proof -
  have a: "\<forall>raw\<in>set (Split truncated_info (CHR 0x0A)). line_key raw \<noteq> Some ''slave_repl_offset''"
    by code_simp
  have pl: "\<forall>l\<in>set [kv ''role'' ''slave'', kv ''master_link_status'' ''up'',
      kv ''master_repl_offset'' ''900000000'']. plain l" by (simp add: plain_def kv_def)
  have n: "atoi ''900000000'' = Some 900000000"
    by (simp add: parse_nat_def is_digit_def digit_val_def in_duration_def window_consts)
  have st: "parseInfoReplication truncated_info =
      info_result (info_field ''master_repl_offset'' ''900000000'' (info_field ''master_link_status'' ''up''
        (info_field ''role'' ''slave'' info_vars0)))"
    unfolding truncated_info_def parse_lines[OF pl] by (simp add: info_line_kv plain_def)
  have b: "LinkUp (parseInfoReplication truncated_info)"
    and c: "MasterReplOffset (parseInfoReplication truncated_info) = 900000000"
    unfolding st by (simp_all add: info_field_def info_vars0_def info_result_def RoleMaster_def n Let_def del: atoi.simps)
  show ?thesis using truncated_reply_wins[OF a b, of "\<lambda>_. Some (parseInfoReplication truncated_info)"] c by simp
qed

section \<open>Lemmas on the dispatcher\<close>

lemma T14_row:
  "applyFSM StateRolloutPrimary EventReconcileTick (noGuards\<lparr>QuorumOK := True, CandidateReplicaReady := True\<rparr>) =
     ([''FailoverInitiated''], StateFailoverInFlight, 0, True)"
  by (simp add: applyFSM_def noGuards_def Apply_def NewMachine_def defaultTransitions_def fsm_rows emits_def)

lemma T15_row:
  "applyFSM StateRolloutPrimary EventReconcileTick (noGuards\<lparr>QuorumOK := True, CandidateReplicaReady := False\<rparr>) =
     ([''PrimaryRolloutBlocked''], StateDegraded, 0, True)"
  by (simp add: applyFSM_def noGuards_def Apply_def NewMachine_def defaultTransitions_def fsm_rows emits_def)

lemma act_simps [simp]:
  "dsActs (act a w) = dsActs w @ [a]" "dsStatus (act a w) = dsStatus w" "dsStored (act a w) = dsStored w"
  "dsPods (act a w) = dsPods w" "dsMem (act a w) = dsMem w"
  by (simp_all add: act_def)

lemma clearMarker_simps [simp]:
  "dsActs (clearMarker merge ok w) = dsActs w @ [ClearMarker]" "dsPods (clearMarker merge ok w) = dsPods w"
  "dsMem (clearMarker merge ok w) = dsMem w"
  "(dsStatus (clearMarker merge ok w), dsStored (clearMarker merge ok w)) =
     clearFailoverDispatch merge ok (dsStatus w, dsStored w)"
  by (simp_all add: clearMarker_def split: prod.splits)

lemma is_primary_label: "is_primary p \<Longrightarrow> map_of (pLabels p) RoleLabel \<noteq> None"
  by (auto simp: label_def split: option.splits)

lemma role_delLabel [simp]: "\<not> is_primary (delLabel RoleLabel p)"
  by simp

lemma name_delLabel [simp]: "pName (delLabel k p) = pName p"
  by (simp add: delLabel_def)

lemma persist_ok [simp]: "snd (persistFailoverDispatch merge ok addr epoch d vs) = ok"
  by (simp add: persistFailoverDispatch_def statusPatch_def Let_def split: prod.splits)

lemmas dispatch_simps = handOff_def stripPrimaryLabel_def restorePrimaryLabel_def fsmEvents_def T14_row
  persistFailoverDispatch_def statusPatch_def Let_def

lemma handOff_acts:
  assumes "is_primary p"
  shows "dsActs (fst (handOff merge env snap p w)) =
    dsActs w @
      (if \<not> persistOk env then []
       else if \<not> stripOk env then [PersistMarker, SetLatch, ClearLatch, ClearMarker]
       else [PersistMarker, SetLatch, StripLabel (pName p), SendFailover] @
         (if envFailover env = IssueErr
          then (if restoreOk env then [RestoreLabel (pName p)] else []) @ [ClearMarker, SetCooldown]
          else [EmitFSM ''FailoverInitiated'']))"
  using is_primary_label[OF assms] by (auto simp: dispatch_simps)

lemma handOff_result:
  assumes "is_primary p"
  shows "snd (handOff merge env snap p w) \<longleftrightarrow> persistOk env \<and> stripOk env \<and> envFailover env \<noteq> IssueErr"
  using is_primary_label[OF assms] by (auto simp: dispatch_simps)

lemma failoverLatchActive_pure:
  "snd (failoverLatchActive now a e s) = failoverLatchActivePure now a e s"
  by (simp add: failoverLatchActive_def failoverLatchActivePure_def split: option.splits)

text \<open>When the dispatcher hands off, and to what state.\<close>

definition cleared :: "gotime \<Rightarrow> Snapshot \<Rightarrow> dispatchState \<Rightarrow> dispatchState" where
  "cleared now snap w =
     w\<lparr>dsMem := fst (failoverLatchActive now (Addr (Primary snap)) (Epoch (Primary snap)) (dsMem w))\<rparr>"

definition may_hand_off :: "dispatchEnv \<Rightarrow> Valkey \<Rightarrow> State \<Rightarrow> dispatchState \<Rightarrow> Snapshot \<Rightarrow> Pod \<Rightarrow> Pod \<Rightarrow> bool" where
  "may_hand_off env v state w snap p c \<longleftrightarrow>
     state = StateRolloutPrimary \<and> envObserver env = Some snap \<and> Present snap \<and>
     OPQuorumOK (Primary snap) \<and> \<not> snapshotStale snap (nowStale env) maxRolloutSnapshotAge \<and>
     \<not> failoverLatchActivePure (nowLatch env) (Addr (Primary snap)) (Epoch (Primary snap)) (dsMem w) \<and>
     (\<exists>pods. envListed env = Some pods \<and> p \<in> set pods \<and> is_primary p \<and>
        pickPromotionCandidate (envLag env) (filter viable pods) (rolloutMaxLagBytes v) = Some c)"

lemma refuse_simps [simp]:
  "dsActs (fst (refuse w)) = dsActs w @ [EmitNoSuitableReplica, EmitFSM ''PrimaryRolloutBlocked'']"
  "dsPods (fst (refuse w)) = dsPods w" "dsStored (fst (refuse w)) = dsStored w" "dsMem (fst (refuse w)) = dsMem w"
  by (simp_all add: refuse_def fsmEvents_def T15_row)

definition quiet :: "dispatchState \<Rightarrow> dispatchState \<Rightarrow> bool" where
  "quiet w w' \<longleftrightarrow>
     dsPods w' = dsPods w \<and> dsStored w' = dsStored w \<and>
     dsActs w' \<in> (@) (dsActs w) ` {[], [EmitFailoverDeferredStale],
       [EmitNoSuitableReplica, EmitFSM ''PrimaryRolloutBlocked'']}"

lemma rollout_dispatch_cases:
  "(\<exists>snap p c. may_hand_off env v state w snap p c \<and>
      runPrimaryRolloutDispatch merge env v state w = handOff merge env snap p (cleared (nowLatch env) snap w)) \<or>
   quiet w (fst (runPrimaryRolloutDispatch merge env v state w))"
proof (cases "envObserver env")
  case None
  then show ?thesis by (simp add: runPrimaryRolloutDispatch_def quiet_def)
next
  case (Some snap)
  let ?a = "Addr (Primary snap)" and ?e = "Epoch (Primary snap)"
  let ?w1 = "cleared (nowLatch env) snap w"
  consider (off) "state \<noteq> StateRolloutPrimary \<or> \<not> Present snap \<or> \<not> OPQuorumOK (Primary snap)"
    | (stale) "snapshotStale snap (nowStale env) maxRolloutSnapshotAge"
    | (held) "failoverLatchActivePure (nowLatch env) ?a ?e (dsMem w)"
    | (nopick) "classifyPrimaryRolloutPods (envListed env) = None \<or>
        (\<exists>cs. classifyPrimaryRolloutPods (envListed env) = Some (None, cs))"
    | (go) p cs where "state = StateRolloutPrimary" "Present snap" "OPQuorumOK (Primary snap)"
        "\<not> snapshotStale snap (nowStale env) maxRolloutSnapshotAge"
        "\<not> failoverLatchActivePure (nowLatch env) ?a ?e (dsMem w)"
        "classifyPrimaryRolloutPods (envListed env) = Some (Some p, cs)"
    by (metis option.exhaust prod.exhaust)
  then show ?thesis
  proof cases
    case off
    with Some show ?thesis by (auto simp: runPrimaryRolloutDispatch_def quiet_def)
  next
    case stale
    with Some show ?thesis by (auto simp: runPrimaryRolloutDispatch_def quiet_def)
  next
    case held
    with Some show ?thesis
      by (auto simp: runPrimaryRolloutDispatch_def quiet_def failoverLatchActive_pure[symmetric] Let_def
          split: prod.splits)
  next
    case nopick
    with Some show ?thesis
      by (auto simp: runPrimaryRolloutDispatch_def quiet_def Let_def split: prod.splits)
  next
    case go
    obtain pods where pods: "envListed env = Some pods" "p \<in> set pods" "is_primary p" "cs = filter viable pods"
      using classify_primary[OF go(6)] by blast
    have fl: "failoverLatchActive (nowLatch env) ?a ?e (dsMem w) = (dsMem ?w1, False)"
      using go(5) by (simp add: prod_eq_iff failoverLatchActive_pure cleared_def)
    have w1: "w\<lparr>dsMem := dsMem ?w1\<rparr> = ?w1" by (simp add: cleared_def)
    have run: "runPrimaryRolloutDispatch merge env v state w =
      (if cs = [] then refuse ?w1
       else (case pickPromotionCandidate (envLag env) cs (rolloutMaxLagBytes v) of
               None \<Rightarrow> refuse ?w1 | Some c \<Rightarrow> handOff merge env snap p ?w1))"
      using Some go(1-4,6) by (simp add: runPrimaryRolloutDispatch_def fl w1 Let_def split: option.split)
    have pick0: "cs = [] \<Longrightarrow> pickPromotionCandidate (envLag env) cs (rolloutMaxLagBytes v) = None"
      by (simp add: pick_None)
    show ?thesis
    proof (cases "pickPromotionCandidate (envLag env) cs (rolloutMaxLagBytes v)")
      case None
      then show ?thesis using run by (simp add: quiet_def cleared_def)
    next
      case (Some c)
      with pick0 have "cs \<noteq> []" by auto
      with Some run have "runPrimaryRolloutDispatch merge env v state w = handOff merge env snap p ?w1" by simp
      moreover have "may_hand_off env v state w snap p c"
        using go \<open>envObserver env = Some snap\<close> pods Some by (auto simp: may_hand_off_def)
      ultimately show ?thesis by blast
    qed
  qed
qed

lemma cleared_simps [simp]:
  "dsActs (cleared now snap w) = dsActs w" "dsStatus (cleared now snap w) = dsStatus w"
  "dsStored (cleared now snap w) = dsStored w" "dsPods (cleared now snap w) = dsPods w"
  by (simp_all add: cleared_def)

lemma quiet_no_strip: "quiet w w' \<Longrightarrow> dsActs w = [] \<Longrightarrow> StripLabel n \<notin> set (dsActs w') \<and> SendFailover \<notin> set (dsActs w')"
  by (auto simp: quiet_def)

lemma strip_hands_off:
  assumes "dsActs w = []" and "StripLabel n \<in> set (dsActs (fst (runPrimaryRolloutDispatch merge env v state w)))
      \<or> SendFailover \<in> set (dsActs (fst (runPrimaryRolloutDispatch merge env v state w)))"
  shows "\<exists>snap p c. may_hand_off env v state w snap p c \<and> persistOk env \<and> stripOk env \<and>
    runPrimaryRolloutDispatch merge env v state w = handOff merge env snap p (cleared (nowLatch env) snap w)"
proof -
  obtain snap p c where h: "may_hand_off env v state w snap p c"
    "runPrimaryRolloutDispatch merge env v state w = handOff merge env snap p (cleared (nowLatch env) snap w)"
    using rollout_dispatch_cases[of env v state w merge] quiet_no_strip[OF _ assms(1)] assms(2) by blast
  have "is_primary p" using h(1) by (auto simp: may_hand_off_def)
  with assms h(2) have "persistOk env \<and> stripOk env"
    by (auto simp: handOff_acts split: if_splits)
  with h show ?thesis by blast
qed

lemma fresh_age: "\<not> snapshotStale snap now maxRolloutSnapshotAge \<Longrightarrow> now - LastPolledAt (Primary snap) \<le> 30 * Second"
  by (simp add: snapshotStale_def maxRolloutSnapshotAge_def DefaultPollInterval_def Sub_def window_consts
      max_def min_def split: if_splits)

text \<open>
  C2. What precedes a failover. If one pass of the dispatcher strips the primary label or issues
  SENTINEL FAILOVER, then the state is RolloutPrimary, the observer confirms a quorum whose last
  live poll is at most thirty seconds old, no earlier failover is in flight, the stripped pod is one
  that carries the primary label, and some other pod is ready, not terminating and passed the
  offset preflight. The effects come in a fixed order: the marker is durable and the latch is set
  before the label is stripped, and the label is stripped before the command is sent. After a failed
  command the marker is cleared and the cool-down set; otherwise FailoverInitiated is emitted.
\<close>

theorem handoff_fenced:
  assumes "dsActs w = []"
    and "StripLabel n \<in> set (dsActs (fst (runPrimaryRolloutDispatch merge env v state w))) \<or>
         SendFailover \<in> set (dsActs (fst (runPrimaryRolloutDispatch merge env v state w)))"
  shows "state = StateRolloutPrimary \<and> persistOk env \<and>
    (\<exists>snap p c pods.
       envObserver env = Some snap \<and> OPQuorumOK (Primary snap) \<and>
       nowStale env - LastPolledAt (Primary snap) \<le> 30 * Second \<and>
       \<not> failoverLatchActivePure (nowLatch env) (Addr (Primary snap)) (Epoch (Primary snap)) (dsMem w) \<and>
       envListed env = Some pods \<and> p \<in> set pods \<and> is_primary p \<and>
       c \<in> set pods \<and> viable c \<and> scoreOne (envLag env) (rolloutMaxLagBytes v) c \<noteq> None \<and>
       dsActs (fst (runPrimaryRolloutDispatch merge env v state w)) =
         [PersistMarker, SetLatch, StripLabel (pName p), SendFailover] @
         (if envFailover env = IssueErr
          then (if restoreOk env then [RestoreLabel (pName p)] else []) @ [ClearMarker, SetCooldown]
          else [EmitFSM ''FailoverInitiated'']))"
proof -
  obtain snap p c where h: "may_hand_off env v state w snap p c" "persistOk env" "stripOk env"
    "runPrimaryRolloutDispatch merge env v state w = handOff merge env snap p (cleared (nowLatch env) snap w)"
    using strip_hands_off[OF assms] by blast
  obtain pods where g: "state = StateRolloutPrimary" "envObserver env = Some snap" "OPQuorumOK (Primary snap)"
    "\<not> snapshotStale snap (nowStale env) maxRolloutSnapshotAge"
    "\<not> failoverLatchActivePure (nowLatch env) (Addr (Primary snap)) (Epoch (Primary snap)) (dsMem w)"
    "envListed env = Some pods" "p \<in> set pods" "is_primary p"
    "pickPromotionCandidate (envLag env) (filter viable pods) (rolloutMaxLagBytes v) = Some c"
    using h(1) unfolding may_hand_off_def by blast
  have c: "c \<in> set pods" "viable c" "scoreOne (envLag env) (rolloutMaxLagBytes v) c \<noteq> None"
    using pick_Some[OF g(9)] by auto
  have acts: "dsActs (fst (runPrimaryRolloutDispatch merge env v state w)) =
         [PersistMarker, SetLatch, StripLabel (pName p), SendFailover] @
         (if envFailover env = IssueErr
          then (if restoreOk env then [RestoreLabel (pName p)] else []) @ [ClearMarker, SetCooldown]
          else [EmitFSM ''FailoverInitiated''])"
    using h(2-4) assms(1) by (simp add: handOff_acts[OF g(8)])
  show ?thesis
    using g h(2) c acts fresh_age[OF g(4)] by blast
qed

text \<open>A three-pod CR in the hand-off state, for the examples.\<close>

definition emptyStatus :: ValkeyStatus where
  "emptyStatus = \<lparr>Conditions = [], StatusPhase = [], Rollout = None, StatusPrimaryPod = []\<rparr>"

definition example_cr :: Valkey where
  "example_cr =
     \<lparr>ObjName = ''v'', Namespace = ''ns'', Generation = 1,
      Spec = \<lparr>SpecMode = ModeSentinel,
              SpecValkey = \<lparr>Replicas = 3, ReadinessGate = \<lparr>Enabled = None, GateMaxLagBytes = None\<rparr>\<rparr>,
              SpecSentinel = None, BootstrapNode = None,
              SpecRollout = \<lparr>MaxUnavailable = 1, FailoverGracePeriodSeconds = 0,
                             ReplicaReadyTimeoutSeconds = 300, MaxLagBytes = 0\<rparr>\<rparr>,
      Status = emptyStatus\<rparr>"

definition example_pods :: "Pod list" where
  "example_pods =
     [pod_at ''v-0'' ''10.0.0.9'' [(RoleLabel, roleValuePrimary)],
      pod_at ''v-1'' ''10.0.0.1'' [(RoleLabel, roleValueReplica)],
      pod_at ''v-2'' ''10.0.0.2'' [(RoleLabel, roleValueReplica)]]"

definition example_snap :: "gotime \<Rightarrow> Snapshot" where
  "example_snap t =
     \<lparr>Present = True,
      Primary = zeroObservedPrimary\<lparr>Addr := ''10.0.0.9:6379'', Epoch := 4, Quorum := QuorumStatusOK,
        OPQuorumOK := True, UpdatedAt := t, LastPolledAt := t\<rparr>\<rparr>"

definition example_env :: "issueResult \<Rightarrow> bool \<Rightarrow> dispatchEnv" where
  "example_env res restored =
     \<lparr>envObserver = Some (example_snap (100 * Second)), envListed = Some example_pods, envLag = lag_table,
      persistOk = True, stripOk = True, envFailover = res, restoreOk = restored, clearOk = True,
      nowStale = 110 * Second, nowLatch = 110 * Second, nowStrip = 111 * Second,
      nowCooldown = 112 * Second\<rparr>"

definition example_world :: dispatchState where
  "example_world =
     \<lparr>dsStatus = emptyStatus, dsStored = emptyStatus, dsPods = example_pods, dsMem = zeroPerCR, dsActs = []\<rparr>"

lemma example_pick:
  "pickPromotionCandidate lag_table
     [pod_at ''v-1'' ''10.0.0.1'' ls, pod_at ''v-2'' ''10.0.0.2'' ls] 10000 = Some (pod_at ''v-2'' ''10.0.0.2'' ls)"
  by (simp add: pickPromotionCandidate_def map_filter_simps example_scores pair_le insort_key.simps Let_def)

lemma example_viable:
  "filter viable example_pods =
     [pod_at ''v-1'' ''10.0.0.1'' [(RoleLabel, roleValueReplica)],
      pod_at ''v-2'' ''10.0.0.2'' [(RoleLabel, roleValueReplica)]]"
  "filter is_primary (rev example_pods) = [pod_at ''v-0'' ''10.0.0.9'' [(RoleLabel, roleValuePrimary)]]"
  by (simp_all add: example_pods_def viable_def label_def pod_at_def podReady_def)

lemma example_classify:
  "classifyPrimaryRolloutPods (Some example_pods) =
     Some (Some (pod_at ''v-0'' ''10.0.0.9'' [(RoleLabel, roleValuePrimary)]),
       [pod_at ''v-1'' ''10.0.0.1'' [(RoleLabel, roleValueReplica)],
        pod_at ''v-2'' ''10.0.0.2'' [(RoleLabel, roleValueReplica)]])"
  by (simp add: classifyPrimaryRolloutPods_def classifyLoop_eq example_viable)

lemma example_run:
  "runPrimaryRolloutDispatch merge (example_env res restored) example_cr StateRolloutPrimary example_world =
     handOff merge (example_env res restored) (example_snap (100 * Second))
       (pod_at ''v-0'' ''10.0.0.9'' [(RoleLabel, roleValuePrimary)]) example_world"
proof -
  have fresh: "\<not> snapshotStale (example_snap (100 * Second)) (110 * Second) maxRolloutSnapshotAge"
    by (simp add: snapshotStale_def example_snap_def maxRolloutSnapshotAge_def DefaultPollInterval_def
        Sub_def window_consts)
  have lag: "rolloutMaxLagBytes example_cr = 10000"
    by (simp add: rolloutMaxLagBytes_def example_cr_def)
  have snap: "Present (example_snap t)" "OPQuorumOK (Primary (example_snap t))" for t
    by (simp_all add: example_snap_def)
  have latch: "failoverLatchActive n a e (dsMem example_world) = (dsMem example_world, False)" for n a e
    by (simp add: failoverLatchActive_def example_world_def zeroPerCR_def)
  show ?thesis
    by (simp add: runPrimaryRolloutDispatch_def example_env_def fresh snap latch example_classify lag example_pick)
qed

lemma example_primary: "is_primary (pod_at ''v-0'' ''10.0.0.9'' [(RoleLabel, roleValuePrimary)])"
  by (simp add: label_def pod_at_def)

lemma example_acts:
  "dsActs (fst (runPrimaryRolloutDispatch merge (example_env res restored) example_cr StateRolloutPrimary example_world)) =
     [PersistMarker, SetLatch, StripLabel ''v-0'', SendFailover] @
     (if res = IssueErr then (if restored then [RestoreLabel ''v-0''] else []) @ [ClearMarker, SetCooldown]
      else [EmitFSM ''FailoverInitiated''])"
  unfolding example_run handOff_acts[OF example_primary]
  by (simp add: example_env_def example_world_def pod_at_def)

theorem handoff_fenced_witness:
  "\<exists>snap p c pods. envListed (example_env IssueOK True) = Some pods \<and>
     envObserver (example_env IssueOK True) = Some snap \<and> OPQuorumOK (Primary snap) \<and>
     p \<in> set pods \<and> is_primary p \<and> c \<in> set pods \<and> viable c"
proof -
  have a: "dsActs example_world = []" by (simp add: example_world_def)
  have s: "StripLabel ''v-0'' \<in> set (dsActs (fst (runPrimaryRolloutDispatch statusMerge
      (example_env IssueOK True) example_cr StateRolloutPrimary example_world)))"
    by (simp add: example_acts)
  show ?thesis using handoff_fenced[OF a disjI1[OF s]] by blast
qed

section \<open>Surviving a restart\<close>

lemma persist_durable:
  assumes "wire_time wire" and "merge_patch wire merge" and "dispatchOf orig = dispatchOf stored"
  shows "\<exists>st d. fst (persistFailoverDispatch merge True addr epoch deadline (orig, stored)) = (st, st) \<and>
    dispatchOf st = Some \<lparr>PreStripAddr = addr, FDDeadline = Some d, PreStripEpoch = epoch\<rparr> \<and>
    d \<le> deadline \<and> deadline < d + Second"
proof -
  let ?m = "\<lparr>PreStripAddr = addr, FDDeadline = Some deadline, PreStripEpoch = epoch\<rparr>"
  let ?new = "updRollout (\<lambda>r. r\<lparr>FailoverDispatch := Some ?m\<rparr>) orig"
  have w: "wire deadline \<le> deadline" "deadline < wire deadline + Second"
    using assms(1) by (simp_all add: wire_time_def)
  have "dispatchOf (merge orig ?new stored) = Some ?m \<or>
        dispatchOf (merge orig ?new stored) = Some (wireDispatch wire ?m)"
    using merge_patchD(1)[OF assms(2), of orig ?new stored] assms(3) by (auto simp: merged_def)
  then show ?thesis using w
    by (auto simp: persistFailoverDispatch_def statusPatch_def wireDispatch_def Second_def Let_def)
qed

definition still_electing :: "Snapshot option \<Rightarrow> string \<Rightarrow> int \<Rightarrow> bool" where
  "still_electing ob addr epoch \<longleftrightarrow>
     (case observedPrimaryAddrEpoch ob of
        (a, e) \<Rightarrow> a = [] \<or> a = addr \<or> 0 < epoch \<and> e < epoch)"

lemma latchActive_iff:
  "latchActive l now a e \<longleftrightarrow>
     now \<le> latchDeadline l \<and> (a = [] \<or> a = preStripAddr l \<or> 0 < preStripEpoch l \<and> e < preStripEpoch l)"
  by (auto simp: latchActive_def)

lemma maintain_rehydrates:
  assumes "dispatchOf st = Some \<lparr>PreStripAddr = addr, FDDeadline = Some d, PreStripEpoch = epoch\<rparr>"
    and "failoverLatch m = None" and "now1 < d" and "now2 \<le> d" and "still_electing ob addr epoch"
  shows "maintainFailoverDispatchMarker merge ok ob now1 now2 ((st, st), m) =
    ((st, st), m\<lparr>failoverLatch := Some \<lparr>preStripAddr = addr, latchDeadline = d, preStripEpoch = epoch\<rparr>\<rparr>)"
proof -
  obtain a e where o: "observedPrimaryAddrEpoch ob = (a, e)" by (cases "observedPrimaryAddrEpoch ob")
  let ?l = "\<lparr>preStripAddr = addr, latchDeadline = d, preStripEpoch = epoch\<rparr>"
  have "latchActive ?l now2 a e" using assms(4,5) o by (auto simp: latchActive_iff still_electing_def)
  then show ?thesis
    using assms(1-3) by (simp add: maintainFailoverDispatchMarker_def failoverLatchActive_def o
        failoverLatchSetWithDeadline_def setFailoverLatch_def Let_def)
qed

lemma maintain_expires:
  assumes "dispatchOf st = Some \<lparr>PreStripAddr = addr, FDDeadline = Some d, PreStripEpoch = epoch\<rparr>"
    and "failoverLatch m = None" and "d \<le> now1" and "merge_patch wire merge"
  shows "dispatchOf (snd (fst (maintainFailoverDispatchMarker merge True ob now1 now2 ((st, st), m)))) = None"
proof -
  have r: "Rollout st \<noteq> None" using assms(1) by (auto simp: rolloutOf_def emptyRolloutStatus_def split: option.splits)
  have "dispatchOf (merge st (updRollout (\<lambda>r. r\<lparr>FailoverDispatch := None\<rparr>) st) st) = None"
    using merge_patchD(1)[OF assms(4), of st "updRollout (\<lambda>r. r\<lparr>FailoverDispatch := None\<rparr>) st" st] assms(1)
    by (simp add: merged_def)
  with assms(1-3) r show ?thesis
    by (simp add: maintainFailoverDispatchMarker_def failoverLatchActive_def clearFailoverDispatch_def
        statusPatch_def Let_def split: prod.splits)
qed

lemma handOff_stored:
  assumes "is_primary p" and "persistOk env" and "stripOk env" and "envFailover env \<noteq> IssueErr"
  shows "dsStored (fst (handOff merge env snap p w)) =
    snd (fst (persistFailoverDispatch merge True (Addr (Primary snap)) (Epoch (Primary snap))
      (nowStrip env + failoverInFlightLatchTTL) (dsStatus w, dsStored w)))"
  using is_primary_label[OF assms(1)] assms(2-4) by (auto simp: dispatch_simps)

text \<open>
  C3. The election window survives a restart. Let a pass strip the label and dispatch the failover,
  and let the operator die at any moment after the marker was written, losing all its memory. A new
  process that reads the stored status finds the marker and rebuilds the latch with the pre-strip
  address and epoch. The deadline is the dispatched one, less at most the second that the
  serialisation of the time drops. So as long as the observer has not moved to a primary with a
  config epoch at least as new, the window stays closed until 209 seconds after the strip. Once the
  stored deadline has passed, a new process removes the marker, so the hold is bounded.
\<close>

theorem crash_keeps_suppression:
  assumes "wire_time wire" and "merge_patch wire merge"
    and "dsActs w = []" and "dispatchOf (dsStatus w) = dispatchOf (dsStored w)"
    and "envObserver env = Some snap" and "envFailover env \<noteq> IssueErr"
    and "StripLabel n \<in> set (dsActs (fst (runPrimaryRolloutDispatch merge env v state w)))"
    and "failoverLatch m = None"
  shows "\<exists>d st. st = dsStored (fst (runPrimaryRolloutDispatch merge env v state w)) \<and>
    d \<le> nowStrip env + 210 * Second \<and> nowStrip env + 209 * Second < d \<and>
    (\<forall>ok ob now1 now2. now1 < d \<and> now2 \<le> d \<and> still_electing ob (Addr (Primary snap)) (Epoch (Primary snap)) \<longrightarrow>
       maintainFailoverDispatchMarker merge ok ob now1 now2 ((st, st), m) =
         ((st, st), m\<lparr>failoverLatch := Some \<lparr>preStripAddr = Addr (Primary snap), latchDeadline = d,
                                             preStripEpoch = Epoch (Primary snap)\<rparr>\<rparr>)) \<and>
    (\<forall>ob now1 now2. d \<le> now1 \<longrightarrow>
       dispatchOf (snd (fst (maintainFailoverDispatchMarker merge True ob now1 now2 ((st, st), m)))) = None)"
proof -
  obtain snap' p c where h: "may_hand_off env v state w snap' p c" "persistOk env" "stripOk env"
    "runPrimaryRolloutDispatch merge env v state w = handOff merge env snap' p (cleared (nowLatch env) snap' w)"
    using strip_hands_off[OF assms(3) disjI1[OF assms(7)]] by blast
  have p: "is_primary p" and s: "snap' = snap" using h(1) assms(5) by (auto simp: may_hand_off_def)
  define st where "st = dsStored (fst (runPrimaryRolloutDispatch merge env v state w))"
  obtain d where d: "dispatchOf st = Some \<lparr>PreStripAddr = Addr (Primary snap), FDDeadline = Some d,
      PreStripEpoch = Epoch (Primary snap)\<rparr>" "d \<le> nowStrip env + failoverInFlightLatchTTL"
      "nowStrip env + failoverInFlightLatchTTL < d + Second"
    using persist_durable[OF assms(1,2,4), of "Addr (Primary snap)" "Epoch (Primary snap)"
        "nowStrip env + failoverInFlightLatchTTL"]
    unfolding st_def h(4) s handOff_stored[OF p h(2,3) assms(6)] cleared_simps by auto
  show ?thesis
    using maintain_rehydrates[OF d(1) assms(8)] maintain_expires[OF d(1) assms(8) _ assms(2)] d(2,3)
    unfolding failoverInFlightLatchTTL_def
    by (intro exI[of _ d] exI[of _ st] conjI) (auto simp: st_def Second_def)
qed

theorem crash_keeps_suppression_witness:
  "\<exists>d st. st = dsStored (fst (runPrimaryRolloutDispatch statusMerge (example_env IssueOK True) example_cr
       StateRolloutPrimary example_world)) \<and> 320 * Second < d \<and>
     (\<forall>ok. failoverLatch (snd (maintainFailoverDispatchMarker statusMerge ok None (200 * Second) (201 * Second)
        ((st, st), zeroPerCR))) =
        Some \<lparr>preStripAddr = ''10.0.0.9:6379'', latchDeadline = d, preStripEpoch = 4\<rparr>)"
proof -
  let ?env = "example_env IssueOK True"
  have a: "dsActs example_world = []" by (simp add: example_world_def)
  have b: "dispatchOf (dsStatus example_world) = dispatchOf (dsStored example_world)"
    by (simp add: example_world_def)
  have c: "envObserver ?env = Some (example_snap (100 * Second))" "envFailover ?env \<noteq> IssueErr"
    "nowStrip ?env = 111 * Second" by (simp_all add: example_env_def)
  have s: "StripLabel ''v-0'' \<in> set (dsActs (fst (runPrimaryRolloutDispatch statusMerge ?env example_cr
      StateRolloutPrimary example_world)))" by (simp add: example_acts)
  have l: "failoverLatch zeroPerCR = None" by (simp add: zeroPerCR_def)
  have e: "still_electing None x y" for x y by (simp add: still_electing_def observedPrimaryAddrEpoch_def)
  have sn: "Addr (Primary (example_snap t)) = ''10.0.0.9:6379''" "Epoch (Primary (example_snap t)) = 4" for t
    by (simp_all add: example_snap_def)
  obtain d st where h: "st = dsStored (fst (runPrimaryRolloutDispatch statusMerge ?env example_cr
      StateRolloutPrimary example_world))" "nowStrip ?env + 209 * Second < d"
    "\<forall>ok ob now1 now2. now1 < d \<and> now2 \<le> d \<and>
       still_electing ob (Addr (Primary (example_snap (100 * Second)))) (Epoch (Primary (example_snap (100 * Second)))) \<longrightarrow>
       maintainFailoverDispatchMarker statusMerge ok ob now1 now2 ((st, st), zeroPerCR) =
         ((st, st), zeroPerCR\<lparr>failoverLatch := Some \<lparr>preStripAddr = Addr (Primary (example_snap (100 * Second))),
            latchDeadline = d, preStripEpoch = Epoch (Primary (example_snap (100 * Second)))\<rparr>\<rparr>)"
    using crash_keeps_suppression[OF wire_time_floorSecond merge_patch_statusMerge a b c(1,2) s l] by blast
  have dd: "320 * Second < d" using h(2) c(3) by (simp add: Second_def)
  then have "failoverLatch (snd (maintainFailoverDispatchMarker statusMerge ok None (200 * Second) (201 * Second)
        ((st, st), zeroPerCR))) = Some \<lparr>preStripAddr = ''10.0.0.9:6379'', latchDeadline = d, preStripEpoch = 4\<rparr>" for ok
    using h(3) e by (simp add: sn Second_def)
  with h(1) dd show ?thesis by blast
qed

end
