(* ===== verification/Role_Labels.thy ===== *)
theory Role_Labels
  imports Failover_Dispatch
begin

text \<open>
  Phase 7 of the reconcile, \<^verbatim>\<open>reconcileRoleLabels\<close> and \<^verbatim>\<open>desiredRolesForCR\<close> of
  \<^verbatim>\<open>internal/controller/valkey_controller.go\<close>: which role each pod should carry, and the patches
  that bring the labels there, promotions before demotions. The API server may refuse any label
  patch, which ends the pass: \<open>accept pod want\<close> is its answer. The map from pod names to roles is an
  association list, nil being the empty one. The readiness-gate mutation and CLIENT KILL, both best
  effort, are not part of the model beyond the list of demoted pods that CLIENT KILL is given.

  The lemmas: however the patches are refused, the Service never loses its last primary; accepted
  patches reach the desired labels and a second pass is silent; a primary move waits for two poll
  stamps; after a failed failover with a failed restore no pass relabels during the cool-down.
\<close>

section \<open>Desired roles\<close>

definition desiredRoleForPod :: "Pod \<Rightarrow> string \<Rightarrow> string" where
  "desiredRoleForPod p crName =
     (case map_of (pLabels p) podIndexLabel of
        Some idx \<Rightarrow> if idx = ''0'' then roleValuePrimary else roleValueReplica
      | None \<Rightarrow> if pName p = crName @ ''-0'' then roleValuePrimary else roleValueReplica)"

definition roleMap :: "(Pod \<Rightarrow> string) \<Rightarrow> Pod list \<Rightarrow> (string \<times> string) list" where
  "roleMap f pods = foldl (\<lambda>m p. AList.update (pName p) (f p) m) [] pods"

definition bootstrapRoles :: "Valkey \<Rightarrow> Pod list \<Rightarrow> (string \<times> string) list" where
  "bootstrapRoles v pods = roleMap (\<lambda>p. desiredRoleForPod p (ObjName v)) pods"

definition newPrimaryStableMinPolls :: int where
  "newPrimaryStableMinPolls = 2"

definition at_host :: "string \<Rightarrow> Pod \<Rightarrow> bool" where
  "at_host host p \<longleftrightarrow> PodIP p \<noteq> [] \<and> PodIP p = host"

fun lastName :: "(Pod \<Rightarrow> bool) \<Rightarrow> Pod list \<Rightarrow> string \<Rightarrow> string" where
  "lastName P [] n = n"
| "lastName P (p # ps) n = lastName P ps (if P p then pName p else n)"

text \<open>The result: the per-CR state, the map, whether to suppress, and the recorded events.\<close>

definition desiredRolesForCR ::
  "Valkey \<Rightarrow> Pod list \<Rightarrow> Snapshot option \<Rightarrow> gotime \<Rightarrow> perCRState \<Rightarrow>
   perCRState \<times> (string \<times> string) list \<times> bool \<times> string list" where
  "desiredRolesForCR v pods ob now s =
     (if mode_of v \<noteq> ModeSentinel \<or> ob = None then (s, bootstrapRoles v pods, False, [])
      else
        (let snap = the ob in
         if \<not> Present snap then
           (if anyValkeyPodLabelled pods then (s, [], False, []) else (s, bootstrapRoles v pods, False, []))
         else if \<not> OPQuorumOK (Primary snap) then (s, [], True, [])
         else
           (let (s1, held) = failoverLatchActive now (Addr (Primary snap)) (Epoch (Primary snap)) s in
            if held then (s1, [], True, [])
            else (case SplitHostPort (Addr (Primary snap)) of
                    None \<Rightarrow> (s1, bootstrapRoles v pods, False, [])
                  | Some (host, port) \<Rightarrow>
                      if \<not> podIPMatchesAny host pods then (s1, [], True, [''NoMasterAgreement''])
                      else
                        (let (s2, freshPolls, dwell) =
                               observePrimaryStability (Addr (Primary snap)) (LastPolledAt (Primary snap)) s1;
                             desiredPrimaryPod = lastName (at_host host) pods [];
                             currentPrimaryPod = lastName is_primary pods []
                         in if currentPrimaryPod \<noteq> [] \<and> desiredPrimaryPod \<noteq> [] \<and>
                               currentPrimaryPod \<noteq> desiredPrimaryPod \<and>
                               freshPolls < newPrimaryStableMinPolls
                            then (s2, [], True, [])
                            else (s2, roleMap (\<lambda>p. if at_host host p then roleValuePrimary
                                                   else roleValueReplica) pods, False, []))))))"

section \<open>The patches\<close>

record labelState =
  lsPods :: "Pod list"
  lsPatches :: "(string \<times> string \<times> string) list"
  lsDemoted :: "string list"

definition patchOne :: "(string \<Rightarrow> string \<Rightarrow> bool) \<Rightarrow> Pod \<Rightarrow> string \<Rightarrow> labelState \<Rightarrow> labelState \<times> bool" where
  "patchOne accept p want st =
     (if role p = want then (st, True)
      else if \<not> accept (pName p) want then (st, False)
      else (st\<lparr>lsPods := onPod (pName p) (setLabel RoleLabel want) (lsPods st),
               lsPatches := lsPatches st @ [(pName p, role p, want)]\<rparr>, True))"

fun passOne ::
  "(string \<Rightarrow> string \<Rightarrow> bool) \<Rightarrow> (string \<times> string) list \<Rightarrow> Pod list \<Rightarrow> labelState \<Rightarrow> labelState \<times> bool" where
  "passOne accept roles [] st = (st, True)"
| "passOne accept roles (p # ps) st =
     (case map_of roles (pName p) of
        None \<Rightarrow> passOne accept roles ps st
      | Some want \<Rightarrow>
          if want \<noteq> roleValuePrimary then passOne accept roles ps st
          else (case patchOne accept p want st of
                  (st', ok) \<Rightarrow> if \<not> ok then (st', False) else passOne accept roles ps st'))"

fun passTwo ::
  "(string \<Rightarrow> string \<Rightarrow> bool) \<Rightarrow> (string \<times> string) list \<Rightarrow> Pod list \<Rightarrow> labelState \<Rightarrow> labelState \<times> bool" where
  "passTwo accept roles [] st = (st, True)"
| "passTwo accept roles (p # ps) st =
     (case map_of roles (pName p) of
        None \<Rightarrow> passTwo accept roles ps st
      | Some want \<Rightarrow>
          if want = roleValuePrimary then passTwo accept roles ps st
          else (case patchOne accept p want st of
                  (st', ok) \<Rightarrow>
                    if \<not> ok then (st', False)
                    else passTwo accept roles ps
                           (if is_primary p then st'\<lparr>lsDemoted := lsDemoted st' @ [pName p]\<rparr> else st')))"

text \<open>The two passes over the listed pods; the labels they read are those of the list.\<close>

definition applyRoles ::
  "(string \<Rightarrow> string \<Rightarrow> bool) \<Rightarrow> (string \<times> string) list \<Rightarrow> Pod list \<Rightarrow> labelState \<times> bool" where
  "applyRoles accept roles pods =
     (case passOne accept roles pods \<lparr>lsPods = pods, lsPatches = [], lsDemoted = []\<rparr> of
        (st, ok) \<Rightarrow> if \<not> ok then (st, False) else passTwo accept roles pods st)"

record relabelResult =
  rlErr :: bool
  rlStatus :: "ValkeyStatus \<times> ValkeyStatus"
  rlMem :: perCRState
  rlPods :: "Pod list"
  rlPatches :: "(string \<times> string \<times> string) list"
  rlDemoted :: "string list"
  rlEvents :: "string list"

record relabelEnv =
  reMerge :: merge
  reClearOk :: bool
  reAccept :: "string \<Rightarrow> string \<Rightarrow> bool"
  reObserver :: "Snapshot option"
  reNow1 :: gotime
  reNow2 :: gotime
  reNow3 :: gotime
  reListOk :: bool
  reRelistOk :: bool

definition reconcileRoleLabels ::
  "relabelEnv \<Rightarrow> Valkey \<Rightarrow> Pod list \<Rightarrow> (ValkeyStatus \<times> ValkeyStatus) \<Rightarrow> perCRState \<Rightarrow> relabelResult" where
  "reconcileRoleLabels env v pods vs s =
     (if \<not> reListOk env then
        \<lparr>rlErr = True, rlStatus = vs, rlMem = s, rlPods = pods, rlPatches = [], rlDemoted = [], rlEvents = []\<rparr>
      else
        (let (vs1, s1) = maintainFailoverDispatchMarker (reMerge env) (reClearOk env) (reObserver env)
                           (reNow1 env) (reNow2 env) (vs, s);
             (s2, roles, suppress, evs) = desiredRolesForCR v pods (reObserver env) (reNow3 env) s1
         in if suppress then
              \<lparr>rlErr = False, rlStatus = vs1, rlMem = s2, rlPods = pods, rlPatches = [], rlDemoted = [],
               rlEvents = evs\<rparr>
            else
              (let (st, ok) = applyRoles (reAccept env) roles pods;
                   relabelled = map (\<lambda>p. ''PodLabelReconciled'') (lsPatches st);
                   down = (if lsPods st \<noteq> [] \<and> \<not> anyValkeyPodLabelled (lsPods st)
                           then [''AllValkeyPodsDown''] else []);
                   lost = (if mode_of v \<noteq> ModeStandalone \<and> lsPods st \<noteq> [] \<and> reRelistOk env \<and>
                              \<not> list_ex is_primary (lsPods st)
                           then [''ReplicationPrimaryLost''] else [])
               in \<lparr>rlErr = (\<not> ok), rlStatus = vs1, rlMem = s2, rlPods = lsPods st, rlPatches = lsPatches st,
                   rlDemoted = (if ok then lsDemoted st else []),
                   rlEvents = evs @ relabelled @ (if ok then down @ lost else [])\<rparr>)))"

section \<open>Lemmas on the passes\<close>

text \<open>Both passes are one loop over the pods they select.\<close>

fun patchAll :: "(string \<Rightarrow> string \<Rightarrow> bool) \<Rightarrow> (Pod \<times> string) list \<Rightarrow> Pod list \<Rightarrow> Pod list \<times> bool" where
  "patchAll accept [] pods = (pods, True)"
| "patchAll accept ((p, want) # todo) pods =
     (if role p = want then patchAll accept todo pods
      else if \<not> accept (pName p) want then (pods, False)
      else patchAll accept todo (onPod (pName p) (setLabel RoleLabel want) pods))"

fun todo :: "(string \<Rightarrow> bool) \<Rightarrow> (string \<times> string) list \<Rightarrow> Pod list \<Rightarrow> (Pod \<times> string) list" where
  "todo sel roles [] = []"
| "todo sel roles (p # ps) =
     (case map_of roles (pName p) of
        None \<Rightarrow> todo sel roles ps
      | Some want \<Rightarrow> if sel want then (p, want) # todo sel roles ps else todo sel roles ps)"

lemma passOne_patchAll:
  "patchAll accept (todo (\<lambda>w. w = roleValuePrimary) roles ps) (lsPods st) =
     (lsPods (fst (passOne accept roles ps st)), snd (passOne accept roles ps st))"
proof (induction ps arbitrary: st)
  case (Cons p ps)
  show ?case
  proof (cases "map_of roles (pName p)")
    case (Some want)
    show ?thesis
      using Cons.IH[of st] Cons.IH[of "st\<lparr>lsPods := onPod (pName p) (setLabel RoleLabel want) (lsPods st),
          lsPatches := lsPatches st @ [(pName p, role p, want)]\<rparr>"] Some
      by (cases "want = roleValuePrimary") (simp_all add: patchOne_def)
  qed (simp add: Cons.IH)
qed simp

lemma passTwo_patchAll:
  "patchAll accept (todo (\<lambda>w. w \<noteq> roleValuePrimary) roles ps) (lsPods st) =
     (lsPods (fst (passTwo accept roles ps st)), snd (passTwo accept roles ps st))"
proof (induction ps arbitrary: st)
  case (Cons p ps)
  show ?case
  proof (cases "map_of roles (pName p)")
    case (Some want)
    let ?st = "if is_primary p then st\<lparr>lsPods := onPod (pName p) (setLabel RoleLabel want) (lsPods st),
        lsPatches := lsPatches st @ [(pName p, role p, want)], lsDemoted := lsDemoted st @ [pName p]\<rparr>
      else st\<lparr>lsPods := onPod (pName p) (setLabel RoleLabel want) (lsPods st),
        lsPatches := lsPatches st @ [(pName p, role p, want)]\<rparr>"
    show ?thesis
      using Cons.IH[of st] Cons.IH[of ?st] Some by (cases "is_primary p") (simp_all add: patchOne_def)
  qed (simp add: Cons.IH)
qed simp

definition changed :: "(string \<Rightarrow> string \<Rightarrow> bool) \<Rightarrow> Pod list \<Rightarrow> Pod list \<Rightarrow> bool" where
  "changed P = list_all2 (\<lambda>p q. pName q = pName p \<and> PodIP q = PodIP p \<and> (role q = role p \<or> P (pName p) (role q)))"

lemma changed_refl [simp]: "changed P pods pods"
  by (simp add: changed_def list_all2_refl)

lemma changed_names:
  "changed P pods pods' \<Longrightarrow> map pName pods' = map pName pods"
  "changed P pods pods' \<Longrightarrow> map PodIP pods' = map PodIP pods"
  by (simp_all add: changed_def list_all2_conv_all_nth list_eq_iff_nth_eq)

lemma PodIP_setLabel [simp]: "PodIP (setLabel k v p) = PodIP p"
  by (simp add: setLabel_def)

lemma changed_trans: "changed P a b \<Longrightarrow> changed P b c \<Longrightarrow> changed P a c"
  unfolding changed_def by (erule list_all2_trans[rotated], assumption) auto

lemma changed_onPod: "P n w \<Longrightarrow> changed P pods (onPod n (setLabel RoleLabel w) pods)"
  by (simp add: changed_def onPod_def list_all2_conv_all_nth)

lemma patchAll_changed:
  "\<forall>(p, w)\<in>set td. P (pName p) w \<Longrightarrow> changed P pods (fst (patchAll accept td pods))"
proof (induction accept td pods rule: patchAll.induct)
  case (2 accept p want td pods)
  then show ?case using changed_trans[OF changed_onPod[of P "pName p" want pods]] by auto
qed simp

lemma changed_keeps:
  assumes "changed P pods pods'" and "q \<in> set pods" and "\<And>w. \<not> P (pName q) w"
  shows "\<exists>q'\<in>set pods'. pName q' = pName q \<and> role q' = role q"
proof -
  obtain i where i: "i < length pods" "pods ! i = q" using assms(2) by (auto simp: in_set_conv_nth)
  with assms have "pods' ! i \<in> set pods'" "pName (pods' ! i) = pName q \<and> role (pods' ! i) = role q"
    by (auto simp: changed_def list_all2_conv_all_nth)
  then show ?thesis by blast
qed

lemma changed_back:
  assumes "changed P pods pods'" and "q \<in> set pods'"
  shows "\<exists>q0\<in>set pods. pName q = pName q0 \<and> (role q = role q0 \<or> P (pName q0) (role q))"
proof -
  obtain i where i: "i < length pods'" "pods' ! i = q" using assms(2) by (auto simp: in_set_conv_nth)
  with assms(1) have "pods ! i \<in> set pods"
    "pName q = pName (pods ! i) \<and> (role q = role (pods ! i) \<or> P (pName (pods ! i)) (role q))"
    by (auto simp: changed_def list_all2_conv_all_nth)
  then show ?thesis by blast
qed

lemma changed_only:
  assumes "changed (\<lambda>n w. w = r) pods pods'" and "q \<in> set pods" and "role q = r"
  shows "\<exists>q'\<in>set pods'. role q' = r"
proof -
  obtain i where i: "i < length pods" "pods ! i = q" using assms(2) by (auto simp: in_set_conv_nth)
  with assms have "pods' ! i \<in> set pods'" "role (pods' ! i) = r"
    by (auto simp: changed_def list_all2_conv_all_nth)
  then show ?thesis by blast
qed

lemma todo_mem:
  "(p, w) \<in> set (todo sel roles ps) \<longleftrightarrow> p \<in> set ps \<and> map_of roles (pName p) = Some w \<and> sel w"
  by (induction ps) (auto split: option.splits)

lemma todo_distinct: "distinct (map pName ps) \<Longrightarrow> distinct (map (\<lambda>x. pName (fst x)) (todo sel roles ps))"
proof (induction ps)
  case (Cons p ps)
  have "pName p \<notin> (\<lambda>x. pName (fst x)) ` set (todo sel roles ps)"
    using Cons.prems by (force simp: todo_mem)
  with Cons show ?case by (auto split: option.splits)
qed simp

definition agree :: "(Pod \<times> string) list \<Rightarrow> Pod list \<Rightarrow> bool" where
  "agree td pods \<longleftrightarrow> (\<forall>(p, w)\<in>set td. \<forall>q\<in>set pods. pName q = pName p \<longrightarrow> role q = role p)"

lemma patchAll_done:
  "distinct (map (\<lambda>x. pName (fst x)) td) \<Longrightarrow> agree td pods \<Longrightarrow> snd (patchAll accept td pods) \<Longrightarrow>
   (p, w) \<in> set td \<Longrightarrow> q \<in> set (fst (patchAll accept td pods)) \<Longrightarrow> pName q = pName p \<Longrightarrow> role q = w"
proof (induction td arbitrary: pods)
  case (Cons x td)
  obtain p' want where x: "x = (p', want)" by (cases x)
  define pods1 where "pods1 = (if role p' = want then pods else onPod (pName p') (setLabel RoleLabel want) pods)"
  have rest: "pName p' \<notin> (\<lambda>x. pName (fst x)) ` set td" and dist: "distinct (map (\<lambda>x. pName (fst x)) td)"
    using Cons.prems(1) x by simp_all
  have ag: "agree td pods1"
    using Cons.prems(2) rest x by (force simp: agree_def onPod_def pods1_def)
  have res: "patchAll accept (x # td) pods = patchAll accept td pods1"
    using Cons.prems(3) x by (auto simp: pods1_def split: if_splits)
  have now: "\<forall>q0\<in>set pods1. pName q0 = pName p' \<longrightarrow> role q0 = want"
    using Cons.prems(2) x by (auto simp: pods1_def agree_def onPod_def)
  show ?case
  proof (cases "(p, w) = x")
    case False
    then have "(p, w) \<in> set td" using Cons.prems(4) by auto
    with Cons.IH[OF dist ag] Cons.prems(3,5,6) res show ?thesis by simp
  next
    case True
    have "changed (\<lambda>n w'. n \<in> (\<lambda>x. pName (fst x)) ` set td) pods1 (fst (patchAll accept td pods1))"
      by (intro patchAll_changed) force
    from changed_back[OF this] Cons.prems(5) res
    obtain q0 where q0: "q0 \<in> set pods1" "pName q = pName q0"
      "role q = role q0 \<or> pName q0 \<in> (\<lambda>x. pName (fst x)) ` set td" by metis
    have "pName q0 = pName p'" using q0(2) Cons.prems(6) True x by simp
    with q0 rest now True x show ?thesis by auto
  qed
qed simp

lemma applyRoles_eq:
  "(lsPods (fst (applyRoles accept roles pods)), snd (applyRoles accept roles pods)) =
     (case patchAll accept (todo (\<lambda>w. w = roleValuePrimary) roles pods) pods of
        (pods1, ok) \<Rightarrow>
          if \<not> ok then (pods1, False)
          else patchAll accept (todo (\<lambda>w. w \<noteq> roleValuePrimary) roles pods) pods1)"
  using passOne_patchAll[of accept roles pods "\<lparr>lsPods = pods, lsPatches = [], lsDemoted = []\<rparr>"]
    passTwo_patchAll[of accept roles pods
      "fst (passOne accept roles pods \<lparr>lsPods = pods, lsPatches = [], lsDemoted = []\<rparr>)"]
  by (simp add: applyRoles_def split: prod.splits)

lemma agree_todo: "distinct (map pName pods) \<Longrightarrow> agree (todo sel roles pods) pods"
proof -
  assume "distinct (map pName pods)"
  then have "q \<in> set pods \<Longrightarrow> p \<in> set pods \<Longrightarrow> pName q = pName p \<Longrightarrow> role q = role p" for p q
    by (metis distinct_map inj_onD)
  moreover have "(p, w) \<in> set (todo sel roles pods) \<Longrightarrow> p \<in> set pods" for p w by (simp add: todo_mem)
  ultimately show ?thesis unfolding agree_def by blast
qed

lemma changed_agree:
  assumes "changed P pods pods'" and "agree td pods" and "\<forall>(p, w)\<in>set td. \<forall>w'. \<not> P (pName p) w'"
  shows "agree td pods'"
  unfolding agree_def
proof (intro ballI, clarify)
  fix p w q assume h: "(p, w) \<in> set td" "q \<in> set pods'" "pName q = pName p"
  obtain q0 where q0: "q0 \<in> set pods" "pName q = pName q0" "role q = role q0 \<or> P (pName q0) (role q)"
    using changed_back[OF assms(1) h(2)] by blast
  with assms(2,3) h show "role q = role p" by (force simp: agree_def)
qed

text \<open>The names that a pass touches, and the two passes touch different ones.\<close>

lemma pass_names:
  "changed (\<lambda>n w. map_of roles n = Some w \<and> sel w) pods (fst (patchAll accept (todo sel roles ps) pods))"
  by (intro patchAll_changed) (auto simp: todo_mem)

lemma primary_survives:
  assumes "distinct (map pName pods)" and "q \<in> set pods" and "is_primary q"
    and "r \<in> set pods" and "map_of roles (pName r) = Some roleValuePrimary"
  shows "\<exists>p\<in>set (lsPods (fst (applyRoles accept roles pods))). is_primary p"
proof -
  let ?t1 = "todo (\<lambda>w. w = roleValuePrimary) roles pods"
  let ?t2 = "todo (\<lambda>w. w \<noteq> roleValuePrimary) roles pods"
  obtain pods1 ok where p1: "patchAll accept ?t1 pods = (pods1, ok)" by (cases "patchAll accept ?t1 pods")
  have ch: "changed (\<lambda>n w. map_of roles n = Some w \<and> w = roleValuePrimary) pods pods1"
    using pass_names[of roles "\<lambda>w. w = roleValuePrimary" pods accept pods] p1 by simp
  show ?thesis
  proof (cases ok)
    case False
    have "changed (\<lambda>n w. w = roleValuePrimary) pods pods1"
      using ch unfolding changed_def by (rule list_all2_mono) auto
    from changed_only[OF this assms(2,3)] False p1 applyRoles_eq[of accept roles pods]
    show ?thesis by simp
  next
    case True
    have r: "(r, roleValuePrimary) \<in> set ?t1" using assms(4,5) by (simp add: todo_mem)
    obtain i where i: "i < length pods" "pods ! i = r" using assms(4) by (auto simp: in_set_conv_nth)
    have len: "length pods1 = length pods" and nm: "pName (pods1 ! i) = pName r"
      using ch i by (auto simp: changed_def list_all2_conv_all_nth)
    then have r1: "pods1 ! i \<in> set pods1" using i by simp
    have prim: "is_primary (pods1 ! i)"
      using patchAll_done[of ?t1 pods accept r roleValuePrimary "pods1 ! i"] todo_distinct[OF assms(1)]
        agree_todo[OF assms(1)] p1 True r r1 nm by simp
    have "changed (\<lambda>n w. map_of roles n = Some w \<and> w \<noteq> roleValuePrimary) pods1 (fst (patchAll accept ?t2 pods1))"
      by (rule pass_names)
    from changed_keeps[OF this r1] nm assms(5) prim
    obtain p where "p \<in> set (fst (patchAll accept ?t2 pods1))" "is_primary p" by force
    moreover have "lsPods (fst (applyRoles accept roles pods)) = fst (patchAll accept ?t2 pods1)"
      using True p1 applyRoles_eq[of accept roles pods] by (simp add: prod_eq_iff case_prod_beta)
    ultimately show ?thesis by auto
  qed
qed

lemma map_of_roleMap_gen:
  "map_of (foldl (\<lambda>m p. AList.update (pName p) (f p) m) m0 ps) n =
     (case filter (\<lambda>p. pName p = n) (rev ps) of [] \<Rightarrow> map_of m0 n | p # _ \<Rightarrow> Some (f p))"
proof (induction ps arbitrary: m0)
  case (Cons p ps)
  show ?case by (simp add: Cons.IH update_conv' split: list.splits)
qed simp

lemma map_of_roleMap:
  assumes "distinct (map pName pods)" and "p \<in> set pods"
  shows "map_of (roleMap f pods) (pName p) = Some (f p)"
proof -
  have "\<forall>q\<in>set pods. pName q = pName p \<longrightarrow> q = p" using assms by (auto simp: distinct_map inj_on_def)
  then have "set (filter (\<lambda>q. pName q = pName p) (rev pods)) = {p}" using assms(2) by auto
  then obtain qs where "filter (\<lambda>q. pName q = pName p) (rev pods) = p # qs"
    by (metis list.set_intros(1) list.exhaust singletonD list.set(1) empty_not_insert)
  then show ?thesis by (simp add: roleMap_def map_of_roleMap_gen)
qed

text \<open>The three outcomes with an observer that has published a well-formed address.\<close>

lemma desired_cases:
  assumes "mode_of v = ModeSentinel" and "Present snap \<Longrightarrow> SplitHostPort (Addr (Primary snap)) = Some (host, port)"
    and "desiredRolesForCR v pods (Some snap) now s = (s', roles, hold, evs)" and "\<not> hold"
  shows "roles = [] \<and> \<not> Present snap \<or> \<not> Present snap \<and> \<not> anyValkeyPodLabelled pods \<or>
    Present snap \<and> podIPMatchesAny host pods \<and>
      roles = roleMap (\<lambda>p. if at_host host p then roleValuePrimary else roleValueReplica) pods"
  using assms by (auto simp: desiredRolesForCR_def Let_def split: if_splits prod.splits)

text \<open>
  C1. The Service never loses its last primary. In a relabel pass driven by the observer, with some
  pod labelled primary before it, some pod is labelled primary after it, whichever patches the API
  server refuses. A refusal ends the pass where it is, so this is a statement about every prefix of
  the patches the pass issues: promotions are written before demotions.
\<close>

theorem service_never_empty:
  assumes "distinct (map pName pods)" and "\<exists>p\<in>set pods. is_primary p"
    and "mode_of v = ModeSentinel" and "reObserver env = Some snap"
    and "Present snap \<longrightarrow> SplitHostPort (Addr (Primary snap)) \<noteq> None"
  shows "\<exists>p\<in>set (rlPods (reconcileRoleLabels env v pods vs s)). is_primary p"
proof -
  obtain vs1 s1 where m: "maintainFailoverDispatchMarker (reMerge env) (reClearOk env) (reObserver env)
      (reNow1 env) (reNow2 env) (vs, s) = (vs1, s1)" by (cases "maintainFailoverDispatchMarker (reMerge env)
      (reClearOk env) (reObserver env) (reNow1 env) (reNow2 env) (vs, s)")
  obtain s2 roles hold evs where d: "desiredRolesForCR v pods (Some snap) (reNow3 env) s1 = (s2, roles, hold, evs)"
    by (metis prod.exhaust)
  obtain q where q: "q \<in> set pods" "is_primary q" using assms(2) by blast
  have res: "rlPods (reconcileRoleLabels env v pods vs s) =
      (if \<not> reListOk env \<or> hold then pods else lsPods (fst (applyRoles (reAccept env) roles pods)))"
    using m d assms(4) by (simp add: reconcileRoleLabels_def Let_def split: prod.splits)
  show ?thesis
  proof (cases "\<not> reListOk env \<or> hold")
    case True
    with res q show ?thesis by auto
  next
    case False
    obtain host port where hp: "Present snap \<Longrightarrow> SplitHostPort (Addr (Primary snap)) = Some (host, port)"
      using assms(5) by (cases "Present snap") auto
    have lab: "anyValkeyPodLabelled pods" using q by (auto simp: anyValkeyPodLabelled_def list_ex_iff)
    from desired_cases[OF assms(3) hp d] False lab
    consider "roles = []" | "podIPMatchesAny host pods"
      "roles = roleMap (\<lambda>p. if at_host host p then roleValuePrimary else roleValueReplica) pods" by blast
    then show ?thesis
    proof cases
      case 1
      have "todo sel [] ps = []" for sel ps by (induction ps) simp_all
      then have "lsPods (fst (applyRoles (reAccept env) [] pods)) = pods"
        using applyRoles_eq[of "reAccept env" "[]" pods] by simp
      with res False 1 q show ?thesis by auto
    next
      case 2
      then obtain r where r: "r \<in> set pods" "at_host host r"
        by (auto simp: podIPMatchesAny_def at_host_def list_ex_iff split: if_splits)
      then have "map_of roles (pName r) = Some roleValuePrimary"
        using 2 map_of_roleMap[OF assms(1) r(1)] by simp
      from primary_survives[OF assms(1) q r(1) this] res False show ?thesis by simp
    qed
  qed
qed

definition example_renv :: "(string \<Rightarrow> string \<Rightarrow> bool) \<Rightarrow> Snapshot option \<Rightarrow> gotime \<Rightarrow> relabelEnv" where
  "example_renv accept ob now =
     \<lparr>reMerge = statusMerge, reClearOk = True, reAccept = accept, reObserver = ob, reNow1 = now,
      reNow2 = now, reNow3 = now, reListOk = True, reRelistOk = True\<rparr>"

lemma example_pod_names: "distinct (map pName example_pods)" "\<exists>p\<in>set example_pods. is_primary p"
  by (simp_all add: example_pods_def pod_at_def label_def)

lemma example_split: "SplitHostPort ''10.0.0.1:6379'' = Some (''10.0.0.1'', ''6379'')"
  "SplitHostPort ''10.0.0.9:6379'' = Some (''10.0.0.9'', ''6379'')"
  by code_simp+

theorem service_never_empty_witness:
  "\<exists>p\<in>set (rlPods (reconcileRoleLabels (example_renv (\<lambda>n w. w = roleValuePrimary)
      (Some (example_snap (100 * Second))) 0) example_cr example_pods (emptyStatus, emptyStatus) zeroPerCR)).
     is_primary p"
proof -
  have a: "mode_of example_cr = ModeSentinel" by (simp add: example_cr_def)
  have b: "reObserver (example_renv (\<lambda>n w. w = roleValuePrimary) (Some (example_snap (100 * Second))) 0) =
      Some (example_snap (100 * Second))" by (simp add: example_renv_def)
  have c: "Present (example_snap (100 * Second)) \<longrightarrow>
      SplitHostPort (Addr (Primary (example_snap (100 * Second)))) \<noteq> None"
    by (simp add: example_snap_def example_split)
  show ?thesis using service_never_empty[OF example_pod_names a b c] by blast
qed

section \<open>Convergence\<close>

lemma role_after:
  assumes "distinct (map pName pods)" and "\<forall>n w. accept n w"
    and "\<forall>p\<in>set pods. map_of roles (pName p) = Some (f p)"
  shows "snd (applyRoles accept roles pods) \<and>
    map role (lsPods (fst (applyRoles accept roles pods))) = map f pods \<and>
    map pName (lsPods (fst (applyRoles accept roles pods))) = map pName pods \<and>
    map PodIP (lsPods (fst (applyRoles accept roles pods))) = map PodIP pods"
proof -
  let ?t1 = "todo (\<lambda>w. w = roleValuePrimary) roles pods"
  let ?t2 = "todo (\<lambda>w. w \<noteq> roleValuePrimary) roles pods"
  have ok: "snd (patchAll accept td ps)" for td ps
    using assms(2) by (induction accept td ps rule: patchAll.induct) auto
  define pods1 where "pods1 = fst (patchAll accept ?t1 pods)"
  define pods2 where "pods2 = fst (patchAll accept ?t2 pods1)"
  have res: "lsPods (fst (applyRoles accept roles pods)) = pods2" "snd (applyRoles accept roles pods)"
    using applyRoles_eq[of accept roles pods] ok[of ?t1 pods] ok[of ?t2 pods1]
    by (simp_all add: pods1_def pods2_def prod_eq_iff case_prod_beta)
  have c1: "changed (\<lambda>n w. map_of roles n = Some w \<and> w = roleValuePrimary) pods pods1"
    and c2: "changed (\<lambda>n w. map_of roles n = Some w \<and> w \<noteq> roleValuePrimary) pods1 pods2"
    unfolding pods1_def pods2_def by (rule pass_names)+
  have ag2: "agree ?t2 pods1"
    by (rule changed_agree[OF c1 agree_todo[OF assms(1)]]) (auto simp: todo_mem)
  have each: "role (pods2 ! i) = f (pods ! i)" if i: "i < length pods" for i
  proof -
    have len: "length pods1 = length pods" "length pods2 = length pods"
      using c1 c2 by (auto simp: changed_def list_all2_conv_all_nth)
    have nm: "pName (pods1 ! i) = pName (pods ! i)" "pName (pods2 ! i) = pName (pods ! i)"
      using c1 c2 i by (auto simp: changed_def list_all2_conv_all_nth)
    have want: "map_of roles (pName (pods ! i)) = Some (f (pods ! i))" using assms(3) i by simp
    show ?thesis
    proof (cases "f (pods ! i) = roleValuePrimary")
      case True
      then have "(pods ! i, f (pods ! i)) \<in> set ?t1" using want i by (simp add: todo_mem)
      then have "role (pods1 ! i) = f (pods ! i)"
        using patchAll_done[of ?t1 pods accept "pods ! i" "f (pods ! i)" "pods1 ! i"] todo_distinct[OF assms(1)]
          agree_todo[OF assms(1)] ok[of ?t1 pods] nm len i by (simp add: pods1_def)
      moreover have "role (pods2 ! i) = role (pods1 ! i)"
        using c2 i len nm want True by (auto simp: changed_def list_all2_conv_all_nth)
      ultimately show ?thesis by simp
    next
      case False
      then have "(pods ! i, f (pods ! i)) \<in> set ?t2" using want i by (simp add: todo_mem)
      then show ?thesis
        using patchAll_done[of ?t2 pods1 accept "pods ! i" "f (pods ! i)" "pods2 ! i"] todo_distinct[OF assms(1)]
          ag2 ok[of ?t2 pods1] nm len i by (simp add: pods2_def)
    qed
  qed
  have len2: "length pods2 = length pods" using c1 c2 by (auto simp: changed_def list_all2_conv_all_nth)
  then have "map role pods2 = map f pods" using each by (simp add: list_eq_iff_nth_eq)
  moreover have "map pName pods2 = map pName pods" "map PodIP pods2 = map PodIP pods"
    using changed_names[OF c1] changed_names[OF c2] by simp_all
  ultimately show ?thesis using res by simp
qed

lemma settled_silent:
  assumes "\<forall>p\<in>set ps. map_of roles (pName p) = Some (role p)"
  shows "passOne accept roles ps st = (st, True)" "lsPatches (fst (passTwo accept roles ps st)) = lsPatches st"
  using assms by (induction ps arbitrary: st) (simp_all add: patchOne_def)

lemma distinct_filter_le_1: "distinct xs \<Longrightarrow> length (filter (\<lambda>x. x = a) xs) \<le> 1"
  by (induction xs) (auto simp: filter_empty_conv)

lemma filter_map_length: "length (filter P xs) = length (filter (\<lambda>y. y) (map P xs))"
  by (induction xs) simp_all

text \<open>
  C14. Relabelling converges. When a pass driven by a well-formed observed address is not suppressed
  and the API server accepts its patches, every pod ends with the role the address gives it, so
  some pod is primary, and exactly one when the pod addresses are distinct. Applying the same roles
  again issues no patch.
\<close>

theorem relabel_converges:
  assumes "distinct (map pName pods)" and "mode_of v = ModeSentinel" and "Present snap"
    and "SplitHostPort (Addr (Primary snap)) = Some (host, port)"
    and "desiredRolesForCR v pods (Some snap) now s = (s', roles, False, evs)"
    and "\<forall>n w. accept n w"
  shows "snd (applyRoles accept roles pods) \<and>
    map role (lsPods (fst (applyRoles accept roles pods))) =
      map (\<lambda>p. if at_host host p then roleValuePrimary else roleValueReplica) pods \<and>
    0 < countPrimaryLabeledPods (lsPods (fst (applyRoles accept roles pods))) \<and>
    (distinct (map PodIP pods) \<longrightarrow>
       countPrimaryLabeledPods (lsPods (fst (applyRoles accept roles pods))) = 1) \<and>
    lsPatches (fst (applyRoles accept2 roles (lsPods (fst (applyRoles accept roles pods))))) = []"
proof -
  let ?f = "\<lambda>p. if at_host host p then roleValuePrimary else roleValueReplica"
  define pods' where "pods' = lsPods (fst (applyRoles accept roles pods))"
  have r: "podIPMatchesAny host pods" "roles = roleMap ?f pods"
    using desired_cases[OF assms(2) assms(4) assms(5)] assms(3) by simp_all
  have want: "\<forall>p\<in>set pods. map_of roles (pName p) = Some (?f p)"
    using map_of_roleMap[OF assms(1)] r(2) by simp
  have after: "snd (applyRoles accept roles pods)" "map role pods' = map ?f pods"
    "map pName pods' = map pName pods"
    using role_after[OF assms(1,6) want] by (simp_all add: pods'_def)
  have cnt: "countPrimaryLabeledPods pods' = length (filter (at_host host) pods)"
  proof -
    have "map is_primary pods' = map (\<lambda>r. r = roleValuePrimary) (map role pods')" by simp
    also have "\<dots> = map (at_host host) pods" unfolding after(2) by simp
    finally show ?thesis
      unfolding countPrimaryLabeledPods_def by (simp add: filter_map_length[of is_primary] filter_map_length[of "at_host host"])
  qed
  have ex: "\<exists>p\<in>set pods. at_host host p"
    using r(1) by (auto simp: podIPMatchesAny_def at_host_def list_ex_iff split: if_splits)
  have one: "length (filter (at_host host) pods) = 1" if "distinct (map PodIP pods)"
  proof -
    have "length (filter (at_host host) pods) \<le> length (filter (\<lambda>ip. ip = host) (map PodIP pods))"
      by (induction pods) (auto simp: at_host_def)
    also have "\<dots> \<le> 1" using distinct_filter_le_1[OF that, of host] .
    finally show ?thesis using ex by (auto simp: le_less Suc_le_eq filter_empty_conv)
  qed
  have "\<forall>q\<in>set pods'. map_of roles (pName q) = Some (role q)"
  proof
    fix q assume "q \<in> set pods'"
    then obtain i where i: "i < length pods'" "q = pods' ! i" by (auto simp: in_set_conv_nth)
    have len: "length pods' = length pods" using after(3) by (metis length_map)
    have "map pName pods' ! i = map pName pods ! i" "map role pods' ! i = map ?f pods ! i"
      unfolding after(2,3) by (rule refl)+
    then have "pName q = pName (pods ! i)" "role q = ?f (pods ! i)"
      using i len by simp_all
    with want i len show "map_of roles (pName q) = Some (role q)" by simp
  qed
  note silent = settled_silent[OF this]
  have "lsPatches (fst (applyRoles accept2 roles pods')) = []"
    by (simp add: applyRoles_def silent)
  then show ?thesis
    using after(1,2) cnt ex one unfolding pods'_def[symmetric] by (auto simp: filter_empty_conv)
qed

lemma example_hosts:
  "podIPMatchesAny ''10.0.0.9'' example_pods" "lastName (at_host ''10.0.0.9'') example_pods [] = ''v-0''"
  "podIPMatchesAny ''10.0.0.1'' example_pods" "lastName (at_host ''10.0.0.1'') example_pods [] = ''v-1''"
  "lastName is_primary example_pods [] = ''v-0''"
  by (simp_all add: example_pods_def podIPMatchesAny_def pod_at_def at_host_def label_def)

lemma example_no_latch: "failoverLatch s = None \<Longrightarrow> failoverLatchActive now a e s = (s, False)"
  by (simp add: failoverLatchActive_def)

lemma desired_snapshot:
  assumes "mode_of v = ModeSentinel" and "Present snap" and "OPQuorumOK (Primary snap)"
    and "failoverLatchActive now (Addr (Primary snap)) (Epoch (Primary snap)) s = (s1, False)"
    and "SplitHostPort (Addr (Primary snap)) = Some (host, port)" and "podIPMatchesAny host pods"
  shows "desiredRolesForCR v pods (Some snap) now s =
    (let r = observePrimaryStability (Addr (Primary snap)) (LastPolledAt (Primary snap)) s1 in
     if lastName is_primary pods [] \<noteq> [] \<and> lastName (at_host host) pods [] \<noteq> [] \<and>
        lastName is_primary pods [] \<noteq> lastName (at_host host) pods [] \<and> fst (snd r) < 2
     then (fst r, [], True, [])
     else (fst r, roleMap (\<lambda>p. if at_host host p then roleValuePrimary else roleValueReplica) pods, False, []))"
  using assms by (simp add: desiredRolesForCR_def Let_def case_prod_beta newPrimaryStableMinPolls_def)

theorem relabel_converges_witness:
  "countPrimaryLabeledPods (lsPods (fst (applyRoles (\<lambda>n w. True)
      (roleMap (\<lambda>p. if at_host ''10.0.0.9'' p then roleValuePrimary else roleValueReplica) example_pods)
      example_pods))) = 1"
proof -
  have a: "mode_of example_cr = ModeSentinel" "Present (example_snap 5)"
    "SplitHostPort (Addr (Primary (example_snap 5))) = Some (''10.0.0.9'', ''6379'')"
    by (simp_all add: example_cr_def example_snap_def example_split)
  have l: "failoverLatchActive 7 x y zeroPerCR = (zeroPerCR, False)" for x y
    by (simp add: example_no_latch zeroPerCR_def)
  have q: "OPQuorumOK (Primary (example_snap 5))" by (simp add: example_snap_def)
  note d = desired_snapshot[OF a(1,2) q l a(3) example_hosts(1), unfolded example_hosts, simplified Let_def, simplified]
  have ips: "distinct (map PodIP example_pods)" by (simp add: example_pods_def pod_at_def)
  show ?thesis
    using relabel_converges[OF example_pod_names(1) a d, of "\<lambda>n w. True"] ips by blast
qed

section \<open>The settling damp\<close>

definition observe :: "perCRState \<Rightarrow> string \<times> gotime \<Rightarrow> perCRState" where
  "observe s i = fst (observePrimaryStability (fst i) (snd i) s)"

text \<open>What the tracker has seen: since the address it names last changed, the count of new stamps.\<close>

definition dwell_inv :: "(string \<times> gotime) list \<Rightarrow> primaryStabilityState option \<Rightarrow> bool" where
  "dwell_inv obs st \<longleftrightarrow>
     (case st of
        None \<Rightarrow> True
      | Some t \<Rightarrow>
          1 \<le> freshCount t \<and>
          (\<exists>xs ys. obs = xs @ (psAddr t, firstPolled t) # ys \<and> (\<forall>i\<in>set ys. fst i = psAddr t) \<and>
             firstPolled t \<le> lastPolled t \<and>
             (1 < freshCount t \<longrightarrow> firstPolled t < lastPolled t) \<and>
             lastPolled t \<in> insert (firstPolled t) (snd ` set ys)))"

lemma dwell_fresh:
  "dwell_inv (obs @ [(a, t)]) (Some \<lparr>psAddr = a, firstPolled = t, lastPolled = t, freshCount = 1\<rparr>)"
proof -
  have "obs @ [(a, t)] = obs @ (a, t) # [] \<and> (\<forall>i\<in>set []. fst i = a)" by simp
  then show ?thesis unfolding dwell_inv_def by fastforce
qed

lemma stability_observe:
  "primaryStability (observe s (a, t)) =
     (if a = [] then None
      else (case primaryStability s of
              None \<Rightarrow> Some \<lparr>psAddr = a, firstPolled = t, lastPolled = t, freshCount = 1\<rparr>
            | Some st \<Rightarrow>
                if psAddr st \<noteq> a then Some \<lparr>psAddr = a, firstPolled = t, lastPolled = t, freshCount = 1\<rparr>
                else Some (if lastPolled st < t then st\<lparr>freshCount := freshCount st + 1, lastPolled := t\<rparr>
                           else st)))"
  by (simp add: observe_def observePrimaryStability_def Let_def split: option.splits)

lemma dwell_inv_step:
  assumes "dwell_inv obs (primaryStability s)"
  shows "dwell_inv (obs @ [i]) (primaryStability (observe s i))"
proof -
  obtain a t where i: "i = (a, t)" by (cases i)
  show ?thesis
  proof (cases "a \<noteq> [] \<and> (\<exists>st. primaryStability s = Some st \<and> psAddr st = a)")
    case False
    then show ?thesis unfolding i stability_observe
      by (auto simp: dwell_inv_def[of _ None] split: option.splits intro!: dwell_fresh)
  next
    case True
    then obtain st where st: "primaryStability s = Some st" "psAddr st = a" "a \<noteq> []" by blast
    let ?t = "if lastPolled st < t then st\<lparr>freshCount := freshCount st + 1, lastPolled := t\<rparr> else st"
    have new: "primaryStability (observe s i) = Some ?t" using st by (simp add: i stability_observe)
    from assms st obtain xs ys where obs: "1 \<le> freshCount st" "obs = xs @ (a, firstPolled st) # ys"
      "\<forall>i\<in>set ys. fst i = a" "firstPolled st \<le> lastPolled st"
      "1 < freshCount st \<longrightarrow> firstPolled st < lastPolled st"
      "lastPolled st \<in> insert (firstPolled st) (snd ` set ys)" unfolding dwell_inv_def by auto
    have "obs @ [i] = xs @ (psAddr ?t, firstPolled ?t) # (ys @ [i])" "\<forall>j\<in>set (ys @ [i]). fst j = psAddr ?t"
      using obs(2,3) st i by auto
    moreover have "1 \<le> freshCount ?t" "firstPolled ?t \<le> lastPolled ?t"
      "1 < freshCount ?t \<longrightarrow> firstPolled ?t < lastPolled ?t"
      "lastPolled ?t \<in> insert (firstPolled ?t) (snd ` set (ys @ [i]))"
      using obs(1,4-6) i by auto
    ultimately show ?thesis unfolding new dwell_inv_def option.case by blast
  qed
qed

lemma dwell_inv_run:
  "dwell_inv obs0 (primaryStability s) \<Longrightarrow> dwell_inv (obs0 @ obs) (primaryStability (run_state observe s obs))"
proof (induction obs arbitrary: obs0 s)
  case (Cons i obs)
  from Cons.IH[OF dwell_inv_step[OF Cons.prems, of i]] show ?case by simp
qed simp

text \<open>
  C15. A primary move settles. Let the tracker have followed the observations \<open>obs\<close>, each an address
  with its poll stamp. If a pass takes the primary role from the pod that carries it and gives it to
  another, then the observations end with a stretch that names only the new address, and the stamp
  of the last poll behind the current snapshot is later than the stamp at the start of the stretch.
\<close>

theorem move_settles:
  assumes "primaryStability s0 = None" and "primaryStability s = primaryStability (run_state observe s0 obs)"
    and "mode_of v = ModeSentinel" and "Present snap"
    and "SplitHostPort (Addr (Primary snap)) = Some (host, port)"
    and "desiredRolesForCR v pods (Some snap) now s = (s', roles, False, evs)"
    and "lastName is_primary pods [] \<noteq> []" and "lastName (at_host host) pods [] \<noteq> []"
    and "lastName is_primary pods [] \<noteq> lastName (at_host host) pods []"
  shows "\<exists>xs t ys. obs @ [(Addr (Primary snap), LastPolledAt (Primary snap))] =
      xs @ (Addr (Primary snap), t) # ys \<and>
    (\<forall>i\<in>set ys. fst i = Addr (Primary snap)) \<and> (\<exists>t'\<in>snd ` set ys. t < t')"
proof -
  let ?i = "(Addr (Primary snap), LastPolledAt (Primary snap))"
  obtain s1 held where l: "failoverLatchActive now (Addr (Primary snap)) (Epoch (Primary snap)) s = (s1, held)"
    by (cases "failoverLatchActive now (Addr (Primary snap)) (Epoch (Primary snap)) s")
  have ps1: "primaryStability s1 = primaryStability s"
    using l by (auto simp: failoverLatchActive_def clearFailoverLatch_def split: option.splits if_splits)
  obtain s2 n dw where o: "observePrimaryStability (Addr (Primary snap)) (LastPolledAt (Primary snap)) s1 = (s2, n, dw)"
    by (metis prod.exhaust)
  have n: "2 \<le> n"
    using assms(3-9) l o by (auto simp: desiredRolesForCR_def Let_def newPrimaryStableMinPolls_def
        split: if_splits)
  have inv: "dwell_inv (obs @ [?i]) (primaryStability (observe s1 ?i))"
    using dwell_inv_step[of obs s1 ?i] dwell_inv_run[of "[]" s0 obs] assms(1,2) ps1
    by (simp add: dwell_inv_def[of "[]"])
  have obsv: "primaryStability (observe s1 ?i) \<noteq> None \<and> psAddr (the (primaryStability (observe s1 ?i))) = Addr (Primary snap)
      \<and> freshCount (the (primaryStability (observe s1 ?i))) = n"
    using o n by (auto simp: observe_def observePrimaryStability_def Let_def split: if_splits option.splits)
  then obtain t where t: "primaryStability (observe s1 ?i) = Some t" "psAddr t = Addr (Primary snap)" "freshCount t = n"
    by auto
  from inv t n obtain xs ys where "obs @ [?i] = xs @ (Addr (Primary snap), firstPolled t) # ys"
    "\<forall>i\<in>set ys. fst i = Addr (Primary snap)" "firstPolled t < lastPolled t"
    "lastPolled t \<in> insert (firstPolled t) (snd ` set ys)" unfolding dwell_inv_def by auto
  then show ?thesis by (metis insert_iff less_irrefl)
qed

definition snap_at :: "string \<Rightarrow> gotime \<Rightarrow> Snapshot" where
  "snap_at a t =
     \<lparr>Present = True,
      Primary = zeroObservedPrimary\<lparr>Addr := a, Epoch := 4, Quorum := QuorumStatusOK, OPQuorumOK := True,
        UpdatedAt := t, LastPolledAt := t\<rparr>\<rparr>"

lemma snap_at_simps [simp]:
  "Present (snap_at a t)" "Addr (Primary (snap_at a t)) = a" "Epoch (Primary (snap_at a t)) = 4"
  "LastPolledAt (Primary (snap_at a t)) = t" "OPQuorumOK (Primary (snap_at a t))"
  by (simp_all add: snap_at_def)

lemma example_mode: "mode_of example_cr = ModeSentinel"
  by (simp add: example_cr_def)

lemma stability_keeps_latch: "failoverLatch (fst (observePrimaryStability a t s)) = failoverLatch s"
  by (simp add: observePrimaryStability_def Let_def split: option.splits)

text \<open>A pass over the example pods whose observer names v-1, or v-0, with no latch set.\<close>

lemma example_desired:
  assumes "failoverLatch s = None"
  shows "desiredRolesForCR example_cr example_pods (Some (snap_at ''10.0.0.9:6379'' t)) now s =
      (observe s (''10.0.0.9:6379'', t),
       roleMap (\<lambda>p. if at_host ''10.0.0.9'' p then roleValuePrimary else roleValueReplica) example_pods, False, [])"
    and "desiredRolesForCR example_cr example_pods (Some (snap_at ''10.0.0.1:6379'' t)) now s =
      (let n = fst (snd (observePrimaryStability ''10.0.0.1:6379'' t s)) in
       if n < 2 then (observe s (''10.0.0.1:6379'', t), [], True, [])
       else (observe s (''10.0.0.1:6379'', t),
             roleMap (\<lambda>p. if at_host ''10.0.0.1'' p then roleValuePrimary else roleValueReplica) example_pods, False, []))"
  using desired_snapshot[OF example_mode, of "snap_at ''10.0.0.9:6379'' t" now s s "''10.0.0.9''" "''6379''" example_pods]
    desired_snapshot[OF example_mode, of "snap_at ''10.0.0.1:6379'' t" now s s "''10.0.0.1''" "''6379''" example_pods]
  by (simp_all add: example_no_latch[OF assms] example_split example_hosts observe_def Let_def)

lemma example_counts:
  "failoverLatch zeroPerCR = None"
  "fst (snd (observePrimaryStability ''10.0.0.1:6379'' t
      (observe (observe zeroPerCR (''10.0.0.9:6379'', t0)) (''10.0.0.1:6379'', t0)))) = (if t0 < t then 2 else 1)"
  "fst (snd (observePrimaryStability ''10.0.0.1:6379'' t (observe zeroPerCR (''10.0.0.9:6379'', t0)))) = 1"
  by (simp_all add: zeroPerCR_def observe_def observePrimaryStability_def)

text \<open>
  One poll can move the primary. The observer polls v-0 as primary with stamp 100s. A pub/sub
  frame then names v-1; it carries the stamp of that last poll. The pass that sees it suppresses the
  move. The first poll that names v-1, with stamp 110s, commits it: the damp asks for two stamps, and
  the first was counted for an address no poll had named.
\<close>

theorem move_after_one_poll:
  "let s0 = zeroPerCR;
       s1 = fst (desiredRolesForCR example_cr example_pods (Some (snap_at ''10.0.0.9:6379'' (100 * Second))) t0 s0);
       r2 = desiredRolesForCR example_cr example_pods (Some (snap_at ''10.0.0.1:6379'' (100 * Second))) t1 s1;
       r3 = desiredRolesForCR example_cr example_pods (Some (snap_at ''10.0.0.1:6379'' (110 * Second))) t2 (fst r2)
   in fst (snd (snd r2)) \<and> \<not> fst (snd (snd r3)) \<and>
      map_of (fst (snd r3)) ''v-0'' = Some roleValueReplica \<and> map_of (fst (snd r3)) ''v-1'' = Some roleValuePrimary"
proof -
  let ?s1 = "observe zeroPerCR (''10.0.0.9:6379'', 100 * Second)"
  let ?s2 = "observe ?s1 (''10.0.0.1:6379'', 100 * Second)"
  have l: "failoverLatch ?s1 = None" "failoverLatch ?s2 = None"
    by (simp_all add: observe_def stability_keeps_latch example_counts(1))
  have r2: "desiredRolesForCR example_cr example_pods (Some (snap_at ''10.0.0.1:6379'' (100 * Second))) t1 ?s1 =
      (?s2, [], True, [])"
    by (simp add: example_desired(2)[OF l(1)] example_counts Let_def)
  have r3: "desiredRolesForCR example_cr example_pods (Some (snap_at ''10.0.0.1:6379'' (110 * Second))) t2 ?s2 =
      (observe ?s2 (''10.0.0.1:6379'', 110 * Second),
       roleMap (\<lambda>p. if at_host ''10.0.0.1'' p then roleValuePrimary else roleValueReplica) example_pods, False, [])"
    unfolding example_desired(2)[OF l(2)] by (simp add: example_counts Let_def Second_def)
  have m: "map_of (roleMap (\<lambda>p. if at_host ''10.0.0.1'' p then roleValuePrimary else roleValueReplica) example_pods) ''v-0''
        = Some roleValueReplica"
      "map_of (roleMap (\<lambda>p. if at_host ''10.0.0.1'' p then roleValuePrimary else roleValueReplica) example_pods) ''v-1''
        = Some roleValuePrimary"
    by (simp_all add: roleMap_def example_pods_def pod_at_def at_host_def)
  show ?thesis by (simp add: Let_def example_desired(1)[OF example_counts(1)] r2 r3 m)
qed

theorem move_settles_witness:
  "\<exists>xs t ys. [(''10.0.0.9:6379'', 100 * Second), (''10.0.0.1:6379'', 100 * Second)] @
       [(''10.0.0.1:6379'', 110 * Second)] = xs @ (''10.0.0.1:6379'', t) # ys \<and>
     (\<exists>t'\<in>snd ` set ys. t < t')"
proof -
  let ?obs = "[(''10.0.0.9:6379'', 100 * Second), (''10.0.0.1:6379'', 100 * Second)]"
  let ?s = "run_state observe zeroPerCR ?obs"
  have z: "primaryStability zeroPerCR = None" by (simp add: zeroPerCR_def)
  have l: "failoverLatch ?s = None" by (simp add: observe_def stability_keeps_latch example_counts(1))
  have d: "desiredRolesForCR example_cr example_pods (Some (snap_at ''10.0.0.1:6379'' (110 * Second))) 5 ?s =
      (observe ?s (''10.0.0.1:6379'', 110 * Second),
       roleMap (\<lambda>p. if at_host ''10.0.0.1'' p then roleValuePrimary else roleValueReplica) example_pods, False, [])"
    unfolding example_desired(2)[OF l] by (simp add: example_counts Let_def Second_def)
  show ?thesis
    using move_settles[OF z refl example_mode snap_at_simps(1) _ d] by (simp add: example_split example_hosts) metis
qed

section \<open>After a failed failover\<close>

lemma handOff_failed:
  assumes "is_primary p" and "persistOk env" and "stripOk env" and "envFailover env = IssueErr"
    and "\<not> restoreOk env"
  shows "dsPods (fst (handOff merge env snap p w)) = onPod (pName p) (delLabel RoleLabel) (dsPods w)"
    and "failoverLatch (dsMem (fst (handOff merge env snap p w))) =
      Some \<lparr>preStripAddr = Addr (Primary snap), latchDeadline = nowCooldown env + nogoodslaveCooldownTTL,
            preStripEpoch = 0\<rparr>"
  using is_primary_label[OF assms(1)] assms(2-5)
  by (auto simp: dispatch_simps failoverLatchSetCooldown_def setFailoverLatch_def)

lemma maintain_keeps_latch:
  assumes "failoverLatch s = Some l" and "latchActive l now2 a e"
    and "observedPrimaryAddrEpoch ob = (a, e)"
  shows "maintainFailoverDispatchMarker merge ok ob now1 now2 (vs, s) = (vs, s)"
  using assms by (auto simp: maintainFailoverDispatchMarker_def failoverLatchActive_def Let_def split: option.splits prod.splits)

lemma latched_pass_suppressed:
  assumes "failoverLatch s = Some l" and "mode_of v = ModeSentinel" and "reObserver env = Some snap"
    and "Present snap" and "OPQuorumOK (Primary snap)"
    and "latchActive l (reNow2 env) (Addr (Primary snap)) (Epoch (Primary snap))"
    and "latchActive l (reNow3 env) (Addr (Primary snap)) (Epoch (Primary snap))"
  shows "rlPods (reconcileRoleLabels env v pods vs s) = pods \<and> rlPatches (reconcileRoleLabels env v pods vs s) = []
    \<and> rlMem (reconcileRoleLabels env v pods vs s) = s"
proof -
  have ob: "observedPrimaryAddrEpoch (reObserver env) = (Addr (Primary snap), Epoch (Primary snap))"
    using assms(3,4) by (simp add: observedPrimaryAddrEpoch_def)
  have m: "maintainFailoverDispatchMarker (reMerge env) (reClearOk env) (reObserver env) (reNow1 env) (reNow2 env) (vs, s) = (vs, s)"
    by (rule maintain_keeps_latch[OF assms(1,6) ob])
  have d: "desiredRolesForCR v pods (reObserver env) (reNow3 env) s = (s, [], True, [])"
    using assms(1-5,7) by (simp add: desiredRolesForCR_def failoverLatchActive_def)
  show ?thesis by (simp add: reconcileRoleLabels_def m d)
qed

text \<open>
  A failed restore darkens the Service for the cool-down. If SENTINEL FAILOVER fails after the
  label was stripped from the only primary and the patch that should restore it is refused too, no
  pod is labelled primary, and no relabel pass of the next fifteen seconds whose observer still
  names the old primary changes that: the cool-down latch that the same failure set suppresses it.
\<close>

theorem failed_restore_darkens:
  assumes "dsActs w = []" and "StripLabel n \<in> set (dsActs (fst (runPrimaryRolloutDispatch merge env v state w)))"
    and "envFailover env = IssueErr" and "\<not> restoreOk env"
    and "envObserver env = Some snap" and "envListed env = Some (dsPods w)"
    and "distinct (map pName (dsPods w))" and "countPrimaryLabeledPods (dsPods w) = 1"
    and "mode_of v = ModeSentinel" and "reObserver renv = Some snap2" and "Present snap2"
    and "OPQuorumOK (Primary snap2)" and "Addr (Primary snap2) = Addr (Primary snap)"
    and "reNow2 renv \<le> nowCooldown env + 15 * Second" and "reNow3 renv \<le> nowCooldown env + 15 * Second"
  shows "let w' = fst (runPrimaryRolloutDispatch merge env v state w);
             r = reconcileRoleLabels renv v (dsPods w') vs (dsMem w')
         in countPrimaryLabeledPods (dsPods w') = 0 \<and> rlPods r = dsPods w' \<and> rlPatches r = []"
proof -
  define w' where "w' = fst (runPrimaryRolloutDispatch merge env v state w)"
  obtain snap' p c where h: "may_hand_off env v state w snap' p c" "persistOk env" "stripOk env"
    "runPrimaryRolloutDispatch merge env v state w = handOff merge env snap' p (cleared (nowLatch env) snap' w)"
    using strip_hands_off[OF assms(1) disjI1[OF assms(2)]] by blast
  have p: "is_primary p" "p \<in> set (dsPods w)" and s: "snap' = snap"
    using h(1) assms(5,6) by (auto simp: may_hand_off_def)
  have pods: "dsPods w' = onPod (pName p) (delLabel RoleLabel) (dsPods w)"
    and latch: "failoverLatch (dsMem w') = Some \<lparr>preStripAddr = Addr (Primary snap),
      latchDeadline = nowCooldown env + nogoodslaveCooldownTTL, preStripEpoch = 0\<rparr>"
    using handOff_failed[OF p(1) h(2,3) assms(3,4)] unfolding w'_def h(4) s by simp_all
  have only: "q = p" if "q \<in> set (dsPods w)" "is_primary q" for q
  proof -
    have "length (filter is_primary (dsPods w)) = 1" using assms(8) by (simp add: countPrimaryLabeledPods_def)
    then obtain x where "filter is_primary (dsPods w) = [x]" by (metis One_nat_def length_0_conv length_Suc_conv)
    moreover have "q \<in> set (filter is_primary (dsPods w))" "p \<in> set (filter is_primary (dsPods w))"
      using that p by simp_all
    ultimately show ?thesis by simp
  qed
  have "\<not> is_primary q'" if m: "q' \<in> set (dsPods w')" for q'
  proof -
    obtain q where q: "q \<in> set (dsPods w)" "q' = (if pName q = pName p then delLabel RoleLabel q else q)"
      using m unfolding pods onPod_def set_map by blast
    then show ?thesis using only[OF q(1)] by auto
  qed
  then have dark: "countPrimaryLabeledPods (dsPods w') = 0"
    by (simp add: countPrimaryLabeledPods_def filter_empty_conv)
  have act: "latchActive \<lparr>preStripAddr = Addr (Primary snap), latchDeadline = nowCooldown env + nogoodslaveCooldownTTL,
      preStripEpoch = 0\<rparr> t (Addr (Primary snap2)) (Epoch (Primary snap2))"
    if "t \<le> nowCooldown env + 15 * Second" for t
    using that assms(13) by (simp add: latchActive_iff nogoodslaveCooldownTTL_def)
  from latched_pass_suppressed[OF latch assms(9-12) act[OF assms(14)] act[OF assms(15)]] dark
  show ?thesis by (simp add: Let_def w'_def)
qed

theorem failed_restore_darkens_witness:
  "let w' = fst (runPrimaryRolloutDispatch statusMerge (example_env IssueErr False) example_cr
                   StateRolloutPrimary example_world);
       r = reconcileRoleLabels (example_renv (\<lambda>n w. True) (Some (example_snap (120 * Second))) (125 * Second))
             example_cr (dsPods w') (emptyStatus, emptyStatus) (dsMem w')
   in countPrimaryLabeledPods (dsPods w') = 0 \<and> rlPods r = dsPods w' \<and> rlPatches r = []"
proof -
  let ?env = "example_env IssueErr False"
  have a: "dsActs example_world = []" "distinct (map pName (dsPods example_world))"
    "countPrimaryLabeledPods (dsPods example_world) = 1" "envListed ?env = Some (dsPods example_world)"
    using example_pod_names
    by (simp_all add: example_world_def example_env_def countPrimaryLabeledPods_def example_pods_def pod_at_def label_def)
  have s: "StripLabel ''v-0'' \<in> set (dsActs (fst (runPrimaryRolloutDispatch statusMerge ?env example_cr
      StateRolloutPrimary example_world)))" by (simp add: example_acts)
  have e: "envFailover ?env = IssueErr" "\<not> restoreOk ?env" "envObserver ?env = Some (example_snap (100 * Second))"
    "nowCooldown ?env = 112 * Second" by (simp_all add: example_env_def)
  let ?renv = "example_renv (\<lambda>n w. True) (Some (example_snap (120 * Second))) (125 * Second)"
  have r: "reObserver ?renv = Some (example_snap (120 * Second))"
    "reNow2 ?renv \<le> nowCooldown ?env + 15 * Second" "reNow3 ?renv \<le> nowCooldown ?env + 15 * Second"
    by (simp_all add: example_renv_def e Second_def)
  have sn: "Present (example_snap t)" "OPQuorumOK (Primary (example_snap t))"
    "Addr (Primary (example_snap t)) = Addr (Primary (example_snap u))" for t u
    by (simp_all add: example_snap_def)
  show ?thesis
    by (rule failed_restore_darkens[OF a(1) s e(1-3) a(4,2,3) example_mode r(1) sn(1,2) sn(3) r(2,3)])
qed

end
