(* ===== verification/Rollout_Dispatch.thy ===== *)
theory Rollout_Dispatch
  imports Role_Labels
begin

text \<open>
  The observation pass of a reconcile: \<^verbatim>\<open>derive_state.go\<close>, \<^verbatim>\<open>fsm.go\<close>, \<^verbatim>\<open>rollout_trigger.go\<close>,
  \<^verbatim>\<open>replicas_rolled.go\<close>, \<^verbatim>\<open>fsm_transitions.go\<close>, \<^verbatim>\<open>switch_master_observe.go\<close>,
  \<^verbatim>\<open>split_brain_observe.go\<close> and \<^verbatim>\<open>no_master_agreement_observe.go\<close> of \<^verbatim>\<open>internal/controller\<close>, and
  \<^verbatim>\<open>observeRolloutState\<close>, \<^verbatim>\<open>mergeRequeue\<close> and the scale guard of \<^verbatim>\<open>valkey_controller.go\<close>. Recorded
  events are the reasons, in order. The list of pods and the StatefulSet are those read at the top
  of the pass; the trigger detector reads the StatefulSet again, so it has its own argument, an
  option of an option: a failed read, an absent StatefulSet, or one. The annotation that asks for a
  manual rollout is an argument too. The audit log and the same-node warning only write.

  The lemmas: what each derived state says of the pods, which states and events the pass can never
  produce, that the trigger and hand-off detectors are edge detectors, and the order-independent
  minimum that merging requeue hints computes.
\<close>

section \<open>Deriving the state\<close>

record observedFacts =
  IsStandalone :: bool
  PodCount :: nat
  FQuorumOK :: bool
  FailoverInFlight :: bool
  PrimaryAtTargetRevision :: bool
  AllReplicasAtTargetRevision :: bool
  AllPodsAtTargetRevision :: bool
  ReplicasReadyForHandoff :: bool

definition deriveStateFromFacts :: "observedFacts \<Rightarrow> State" where
  "deriveStateFromFacts f =
     (if PodCount f = 0 then StateBootstrap
      else if IsStandalone f then StateSteady
      else if \<not> FQuorumOK f then StateDegraded
      else if FailoverInFlight f then StateFailoverInFlight
      else if AllPodsAtTargetRevision f then StateSteady
      else if AllReplicasAtTargetRevision f \<and> \<not> PrimaryAtTargetRevision f then
        (if \<not> ReplicasReadyForHandoff f then StateRolloutReplicas else StateRolloutPrimary)
      else if PrimaryAtTargetRevision f \<and> \<not> AllReplicasAtTargetRevision f then StateRolloutReplicas
      else StateRolloutReplicas)"

record podScan =
  primarySeen :: bool
  primaryAtTarget :: bool
  replicasAtTarget :: bool
  anyReplicaSeen :: bool
  replicaCount :: int
  replicasSettled :: bool

definition atTarget :: "string \<Rightarrow> Pod \<Rightarrow> bool" where
  "atTarget target p \<longleftrightarrow> target \<noteq> [] \<and> label p stsRevisionLabel = target"

definition scanOne :: "string \<Rightarrow> podScan \<Rightarrow> Pod \<Rightarrow> podScan" where
  "scanOne target sc p =
     (if is_primary p then sc\<lparr>primarySeen := True, primaryAtTarget := atTarget target p\<rparr>
      else sc\<lparr>anyReplicaSeen := True, replicaCount := replicaCount sc + 1,
             replicasAtTarget := (if \<not> atTarget target p then False else replicasAtTarget sc),
             replicasSettled :=
               (if Terminating p \<or> \<not> podReady p \<or> \<not> podReplicationHealthy p then False
                else replicasSettled sc)\<rparr>)"

definition scan0 :: podScan where
  "scan0 =
     \<lparr>primarySeen = False, primaryAtTarget = False, replicasAtTarget = True, anyReplicaSeen = False,
      replicaCount = 0, replicasSettled = True\<rparr>"

definition facts0 :: "Valkey \<Rightarrow> observedFacts" where
  "facts0 v =
     \<lparr>IsStandalone = (mode_of v = ModeStandalone), PodCount = 0, FQuorumOK = False, FailoverInFlight = False,
      PrimaryAtTargetRevision = False, AllReplicasAtTargetRevision = False,
      AllPodsAtTargetRevision = False, ReplicasReadyForHandoff = False\<rparr>"

definition deriveState ::
  "Valkey \<Rightarrow> Pod list \<Rightarrow> StatefulSet option \<Rightarrow> Snapshot option \<Rightarrow> gotime \<Rightarrow> perCRState \<Rightarrow>
   perCRState \<times> State \<times> observedFacts" where
  "deriveState v pods sts ob now s =
     (let f0 = facts0 v;
          (f1, addr, epoch) =
            (case ob of
               Some snap \<Rightarrow>
                 if \<not> IsStandalone f0 \<and> Present snap
                 then (f0\<lparr>FQuorumOK := OPQuorumOK (Primary snap)\<rparr>, Addr (Primary snap), Epoch (Primary snap))
                 else (f0, [], 0)
             | None \<Rightarrow> (f0, [], 0));
          (s1, held) = failoverLatchActive now addr epoch s;
          f2 = (if held then f1\<lparr>FailoverInFlight := True\<rparr> else f1)
      in case sts of
           None \<Rightarrow> (s1, deriveStateFromFacts f2, f2)
         | Some st \<Rightarrow>
             (let f3 = f2\<lparr>PodCount := length pods\<rparr> in
              if PodCount f3 = 0 then (s1, deriveStateFromFacts f3, f3)
              else
                (let sc = foldl (scanOne (UpdateRevision st)) scan0 pods;
                     pat = primarySeen sc \<and> primaryAtTarget sc;
                     allr = \<not> anyReplicaSeen sc \<or> replicasAtTarget sc;
                     f4 = f3\<lparr>PrimaryAtTargetRevision := pat, AllReplicasAtTargetRevision := allr,
                            ReplicasReadyForHandoff :=
                              replicasSettled sc \<and> replicaCount sc = max (replicas_of v - 1) 0,
                            AllPodsAtTargetRevision := pat \<and> allr\<rparr>
                 in if \<not> primarySeen sc \<and> anyReplicaSeen sc then (s1, StateBootstrap, f4)
                    else (s1, deriveStateFromFacts f4, f4))))"

definition isInRolloutState :: "State \<Rightarrow> bool" where
  "isInRolloutState s \<longleftrightarrow>
     s \<in> {StateRolloutPending, StateRolloutReplicas, StateRolloutPrimary, StateFailoverInFlight,
          StateRolloutComplete}"

definition valkeyRollActive :: "State \<Rightarrow> bool" where
  "valkeyRollActive s \<longleftrightarrow> s = StateRolloutReplicas \<or> s = StateRolloutPrimary"

section \<open>Edges\<close>

definition rolloutTriggerEdge :: "StatefulSet \<Rightarrow> perCRState \<Rightarrow> perCRState \<times> bool \<times> bool" where
  "rolloutTriggerEdge sts s =
     (let target = UpdateRevision sts;
          pendingNow = (target \<noteq> [] \<and> target \<noteq> CurrentRevision sts);
          tr = (case rolloutTrigger s of None \<Rightarrow> \<lparr>lastWasPending = False, lastTarget = []\<rparr> | Some t \<Rightarrow> t)
      in (s\<lparr>rolloutTrigger := Some \<lparr>lastWasPending = pendingNow, lastTarget = (if pendingNow then target else [])\<rparr>\<rparr>,
          pendingNow \<and> \<not> lastWasPending tr,
          pendingNow \<and> lastWasPending tr \<and> lastTarget tr \<noteq> [] \<and> target \<noteq> lastTarget tr))"

definition replicasRolledEdge :: "State \<Rightarrow> perCRState \<Rightarrow> perCRState \<times> bool" where
  "replicasRolledEdge current s =
     (let pendingNow = (current = StateRolloutPrimary);
          before = (case replicasRolled s of None \<Rightarrow> False | Some t \<Rightarrow> lastWasReplicasRolled t)
      in (s\<lparr>replicasRolled := Some \<lparr>lastWasReplicasRolled = pendingNow\<rparr>\<rparr>, pendingNow \<and> \<not> before))"

definition fsmTransitionEdge :: "State \<Rightarrow> perCRState \<Rightarrow> perCRState \<times> State option" where
  "fsmTransitionEdge current s =
     (s\<lparr>fsmTransition := Some \<lparr>lastState = Some current\<rparr>\<rparr>,
      case fsmTransition s of None \<Rightarrow> None | Some t \<Rightarrow> lastState t)"

definition IsFailoverInFlight :: "Snapshot option \<Rightarrow> gotime \<Rightarrow> perCRState \<Rightarrow> bool" where
  "IsFailoverInFlight ob now s =
     (case observedPrimaryAddrEpoch ob of
        (addr, epoch) \<Rightarrow>
          if failoverLatchActivePure now addr epoch s then True
          else (case fsmTransition s of
                  None \<Rightarrow> False
                | Some t \<Rightarrow> lastState t = Some StateFailoverInFlight))"

definition IsSentinelSuppressed :: "perCRState \<Rightarrow> bool" where
  "IsSentinelSuppressed s = (case quorum s of None \<Rightarrow> False | Some q \<Rightarrow> suppressionActive q)"

definition DeferralPredicate :: "Snapshot option \<Rightarrow> gotime \<Rightarrow> perCRState \<Rightarrow> bool" where
  "DeferralPredicate ob now s \<longleftrightarrow> IsSentinelSuppressed s \<or> IsFailoverInFlight ob now s"

definition maybeAuditManualRollout :: "string \<Rightarrow> perCRState \<Rightarrow> perCRState \<times> bool" where
  "maybeAuditManualRollout cur s =
     (case manualRollout s of
        None \<Rightarrow> (s\<lparr>manualRollout := Some cur\<rparr>, False)
      | Some prev \<Rightarrow>
          if cur = prev then (s, False)
          else (s\<lparr>manualRollout := Some cur\<rparr>, cur \<noteq> []))"

section \<open>Suspension\<close>

text \<open>As before, a status pair is the reconcile's copy and the stored one.\<close>

definition readSuspendedFromPending :: "ValkeyStatus \<Rightarrow> bool" where
  "readSuspendedFromPending st \<longleftrightarrow> suspendedOf st = Some SuspendedRolloutPending"

definition patchSuspended ::
  "merge \<Rightarrow> bool \<Rightarrow> SuspendedState option \<Rightarrow> ValkeyStatus \<times> ValkeyStatus \<Rightarrow> ValkeyStatus \<times> ValkeyStatus" where
  "patchSuspended merge ok val vs =
     (case vs of (orig, stored) \<Rightarrow>
        (let new = updRollout (\<lambda>r. r\<lparr>SuspendedFrom := val\<rparr>) orig
         in case statusPatch merge ok orig new stored of
              None \<Rightarrow> (new, stored)
            | Some st \<Rightarrow> (st, st)))"

definition stampSuspendedFrom ::
  "merge \<Rightarrow> bool \<Rightarrow> SuspendedState \<Rightarrow> ValkeyStatus \<times> ValkeyStatus \<Rightarrow> ValkeyStatus \<times> ValkeyStatus" where
  "stampSuspendedFrom merge ok val vs =
     (if suspendedOf (fst vs) = Some val then vs else patchSuspended merge ok (Some val) vs)"

definition clearSuspendedFrom ::
  "merge \<Rightarrow> bool \<Rightarrow> ValkeyStatus \<times> ValkeyStatus \<Rightarrow> ValkeyStatus \<times> ValkeyStatus" where
  "clearSuspendedFrom merge ok vs =
     (if suspendedOf (fst vs) = None then vs else patchSuspended merge ok None vs)"

record passState =
  psStatus :: "ValkeyStatus \<times> ValkeyStatus"
  psMem :: perCRState
  psEvents :: "string list"

definition emit :: "string list \<Rightarrow> passState \<Rightarrow> passState" where
  "emit es w = w\<lparr>psEvents := psEvents w @ es\<rparr>"

definition fsmEmit :: "State \<Rightarrow> Event \<Rightarrow> GuardCtx \<Rightarrow> passState \<Rightarrow> passState" where
  "fsmEmit st e g w = emit (fst (applyFSM st e g)) w"

definition fsmAbortAndRecoveryDispatch ::
  "merge \<Rightarrow> bool \<Rightarrow> bool \<Rightarrow> State \<Rightarrow> bool \<Rightarrow> passState \<Rightarrow> passState" where
  "fsmAbortAndRecoveryDispatch merge ok1 ok2 state quorumOK w =
     (let (s1, prev) = fsmTransitionEdge state (psMem w);
          w1 = w\<lparr>psMem := s1\<rparr>;
          guards = noGuards\<lparr>QuorumOK := quorumOK\<rparr>;
          w2 = (if state = StateDegraded then
                  (if prev = Some StateRolloutPending then
                     fsmEmit StateRolloutPending EventReconcileTick guards
                       (w1\<lparr>psStatus := stampSuspendedFrom merge ok1 SuspendedRolloutPending (psStatus w1)\<rparr>)
                   else if prev = Some StateRolloutReplicas then
                     fsmEmit StateRolloutReplicas EventQuorumLost guards
                       (w1\<lparr>psStatus := stampSuspendedFrom merge ok1 SuspendedRolloutReplicas (psStatus w1)\<rparr>)
                   else if prev = Some StateRolloutPrimary then
                     fsmEmit StateRolloutPrimary EventReconcileTick guards w1
                   else w1)
                else w1);
          w3 = (if prev = Some StateDegraded \<and> (state = StateSteady \<or> state = StateRolloutPending) then
                  (let g = guards\<lparr>RolloutSuspendedFromPending := readSuspendedFromPending (fst (psStatus w2))\<rparr>;
                       (es, nxt, rq, matched) = applyFSM StateDegraded EventRecovered g;
                       w' = emit es w2
                   in if matched then w'\<lparr>psStatus := clearSuspendedFrom merge ok1 (psStatus w')\<rparr> else w')
                else w2)
      in if state = StateSteady then w3\<lparr>psStatus := clearSuspendedFrom merge ok2 (psStatus w3)\<rparr> else w3)"

section \<open>External switches\<close>

fun electedPod :: "string \<Rightarrow> Pod list \<Rightarrow> Pod option" where
  "electedPod host [] = None"
| "electedPod host (p # ps) = (if at_host host p then Some p else electedPod host ps)"

definition observeExternalSwitchMaster :: "Snapshot \<Rightarrow> Pod list \<Rightarrow> bool \<Rightarrow> string \<times> bool" where
  "observeExternalSwitchMaster snap pods held =
     (if \<not> Present snap \<or> \<not> OPQuorumOK (Primary snap) \<or> held then ([], False)
      else (case SplitHostPort (Addr (Primary snap)) of
              None \<Rightarrow> ([], False)
            | Some (host, port) \<Rightarrow>
                if host = [] then ([], False)
                else (case electedPod host pods of
                        None \<Rightarrow> ([], False)
                      | Some p \<Rightarrow>
                          if is_primary p then ([], False)
                          else if countPrimaryLabeledPods pods = 0 then ([], False)
                          else (Addr (Primary snap), True))))"

definition fsmSwitchMasterDispatch :: "State \<Rightarrow> Snapshot \<Rightarrow> Pod list \<Rightarrow> gotime \<Rightarrow> passState \<Rightarrow> passState" where
  "fsmSwitchMasterDispatch state snap pods now w =
     (if state \<noteq> StateSteady then w\<lparr>psMem := resetSwitchMasterEdge (psMem w)\<rparr>
      else
        (let (s1, held) = failoverLatchActive now (Addr (Primary snap)) (Epoch (Primary snap)) (psMem w);
             (elected, detected) = observeExternalSwitchMaster snap pods held
         in if \<not> detected then w\<lparr>psMem := resetSwitchMasterEdge s1\<rparr>
            else
              (let (s2, fire) = fireSwitchMasterEdge elected s1 in
               if \<not> fire then w\<lparr>psMem := s2\<rparr>
               else fsmEmit StateSteady EventSwitchMaster
                      (noGuards\<lparr>QuorumOK := OPQuorumOK (Primary snap)\<rparr>) (w\<lparr>psMem := s2\<rparr>))))"

definition snapshotReportsSplitBrain :: "Snapshot \<Rightarrow> bool" where
  "snapshotReportsSplitBrain snap \<longleftrightarrow> Present snap \<and> Quorum (Primary snap) = QuorumStatusLost"

definition observeSplitBrain :: "Valkey \<Rightarrow> Snapshot option \<Rightarrow> bool" where
  "observeSplitBrain v ob =
     (if mode_of v \<noteq> ModeSentinel then False
      else (case ob of None \<Rightarrow> False | Some snap \<Rightarrow> snapshotReportsSplitBrain snap))"

definition observeNoMasterAgreement :: "Valkey \<Rightarrow> Snapshot option \<Rightarrow> Pod list option \<Rightarrow> bool" where
  "observeNoMasterAgreement v ob listed =
     (if mode_of v \<noteq> ModeSentinel then False
      else (case ob of
              None \<Rightarrow> False
            | Some snap \<Rightarrow>
                if \<not> Present snap \<or> \<not> OPQuorumOK (Primary snap) then False
                else (case SplitHostPort (Addr (Primary snap)) of
                        None \<Rightarrow> False
                      | Some (host, port) \<Rightarrow>
                          if host = [] then False
                          else (case listed of
                                  None \<Rightarrow> False
                                | Some pods \<Rightarrow> \<not> list_ex (\<lambda>p. PodIP p = host) pods))))"

section \<open>Requeue hints\<close>

definition minRequeueFloor :: duration where
  "minRequeueFloor = 100000000"

definition mergeRequeue :: "duration \<Rightarrow> duration \<Rightarrow> duration" where
  "mergeRequeue current hint =
     (if hint \<le> 0 then current
      else
        (let h = (if hint < minRequeueFloor then minRequeueFloor else hint)
         in if current = 0 \<or> h < current then h else current))"

section \<open>The pass\<close>

definition observeRolloutState ::
  "merge \<Rightarrow> bool \<Rightarrow> bool \<Rightarrow> Valkey \<Rightarrow> string \<Rightarrow> Pod list \<Rightarrow> StatefulSet option \<Rightarrow>
   StatefulSet option option \<Rightarrow> Snapshot option \<Rightarrow> gotime \<Rightarrow> gotime \<Rightarrow> passState \<Rightarrow> passState \<times> State \<times> observedFacts \<times> duration" where
  "observeRolloutState merge ok1 ok2 v annotation pods sts stsNow ob now1 now2 w =
     (let (s1, state, facts) = deriveState v pods sts ob now1 (psMem w);
          w1 = w\<lparr>psMem := fst (maybeAuditManualRollout annotation s1)\<rparr>;
          g = noGuards\<lparr>QuorumOK := FQuorumOK facts\<rparr>;
          (w2, rq) =
            (case stsNow of
               Some (Some st) \<Rightarrow>
                 (let (s2, edge, mid) = rolloutTriggerEdge st (psMem w1);
                      wa = w1\<lparr>psMem := s2\<rparr>;
                      ra = (if edge then fst (snd (snd (applyFSM state EventRolloutTrigger g))) else 0);
                      wb = (if edge then fsmEmit state EventRolloutTrigger g wa else wa);
                      rb = (if mid then fst (snd (snd (applyFSM state EventSpecChanged g))) else 0);
                      wc = (if mid then fsmEmit state EventSpecChanged g wb else wb)
                  in (wc, mergeRequeue (mergeRequeue 0 ra) rb))
             | _ \<Rightarrow> (w1, 0));
          (s3, rolled) = replicasRolledEdge state (psMem w2);
          w3 = w2\<lparr>psMem := s3\<rparr>;
          w4 = (if rolled then fsmEmit StateRolloutReplicas EventAllReplicasRolled g w3 else w3);
          w5 = fsmAbortAndRecoveryDispatch merge ok1 ok2 state (FQuorumOK facts) w4;
          w6 = (case ob of None \<Rightarrow> w5 | Some snap \<Rightarrow> fsmSwitchMasterDispatch state snap pods now2 w5)
      in (w6, state, facts, rq))"

section \<open>Scaling\<close>

text \<open>
  The replica count that \<^verbatim>\<open>reconcileValkeySTS\<close> applies to an existing StatefulSet: the structural guard,
  then the temporal deferral.
\<close>

definition scaleDecision :: "int \<Rightarrow> int \<Rightarrow> State \<Rightarrow> int \<times> bool \<Rightarrow> int \<times> string list" where
  "scaleDecision want current state primary =
     (let structural = want < current \<and> scaleDownPrimaryRefusal want current (fst primary) (snd primary) in
      if structural then (current, [''ScaleRefused''])
      else if want \<noteq> current \<and> isInRolloutState state then (current, [''ScaleDeferred''])
      else (want, []))"

section \<open>Lemmas on the derived state\<close>

lemma scan_fields:
  "primarySeen (foldl (scanOne target) sc pods) \<longleftrightarrow> primarySeen sc \<or> list_ex is_primary pods"
  "anyReplicaSeen (foldl (scanOne target) sc pods) \<longleftrightarrow> anyReplicaSeen sc \<or> (\<exists>p\<in>set pods. \<not> is_primary p)"
  "replicasAtTarget (foldl (scanOne target) sc pods) \<longleftrightarrow>
     replicasAtTarget sc \<and> (\<forall>p\<in>set pods. \<not> is_primary p \<longrightarrow> atTarget target p)"
  "replicaCount (foldl (scanOne target) sc pods) =
     replicaCount sc + int (length (filter (\<lambda>p. \<not> is_primary p) pods))"
  by (induction pods arbitrary: sc) (simp_all add: scanOne_def)

lemma scan_settled:
  "replicasSettled (foldl (scanOne target) sc pods) \<longleftrightarrow>
     replicasSettled sc \<and>
     (\<forall>p\<in>set pods. \<not> is_primary p \<longrightarrow> \<not> Terminating p \<and> podReady p \<and> podReplicationHealthy p)"
proof (induction pods arbitrary: sc)
  case (Cons p pods)
  have "replicasSettled (scanOne target sc p) \<longleftrightarrow>
      replicasSettled sc \<and> (\<not> is_primary p \<longrightarrow> \<not> Terminating p \<and> podReady p \<and> podReplicationHealthy p)"
    by (auto simp: scanOne_def)
  with Cons.IH[of "scanOne target sc p"] show ?case by auto
qed simp

lemma scan_primaryAtTarget:
  "primaryAtTarget (foldl (scanOne target) sc pods) =
     (case filter is_primary (rev pods) of [] \<Rightarrow> primaryAtTarget sc | p # _ \<Rightarrow> atTarget target p)"
  by (induction pods arbitrary: sc) (simp_all add: scanOne_def split: list.splits)

definition observed :: "Valkey \<Rightarrow> Snapshot option \<Rightarrow> bool \<times> string \<times> int" where
  "observed v ob =
     (case ob of
        Some snap \<Rightarrow>
          if mode_of v \<noteq> ModeStandalone \<and> Present snap
          then (OPQuorumOK (Primary snap), Addr (Primary snap), Epoch (Primary snap)) else (False, [], 0)
      | None \<Rightarrow> (False, [], 0))"

definition latched :: "Valkey \<Rightarrow> Snapshot option \<Rightarrow> gotime \<Rightarrow> perCRState \<Rightarrow> bool" where
  "latched v ob now s = failoverLatchActivePure now (fst (snd (observed v ob))) (snd (snd (observed v ob))) s"

text \<open>The derivation in one equation, for an existing StatefulSet.\<close>

definition factsOf :: "Valkey \<Rightarrow> Pod list \<Rightarrow> StatefulSet \<Rightarrow> Snapshot option \<Rightarrow> gotime \<Rightarrow> perCRState \<Rightarrow> observedFacts" where
  "factsOf v pods st ob now s =
     (let sc = foldl (scanOne (UpdateRevision st)) scan0 pods;
          pat = primarySeen sc \<and> primaryAtTarget sc;
          allr = \<not> anyReplicaSeen sc \<or> replicasAtTarget sc
      in \<lparr>IsStandalone = (mode_of v = ModeStandalone), PodCount = length pods, FQuorumOK = fst (observed v ob),
          FailoverInFlight = latched v ob now s, PrimaryAtTargetRevision = pat,
          AllReplicasAtTargetRevision = allr, AllPodsAtTargetRevision = pat \<and> allr,
          ReplicasReadyForHandoff = replicasSettled sc \<and> replicaCount sc = max (replicas_of v - 1) 0\<rparr>)"

lemma observed_facts:
  "(case ob of
      Some snap \<Rightarrow>
        if \<not> IsStandalone (facts0 v) \<and> Present snap
        then ((facts0 v)\<lparr>FQuorumOK := OPQuorumOK (Primary snap)\<rparr>, Addr (Primary snap), Epoch (Primary snap))
        else (facts0 v, [], 0)
    | None \<Rightarrow> (facts0 v, [], 0)) =
   ((facts0 v)\<lparr>FQuorumOK := fst (observed v ob)\<rparr>, fst (snd (observed v ob)), snd (snd (observed v ob)))"
  by (simp add: observed_def facts0_def split: option.splits)

lemma deriveState_facts:
  assumes "pods \<noteq> []"
  shows "snd (deriveState v pods (Some st) ob now s) =
    (if \<not> list_ex is_primary pods then StateBootstrap else deriveStateFromFacts (factsOf v pods st ob now s),
     factsOf v pods st ob now s)"
proof -
  let ?sc = "foldl (scanOne (UpdateRevision st)) scan0 pods"
  have "\<not> list_ex is_primary pods \<Longrightarrow> \<exists>p\<in>set pods. \<not> is_primary p"
    using assms by (cases pods) (auto simp: list_ex_iff)
  then have boot: "(\<not> primarySeen ?sc \<and> anyReplicaSeen ?sc) = (\<not> list_ex is_primary pods)"
    by (auto simp: scan_fields scan0_def)
  show ?thesis
    using assms unfolding deriveState_def Let_def observed_facts
    by (cases "latched v ob now s"; cases "list_ex is_primary pods")
      (simp_all only: case_prod_beta failoverLatchActive_pure latched_def[symmetric] factsOf_def Let_def facts0_def
        boot fst_conv snd_conv option.case if_True if_False observedFacts.simps length_0_conv prod.collapse
        simp_thms split: if_split)
qed

definition handoff_ready :: "Valkey \<Rightarrow> Pod list \<Rightarrow> bool" where
  "handoff_ready v pods \<longleftrightarrow>
     (\<forall>p\<in>set pods. \<not> is_primary p \<longrightarrow> \<not> Terminating p \<and> podReady p \<and> podReplicationHealthy p) \<and>
     int (length (filter (\<lambda>p. \<not> is_primary p) pods)) = max (replicas_of v - 1) 0"

definition primary_at :: "string \<Rightarrow> Pod list \<Rightarrow> bool" where
  "primary_at target pods \<longleftrightarrow>
     (case filter is_primary (rev pods) of [] \<Rightarrow> False | p # _ \<Rightarrow> atTarget target p)"

definition replicas_at :: "string \<Rightarrow> Pod list \<Rightarrow> bool" where
  "replicas_at target pods \<longleftrightarrow> (\<forall>p\<in>set pods. \<not> is_primary p \<longrightarrow> atTarget target p)"

lemma factsOf_fields:
  assumes "list_ex is_primary pods"
  shows "PrimaryAtTargetRevision (factsOf v pods st ob now s) = primary_at (UpdateRevision st) pods"
    "AllReplicasAtTargetRevision (factsOf v pods st ob now s) = replicas_at (UpdateRevision st) pods"
    "AllPodsAtTargetRevision (factsOf v pods st ob now s) =
       (primary_at (UpdateRevision st) pods \<and> replicas_at (UpdateRevision st) pods)"
    "ReplicasReadyForHandoff (factsOf v pods st ob now s) = handoff_ready v pods"
  using assms by (auto simp: factsOf_def Let_def scan_fields scan_settled scan_primaryAtTarget scan0_def primary_at_def
      replicas_at_def handoff_ready_def split: list.splits)

text \<open>
  C33. What a derived state says. With a StatefulSet and at least one pod: Bootstrap exactly when no pod
  is labelled primary, also while the failover latch is active, against the comment on the latch;
  otherwise a standalone CR is Steady, and in the other modes no quorum gives Degraded, an active
  latch FailoverInFlight, all pods at the update revision Steady, a stale primary behind a complete,
  settled and updated replica set RolloutPrimary, and everything else RolloutReplicas. Pending,
  complete, quorum-lost and exit are never derived.
\<close>

theorem derived_state_exact:
  assumes "pods \<noteq> []"
  shows "fst (snd (deriveState v pods (Some st) ob now s)) =
    (if \<not> list_ex is_primary pods then StateBootstrap
     else if mode_of v = ModeStandalone then StateSteady
     else if \<not> fst (observed v ob) then StateDegraded
     else if latched v ob now s then StateFailoverInFlight
     else if primary_at (UpdateRevision st) pods \<and> replicas_at (UpdateRevision st) pods then StateSteady
     else if \<not> primary_at (UpdateRevision st) pods \<and> replicas_at (UpdateRevision st) pods \<and> handoff_ready v pods
     then StateRolloutPrimary else StateRolloutReplicas)"
proof (cases "list_ex is_primary pods")
  case False
  with deriveState_facts[OF assms, of v st ob now s] show ?thesis by simp
next
  case True
  have "IsStandalone (factsOf v pods st ob now s) = (mode_of v = ModeStandalone)"
    "PodCount (factsOf v pods st ob now s) \<noteq> 0" "FQuorumOK (factsOf v pods st ob now s) = fst (observed v ob)"
    "FailoverInFlight (factsOf v pods st ob now s) = latched v ob now s"
    using assms by (simp_all add: factsOf_def Let_def)
  with True deriveState_facts[OF assms, of v st ob now s] factsOf_fields[OF True, of v st ob now s]
  show ?thesis by (simp add: deriveStateFromFacts_def)
qed

definition example_sts :: StatefulSet where
  "example_sts = \<lparr>StsReplicas = Some 3, ReadyReplicas = 3, UpdateRevision = ''r2'', CurrentRevision = ''r1''\<rparr>"

theorem derived_state_exact_witness:
  "fst (snd (deriveState example_cr example_pods (Some example_sts) (Some (example_snap 5)) 7 zeroPerCR)) =
     StateRolloutReplicas"
proof -
  have "example_pods \<noteq> []" by (simp add: example_pods_def)
  note d = derived_state_exact[OF this, of example_cr example_sts "Some (example_snap 5)" 7 zeroPerCR]
  have "list_ex is_primary example_pods" "mode_of example_cr = ModeSentinel"
    "fst (observed example_cr (Some (example_snap 5)))" "\<not> latched example_cr (Some (example_snap 5)) 7 zeroPerCR"
    "\<not> primary_at ''r2'' example_pods" "\<not> replicas_at ''r2'' example_pods"
    by (simp_all add: example_pods_def pod_at_def label_def example_cr_def observed_def example_snap_def latched_def
        failoverLatchActivePure_def zeroPerCR_def primary_at_def replicas_at_def atTarget_def RoleLabel_def
        stsRevisionLabel_def)
  then show ?thesis unfolding d by (simp add: example_sts_def)
qed

section \<open>Which rollout events appear\<close>

lemma rows_of:
  "applyFSM s e c =
     (case filter (row_matches s e c) defaultTransitions of
        [] \<Rightarrow> ([], s, 0, False)
      | t # _ \<Rightarrow> (if EventReason (Effect t) = [] then [] else [EventReason (Effect t)], NextState t,
                  RequeueAfter (Effect t), True))"
  by (simp add: applyFSM_def Apply_def NewMachine_def apply_rows_filter split: list.splits)

lemma fsm_events:
  assumes "r \<in> set (fst (applyFSM s e c))"
  shows "\<exists>t\<in>set defaultTransitions. row_matches s e c t \<and> EventReason (Effect t) = r"
proof -
  obtain t ts where t: "filter (row_matches s e c) defaultTransitions = t # ts" "EventReason (Effect t) = r"
    using assms by (auto simp: rows_of split: list.splits if_splits)
  then have "t \<in> set (filter (row_matches s e c) defaultTransitions)" by simp
  with t(2) show ?thesis by auto
qed

text \<open>The rows that emit a given reason, as the state and event they need.\<close>

definition emitters :: "string \<Rightarrow> (State \<times> Event) set" where
  "emitters r = {(From t, OnEvent t) | t. t \<in> set defaultTransitions \<and> EventReason (Effect t) = r}"

lemma emitters_list:
  "emitters r = set (map (\<lambda>t. (From t, OnEvent t)) (filter (\<lambda>t. EventReason (Effect t) = r) defaultTransitions))"
  by (auto simp: emitters_def)

lemma emitters_rollout:
  "emitters ''RolloutStarted'' = {(StateSteady, EventRolloutTrigger)}"
  "emitters ''RolloutResumed'' = {(StateDegraded, EventRecovered)}"
  unfolding emitters_list defaultTransitions_def fsm_rows
  by (simp_all add: emits_def noSideEffect_def)

lemma fsm_event_from: "r \<in> set (fst (applyFSM s e c)) \<Longrightarrow> (s, e) \<in> emitters r"
  using fsm_events[of r s e c] by (auto simp: emitters_def row_matches_def)

lemma started_guard:
  assumes "''RolloutStarted'' \<in> set (fst (applyFSM s e c))"
  shows "s = StateSteady \<and> e = EventRolloutTrigger \<and> QuorumOK c"
proof -
  have se: "s = StateSteady" "e = EventRolloutTrigger"
    using fsm_event_from[OF assms] by (simp_all add: emitters_rollout)
  have "\<not> QuorumOK c \<Longrightarrow> fst (applyFSM StateSteady EventRolloutTrigger c) = [''RolloutDeferred'']"
    by (simp add: rows_of defaultTransitions_def fsm_rows)
  with assms se show ?thesis by fastforce
qed

lemma resumed_guard:
  assumes "''RolloutResumed'' \<in> set (fst (applyFSM s e c))"
  shows "s = StateDegraded \<and> e = EventRecovered \<and> RolloutSuspendedFromPending c"
proof -
  have se: "s = StateDegraded" "e = EventRecovered"
    using fsm_event_from[OF assms] by (simp_all add: emitters_rollout)
  have "\<not> RolloutSuspendedFromPending c \<Longrightarrow> set (fst (applyFSM StateDegraded EventRecovered c)) \<subseteq> {''DegradedResolved''}"
    by (simp add: rows_of defaultTransitions_def fsm_rows emits_def)
  with assms se show ?thesis by fastforce
qed

lemma fsmEmit_simps [simp]:
  "psEvents (fsmEmit st e g w) = psEvents w @ fst (applyFSM st e g)"
  "psMem (fsmEmit st e g w) = psMem w" "psStatus (fsmEmit st e g w) = psStatus w"
  by (simp_all add: fsmEmit_def emit_def)

text \<open>The abort and recovery dispatch, with its two halves named.\<close>

definition abortStep :: "merge \<Rightarrow> bool \<Rightarrow> State \<Rightarrow> State option \<Rightarrow> GuardCtx \<Rightarrow> passState \<Rightarrow> passState" where
  "abortStep merge ok state prev guards w =
     (if state = StateDegraded then
        (if prev = Some StateRolloutPending then
           fsmEmit StateRolloutPending EventReconcileTick guards
             (w\<lparr>psStatus := stampSuspendedFrom merge ok SuspendedRolloutPending (psStatus w)\<rparr>)
         else if prev = Some StateRolloutReplicas then
           fsmEmit StateRolloutReplicas EventQuorumLost guards
             (w\<lparr>psStatus := stampSuspendedFrom merge ok SuspendedRolloutReplicas (psStatus w)\<rparr>)
         else if prev = Some StateRolloutPrimary then
           fsmEmit StateRolloutPrimary EventReconcileTick guards w
         else w)
      else w)"

definition recoverStep :: "merge \<Rightarrow> bool \<Rightarrow> State \<Rightarrow> State option \<Rightarrow> GuardCtx \<Rightarrow> passState \<Rightarrow> passState" where
  "recoverStep merge ok state prev guards w =
     (if prev = Some StateDegraded \<and> (state = StateSteady \<or> state = StateRolloutPending) then
        (let r = applyFSM StateDegraded EventRecovered
                   (guards\<lparr>RolloutSuspendedFromPending := readSuspendedFromPending (fst (psStatus w))\<rparr>);
             w' = emit (fst r) w
         in if snd (snd (snd r)) then w'\<lparr>psStatus := clearSuspendedFrom merge ok (psStatus w')\<rparr> else w')
      else w)"

lemma abort_recovery_eq:
  "fsmAbortAndRecoveryDispatch merge ok1 ok2 state q w =
     (let s1 = fst (fsmTransitionEdge state (psMem w)); prev = snd (fsmTransitionEdge state (psMem w));
          g = noGuards\<lparr>QuorumOK := q\<rparr>;
          w3 = recoverStep merge ok1 state prev g (abortStep merge ok1 state prev g (w\<lparr>psMem := s1\<rparr>))
      in if state = StateSteady then w3\<lparr>psStatus := clearSuspendedFrom merge ok2 (psStatus w3)\<rparr> else w3)"
  by (simp only: fsmAbortAndRecoveryDispatch_def abortStep_def recoverStep_def Let_def case_prod_beta)

lemma abortStep_events:
  "r \<in> set (psEvents (abortStep merge ok state prev g w)) \<Longrightarrow>
     r \<in> set (psEvents w) \<or> (StateRolloutPending, EventReconcileTick) \<in> emitters r \<or>
     (StateRolloutReplicas, EventQuorumLost) \<in> emitters r \<or> (StateRolloutPrimary, EventReconcileTick) \<in> emitters r"
  by (auto simp: abortStep_def dest: fsm_event_from split: if_splits)

lemma recoverStep_events:
  "r \<in> set (psEvents (recoverStep merge ok state prev g w)) \<Longrightarrow>
     r \<in> set (psEvents w) \<or> (StateDegraded, EventRecovered) \<in> emitters r"
  by (auto simp: recoverStep_def emit_def Let_def dest: fsm_event_from split: if_splits)

lemma abort_recovery_events:
  assumes "r \<in> set (psEvents (fsmAbortAndRecoveryDispatch merge ok1 ok2 state q w))"
  shows "r \<in> set (psEvents w) \<or> (StateRolloutPending, EventReconcileTick) \<in> emitters r \<or>
     (StateRolloutReplicas, EventQuorumLost) \<in> emitters r \<or> (StateRolloutPrimary, EventReconcileTick) \<in> emitters r \<or>
     (StateDegraded, EventRecovered) \<in> emitters r"
proof -
  let ?g = "noGuards\<lparr>QuorumOK := q\<rparr>" and ?prev = "snd (fsmTransitionEdge state (psMem w))"
  let ?w1 = "w\<lparr>psMem := fst (fsmTransitionEdge state (psMem w))\<rparr>"
  have "r \<in> set (psEvents (recoverStep merge ok1 state ?prev ?g (abortStep merge ok1 state ?prev ?g ?w1)))"
    using assms by (simp add: abort_recovery_eq Let_def split: if_splits)
  from recoverStep_events[OF this] abortStep_events[of r merge ok1 state ?prev ?g ?w1] show ?thesis by auto
qed

lemma switch_events:
  "r \<in> set (psEvents (fsmSwitchMasterDispatch state snap pods now w)) \<Longrightarrow>
     r \<in> set (psEvents w) \<or> (StateSteady, EventSwitchMaster) \<in> emitters r"
  by (auto simp: fsmSwitchMasterDispatch_def Let_def dest: fsm_event_from split: if_splits prod.splits)

text \<open>The pass, with its trigger step named.\<close>

definition triggerStep :: "State \<Rightarrow> GuardCtx \<Rightarrow> StatefulSet option option \<Rightarrow> passState \<Rightarrow> passState \<times> duration" where
  "triggerStep state g stsNow w =
     (case stsNow of
        Some (Some st) \<Rightarrow>
          (let r = rolloutTriggerEdge st (psMem w);
               wa = w\<lparr>psMem := fst r\<rparr>;
               ra = (if fst (snd r) then fst (snd (snd (applyFSM state EventRolloutTrigger g))) else 0);
               wb = (if fst (snd r) then fsmEmit state EventRolloutTrigger g wa else wa);
               rb = (if snd (snd r) then fst (snd (snd (applyFSM state EventSpecChanged g))) else 0);
               wc = (if snd (snd r) then fsmEmit state EventSpecChanged g wb else wb)
           in (wc, mergeRequeue (mergeRequeue 0 ra) rb))
      | _ \<Rightarrow> (w, 0))"

definition afterDerive :: "Valkey \<Rightarrow> string \<Rightarrow> Pod list \<Rightarrow> StatefulSet option \<Rightarrow> Snapshot option \<Rightarrow> gotime \<Rightarrow> passState \<Rightarrow> passState" where
  "afterDerive v annotation pods sts ob now w =
     w\<lparr>psMem := fst (maybeAuditManualRollout annotation (fst (deriveState v pods sts ob now (psMem w))))\<rparr>"

definition rolledStep :: "State \<Rightarrow> GuardCtx \<Rightarrow> passState \<Rightarrow> passState" where
  "rolledStep state g w =
     (let r = replicasRolledEdge state (psMem w); w3 = w\<lparr>psMem := fst r\<rparr>
      in if snd r then fsmEmit StateRolloutReplicas EventAllReplicasRolled g w3 else w3)"

lemma observe_eq:
  "observeRolloutState merge ok1 ok2 v annotation pods sts stsNow ob now1 now2 w =
     (let d = snd (deriveState v pods sts ob now1 (psMem w)); state = fst d; facts = snd d;
          g = noGuards\<lparr>QuorumOK := FQuorumOK facts\<rparr>;
          t = triggerStep state g stsNow (afterDerive v annotation pods sts ob now1 w);
          w5 = fsmAbortAndRecoveryDispatch merge ok1 ok2 state (FQuorumOK facts) (rolledStep state g (fst t));
          w6 = (case ob of None \<Rightarrow> w5 | Some snap \<Rightarrow> fsmSwitchMasterDispatch state snap pods now2 w5)
      in (w6, state, facts, snd t))"
  by (simp only: observeRolloutState_def triggerStep_def afterDerive_def rolledStep_def Let_def case_prod_beta)

lemma trigger_events:
  "r \<in> set (psEvents (fst (triggerStep state g stsNow w))) \<Longrightarrow>
     r \<in> set (psEvents w) \<or> r \<in> set (fst (applyFSM state EventRolloutTrigger g)) \<or> (state, EventSpecChanged) \<in> emitters r"
  by (auto simp: triggerStep_def Let_def dest: fsm_event_from split: option.splits if_splits)

lemma rolled_events:
  "r \<in> set (psEvents (rolledStep state g w)) \<Longrightarrow>
     r \<in> set (psEvents w) \<or> (StateRolloutReplicas, EventAllReplicasRolled) \<in> emitters r"
  by (auto simp: rolledStep_def Let_def dest: fsm_event_from split: if_splits)

lemma started_only_trigger:
  assumes "psEvents w = []"
    and "''RolloutStarted'' \<in> set (psEvents (fst (observeRolloutState merge ok1 ok2 v annotation pods sts stsNow ob now1 now2 w)))"
  shows "fst (snd (deriveState v pods sts ob now1 (psMem w))) = StateSteady \<and>
    FQuorumOK (snd (snd (deriveState v pods sts ob now1 (psMem w))))"
proof -
  let ?d = "snd (deriveState v pods sts ob now1 (psMem w))"
  let ?g = "noGuards\<lparr>QuorumOK := FQuorumOK (snd ?d)\<rparr>"
  let ?w1 = "afterDerive v annotation pods sts ob now1 w"
  let ?w4 = "rolledStep (fst ?d) ?g (fst (triggerStep (fst ?d) ?g stsNow ?w1))"
  let ?w5 = "fsmAbortAndRecoveryDispatch merge ok1 ok2 (fst ?d) (FQuorumOK (snd ?d)) ?w4"
  note em = emitters_rollout(1)
  have "''RolloutStarted'' \<in> set (psEvents ?w5)"
    using assms(2) switch_events[of "''RolloutStarted''" "fst ?d" _ pods now2 ?w5]
    by (simp add: observe_eq Let_def em split: option.splits)
  then have "''RolloutStarted'' \<in> set (psEvents ?w4)"
    using abort_recovery_events[of "''RolloutStarted''" merge ok1 ok2 "fst ?d" "FQuorumOK (snd ?d)" ?w4] by (simp add: em)
  then have "''RolloutStarted'' \<in> set (psEvents (fst (triggerStep (fst ?d) ?g stsNow ?w1)))"
    using rolled_events[of "''RolloutStarted''" "fst ?d" ?g] by (simp add: em)
  then have "''RolloutStarted'' \<in> set (fst (applyFSM (fst ?d) EventRolloutTrigger ?g))"
    using trigger_events[of "''RolloutStarted''" "fst ?d" ?g stsNow ?w1] assms(1) by (simp add: em afterDerive_def)
  from started_guard[OF this] show ?thesis by simp
qed

lemma derive_empty: "sts = None \<or> pods = [] \<Longrightarrow> fst (snd (deriveState v pods sts ob now s)) = StateBootstrap"
  unfolding deriveState_def Let_def observed_facts
  by (auto simp: case_prod_beta deriveStateFromFacts_def facts0_def split: option.splits)

lemma derive_range:
  "fst (snd (deriveState v pods sts ob now s)) \<in>
     {StateBootstrap, StateSteady, StateDegraded, StateFailoverInFlight, StateRolloutReplicas, StateRolloutPrimary}"
proof (cases "sts = None \<or> pods = []")
  case True
  then show ?thesis by (simp add: derive_empty)
next
  case False
  then obtain st where "sts = Some st" "pods \<noteq> []" by auto
  with deriveState_facts[of pods v st ob now s] show ?thesis by (simp add: deriveStateFromFacts_def)
qed

lemma derive_steady_quorum:
  assumes "fst (snd (deriveState v pods sts ob now s)) = StateSteady"
    and "FQuorumOK (snd (snd (deriveState v pods sts ob now s)))"
  shows "\<exists>st. sts = Some st \<and> pods \<noteq> [] \<and> mode_of v \<noteq> ModeStandalone \<and>
    primary_at (UpdateRevision st) pods \<and> replicas_at (UpdateRevision st) pods"
proof -
  have "\<not> (sts = None \<or> pods = [])"
  proof
    assume "sts = None \<or> pods = []"
    from derive_empty[OF this, of v ob now s] assms(1) show False by simp
  qed
  then obtain st where st: "sts = Some st" "pods \<noteq> []" by auto
  note d = deriveState_facts[OF st(2), of v st ob now s]
  have q: "fst (observed v ob)" using assms(2) st(1) d by (simp add: factsOf_def Let_def)
  then have m: "mode_of v \<noteq> ModeStandalone" by (auto simp: observed_def split: option.splits if_splits)
  have p: "list_ex is_primary pods" using assms(1) st(1) d by (auto split: if_splits)
  have "deriveStateFromFacts (factsOf v pods st ob now s) = StateSteady" using assms(1) st(1) d p by simp
  then have "AllPodsAtTargetRevision (factsOf v pods st ob now s)"
    using m st(2) by (auto simp: deriveStateFromFacts_def factsOf_def Let_def split: if_splits)
  with st m factsOf_fields(3)[OF p, of v st ob now s] show ?thesis by auto
qed

text \<open>
  RolloutStarted comes too late. If a pass records RolloutStarted, the CR is not standalone and
  every pod already carries the update revision, the primary included, so there is nothing left to
  roll. The event is tied to the trigger edge in state Steady, and with a stale pod and a quorum the
  derived state is never Steady. A standalone CR never records it.
\<close>

theorem rollout_started_too_late:
  assumes "psEvents w = []"
    and "''RolloutStarted'' \<in> set (psEvents (fst (observeRolloutState merge ok1 ok2 v annotation pods sts stsNow ob
           now1 now2 w)))"
  shows "mode_of v \<noteq> ModeStandalone \<and> pods \<noteq> [] \<and>
    (\<exists>st. sts = Some st \<and> replicas_at (UpdateRevision st) pods \<and> primary_at (UpdateRevision st) pods)"
  using derive_steady_quorum[of v pods sts ob now1 "psMem w"] started_only_trigger[OF assms] by blast

definition rolled_pods :: "Pod list" where
  "rolled_pods =
     [pod_at ''v-0'' ''10.0.0.9'' [(RoleLabel, roleValuePrimary), (stsRevisionLabel, ''r2'')],
      pod_at ''v-1'' ''10.0.0.1'' [(RoleLabel, roleValueReplica), (stsRevisionLabel, ''r2'')]]"

definition example_pass :: passState where
  "example_pass = \<lparr>psStatus = (emptyStatus, emptyStatus), psMem = zeroPerCR, psEvents = []\<rparr>"

lemma rolled_facts:
  "rolled_pods \<noteq> []" "list_ex is_primary rolled_pods" "primary_at ''r2'' rolled_pods" "replicas_at ''r2'' rolled_pods"
  by (simp_all add: rolled_pods_def pod_at_def label_def primary_at_def replicas_at_def atTarget_def RoleLabel_def
      stsRevisionLabel_def)

lemma example_observed:
  "observed example_cr (Some (example_snap t)) = (True, ''10.0.0.9:6379'', 4)"
  "\<not> latched example_cr ob n zeroPerCR"
  by (simp_all add: observed_def example_cr_def example_snap_def latched_def failoverLatchActivePure_def zeroPerCR_def)

lemma rolled_derive:
  "fst (snd (deriveState example_cr rolled_pods (Some example_sts) (Some (example_snap 5)) 7 zeroPerCR)) = StateSteady"
  "FQuorumOK (snd (snd (deriveState example_cr rolled_pods (Some example_sts) (Some (example_snap 5)) 7 zeroPerCR)))"
proof -
  let ?f = "factsOf example_cr rolled_pods example_sts (Some (example_snap 5)) 7 zeroPerCR"
  have f: "IsStandalone ?f = False" "PodCount ?f \<noteq> 0" "FQuorumOK ?f" "\<not> FailoverInFlight ?f"
    by (simp_all add: factsOf_def Let_def example_observed rolled_facts example_mode)
  moreover have "AllPodsAtTargetRevision ?f"
    using factsOf_fields(3)[OF rolled_facts(2), of example_cr example_sts] rolled_facts by (simp add: example_sts_def)
  ultimately show "fst (snd (deriveState example_cr rolled_pods (Some example_sts) (Some (example_snap 5)) 7 zeroPerCR)) = StateSteady"
    "FQuorumOK (snd (snd (deriveState example_cr rolled_pods (Some example_sts) (Some (example_snap 5)) 7 zeroPerCR)))"
    using deriveState_facts[OF rolled_facts(1)] rolled_facts(2) by (simp_all add: deriveStateFromFacts_def)
qed

lemma triggerEvents_kept:
  "set (psEvents w) \<subseteq> set (psEvents (rolledStep state g w))"
  "set (psEvents w) \<subseteq> set (psEvents (fsmAbortAndRecoveryDispatch merge ok1 ok2 state q w))"
  "set (psEvents w) \<subseteq> set (psEvents (fsmSwitchMasterDispatch state snap pods now w))"
  by (auto simp: rolledStep_def Let_def abort_recovery_eq recoverStep_def abortStep_def emit_def
      fsmSwitchMasterDispatch_def split: prod.splits)

theorem rollout_started_too_late_witness:
  "replicas_at ''r2'' rolled_pods \<and>
   ''RolloutStarted'' \<in> set (psEvents (fst (observeRolloutState statusMerge True True example_cr [] rolled_pods
     (Some example_sts) (Some (Some example_sts)) (Some (example_snap 5)) 7 8 example_pass)))"
proof -
  let ?d = "deriveState example_cr rolled_pods (Some example_sts) (Some (example_snap 5)) 7 zeroPerCR"
  have z: "psMem example_pass = zeroPerCR" "psEvents example_pass = []" by (simp_all add: example_pass_def)
  have tr: "rolloutTrigger (psMem (afterDerive example_cr [] rolled_pods (Some example_sts) (Some (example_snap 5)) 7
      example_pass)) = None"
    unfolding afterDerive_def z deriveState_def Let_def observed_facts
    by (simp add: case_prod_beta failoverLatchActive_def zeroPerCR_def maybeAuditManualRollout_def rolled_facts)
  have sts: "UpdateRevision example_sts = ''r2''" "CurrentRevision example_sts = ''r1''" by (simp_all add: example_sts_def)
  have t3: "fst (applyFSM StateSteady EventRolloutTrigger (noGuards\<lparr>QuorumOK := True\<rparr>)) = [''RolloutStarted'']"
    by (simp add: rows_of defaultTransitions_def fsm_rows emits_def noGuards_def)
  have ev: "''RolloutStarted'' \<in> set (psEvents (fst (observeRolloutState statusMerge True True example_cr [] rolled_pods
     (Some example_sts) (Some (Some example_sts)) (Some (example_snap 5)) 7 8 example_pass)))"
    unfolding observe_eq Let_def z using rolled_derive
    by (simp, intro subsetD[OF triggerEvents_kept(3)] subsetD[OF triggerEvents_kept(2)] subsetD[OF triggerEvents_kept(1)])
      (simp add: triggerStep_def rolloutTriggerEdge_def tr t3 sts Let_def)
  show ?thesis
    using rollout_started_too_late[OF z(2) ev] ev by (auto simp: example_sts_def)
qed

section \<open>A suspended rollout\<close>

text \<open>
  What one reconcile brings: the answers of the API server, the CR, the annotation, pods, the two
  reads of the StatefulSet, the snapshot and the two clock readings. Each reconcile starts from the
  stored status and an empty list of events.
\<close>

record passInput =
  piOk1 :: bool
  piOk2 :: bool
  piCR :: Valkey
  piAnnotation :: string
  piPods :: "Pod list"
  piSts :: "StatefulSet option"
  piStsNow :: "StatefulSet option option"
  piObserver :: "Snapshot option"
  piNow1 :: gotime
  piNow2 :: gotime

definition pass :: "merge \<Rightarrow> passState \<Rightarrow> passInput \<Rightarrow> passState" where
  "pass merge w i =
     fst (observeRolloutState merge (piOk1 i) (piOk2 i) (piCR i) (piAnnotation i) (piPods i) (piSts i) (piStsNow i)
            (piObserver i) (piNow1 i) (piNow2 i)
            (w\<lparr>psStatus := (snd (psStatus w), snd (psStatus w)), psEvents := []\<rparr>))"

definition not_pending :: "ValkeyStatus \<Rightarrow> bool" where
  "not_pending st \<longleftrightarrow> suspendedOf st \<noteq> Some SuspendedRolloutPending"

definition both_not_pending :: "ValkeyStatus \<times> ValkeyStatus \<Rightarrow> bool" where
  "both_not_pending vs \<longleftrightarrow> not_pending (fst vs) \<and> not_pending (snd vs)"

lemma patchSuspended_keeps:
  assumes "merge_patch wire merge" and "both_not_pending vs" and "val \<noteq> Some SuspendedRolloutPending"
  shows "both_not_pending (patchSuspended merge ok val vs)"
proof -
  obtain orig stored where vs: "vs = (orig, stored)" by (cases vs)
  let ?new = "updRollout (\<lambda>r. r\<lparr>SuspendedFrom := val\<rparr>) orig"
  have "suspendedOf (merge orig ?new stored) = (if suspendedOf orig = val then suspendedOf stored else val)"
    using merge_patchD(3)[OF assms(1), of orig ?new stored] by simp
  with assms(2,3) vs show ?thesis
    by (auto simp: patchSuspended_def statusPatch_def both_not_pending_def not_pending_def Let_def)
qed

lemma stamp_clear_keep:
  assumes "merge_patch wire merge" and "both_not_pending vs"
  shows "both_not_pending (stampSuspendedFrom merge ok SuspendedRolloutReplicas vs)"
    "both_not_pending (clearSuspendedFrom merge ok vs)"
  using assms by (simp_all add: stampSuspendedFrom_def clearSuspendedFrom_def patchSuspended_keeps)

lemma abortStep_keeps:
  assumes "merge_patch wire merge" and "both_not_pending (psStatus w)" and "prev \<noteq> Some StateRolloutPending"
  shows "both_not_pending (psStatus (abortStep merge ok state prev g w))"
  using assms(2,3) stamp_clear_keep(1)[OF assms(1,2)] by (simp add: abortStep_def)

lemma recoverStep_keeps:
  assumes "merge_patch wire merge" and "both_not_pending (psStatus w)"
  shows "both_not_pending (psStatus (recoverStep merge ok state prev g w))"
  using assms(2) stamp_clear_keep(2)[OF assms] by (simp add: recoverStep_def emit_def Let_def)

lemma recoverStep_resumed:
  assumes "both_not_pending (psStatus w)" and "''RolloutResumed'' \<in> set (psEvents (recoverStep merge ok state prev g w))"
  shows "''RolloutResumed'' \<in> set (psEvents w)"
proof (rule ccontr)
  assume no: "''RolloutResumed'' \<notin> set (psEvents w)"
  let ?g = "g\<lparr>RolloutSuspendedFromPending := readSuspendedFromPending (fst (psStatus w))\<rparr>"
  have "''RolloutResumed'' \<in> set (fst (applyFSM StateDegraded EventRecovered ?g))"
    using assms(2) no by (auto simp: recoverStep_def emit_def Let_def split: if_splits)
  from resumed_guard[OF this] assms(1) show False
    by (simp add: readSuspendedFromPending_def both_not_pending_def not_pending_def)
qed

lemma dispatch_not_resumed:
  assumes "merge_patch wire merge" and "both_not_pending (psStatus w)"
    and "snd (fsmTransitionEdge state (psMem w)) \<noteq> Some StateRolloutPending"
  shows "both_not_pending (psStatus (fsmAbortAndRecoveryDispatch merge ok1 ok2 state q w))"
    and "''RolloutResumed'' \<in> set (psEvents (fsmAbortAndRecoveryDispatch merge ok1 ok2 state q w)) \<Longrightarrow>
      ''RolloutResumed'' \<in> set (psEvents w)"
proof -
  let ?g = "noGuards\<lparr>QuorumOK := q\<rparr>" and ?prev = "snd (fsmTransitionEdge state (psMem w))"
  let ?w1 = "w\<lparr>psMem := fst (fsmTransitionEdge state (psMem w))\<rparr>"
  let ?w2 = "abortStep merge ok1 state ?prev ?g ?w1"
  let ?w3 = "recoverStep merge ok1 state ?prev ?g ?w2"
  have w2: "both_not_pending (psStatus ?w2)"
    by (rule abortStep_keeps[OF assms(1) _ assms(3)]) (simp add: assms(2))
  have w3: "both_not_pending (psStatus ?w3)" by (rule recoverStep_keeps[OF assms(1) w2])
  show "both_not_pending (psStatus (fsmAbortAndRecoveryDispatch merge ok1 ok2 state q w))"
    using w3 stamp_clear_keep(2)[OF assms(1) w3, of ok2] by (auto simp: abort_recovery_eq Let_def)
  assume "''RolloutResumed'' \<in> set (psEvents (fsmAbortAndRecoveryDispatch merge ok1 ok2 state q w))"
  then have "''RolloutResumed'' \<in> set (psEvents ?w3)" by (simp add: abort_recovery_eq Let_def split: if_splits)
  then have "''RolloutResumed'' \<in> set (psEvents ?w2)" by (rule recoverStep_resumed[OF w2])
  from abortStep_events[OF this] show "''RolloutResumed'' \<in> set (psEvents w)" by (simp add: emitters_rollout)
qed

lemma dispatch_last:
  "fsmTransition (psMem (fsmAbortAndRecoveryDispatch merge ok1 ok2 state q w)) = Some \<lparr>lastState = Some state\<rparr>"
  by (simp add: abort_recovery_eq Let_def recoverStep_def abortStep_def emit_def fsmTransitionEdge_def)

lemma switch_keeps [simp]:
  "psStatus (fsmSwitchMasterDispatch state snap pods now w) = psStatus w"
  "fsmTransition (psMem (fsmSwitchMasterDispatch state snap pods now w)) = fsmTransition (psMem w)"
  by (simp_all add: fsmSwitchMasterDispatch_def Let_def case_prod_beta resetSwitchMasterEdge_def
      fireSwitchMasterEdge_def failoverLatchActive_def clearFailoverLatch_def split: option.splits)

lemma before_dispatch:
  "psStatus (rolledStep state g (fst (triggerStep state g stsNow w))) = psStatus w"
  "fsmTransition (psMem (rolledStep state g (fst (triggerStep state g stsNow w)))) = fsmTransition (psMem w)"
  by (auto simp: rolledStep_def triggerStep_def Let_def replicasRolledEdge_def rolloutTriggerEdge_def
      split: option.splits)

lemma afterDerive_keeps:
  "psStatus (afterDerive v a pods sts ob now w) = psStatus w" "psEvents (afterDerive v a pods sts ob now w) = psEvents w"
  "fsmTransition (psMem (afterDerive v a pods sts ob now w)) = fsmTransition (psMem w)"
  by (auto simp: afterDerive_def deriveState_def Let_def case_prod_beta failoverLatchActive_def clearFailoverLatch_def
      maybeAuditManualRollout_def split: option.splits)

definition never_pending :: "passState \<Rightarrow> bool" where
  "never_pending w \<longleftrightarrow>
     not_pending (snd (psStatus w)) \<and>
     (case fsmTransition (psMem w) of None \<Rightarrow> True | Some t \<Rightarrow> lastState t \<noteq> Some StateRolloutPending)"

lemma pass_never_pending:
  assumes "merge_patch wire merge" and "never_pending w"
  shows "never_pending (pass merge w i) \<and> ''RolloutResumed'' \<notin> set (psEvents (pass merge w i))"
proof -
  define w0 where "w0 = w\<lparr>psStatus := (snd (psStatus w), snd (psStatus w)), psEvents := []\<rparr>"
  define d where "d = snd (deriveState (piCR i) (piPods i) (piSts i) (piObserver i) (piNow1 i) (psMem w0))"
  define g where "g = noGuards\<lparr>QuorumOK := FQuorumOK (snd d)\<rparr>"
  define w1 where "w1 = afterDerive (piCR i) (piAnnotation i) (piPods i) (piSts i) (piObserver i) (piNow1 i) w0"
  define w4 where "w4 = rolledStep (fst d) g (fst (triggerStep (fst d) g (piStsNow i) w1))"
  define w5 where "w5 = fsmAbortAndRecoveryDispatch merge (piOk1 i) (piOk2 i) (fst d) (FQuorumOK (snd d)) w4"
  have p: "pass merge w i =
      (case piObserver i of None \<Rightarrow> w5 | Some snap \<Rightarrow> fsmSwitchMasterDispatch (fst d) snap (piPods i) (piNow2 i) w5)"
    unfolding pass_def observe_eq Let_def w5_def w4_def w1_def g_def d_def w0_def by simp
  have b: "both_not_pending (psStatus w4)"
    using assms(2) by (simp add: w4_def before_dispatch w1_def afterDerive_keeps w0_def both_not_pending_def never_pending_def)
  have prev: "snd (fsmTransitionEdge (fst d) (psMem w4)) \<noteq> Some StateRolloutPending"
    using assms(2) by (simp add: fsmTransitionEdge_def w4_def before_dispatch w1_def afterDerive_keeps w0_def
        never_pending_def split: option.splits)
  have fst_d: "fst d \<noteq> StateRolloutPending"
    using derive_range[of "piCR i" "piPods i" "piSts i" "piObserver i" "piNow1 i" "psMem w0"] by (auto simp: d_def)
  have "''RolloutResumed'' \<notin> set (psEvents w4)"
    using rolled_events[of "''RolloutResumed''" "fst d" g] trigger_events[of "''RolloutResumed''" "fst d" g "piStsNow i" w1]
      resumed_guard[of "fst d" EventRolloutTrigger g]
    by (auto simp: w4_def emitters_rollout w1_def afterDerive_keeps w0_def)
  then have "''RolloutResumed'' \<notin> set (psEvents w5)"
    using dispatch_not_resumed(2)[OF assms(1) b prev] by (auto simp: w5_def)
  then have ev: "''RolloutResumed'' \<notin> set (psEvents (pass merge w i))"
    using switch_events[of "''RolloutResumed''" "fst d" _ "piPods i" "piNow2 i" w5]
    by (auto simp: p emitters_rollout split: option.splits)
  have "both_not_pending (psStatus w5)" unfolding w5_def by (rule dispatch_not_resumed(1)[OF assms(1) b prev])
  moreover have "fsmTransition (psMem w5) = Some \<lparr>lastState = Some (fst d)\<rparr>" by (simp add: w5_def dispatch_last)
  ultimately have "never_pending (pass merge w i)"
    using fst_d by (auto simp: p never_pending_def both_not_pending_def split: option.splits)
  with ev show ?thesis by simp
qed

text \<open>
  A suspended rollout is never resumed. The event that re-enters the rollout is guarded by a
  suspension recorded as pending, which is only stamped when the previous state was pending; the
  derivation never yields that state. So, whatever the pods, snapshots and answers of the API server
  are, no sequence of reconciles that starts without such a record ever emits it or writes one.
\<close>

theorem rollout_never_resumed:
  assumes "merge_patch wire merge" and "never_pending w"
  shows "never_pending (foldl (pass merge) w is) \<and>
    ''RolloutResumed'' \<notin> set (psEvents (pass merge (foldl (pass merge) w is) i))"
proof -
  have n: "never_pending (foldl (pass merge) w is)"
    using assms(2) by (induction "is" arbitrary: w) (simp_all add: pass_never_pending[OF assms(1)])
  from pass_never_pending[OF assms(1) n, of i] n show ?thesis by simp
qed

definition example_input :: "bool \<Rightarrow> passInput" where
  "example_input q =
     \<lparr>piOk1 = True, piOk2 = True, piCR = example_cr, piAnnotation = [], piPods = example_pods,
      piSts = Some example_sts, piStsNow = Some (Some example_sts),
      piObserver = (if q then Some (example_snap 5) else None), piNow1 = 7, piNow2 = 8\<rparr>"

theorem rollout_never_resumed_witness:
  "''RolloutResumed'' \<notin> set (psEvents (pass statusMerge (foldl (pass statusMerge) example_pass
     [example_input True, example_input False]) (example_input True)))"
proof -
  have "never_pending example_pass"
    by (simp add: never_pending_def example_pass_def not_pending_def emptyStatus_def rolloutOf_def emptyRolloutStatus_def
        zeroPerCR_def)
  from rollout_never_resumed[OF merge_patch_statusMerge this] show ?thesis by blast
qed

section \<open>The window of an election\<close>

text \<open>With no pod labelled primary, a latched failover is invisible to the guards.\<close>

lemma unlabelled_window:
  assumes "pods \<noteq> []" and "\<not> list_ex is_primary pods" and "latched v ob now s"
    and "mode_of v \<noteq> ModeStandalone"
  shows "IsFailoverInFlight ob now s" "fst (snd (deriveState v pods (Some st) ob now s)) = StateBootstrap"
    "scaleDecision want current (fst (snd (deriveState v pods (Some st) ob now s)))
      (findPrimaryOrdinal (ObjName v) (Some (filter is_primary pods))) = (want, [])"
proof -
  show d: "fst (snd (deriveState v pods (Some st) ob now s)) = StateBootstrap"
    using deriveState_facts[OF assms(1), of v st ob now s] assms(2) by simp
  have f: "filter is_primary pods = []" using assms(2) by (simp add: list_ex_iff filter_empty_conv)
  have "observedPrimaryAddrEpoch ob = snd (observed v ob)"
    using assms(4) by (auto simp: observedPrimaryAddrEpoch_def observed_def split: option.splits)
  with assms(3) show "IsFailoverInFlight ob now s"
    by (simp add: IsFailoverInFlight_def latched_def case_prod_beta)
  show "scaleDecision want current (fst (snd (deriveState v pods (Some st) ob now s)))
      (findPrimaryOrdinal (ObjName v) (Some (filter is_primary pods))) = (want, [])"
    unfolding d f by (simp add: isInRolloutState_def scaleDecision_def findPrimaryOrdinal_def
        scaleDownPrimaryRefusal_def Let_def)
qed

lemma handOff_after:
  assumes "is_primary p" and "persistOk env" and "stripOk env" and "envFailover env \<noteq> IssueErr"
  shows "dsPods (fst (handOff merge env snap p w)) = onPod (pName p) (delLabel RoleLabel) (dsPods w)"
    "failoverLatch (dsMem (fst (handOff merge env snap p w))) =
       Some \<lparr>preStripAddr = Addr (Primary snap), latchDeadline = nowStrip env + failoverInFlightLatchTTL,
             preStripEpoch = Epoch (Primary snap)\<rparr>"
  using is_primary_label[OF assms(1)] assms(2-4)
  by (auto simp: dispatch_simps failoverLatchSetWithDeadline_def setFailoverLatch_def)

lemma latched_if:
  assumes "failoverLatch s = Some l" and "now \<le> latchDeadline l" and "mode_of v \<noteq> ModeStandalone"
    and "still_electing ob (preStripAddr l) (preStripEpoch l)"
  shows "latched v ob now s"
proof -
  have "observedPrimaryAddrEpoch ob = snd (observed v ob)"
    using assms(3) by (auto simp: observedPrimaryAddrEpoch_def observed_def split: option.splits)
  with assms show ?thesis
    by (auto simp: latched_def failoverLatchActivePure_def latchActive_iff still_electing_def case_prod_beta)
qed

text \<open>
  The scale guards are off while a hand-off is under way. Take a CR with one pod labelled primary
  and a dispatch that sent a failover. Until the deadline of the latch, as long as the sentinels
  still report the old primary, the failover is in flight for every caller that asks; but the label
  was stripped, so the derived state is Bootstrap and not FailoverInFlight, no primary ordinal is
  found, and a change of the replica count is neither refused nor deferred, although a scale-down may
  delete the pod that is about to be promoted.
\<close>

theorem election_window_unguarded:
  assumes "dsActs w = []" and "SendFailover \<in> set (dsActs w')" and "envFailover env \<noteq> IssueErr"
    and "w' = fst (runPrimaryRolloutDispatch merge env v state w)"
    and "envListed env = Some (dsPods w)" and "distinct (map pName (dsPods w))" and "filter is_primary (dsPods w) = [q]"
    and "envObserver env = Some snap" and "still_electing ob (Addr (Primary snap)) (Epoch (Primary snap))"
    and "now \<le> nowStrip env + failoverInFlightLatchTTL" and "mode_of v = ModeSentinel"
  shows "IsFailoverInFlight ob now (dsMem w') \<and>
    fst (snd (deriveState v (dsPods w') (Some st) ob now (dsMem w'))) = StateBootstrap \<and>
    scaleDecision want current (fst (snd (deriveState v (dsPods w') (Some st) ob now (dsMem w'))))
      (findPrimaryOrdinal (ObjName v) (Some (filter is_primary (dsPods w')))) = (want, [])"
proof -
  obtain snap' p c where h: "may_hand_off env v state w snap' p c" "persistOk env" "stripOk env"
    "runPrimaryRolloutDispatch merge env v state w = handOff merge env snap' p (cleared (nowLatch env) snap' w)"
    using strip_hands_off[OF assms(1), of _ merge env v state] assms(2,4) by blast
  then have p: "snap' = snap" "is_primary p" "p \<in> set (dsPods w)" using assms(5,8) by (auto simp: may_hand_off_def)
  note after = handOff_after[OF p(2) h(2,3) assms(3)]
  have pods: "dsPods w' = onPod (pName p) (delLabel RoleLabel) (dsPods w)"
    by (simp add: assms(4) h(4) after)
  have "p \<in> set (filter is_primary (dsPods w))" using p by simp
  then have "p = q" by (simp add: assms(7))
  have only: "r = p" if "r \<in> set (dsPods w)" "is_primary r" for r
  proof -
    have "r \<in> set (filter is_primary (dsPods w))" using that by simp
    with \<open>p = q\<close> show ?thesis by (simp add: assms(7))
  qed
  have "\<not> list_ex is_primary (dsPods w')"
    unfolding pods list_ex_iff onPod_def using only by auto
  moreover have "dsPods w' \<noteq> []" using p(3) by (auto simp: pods onPod_def)
  moreover have "latched v ob now (dsMem w')"
    by (rule latched_if[of _ "\<lparr>preStripAddr = Addr (Primary snap), latchDeadline = nowStrip env + failoverInFlightLatchTTL,
             preStripEpoch = Epoch (Primary snap)\<rparr>"])
      (use assms(9-11) p(1) in \<open>simp_all add: assms(4) h(4) after\<close>)
  ultimately show ?thesis using unlabelled_window[of "dsPods w'" v ob now "dsMem w'"] assms(11) by simp
qed

theorem election_window_unguarded_witness:
  "let w' = fst (runPrimaryRolloutDispatch statusMerge (example_env IssueOK True) example_cr StateRolloutPrimary example_world)
   in scaleDecision 1 3
        (fst (snd (deriveState example_cr (dsPods w') (Some example_sts) (Some (example_snap 5)) (112 * Second) (dsMem w'))))
        (findPrimaryOrdinal ''v'' (Some (filter is_primary (dsPods w')))) = (1, [])"
proof -
  let ?w = "fst (runPrimaryRolloutDispatch statusMerge (example_env IssueOK True) example_cr StateRolloutPrimary example_world)"
  have a: "dsActs example_world = []" by (simp add: example_world_def)
  have s: "SendFailover \<in> set (dsActs ?w)" by (simp add: example_acts)
  have l: "envListed (example_env IssueOK True) = Some (dsPods example_world)" "envFailover (example_env IssueOK True) \<noteq> IssueErr"
    "envObserver (example_env IssueOK True) = Some (example_snap (100 * Second))"
    by (simp_all add: example_env_def example_world_def)
  have d: "distinct (map pName (dsPods example_world))"
    by (simp add: example_world_def example_pods_def pod_at_def)
  have f: "filter is_primary (dsPods example_world) = [pod_at ''v-0'' ''10.0.0.9'' [(RoleLabel, roleValuePrimary)]]"
    by (simp add: example_world_def example_pods_def pod_at_def label_def)
  have e: "still_electing (Some (example_snap 5)) (Addr (Primary (example_snap (100 * Second))))
      (Epoch (Primary (example_snap (100 * Second))))"
    by (simp add: still_electing_def observedPrimaryAddrEpoch_def example_snap_def)
  have n: "112 * Second \<le> nowStrip (example_env IssueOK True) + failoverInFlightLatchTTL"
    by (simp add: example_env_def failoverInFlightLatchTTL_def Second_def)
  have m: "mode_of example_cr = ModeSentinel" "ObjName example_cr = ''v''" by (simp_all add: example_cr_def)
  show ?thesis
    using election_window_unguarded[OF a s l(2) refl l(1) d f l(3) e n m(1), of example_sts 1 3] unfolding m(2) Let_def by blast
qed

section \<open>Merging requeue hints\<close>

definition floored :: "duration list \<Rightarrow> duration list" where
  "floored hs = map (max minRequeueFloor) (filter (\<lambda>h. 0 < h) hs)"

lemma mergeRequeue_min:
  "mergeRequeue c h = (if h \<le> 0 then c else if c = 0 then max minRequeueFloor h else min c (max minRequeueFloor h))"
  by (simp add: mergeRequeue_def Let_def)

lemma Min_insert_min:
  fixes a b :: "'a :: linorder"
  assumes "finite S"
  shows "Min (insert (min a b) S) = min a (Min (insert b S))"
  using assms by (cases "S = {}") (simp_all add: min.assoc)

lemma fold_merge:
  "0 < c \<Longrightarrow> foldl mergeRequeue c hs = Min (set (c # floored hs))"
proof (induction hs arbitrary: c)
  case (Cons h hs)
  let ?c = "mergeRequeue c h"
  have pos: "0 < ?c" using Cons.prems by (auto simp: mergeRequeue_min minRequeueFloor_def less_max_iff_disj)
  have "foldl mergeRequeue c (h # hs) = Min (insert ?c (set (floored hs)))" using Cons.IH[OF pos] by simp
  also have "\<dots> = Min (set (c # floored (h # hs)))"
    using Cons.prems by (auto simp: mergeRequeue_min floored_def Min_insert_min)
  finally show ?case .
qed (simp add: floored_def)

text \<open>
  The cadence of a reconcile. Whatever hints the phases return and in whatever order they are
  merged, the result is the least positive hint raised to the floor of 100 ms, and zero exactly when
  no phase gave one; so no phase can delay another, and none can make the reconciler spin.
\<close>

theorem requeue_merge:
  "foldl mergeRequeue 0 hs = (if floored hs = [] then 0 else Min (set (floored hs)))"
proof (induction hs)
  case (Cons h hs)
  show ?case
  proof (cases "0 < h")
    case False
    then show ?thesis using Cons.IH by (simp add: mergeRequeue_min floored_def)
  next
    case True
    then have "foldl mergeRequeue 0 (h # hs) = foldl mergeRequeue (max minRequeueFloor h) hs"
      by (simp add: mergeRequeue_min)
    with True show ?thesis by (simp add: fold_merge floored_def)
  qed
qed (simp add: floored_def)

end
