(* ===== verification/Version_Compat.thy ===== *)
theory Version_Compat
  imports Velkir_Text
begin

text \<open>
  \<^verbatim>\<open>internal/version/compat.go\<close>, the parser of image tags and the version rules, and the runtime check
  of an image transition in \<^verbatim>\<open>internal/controller/valkey_controller.go\<close>. The containers of a pod
  template are pairs of name and image; the feature gates are an association list, so that an absent
  gate differs from one set to false; the events of the check are part of its result. The lemmas: the
  parser reads back every reference that has a version, and the check refuses exactly the downgrades.
\<close>

record ValkeyVersion =
  Major :: int
  Minor :: int

definition VersionString :: "ValkeyVersion \<Rightarrow> string" where
  "VersionString v = itoa (Major v) @ ''.'' @ itoa (Minor v)"

definition SupportedMajors :: "int list" where
  "SupportedMajors = [8, 9]"

definition IsSupportedMajor :: "ValkeyVersion \<Rightarrow> bool" where
  "IsSupportedMajor v \<longleftrightarrow> Major v \<in> set SupportedMajors"

definition IsDowngrade :: "ValkeyVersion \<Rightarrow> ValkeyVersion \<Rightarrow> bool" where
  "IsDowngrade from to \<longleftrightarrow> Major to < Major from"

definition IsSkipMinor :: "ValkeyVersion \<Rightarrow> ValkeyVersion \<Rightarrow> bool" where
  "IsSkipMinor from to \<longleftrightarrow> Major to = Major from \<and> wrap64 (Minor to - Minor from) > 1"

datatype TagError = ErrNoTag | ErrMalformedTag

definition before :: "string \<Rightarrow> char \<Rightarrow> string" where
  "before s c = (case IndexByte s c of None \<Rightarrow> s | Some i \<Rightarrow> take i s)"

definition parseParts :: "string list \<Rightarrow> TagError + ValkeyVersion" where
  "parseParts parts =
     (if length parts < 2 then Inl ErrMalformedTag
      else case atoi (parts ! 0) of None \<Rightarrow> Inl ErrMalformedTag | Some major \<Rightarrow>
        if major < 0 then Inl ErrMalformedTag
        else case atoi (parts ! 1) of None \<Rightarrow> Inl ErrMalformedTag | Some minor \<Rightarrow>
          if minor < 0 then Inl ErrMalformedTag
          else if 3 \<le> length parts \<and> atoi (parts ! 2) = None then Inl ErrMalformedTag
          else Inr \<lparr>Major = major, Minor = minor\<rparr>)"

definition ParseValkeyTag :: "string \<Rightarrow> TagError + ValkeyVersion" where
  "ParseValkeyTag ref0 =
     (let ref = before ref0 (CHR ''@'') in
      case LastIndexByte ref (CHR '':'') of None \<Rightarrow> Inl ErrNoTag
      | Some colon \<Rightarrow>
          let tag = drop (Suc colon) ref in
          if Contains tag ''/'' then Inl ErrNoTag
          else parseParts (Split (before tag (CHR ''-'')) (CHR ''.'')))"

definition FeatureGateUpgradePreflight :: string where
  "FeatureGateUpgradePreflight = ''UpgradePreflight''"

fun findValkeyContainerImage :: "(string \<times> string) list \<Rightarrow> string" where
  "findValkeyContainerImage [] = []"
| "findValkeyContainerImage ((name, img) # cs) = (if name = ''valkey'' then img else findValkeyContainerImage cs)"

record ContainerImage =
  Repository :: string
  Tag :: string

definition imageRef :: "ContainerImage \<Rightarrow> string" where
  "imageRef ci = Repository ci @ '':'' @ Tag ci"

definition checkValkeyImageTransition ::
  "ContainerImage \<Rightarrow> (string \<times> bool) list \<Rightarrow> (string \<times> string) list \<Rightarrow> bool \<times> string list" where
  "checkValkeyImageTransition img gates containers =
     (let currentImage = findValkeyContainerImage containers in
      if currentImage = [] then (True, [])
      else case (ParseValkeyTag currentImage, ParseValkeyTag (imageRef img)) of
        (Inr from, Inr to) \<Rightarrow>
          if from = to then (True, [])
          else if IsDowngrade from to then
            (if map_of gates FeatureGateUpgradePreflight = Some False then (True, [''ValkeyImageTransitionOverridden''])
             else (False, [''ValkeyImageTransitionRejected'']))
          else if IsSkipMinor from to then (True, [''ValkeyImageTransitionWarning''])
          else (True, [])
      | _ \<Rightarrow> (True, []))"

section \<open>Reading a tag\<close>

lemma before_none [simp]: "c \<notin> set s \<Longrightarrow> before s c = s"
  by (simp add: before_def IndexByte_None[THEN iffD2])

lemma IndexByte_append: "c \<notin> set s \<Longrightarrow> IndexByte (s @ c # t) c = Some (length s)"
  by (induction s) auto

lemma before_append: "c \<notin> set s \<Longrightarrow> before (s @ c # t) c = s"
  by (simp add: before_def IndexByte_append)

lemma LastIndexByte_tail: "c \<notin> set t \<Longrightarrow> LastIndexByte (s @ c # t) c = Some (length s)"
  by (induction s) (auto simp: LastIndexByte_None[THEN iffD2])

definition tagText :: "int \<Rightarrow> int \<Rightarrow> int option \<Rightarrow> string" where
  "tagText major minor patch =
     itoa major @ ''.'' @ itoa minor @ (case patch of None \<Rightarrow> [] | Some p \<Rightarrow> ''.'' @ itoa p)"

lemma itoa_digits: "0 \<le> n \<Longrightarrow> c \<in> set (itoa n) \<Longrightarrow> is_digit c"
  by (auto simp: itoa_def dest: digits_of_nat_all_digits)

lemma digit_not: "is_digit c \<Longrightarrow> c \<noteq> CHR ''.'' \<and> c \<noteq> CHR ''-'' \<and> c \<noteq> CHR '':'' \<and> c \<noteq> CHR ''/'' \<and> c \<noteq> CHR ''@''"
  by (auto simp: is_digit_def)

lemma tagText_chars:
  assumes "0 \<le> major" "0 \<le> minor" "\<forall>p. patch = Some p \<longrightarrow> 0 \<le> p" "c \<in> set (tagText major minor patch)"
  shows "c = CHR ''.'' \<or> is_digit c"
  using assms by (auto simp: tagText_def dest: itoa_digits split: option.splits)

lemma parseParts_tagText:
  assumes "0 \<le> major" "0 \<le> minor" "\<forall>p. patch = Some p \<longrightarrow> 0 \<le> p \<and> in_duration p" "in_duration major" "in_duration minor"
  shows "parseParts (Split (tagText major minor patch) (CHR ''.'')) = Inr \<lparr>Major = major, Minor = minor\<rparr>"
proof -
  have d: "CHR ''.'' \<notin> set (itoa n)" if "0 \<le> n" for n using itoa_digits[OF that] digit_not by blast
  have "Split (tagText major minor patch) (CHR ''.'') =
    itoa major # itoa minor # (case patch of None \<Rightarrow> [] | Some p \<Rightarrow> [itoa p])"
    using d assms(1-3) by (cases patch) (simp_all add: tagText_def Split_append_sep Split_no_sep)
  then show ?thesis using assms by (cases patch) (simp_all add: parseParts_def atoi_itoa)
qed

text \<open>
  Reading a version back. A reference made of a repository, which may have a registry with a port,
  a tag with major, minor and an optional patch, an optional variant after a dash and an optional
  digest, is read as its major and minor version.
\<close>

theorem parse_tag_roundtrip:
  assumes "CHR ''@'' \<notin> set repo" and "\<forall>c\<in>set variant. c \<noteq> CHR '':'' \<and> c \<noteq> CHR ''/'' \<and> c \<noteq> CHR ''@''"
    and "0 \<le> major" "0 \<le> minor" "\<forall>p. patch = Some p \<longrightarrow> 0 \<le> p \<and> in_duration p" "in_duration major" "in_duration minor"
    and "vs = [] \<or> vs = ''-'' @ variant" and "ds = [] \<or> ds = ''@'' @ digest"
  shows "ParseValkeyTag (repo @ '':'' @ tagText major minor patch @ vs @ ds) = Inr \<lparr>Major = major, Minor = minor\<rparr>"
proof -
  let ?t = "tagText major minor patch" and ?tag = "tagText major minor patch @ vs"
  have p: "\<forall>p. patch = Some p \<longrightarrow> 0 \<le> p" using assms(5) by blast
  have c: "c \<noteq> CHR '':'' \<and> c \<noteq> CHR ''/'' \<and> c \<noteq> CHR ''@'' \<and> c \<noteq> CHR ''-''" if "c \<in> set ?t" for c
    using tagText_chars[OF assms(3,4) p that] digit_not[of c] by auto
  have t: "CHR '':'' \<notin> set ?t" "CHR ''/'' \<notin> set ?t" "CHR ''@'' \<notin> set ?t" "CHR ''-'' \<notin> set ?t"
    using c by blast+
  have vd: "c = CHR ''-'' \<or> c \<in> set variant" if "c \<in> set vs" for c using assms(8) that by (elim disjE) simp_all
  have vc: "c \<noteq> CHR '':'' \<and> c \<noteq> CHR ''/'' \<and> c \<noteq> CHR ''@''" if "c \<in> set vs" for c
    using vd[OF that] by (elim disjE) (simp, use assms(2) in blast)
  have v: "CHR '':'' \<notin> set vs" "CHR ''/'' \<notin> set vs" "CHR ''@'' \<notin> set vs" using vc by blast+
  have a: "before (repo @ '':'' @ ?t @ vs @ ds) (CHR ''@'') = repo @ '':'' @ ?tag"
  proof -
    have n: "CHR ''@'' \<notin> set (repo @ '':'' @ ?tag)" using assms(1) t v by simp
    show ?thesis using assms(9) before_append[OF n, of digest] before_none[OF n] by auto
  qed
  have "LastIndexByte (repo @ '':'' @ ?tag) (CHR '':'') = Some (length repo)"
    using LastIndexByte_tail[of "CHR '':''" ?tag repo] t v by simp
  moreover have "\<not> Contains ?tag ''/''"
  proof
    assume "Contains ?tag ''/''"
    then have "CHR ''/'' \<in> set ?tag" unfolding Contains_iff by (auto dest: set_mono_sublist)
    then show False using t v by simp
  qed
  moreover have "before ?tag (CHR ''-'') = ?t"
    using assms(8) before_append[OF t(4), of variant] before_none[OF t(4)] by auto
  ultimately show ?thesis
    using parseParts_tagText[OF assms(3-7)] unfolding ParseValkeyTag_def a Let_def by simp
qed

theorem parse_tag_roundtrip_witness:
  "ParseValkeyTag (''reg:5000/valkey'' @ '':'' @ tagText 8 1 (Some 6) @ ''-alpine'' @ ''@sha256:ab'') = Inr \<lparr>Major = 8, Minor = 1\<rparr>"
  by (rule parse_tag_roundtrip[where variant = "''alpine''" and digest = "''sha256:ab''"])
    (simp_all add: in_duration_def window_consts)

section \<open>Image transitions\<close>

definition versionOf :: "string \<Rightarrow> ValkeyVersion option" where
  "versionOf img = (case ParseValkeyTag img of Inl e \<Rightarrow> None | Inr v \<Rightarrow> Some v)"

text \<open>
  The version check refuses exactly the downgrades. An image transition is refused exactly when
  both references have a version, the major version goes down and the preflight gate is not
  explicitly off; a refusal, an override by the gate and a skipped minor version are the only events.
\<close>

theorem transition_exact:
  assumes "findValkeyContainerImage containers \<noteq> []" and "d = checkValkeyImageTransition img gates containers"
    and "from = versionOf (findValkeyContainerImage containers)" and "to = versionOf (imageRef img)"
    and "down \<longleftrightarrow> (\<exists>f t. from = Some f \<and> to = Some t \<and> Major t < Major f)"
  shows "(\<not> fst d \<longleftrightarrow> down \<and> map_of gates ''UpgradePreflight'' \<noteq> Some False)
    \<and> (snd d = [''ValkeyImageTransitionRejected''] \<longleftrightarrow> \<not> fst d)
    \<and> (snd d = [''ValkeyImageTransitionOverridden''] \<longleftrightarrow> down \<and> fst d)
    \<and> (snd d = [''ValkeyImageTransitionWarning''] \<longleftrightarrow>
         (\<exists>f t. from = Some f \<and> to = Some t \<and> Major t = Major f \<and> 1 < wrap64 (Minor t - Minor f)))"
proof -
  have w: "wrap64 0 = 0" by (simp add: wrap64_def)
  show ?thesis
  proof (cases "ParseValkeyTag (findValkeyContainerImage containers)")
    case (Inl e)
    then show ?thesis using assms by (simp add: checkValkeyImageTransition_def versionOf_def)
  next
    case f: (Inr f)
    show ?thesis
    proof (cases "ParseValkeyTag (imageRef img)")
      case (Inl e)
      then show ?thesis using assms f by (simp add: checkValkeyImageTransition_def versionOf_def)
    next
      case t: (Inr t)
      have vf: "from = Some f" and vt: "to = Some t" using assms(3,4) f t by (simp_all add: versionOf_def)
      have down: "down \<longleftrightarrow> Major t < Major f" using assms(5) by (simp add: vf vt)
      show ?thesis
        unfolding assms(2) checkValkeyImageTransition_def vf vt down
        using assms(1) w by (simp add: f t IsDowngrade_def IsSkipMinor_def FeatureGateUpgradePreflight_def)
    qed
  qed
qed

theorem transition_exact_witness:
  "\<not> fst (checkValkeyImageTransition \<lparr>Repository = ''valkey'', Tag = ''8.0''\<rparr> [] [(''valkey'', ''valkey:9.0'')])"
proof -
  have v: "versionOf (findValkeyContainerImage [(''valkey'', ''valkey:9.0'')]) = Some \<lparr>Major = 9, Minor = 0\<rparr>"
    "versionOf (imageRef \<lparr>Repository = ''valkey'', Tag = ''8.0''\<rparr>) = Some \<lparr>Major = 8, Minor = 0\<rparr>" by code_simp+
  have "(\<not> fst (checkValkeyImageTransition \<lparr>Repository = ''valkey'', Tag = ''8.0''\<rparr> [] [(''valkey'', ''valkey:9.0'')])) \<longleftrightarrow>
      True \<and> map_of ([] :: (string \<times> bool) list) ''UpgradePreflight'' \<noteq> Some False"
    by (rule transition_exact[OF _ refl v(1)[symmetric] v(2)[symmetric], THEN conjunct1]) simp_all
  then show ?thesis by simp
qed

end
