(* ===== verification/Sts_Apply.thy ===== *)
theory Sts_Apply
  imports Rollout_Dispatch PVC_Resize Version_Compat
begin

text \<open>
  \<^verbatim>\<open>reconcileStatefulSet\<close> of \<^verbatim>\<open>internal/controller/valkey_controller.go\<close>: the phase that applies the
  data StatefulSet, with its four guards in the order of the code (resize in progress, version check,
  removal of the primary, rollout in progress) and its read error. The StatefulSet is built by
  \<^verbatim>\<open>buildValkeySTS\<close>; of the object the guards read and set, this theory keeps the replica count and the
  containers of the template. The answers to the read, to the list of primary-labelled pods and to
  the apply are arguments. The lemmas compose it with the version rules, the state machine's scale
  guard and the resize machine.
\<close>

record stsSpec =
  WantReplicas :: int
  WantImage :: ContainerImage
  WantGates :: "(string \<times> bool) list"

record stsObject =
  ObjReplicas :: "int option"
  ObjContainers :: "(string \<times> string) list"

record stsOut =
  soApplied :: "stsObject option"
  soEvents :: "string list"
  soError :: bool

definition valkeySTS :: "stsSpec \<Rightarrow> stsObject" where
  "valkeySTS sp = \<lparr>ObjReplicas = Some (WantReplicas sp), ObjContainers = [(''valkey'', imageRef (WantImage sp))]\<rparr>"

definition applySTS :: "bool \<Rightarrow> stsObject \<Rightarrow> string list \<Rightarrow> stsOut" where
  "applySTS ok sts es = \<lparr>soApplied = (if ok then Some sts else None), soEvents = es, soError = \<not> ok\<rparr>"

definition reconcileStatefulSet ::
  "string \<Rightarrow> PVCResizePhase \<Rightarrow> State \<Rightarrow> stsSpec \<Rightarrow> stsObject fetched \<Rightarrow> Pod list option \<Rightarrow> bool \<Rightarrow> stsOut" where
  "reconcileStatefulSet crName phase state sp got primaries applyOk =
     (if isPVCResizeGuardingPhase2 phase then \<lparr>soApplied = None, soEvents = [], soError = False\<rparr>
      else case got of
        Found existing \<Rightarrow>
          let chk = checkValkeyImageTransition (WantImage sp) (WantGates sp) (ObjContainers existing) in
          if \<not> fst chk then \<lparr>soApplied = None, soEvents = snd chk, soError = False\<rparr>
          else
            let currentReplicas = (case ObjReplicas existing of None \<Rightarrow> 0 | Some n \<Rightarrow> n);
                sc = scaleDecision (WantReplicas sp) currentReplicas state (findPrimaryOrdinal crName primaries)
            in applySTS applyOk ((valkeySTS sp)\<lparr>ObjReplicas := Some (fst sc)\<rparr>) (snd chk @ snd sc)
      | NotFound \<Rightarrow> applySTS applyOk (valkeySTS sp) []
      | FetchError e \<Rightarrow> \<lparr>soApplied = None, soEvents = [''ScalePrecheckFailed''], soError = True\<rparr>)"

text \<open>What one pass does to the StatefulSet, for the spec it sees.\<close>

definition stsRun :: "stsObject \<Rightarrow> stsOut \<Rightarrow> stsObject" where
  "stsRun s d = (case soApplied d of None \<Rightarrow> s | Some s' \<Rightarrow> s')"

fun imageRun :: "string \<Rightarrow> stsObject \<Rightarrow> (PVCResizePhase \<times> State \<times> stsSpec \<times> Pod list option \<times> bool) list \<Rightarrow> stsObject list" where
  "imageRun crName s [] = [s]"
| "imageRun crName s ((phase, state, sp, primaries, ok) # xs) =
     s # imageRun crName (stsRun s (reconcileStatefulSet crName phase state sp (Found s) primaries ok)) xs"

definition stsVersion :: "stsObject \<Rightarrow> ValkeyVersion option" where
  "stsVersion s = versionOf (findValkeyContainerImage (ObjContainers s))"

section \<open>What a pass applies\<close>

lemma scaleDecision_cases:
  "scaleDecision want current state pr = (r, es) \<Longrightarrow>
   (r = current \<and> (es = [''ScaleRefused''] \<or> es = [''ScaleDeferred''])) \<or>
   (r = want \<and> es = [] \<and> (want < current \<longrightarrow> \<not> scaleDownPrimaryRefusal want current (fst pr) (snd pr)) \<and>
    (want \<noteq> current \<longrightarrow> \<not> isInRolloutState state))"
  by (auto simp: scaleDecision_def Let_def split: if_splits)

lemma valkeySTS_image [simp]: "findValkeyContainerImage (ObjContainers (valkeySTS sp)) = imageRef (WantImage sp)"
  by (simp add: valkeySTS_def)

lemma imageRef_nonempty [simp]: "imageRef img \<noteq> []"
  by (simp add: imageRef_def)

text \<open>
  C11. What the StatefulSet phase writes. When a pass writes the StatefulSet, no resize phase guards it
  and the image is that of the spec. Over an existing StatefulSet whose version and the new one both
  parse, the major version is not lowered unless the gate \<^verbatim>\<open>UpgradePreflight\<close> is false; a changed replica
  count is that of the spec, outside a rollout, and, when it is lower, with the pods labelled primary
  listed and the lowest of their ordinals below it. A pass that writes nothing is silently held by a
  resize, refuses with its event a downgrade of two parsed versions that no gate allows, could not
  read the object and reports that, or had its write refused and reports that.
\<close>

theorem sts_apply_guarded:
  assumes "d = reconcileStatefulSet crName phase state sp got primaries ok"
  shows "(soApplied d = Some s \<longrightarrow>
      \<not> isPVCResizeGuardingPhase2 phase \<and> findValkeyContainerImage (ObjContainers s) = imageRef (WantImage sp) \<and>
      (\<forall>e. got = Found e \<longrightarrow>
        (\<forall>f t. stsVersion e = Some f \<and> stsVersion s = Some t \<and> map_of (WantGates sp) ''UpgradePreflight'' \<noteq> Some False \<longrightarrow> Major f \<le> Major t) \<and>
        (ObjReplicas s \<noteq> Some (case ObjReplicas e of None \<Rightarrow> 0 | Some n \<Rightarrow> n) \<longrightarrow>
           ObjReplicas s = Some (WantReplicas sp) \<and> \<not> isInRolloutState state \<and>
           (WantReplicas sp < (case ObjReplicas e of None \<Rightarrow> 0 | Some n \<Rightarrow> n) \<longrightarrow>
              primaries \<noteq> None \<and> (let o1 = fst (findPrimaryOrdinal crName primaries) in o1 < 0 \<or> o1 < WantReplicas sp)))))
    \<and> (soApplied d = None \<longrightarrow>
      (isPVCResizeGuardingPhase2 phase \<and> soEvents d = [] \<and> \<not> soError d) \<or>
      (soEvents d = [''ValkeyImageTransitionRejected''] \<and> \<not> soError d \<and>
        (\<exists>e f t. got = Found e \<and> stsVersion e = Some f \<and> versionOf (imageRef (WantImage sp)) = Some t \<and>
           Major t < Major f \<and> map_of (WantGates sp) ''UpgradePreflight'' \<noteq> Some False)) \<or>
      (soEvents d = [''ScalePrecheckFailed''] \<and> soError d \<and> (\<exists>x. got = FetchError x)) \<or> (\<not> ok \<and> soError d))"
proof (cases "isPVCResizeGuardingPhase2 phase")
  case True
  then show ?thesis using assms by (simp add: reconcileStatefulSet_def)
next
  case ng: False
  show ?thesis
  proof (cases got)
    case (Found e)
    let ?cur = "case ObjReplicas e of None \<Rightarrow> 0 | Some n \<Rightarrow> n"
    define chk where "chk = checkValkeyImageTransition (WantImage sp) (WantGates sp) (ObjContainers e)"
    define sc where "sc = scaleDecision (WantReplicas sp) ?cur state (findPrimaryOrdinal crName primaries)"
    have d: "d = (if \<not> fst chk then \<lparr>soApplied = None, soEvents = snd chk, soError = False\<rparr>
       else applySTS ok ((valkeySTS sp)\<lparr>ObjReplicas := Some (fst sc)\<rparr>) (snd chk @ snd sc))"
      using ng by (simp add: assms reconcileStatefulSet_def Found chk_def sc_def Let_def)
    have rej: "snd chk = [''ValkeyImageTransitionRejected''] \<and> (\<exists>f t. stsVersion e = Some f \<and>
        versionOf (imageRef (WantImage sp)) = Some t \<and> Major t < Major f \<and>
        map_of (WantGates sp) ''UpgradePreflight'' \<noteq> Some False)" if "\<not> fst chk"
      using that by (auto simp: chk_def checkValkeyImageTransition_def Let_def stsVersion_def versionOf_def
          IsDowngrade_def FeatureGateUpgradePreflight_def split: sum.splits if_splits)
    have major: "Major f \<le> Major t" if "fst chk" "stsVersion e = Some f" "versionOf (imageRef (WantImage sp)) = Some t"
      "map_of (WantGates sp) ''UpgradePreflight'' \<noteq> Some False" for f t
    proof (rule ccontr)
      assume "\<not> Major f \<le> Major t"
      then have lt: "Major t < Major f" by simp
      have ne: "findValkeyContainerImage (ObjContainers e) \<noteq> []"
        using that(2) by (auto simp: stsVersion_def versionOf_def ParseValkeyTag_def before_def Let_def)
      have p: "ParseValkeyTag (findValkeyContainerImage (ObjContainers e)) = Inr f" "ParseValkeyTag (imageRef (WantImage sp)) = Inr t"
        using that(2,3) by (auto simp: stsVersion_def versionOf_def split: sum.splits)
      have "\<not> fst chk" using ne p lt that(4)
        by (auto simp: chk_def checkValkeyImageTransition_def IsDowngrade_def FeatureGateUpgradePreflight_def)
      with that(1) show False by simp
    qed
    have scale: "ObjReplicas s = Some ?cur \<or> (ObjReplicas s = Some (WantReplicas sp) \<and>
        (WantReplicas sp < ?cur \<longrightarrow> \<not> scaleDownPrimaryRefusal (WantReplicas sp) ?cur (fst (findPrimaryOrdinal crName primaries)) (snd (findPrimaryOrdinal crName primaries))) \<and>
        (WantReplicas sp \<noteq> ?cur \<longrightarrow> \<not> isInRolloutState state))" if "ObjReplicas s = Some (fst sc)"
      using that scaleDecision_cases[of "WantReplicas sp" ?cur state "findPrimaryOrdinal crName primaries" "fst sc" "snd sc"]
      by (auto simp: sc_def)
    have pr: "primaries \<noteq> None \<and> (fst (findPrimaryOrdinal crName primaries) < 0 \<or> fst (findPrimaryOrdinal crName primaries) < WantReplicas sp)"
      if "WantReplicas sp < ?cur" "\<not> scaleDownPrimaryRefusal (WantReplicas sp) ?cur (fst (findPrimaryOrdinal crName primaries)) (snd (findPrimaryOrdinal crName primaries))"
      using that by (auto simp: scaleDownPrimaryRefusal_def findPrimaryOrdinal_def split: option.splits if_splits)
    show ?thesis
    proof (cases "fst chk")
      case True
      have "soApplied d = Some s \<Longrightarrow> ObjReplicas s = Some (fst sc) \<and> findValkeyContainerImage (ObjContainers s) = imageRef (WantImage sp)"
        using d True by (auto simp: applySTS_def valkeySTS_def split: if_splits)
      moreover have "soApplied d = None \<Longrightarrow> \<not> ok \<and> soError d" using d True by (auto simp: applySTS_def split: if_splits)
      ultimately show ?thesis using ng major[OF True] scale pr
        by (auto simp: Found stsVersion_def Let_def simp del: imageRef_nonempty)
    next
      case False
      with d rej show ?thesis by (auto simp: Found)
    qed
  next
    case NotFound
    then show ?thesis using ng assms by (auto simp: reconcileStatefulSet_def applySTS_def)
  next
    case (FetchError e)
    then show ?thesis using ng assms by (simp add: reconcileStatefulSet_def)
  qed
qed

definition example_image :: "string \<Rightarrow> ContainerImage" where
  "example_image t = \<lparr>Repository = ''valkey/valkey'', Tag = t\<rparr>"

definition nine_sts :: stsObject where
  "nine_sts = \<lparr>ObjReplicas = Some 3, ObjContainers = [(''valkey'', imageRef (example_image ''9.0''))]\<rparr>"

definition example_want :: "int \<Rightarrow> string \<Rightarrow> stsSpec" where
  "example_want n t = \<lparr>WantReplicas = n, WantImage = example_image t, WantGates = []\<rparr>"

lemma example_versions:
  "versionOf (imageRef (example_image ''9.0'')) = Some \<lparr>Major = 9, Minor = 0\<rparr>"
  "versionOf (imageRef (example_image ''9.1'')) = Some \<lparr>Major = 9, Minor = 1\<rparr>"
  "versionOf (imageRef (example_image ''8.0'')) = Some \<lparr>Major = 8, Minor = 0\<rparr>"
  "versionOf (imageRef (example_image ''custom'')) = None"
  by code_simp+

theorem sts_apply_guarded_witness:
  "soApplied (reconcileStatefulSet ''v'' PVCResizePhaseUnset StateSteady (example_want 3 ''8.0'') (Found nine_sts) (Some []) True) = None
   \<and> soEvents (reconcileStatefulSet ''v'' PVCResizePhaseUnset StateSteady (example_want 3 ''8.0'') (Found nine_sts) (Some []) True) =
       [''ValkeyImageTransitionRejected'']"
proof -
  let ?d = "reconcileStatefulSet ''v'' PVCResizePhaseUnset StateSteady (example_want 3 ''8.0'') (Found nine_sts) (Some []) True"
  have i: "findValkeyContainerImage (ObjContainers nine_sts) = imageRef (example_image ''9.0'')" by (simp add: nine_sts_def)
  have n: "soApplied ?d = None"
  proof (rule ccontr)
    assume "soApplied ?d \<noteq> None"
    then obtain s where s: "soApplied ?d = Some s" by blast
    have v: "stsVersion s = Some \<lparr>Major = 8, Minor = 0\<rparr>" "stsVersion nine_sts = Some \<lparr>Major = 9, Minor = 0\<rparr>"
      using sts_apply_guarded[OF refl, THEN conjunct1, rule_format, OF s] example_versions(1,3) i
      by (simp_all add: stsVersion_def example_want_def)
    have "map_of (WantGates (example_want 3 ''8.0'')) ''UpgradePreflight'' \<noteq> Some False" by (simp add: example_want_def)
    with sts_apply_guarded[OF refl, THEN conjunct1, rule_format, OF s] v have "Major \<lparr>Major = 9, Minor = 0\<rparr> \<le> Major \<lparr>Major = 8, Minor = 0\<rparr>"
      by blast
    then show False by simp
  qed
  moreover have "soError ?d = False" using n by (auto simp: reconcileStatefulSet_def applySTS_def Let_def split: if_splits)
  ultimately show ?thesis using sts_apply_guarded[OF refl, THEN conjunct2, rule_format, OF n]
    by (auto simp: isPVCResizeGuardingPhase2_def)
qed

section \<open>Runs\<close>

lemma stsRun_image:
  assumes "got = Found s" and "d = reconcileStatefulSet crName phase state sp got primaries ok"
  shows "stsRun s d = s \<or> findValkeyContainerImage (ObjContainers (stsRun s d)) = imageRef (WantImage sp)"
  using assms by (auto simp: stsRun_def reconcileStatefulSet_def applySTS_def valkeySTS_def Let_def split: if_splits)

lemma stsRun_major:
  assumes "stsVersion s = Some f" and "map_of (WantGates sp) ''UpgradePreflight'' \<noteq> Some False"
    and "versionOf (imageRef (WantImage sp)) = Some t"
  shows "\<exists>g. stsVersion (stsRun s (reconcileStatefulSet crName phase state sp (Found s) primaries ok)) = Some g \<and> Major f \<le> Major g"
proof -
  define d where "d = reconcileStatefulSet crName phase state sp (Found s) primaries ok"
  have ne: "findValkeyContainerImage (ObjContainers s) \<noteq> []"
    using assms(1) by (auto simp: stsVersion_def versionOf_def ParseValkeyTag_def before_def Let_def)
  have p: "ParseValkeyTag (findValkeyContainerImage (ObjContainers s)) = Inr f" "ParseValkeyTag (imageRef (WantImage sp)) = Inr t"
    using assms(1,3) by (auto simp: stsVersion_def versionOf_def split: sum.splits)
  show ?thesis
  proof (cases "soApplied d")
    case None
    then show ?thesis using assms(1) by (simp add: stsRun_def d_def)
  next
    case (Some s')
    have chk: "fst (checkValkeyImageTransition (WantImage sp) (WantGates sp) (ObjContainers s))"
      and img: "findValkeyContainerImage (ObjContainers s') = imageRef (WantImage sp)"
      using Some by (auto simp: d_def reconcileStatefulSet_def applySTS_def valkeySTS_def Let_def split: if_splits)
    have "\<not> Major t < Major f" using chk ne p assms(2)
      by (auto simp: checkValkeyImageTransition_def IsDowngrade_def FeatureGateUpgradePreflight_def split: if_splits)
    then show ?thesis using Some img assms(3) by (simp add: stsRun_def d_def[symmetric] stsVersion_def)
  qed
qed

text \<open>
  On any run of passes whose specs name versioned images and leave the preflight gate alone, the
  major version of the StatefulSet's image never goes down, whatever the resize phases, states,
  replica changes and refused writes in between.
\<close>

theorem major_never_drops:
  assumes "stsVersion s \<noteq> None"
    and "\<forall>(phase, state, sp, primaries, ok)\<in>set xs.
       map_of (WantGates sp) ''UpgradePreflight'' \<noteq> Some False \<and> versionOf (imageRef (WantImage sp)) \<noteq> None"
  shows "sorted (map (\<lambda>s. Major (the (stsVersion s))) (imageRun crName s xs)) \<and> list_all (\<lambda>s. stsVersion s \<noteq> None) (imageRun crName s xs)"
  using assms
proof (induction xs arbitrary: s)
  case Nil
  then show ?case by simp
next
  case (Cons x xs)
  obtain phase state sp primaries ok where x: "x = (phase, state, sp, primaries, ok)" by (metis prod_cases5)
  obtain f where f: "stsVersion s = Some f" using Cons.prems(1) by blast
  obtain t where t: "versionOf (imageRef (WantImage sp)) = Some t" using Cons.prems(2) x by auto
  define s' where "s' = stsRun s (reconcileStatefulSet crName phase state sp (Found s) primaries ok)"
  obtain g where g: "stsVersion s' = Some g" "Major f \<le> Major g"
    using stsRun_major[OF f _ t] Cons.prems(2) x unfolding s'_def by force
  have ih: "sorted (map (\<lambda>s. Major (the (stsVersion s))) (imageRun crName s' xs))"
    "list_all (\<lambda>s. stsVersion s \<noteq> None) (imageRun crName s' xs)"
    using Cons.IH[of s'] g(1) Cons.prems(2) by auto
  obtain ys where ys: "imageRun crName s' xs = s' # ys" by (cases xs) auto
  have "sorted (map (\<lambda>s. Major (the (stsVersion s))) (s # imageRun crName s' xs))"
    using ih(1) g f unfolding ys by (auto simp: dest: order_trans)
  then show ?case using ih(2) f by (simp add: x s'_def)
qed

theorem major_never_drops_witness:
  "sorted (map (\<lambda>s. Major (the (stsVersion s)))
     (imageRun ''v'' nine_sts [(PVCResizePhaseUnset, StateSteady, example_want 3 ''8.0'', None, True),
        (PVCResizePhaseUnset, StateSteady, example_want 3 ''9.1'', None, True)]))"
proof -
  have "stsVersion nine_sts \<noteq> None" using example_versions(1) by (simp add: stsVersion_def nine_sts_def)
  from major_never_drops[OF this, where crName = "''v''" and xs = "[(PVCResizePhaseUnset, StateSteady, example_want 3 ''8.0'', None, True),
        (PVCResizePhaseUnset, StateSteady, example_want 3 ''9.1'', None, True)]"] show ?thesis
    using example_versions(2,3) by (simp add: example_want_def)
qed

text \<open>
  A downgrade by way of an image without a version is not refused. From any major version, a pass
  with an image the parser cannot read and a pass with a lower version are both applied, without an
  event, although the second applied alone is a downgrade.
\<close>

theorem downgrade_by_detour:
  assumes "versionOf (imageRef (WantImage spu)) = None" and "stsVersion s = Some f" and "versionOf (imageRef (WantImage spt)) = Some t"
    and "Major t < Major f" and "map_of (WantGates spt) ''UpgradePreflight'' \<noteq> Some False"
    and "WantReplicas spu = n" and "WantReplicas spt = n" and "ObjReplicas s = Some n"
    and "u = stsRun s (reconcileStatefulSet crName PVCResizePhaseUnset StateSteady spu (Found s) primaries True)"
  shows "soApplied (reconcileStatefulSet crName PVCResizePhaseUnset StateSteady spt (Found s) primaries True) = None
    \<and> stsVersion (stsRun u (reconcileStatefulSet crName PVCResizePhaseUnset StateSteady spt (Found u) primaries True)) = Some t
    \<and> soEvents (reconcileStatefulSet crName PVCResizePhaseUnset StateSteady spu (Found s) primaries True) = []
    \<and> soEvents (reconcileStatefulSet crName PVCResizePhaseUnset StateSteady spt (Found u) primaries True) = []"
proof -
  have ng: "\<not> isPVCResizeGuardingPhase2 PVCResizePhaseUnset" by (simp add: isPVCResizeGuardingPhase2_def)
  have sc: "scaleDecision n n StateSteady pr = (n, [])" for pr by (simp add: scaleDecision_def)
  have pu: "\<exists>e. ParseValkeyTag (imageRef (WantImage spu)) = Inl e" using assms(1) by (auto simp: versionOf_def split: sum.splits)
  have pt: "ParseValkeyTag (imageRef (WantImage spt)) = Inr t" "ParseValkeyTag (findValkeyContainerImage (ObjContainers s)) = Inr f"
    using assms(2,3) by (auto simp: stsVersion_def versionOf_def split: sum.splits)
  have ne: "findValkeyContainerImage (ObjContainers s) \<noteq> []"
    using assms(2) by (auto simp: stsVersion_def versionOf_def ParseValkeyTag_def before_def Let_def)
  have c1: "checkValkeyImageTransition (WantImage spu) g (ObjContainers s) = (True, [])" for g
    using pu ne by (auto simp: checkValkeyImageTransition_def pt(2))
  have c2: "checkValkeyImageTransition i g (ObjContainers (valkeySTS spu)) = (True, [])" for i g
    using pu by (auto simp: checkValkeyImageTransition_def)
  have c3: "\<not> fst (checkValkeyImageTransition (WantImage spt) (WantGates spt) (ObjContainers s))"
    using assms(4,5) ne pt by (auto simp: checkValkeyImageTransition_def IsDowngrade_def FeatureGateUpgradePreflight_def)
  have d1: "reconcileStatefulSet crName PVCResizePhaseUnset StateSteady spu (Found s) primaries True =
      \<lparr>soApplied = Some (valkeySTS spu), soEvents = [], soError = False\<rparr>"
    using ng c1 sc assms(6,8) by (simp add: reconcileStatefulSet_def Let_def applySTS_def valkeySTS_def)
  then have u: "u = valkeySTS spu" using assms(9) by (simp add: stsRun_def)
  have "ObjReplicas (valkeySTS spu) = Some n" using assms(6) by (simp add: valkeySTS_def)
  then have d2: "reconcileStatefulSet crName PVCResizePhaseUnset StateSteady spt (Found u) primaries True =
      \<lparr>soApplied = Some (valkeySTS spt), soEvents = [], soError = False\<rparr>"
    using ng c2 sc assms(7) by (simp add: u reconcileStatefulSet_def Let_def applySTS_def valkeySTS_def)
  have "soApplied (reconcileStatefulSet crName PVCResizePhaseUnset StateSteady spt (Found s) primaries True) = None"
    using ng c3 by (simp add: reconcileStatefulSet_def Let_def)
  then show ?thesis using d1 d2 assms(3) by (simp add: stsRun_def stsVersion_def)
qed

theorem downgrade_by_detour_witness:
  "stsVersion (stsRun (stsRun nine_sts (reconcileStatefulSet ''v'' PVCResizePhaseUnset StateSteady (example_want 3 ''custom'') (Found nine_sts) None True))
     (reconcileStatefulSet ''v'' PVCResizePhaseUnset StateSteady (example_want 3 ''8.0'')
        (Found (stsRun nine_sts (reconcileStatefulSet ''v'' PVCResizePhaseUnset StateSteady (example_want 3 ''custom'') (Found nine_sts) None True))) None True))
   = Some \<lparr>Major = 8, Minor = 0\<rparr>"
proof -
  have a: "versionOf (imageRef (WantImage (example_want 3 ''custom''))) = None" "versionOf (imageRef (WantImage (example_want 3 ''8.0''))) = Some \<lparr>Major = 8, Minor = 0\<rparr>"
    using example_versions(3,4) by (simp_all add: example_want_def)
  have b: "stsVersion nine_sts = Some \<lparr>Major = 9, Minor = 0\<rparr>" using example_versions(1) by (simp add: stsVersion_def nine_sts_def)
  from downgrade_by_detour[OF a(1) b a(2) _ _ _ _ _ refl, where n = 3] show ?thesis by (simp add: example_want_def nine_sts_def)
qed

section \<open>Gaps of the scale-down guard\<close>

lemma minOrdinal_le:
  assumes "0 \<le> minOrdinal crName ps m"
  shows "(0 \<le> m \<longrightarrow> minOrdinal crName ps m \<le> m) \<and>
    (\<forall>p\<in>set ps. \<forall>x. CutPrefix (pName p) (crName @ ''-'') = Some x \<and> 0 \<le> parseOrdinal x \<longrightarrow> minOrdinal crName ps m \<le> parseOrdinal x)"
  using assms
proof (induction ps arbitrary: m)
  case (Cons p ps)
  show ?case
  proof (cases "CutPrefix (pName p) (crName @ ''-'')")
    case None
    then show ?thesis using Cons.IH[of m] Cons.prems by simp
  next
    case (Some x)
    let ?m = "if parseOrdinal x < 0 then m else if m < 0 \<or> parseOrdinal x < m then parseOrdinal x else m"
    have e: "minOrdinal crName (p # ps) m = minOrdinal crName ps ?m" using Some by (simp add: Let_def)
    with Cons.prems have "0 \<le> minOrdinal crName ps ?m" by simp
    from Cons.IH[OF this] show ?thesis unfolding e using Some by auto
  qed
qed simp

text \<open>
  Two ways around the scale-down guard. First, while a resize has the StatefulSet deleted: in the
  phase in which it is to be recreated it is written with the replica count of the spec, whichever
  pod is primary, although the same request is refused while the object exists. Second, with two pods
  labelled primary the guard looks at the lowest ordinal only: if that pod stays, the scale-down goes
  through and removes the other.
\<close>

theorem scale_guard_gaps:
  assumes "want < current" and "findPrimaryOrdinal crName (Some pods) = (k, False)" and "want \<le> k"
    and "p \<in> set pods'" and "q \<in> set pods'" and "CutPrefix (pName p) (crName @ ''-'') = Some x" and "0 \<le> parseOrdinal x" and "parseOrdinal x < want"
    and "CutPrefix (pName q) (crName @ ''-'') = Some y" and "want \<le> parseOrdinal y"
    and "WantReplicas sp = want" and "ObjReplicas e = Some current" and "ObjContainers e = ObjContainers (valkeySTS sp)" and "0 \<le> want"
  shows "soApplied (reconcileStatefulSet crName PVCResizePhaseStsRecreated state sp NotFound (Some pods) True) = Some (valkeySTS sp)
    \<and> soEvents (reconcileStatefulSet crName PVCResizePhaseStsRecreated state sp NotFound (Some pods) True) = []
    \<and> soEvents (reconcileStatefulSet crName PVCResizePhaseStsRecreated state sp (Found e) (Some pods) True) = [''ScaleRefused'']
    \<and> (\<not> isInRolloutState state \<longrightarrow>
         soApplied (reconcileStatefulSet crName PVCResizePhaseUnset state sp (Found e) (Some pods') True) = Some (valkeySTS sp))"
proof -
  have ng: "\<not> isPVCResizeGuardingPhase2 PVCResizePhaseUnset" "\<not> isPVCResizeGuardingPhase2 PVCResizePhaseStsRecreated"
    by (simp_all add: isPVCResizeGuardingPhase2_def)
  have chk: "checkValkeyImageTransition (WantImage sp) (WantGates sp) (ObjContainers e) = (True, [])"
    unfolding assms(13) by (auto simp: checkValkeyImageTransition_def Let_def split: sum.splits)
  have "scaleDecision want current state (findPrimaryOrdinal crName (Some pods)) = (current, [''ScaleRefused''])"
    using assms(1-3,14) by (simp add: scaleDecision_def scaleDownPrimaryRefusal_def)
  then have ref: "soEvents (reconcileStatefulSet crName PVCResizePhaseStsRecreated state sp (Found e) (Some pods) True) = [''ScaleRefused'']"
    using ng chk assms(11,12) by (simp add: reconcileStatefulSet_def Let_def applySTS_def)
  have "fst (findPrimaryOrdinal crName (Some pods')) < want"
    using minOrdinal_le[of crName pods' "-1"] assms(4,6-8) by (fastforce simp: findPrimaryOrdinal_def)
  moreover have "\<not> snd (findPrimaryOrdinal crName (Some pods'))" by (simp add: findPrimaryOrdinal_def)
  ultimately have "\<not> isInRolloutState state \<Longrightarrow> scaleDecision want current state (findPrimaryOrdinal crName (Some pods')) = (want, [])"
    by (simp add: scaleDecision_def scaleDownPrimaryRefusal_def)
  then have "\<not> isInRolloutState state \<longrightarrow>
      soApplied (reconcileStatefulSet crName PVCResizePhaseUnset state sp (Found e) (Some pods') True) = Some (valkeySTS sp)"
    using ng chk assms(11,12) by (auto simp: reconcileStatefulSet_def Let_def applySTS_def valkeySTS_def)
  then show ?thesis using ng ref by (simp add: reconcileStatefulSet_def applySTS_def)
qed

theorem scale_guard_gaps_witness:
  "soApplied (reconcileStatefulSet ''v'' PVCResizePhaseUnset StateSteady (example_want 1 ''9.0'') (Found nine_sts)
     (Some [pod_at ''v-0'' [] [], pod_at ''v-2'' [] []]) True) = Some (valkeySTS (example_want 1 ''9.0''))"
proof -
  have c: "CutPrefix (pName (pod_at ''v-0'' [] [])) (''v'' @ ''-'') = Some ''0''" "CutPrefix (pName (pod_at ''v-2'' [] [])) (''v'' @ ''-'') = Some ''2''"
    by (simp_all add: pod_at_def CutPrefix_def HasPrefix_def)
  have o: "parseOrdinal ''0'' = 0" "parseOrdinal ''2'' = 2" by code_simp+
  have f: "findPrimaryOrdinal ''v'' (Some [pod_at ''v-2'' [] []]) = (2, False)"
    using c(2) o by (simp add: findPrimaryOrdinal_def)
  have "\<not> isInRolloutState StateSteady" by (simp add: isInRolloutState_def)
  with scale_guard_gaps[where want = 1 and current = 3 and crName = "''v''" and pods = "[pod_at ''v-2'' [] []]"
      and pods' = "[pod_at ''v-0'' [] [], pod_at ''v-2'' [] []]" and sp = "example_want 1 ''9.0''" and e = nine_sts and state = StateSteady,
      OF _ f _ _ _ c(1) _ _ c(2)] o show ?thesis
    by (simp add: example_want_def nine_sts_def valkeySTS_def)
qed

end
