(* ===== verification/Config_Render.thy ===== *)
theory Config_Render
  imports Velkir_Text "HOL-Library.Multiset"
begin

text \<open>
  Package \<^verbatim>\<open>internal/valkeyconf\<close>: the text of \<^verbatim>\<open>valkey.conf\<close> (render.go) and of \<^verbatim>\<open>sentinel.conf\<close>
  (sentinel_render.go). A Go map is an association list with distinct keys, in whatever order the
  runtime walks it; a set is the list of its members; an \<^verbatim>\<open>*int32\<close> is an option. The lemmas give the
  rendered file line by line, and from it which lines can carry a directive the operator owns.
\<close>

definition PodIPPlaceholder :: string where
  "PodIPPlaceholder = ''_POD_IP_''"

definition ValkeyPort :: int where
  "ValkeyPort = 6379"

definition OperatorOwnedDirectives :: "string list" where
  "OperatorOwnedDirectives =
     [''bind'', ''daemonize'', ''masterauth'', ''min-replicas-max-lag'', ''min-replicas-to-write'', ''port'',
      ''protected-mode'', ''replica-announce-ip'', ''replica-announce-port'', ''replicaof'', ''requirepass'',
      ''sentinel announce-hostnames'', ''sentinel monitor'', ''sentinel resolve-hostnames'', ''slaveof'', ''unixsocket'']"

definition ContainsNUL :: "string \<Rightarrow> bool" where
  "ContainsNUL s \<longleftrightarrow> CHR 0x00 \<in> set s"

definition ContainsInjectionChars :: "string \<Rightarrow> bool" where
  "ContainsInjectionChars s \<longleftrightarrow> newline \<in> set s \<or> CHR 0x0D \<in> set s \<or> ContainsNUL s"

record RenderInputs =
  Persistent :: bool
  Configuration :: string
  Overrides :: "(string \<times> string) list"
  RMinReplicasToWrite :: "int option"
  RMinReplicasMaxLag :: "int option"

definition directive :: "string \<Rightarrow> string" where
  "directive line =
     (let trimmed = TrimSpace line in
      if trimmed = [] \<or> HasPrefix trimmed ''#'' then []
      else case Fields trimmed of [] \<Rightarrow> [] | f # fs \<Rightarrow> ToLower f)"

definition mandatoryDirectives :: "RenderInputs \<Rightarrow> string list" where
  "mandatoryDirectives inp =
     (let dir = (if Persistent inp then ''/data'' else ''/tmp'') in
      [''dir '' @ dir, ''port '' @ itoa ValkeyPort, ''protected-mode no'',
       ''replica-announce-ip '' @ PodIPPlaceholder, ''replica-announce-port '' @ itoa ValkeyPort]
      @ (case RMinReplicasToWrite inp of None \<Rightarrow> [] | Some n \<Rightarrow> [''min-replicas-to-write '' @ itoa n])
      @ (case RMinReplicasMaxLag inp of None \<Rightarrow> [] | Some n \<Rightarrow> [''min-replicas-max-lag '' @ itoa n]))"

definition mandatoryKeyset :: "string list \<Rightarrow> string list" where
  "mandatoryKeyset mandatory = filter (\<lambda>d. d \<noteq> []) (map directive mandatory)"

definition bannedDirectiveKeys :: "string list" where
  "bannedDirectiveKeys = filter (\<lambda>d. d \<noteq> []) (map directive OperatorOwnedDirectives)"

definition NormalizeDirectiveKey :: "string \<Rightarrow> string" where
  "NormalizeDirectiveKey key = directive key"

definition filterOverrides :: "(string \<times> string) list \<Rightarrow> string list \<Rightarrow> string list \<Rightarrow> (string \<times> string) list" where
  "filterOverrides overrides mandatoryKeys bannedKeys =
     filter (\<lambda>(k, v).
       \<not> (ContainsInjectionChars k \<or> ContainsInjectionChars v) \<and>
       \<not> (directive k \<in> set mandatoryKeys \<or> directive k \<in> set bannedKeys)) overrides"

definition mergeKeysets :: "string list \<Rightarrow> (string \<times> string) list \<Rightarrow> string list" where
  "mergeKeysets mandatoryKeys overrides = mandatoryKeys @ map (\<lambda>(k, v). ToLower (TrimSpace k)) overrides"

definition stripUserDirectives :: "string \<Rightarrow> string list \<Rightarrow> string" where
  "stripUserDirectives raw skip =
     (if raw = [] then []
      else let kept = filter (\<lambda>line. \<not> (directive line \<noteq> [] \<and> directive line \<in> set skip)) (Split raw newline);
               s = TrimRight (unlines kept) newline
           in if s = [] then [] else s @ [newline])"

definition headerComment :: string where
  "headerComment = unlines
     [''# Managed by velkir. Do not edit by hand; this ConfigMap is'', ''# overwritten on every reconcile.'', ''#'',
      ''# _POD_IP_ is substituted by the render-config init container at pod'',
      ''# start using $(POD_IP) from the Downward API.'']"

definition overrideLine :: "(string \<times> string) list \<Rightarrow> string \<Rightarrow> string" where
  "overrideLine overrides k = k @ '' '' @ (case map_of overrides k of None \<Rightarrow> [] | Some v \<Rightarrow> v)"

definition Render :: "RenderInputs \<Rightarrow> string" where
  "Render inp =
     (let mandatory = mandatoryDirectives inp;
          mandatoryKeys = mandatoryKeyset mandatory;
          banned = bannedDirectiveKeys;
          overrides = filterOverrides (Overrides inp) mandatoryKeys banned;
          skip = mergeKeysets mandatoryKeys overrides @ banned;
          user = stripUserDirectives (Configuration inp) skip
      in headerComment @ unlines mandatory
         @ (if user \<noteq> [] then [newline] @ ''# spec.valkey.configuration'' @ [newline] @ user else [])
         @ (if overrides \<noteq> []
            then [newline] @ ''# spec.valkey.configurationOverrides'' @ [newline]
                 @ concat (map (\<lambda>k. overrideLine overrides k @ [newline]) (sort (map fst overrides)))
            else []))"

record SentinelInputs =
  SIMasterName :: string
  SIQuorum :: int
  SIDownAfterMilliseconds :: int
  SIFailoverTimeout :: int
  SIParallelSyncs :: int

definition SentinelPort :: int where
  "SentinelPort = 26379"

definition SentinelSeedMasterIPPlaceholder :: string where
  "SentinelSeedMasterIPPlaceholder = ''_SEED_MASTER_IP_''"

definition SentinelAnnounceIPPlaceholder :: string where
  "SentinelAnnounceIPPlaceholder = ''_POD_IP_''"

definition sentinelHeaderComment :: string where
  "sentinelHeaderComment = unlines
     [''# Managed by velkir. Do not edit by hand; this ConfigMap is'', ''# overwritten on every reconcile.'', ''#'',
      ''# Master name, quorum, and timing values are folded by the renderer.'',
      ''# _SEED_MASTER_IP_ is substituted at pod start from the per-CR'',
      ''# <cr>-sentinel-bootstrap ConfigMap. _POD_IP_ is substituted from'',
      ''# the Downward API ($POD_IP) on the init container.'']"

definition RenderSentinel :: "SentinelInputs \<Rightarrow> string" where
  "RenderSentinel inp =
     sentinelHeaderComment @ unlines
       [''port '' @ itoa SentinelPort,
        ''sentinel announce-hostnames no'',
        ''sentinel resolve-hostnames no'',
        ''sentinel announce-ip '' @ SentinelAnnounceIPPlaceholder,
        ''sentinel announce-port '' @ itoa SentinelPort,
        ''sentinel monitor '' @ SIMasterName inp @ '' '' @ SentinelSeedMasterIPPlaceholder @ '' '' @ itoa ValkeyPort @ '' '' @ itoa (SIQuorum inp),
        ''sentinel down-after-milliseconds '' @ SIMasterName inp @ '' '' @ itoa (SIDownAfterMilliseconds inp),
        ''sentinel failover-timeout '' @ SIMasterName inp @ '' '' @ itoa (SIFailoverTimeout inp),
        ''sentinel parallel-syncs '' @ SIMasterName inp @ '' '' @ itoa (SIParallelSyncs inp)]"

section \<open>The directive of a line\<close>

lemma directive_token:
  "directive l = (if first_token l = [] \<or> hd (first_token l) = CHR ''#'' then [] else ToLower (first_token l))"
proof (cases "TrimSpace l")
  case Nil
  then have "first_token l = []" by (simp add: TrimSpace_empty)
  with Nil show ?thesis by (simp add: directive_def)
next
  case (Cons c t)
  note f = hd_TrimSpace[OF Cons]
  then have "first_token (c # t) = first_token l" using first_token_TrimSpace[of l] Cons by simp
  then obtain ws where "Fields (c # t) = first_token l # ws" using Fields_first[of "c # t"] f by auto
  with Cons f show ?thesis by (simp add: directive_def HasPrefix_def)
qed

lemma directive_Nil [simp]: "directive [] = []"
  by (simp add: directive_token first_token_def)

lemma directive_comment [simp]: "directive (CHR ''#'' # s) = []"
proof -
  have "\<not> is_space CHR ''#''" by (simp add: is_space_def)
  then show ?thesis by (simp add: directive_token first_token_def)
qed

lemma directive_override: "first_token k \<noteq> [] \<Longrightarrow> directive (k @ '' '' @ v) = directive k"
  using first_token_append[of k v] by (simp add: directive_token)

lemma directive_blank: "first_token k = [] \<Longrightarrow> directive (k @ '' '' @ v) = directive v"
proof -
  assume "first_token k = []"
  then have "dropWhile is_space k = []"
    by (metis dropWhile_head first_token_def list.distinct(1) neq_Nil_conv takeWhile.simps(2))
  then have "first_token (k @ '' '' @ v) = first_token v" by (simp add: first_token_def dropWhile_append dropWhile_eq_Nil_conv)
  then show ?thesis by (simp add: directive_token)
qed

section \<open>The rendered file\<close>

definition keptOverrides :: "RenderInputs \<Rightarrow> (string \<times> string) list" where
  "keptOverrides inp = filterOverrides (Overrides inp) (mandatoryKeyset (mandatoryDirectives inp)) bannedDirectiveKeys"

definition skipped :: "RenderInputs \<Rightarrow> string list" where
  "skipped inp = mergeKeysets (mandatoryKeyset (mandatoryDirectives inp)) (keptOverrides inp) @ bannedDirectiveKeys"

definition keptLines :: "RenderInputs \<Rightarrow> string list" where
  "keptLines inp =
     trim_lines (filter (\<lambda>l. \<not> (directive l \<noteq> [] \<and> directive l \<in> set (skipped inp))) (Split (Configuration inp) newline))"

definition overrideLines :: "RenderInputs \<Rightarrow> string list" where
  "overrideLines inp = map (overrideLine (keptOverrides inp)) (sort (map fst (keptOverrides inp)))"

definition headerLines :: "string list" where
  "headerLines = Split headerComment newline"

definition renderLines :: "RenderInputs \<Rightarrow> string list" where
  "renderLines inp =
     butlast headerLines @ mandatoryDirectives inp
     @ (if keptLines inp \<noteq> [] then [[], ''# spec.valkey.configuration''] @ keptLines inp else [])
     @ (if keptOverrides inp \<noteq> [] then [[], ''# spec.valkey.configurationOverrides''] @ overrideLines inp else [])"

lemma unlines_empty: "unlines ls = [] \<longleftrightarrow> ls = []"
  by (cases ls) (simp_all add: unlines_Cons)

lemma strip_lines: "stripUserDirectives (Configuration inp) (skipped inp) = unlines (keptLines inp)"
proof -
  let ?keep = "filter (\<lambda>l. \<not> (directive l \<noteq> [] \<and> directive l \<in> set (skipped inp))) (Split (Configuration inp) newline)"
  have "list_all one_line ?keep" using Split_lines[of "Configuration inp"] by (auto simp: list_all_iff)
  from TrimRight_unlines[OF this] show ?thesis
    by (cases "Configuration inp") (simp_all add: stripUserDirectives_def keptLines_def trim_lines_def Let_def)
qed

lemma header_split: "headerComment = unlines (butlast headerLines)" "list_all one_line (butlast headerLines)"
  "\<forall>l\<in>set (butlast headerLines). directive l = []"
proof -
  define hs where "hs = [''# Managed by velkir. Do not edit by hand; this ConfigMap is'', ''# overwritten on every reconcile.'', ''#'',
      ''# _POD_IP_ is substituted by the render-config init container at pod'',
      ''# start using $(POD_IP) from the Downward API.'']"
  have h: "headerComment = unlines hs" by (simp add: headerComment_def hs_def)
  have o: "list_all one_line hs" by (simp add: hs_def one_line_def)
  have "butlast headerLines = hs" using Split_unlines[OF o, of "[]"] by (simp add: headerLines_def h)
  moreover have "\<forall>l\<in>set hs. directive l = []" by (simp add: hs_def)
  ultimately show "headerComment = unlines (butlast headerLines)" "list_all one_line (butlast headerLines)"
    "\<forall>l\<in>set (butlast headerLines). directive l = []" using h o by simp_all
qed

lemma Render_lines: "Render inp = unlines (renderLines inp)"
proof -
  have o: "concat (map (\<lambda>k. overrideLine (keptOverrides inp) k @ [newline]) (sort (map fst (keptOverrides inp)))) = unlines (overrideLines inp)"
    by (simp add: overrideLines_def unlines_def comp_def)
  have "Render inp = headerComment @ unlines (mandatoryDirectives inp)
      @ (if keptLines inp \<noteq> [] then [newline] @ ''# spec.valkey.configuration'' @ [newline] @ unlines (keptLines inp) else [])
      @ (if keptOverrides inp \<noteq> [] then [newline] @ ''# spec.valkey.configurationOverrides'' @ [newline] @ unlines (overrideLines inp) else [])"
    unfolding Render_def Let_def keptOverrides_def[symmetric] skipped_def[symmetric] strip_lines
    by (simp only: unlines_empty o)
  then show ?thesis by (simp add: header_split(1) renderLines_def unlines_Cons)
qed

lemma mandatory_one_line: "list_all one_line (mandatoryDirectives inp)"
  by (auto simp: mandatoryDirectives_def Let_def one_line_def PodIPPlaceholder_def split: option.splits)

lemma overrideLine_kept:
  assumes "k \<in> set (map fst (keptOverrides inp))"
  obtains v where "(k, v) \<in> set (keptOverrides inp)" "overrideLine (keptOverrides inp) k = k @ '' '' @ v"
proof -
  obtain v where v: "map_of (keptOverrides inp) k = Some v" using assms by (metis map_of_eq_None_iff not_Some_eq set_map)
  with that[of v] show ?thesis by (simp add: overrideLine_def map_of_SomeD)
qed

lemma keptOverrides_plain:
  "(k, v) \<in> set (keptOverrides inp) \<longleftrightarrow> (k, v) \<in> set (Overrides inp) \<and> \<not> ContainsInjectionChars k \<and> \<not> ContainsInjectionChars v \<and>
     directive k \<notin> set (mandatoryKeyset (mandatoryDirectives inp)) \<and> directive k \<notin> set bannedDirectiveKeys"
  by (auto simp: keptOverrides_def filterOverrides_def)

lemma render_one_line: "list_all one_line (renderLines inp)"
proof -
  have "list_all one_line (keptLines inp)"
    using Split_lines[of "Configuration inp"] by (auto simp: keptLines_def list_all_iff dest: set_trim_lines)
  moreover have "one_line (overrideLine (keptOverrides inp) k)" if k: "k \<in> set (map fst (keptOverrides inp))" for k
  proof -
    obtain v where "(k, v) \<in> set (keptOverrides inp)" "overrideLine (keptOverrides inp) k = k @ '' '' @ v"
      using overrideLine_kept[OF k] by blast
    then show ?thesis by (auto simp: keptOverrides_plain ContainsInjectionChars_def one_line_def)
  qed
  then have "list_all one_line (overrideLines inp)" by (auto simp: overrideLines_def list_all_iff)
  moreover have "one_line []" "one_line ''# spec.valkey.configuration''" "one_line ''# spec.valkey.configurationOverrides''"
    by (simp_all add: one_line_def)
  ultimately show ?thesis using mandatory_one_line[of inp] header_split(2) by (simp add: renderLines_def)
qed

lemma Split_Render: "Split (Render inp) newline = renderLines inp @ [[]]"
  using Split_unlines[OF render_one_line, of inp "[]"] by (simp add: Render_lines)

lemma filter_kept:
  assumes "\<And>l. P l \<Longrightarrow> directive l \<noteq> []"
  shows "filter P (Split (Render inp) newline) =
    filter P (mandatoryDirectives inp)
    @ filter (\<lambda>l. P l \<and> directive l \<notin> set (skipped inp)) (Split (Configuration inp) newline) @ filter P (overrideLines inp)"
proof -
  have n: "\<not> P []" "\<not> P ''# spec.valkey.configuration''" "\<not> P ''# spec.valkey.configurationOverrides''"
    using assms by fastforce+
  have h: "filter P (butlast headerLines) = []" using assms header_split(3) by (auto simp: filter_empty_conv)
  have "filter P (keptLines inp) = filter (\<lambda>l. P l \<and> directive l \<notin> set (skipped inp)) (Split (Configuration inp) newline)"
  proof -
    have "filter P (keptLines inp) = filter P (filter (\<lambda>l. \<not> (directive l \<noteq> [] \<and> directive l \<in> set (skipped inp))) (Split (Configuration inp) newline))"
      unfolding keptLines_def by (rule filter_trim_lines[where P = P, OF n(1)])
    also have "\<dots> = filter (\<lambda>l. P l \<and> directive l \<notin> set (skipped inp)) (Split (Configuration inp) newline)"
      unfolding filter_filter using assms by (intro filter_cong) auto
    finally show ?thesis .
  qed
  moreover have "filter P (if keptLines inp \<noteq> [] then [[], ''# spec.valkey.configuration''] @ keptLines inp else []) = filter P (keptLines inp)"
    using n by simp
  moreover have "filter P (if keptOverrides inp \<noteq> [] then [[], ''# spec.valkey.configurationOverrides''] @ overrideLines inp else []) = filter P (overrideLines inp)"
    using n by (simp add: overrideLines_def)
  ultimately show ?thesis using n(1) h by (simp only: Split_Render renderLines_def filter_append) simp
qed

definition mandatoryPairs :: "RenderInputs \<Rightarrow> (string \<times> string) list" where
  "mandatoryPairs inp =
     [(''dir'', if Persistent inp then ''/data'' else ''/tmp''), (''port'', itoa ValkeyPort), (''protected-mode'', ''no''),
      (''replica-announce-ip'', PodIPPlaceholder), (''replica-announce-port'', itoa ValkeyPort)]
     @ (case RMinReplicasToWrite inp of None \<Rightarrow> [] | Some n \<Rightarrow> [(''min-replicas-to-write'', itoa n)])
     @ (case RMinReplicasMaxLag inp of None \<Rightarrow> [] | Some n \<Rightarrow> [(''min-replicas-max-lag'', itoa n)])"

lemma mandatory_pairs: "mandatoryDirectives inp = map (\<lambda>(k, v). k @ '' '' @ v) (mandatoryPairs inp)"
  by (cases "RMinReplicasToWrite inp"; cases "RMinReplicasMaxLag inp") (simp_all add: mandatoryPairs_def mandatoryDirectives_def Let_def)

lemma mandatory_directive: "l \<in> set (mandatoryDirectives inp) \<Longrightarrow> directive l \<noteq> []"
proof -
  have t: "directive (k @ '' '' @ v) \<noteq> []" if "first_token k = k" "k \<noteq> []" "hd k \<noteq> CHR ''#''" for k v
    using directive_override[of k v] that by (simp add: directive_token ToLower_def)
  have w: "first_token k = k" if "list_all (\<lambda>c. \<not> is_space c) k" for k
    using that by (simp add: first_token_def list_all_iff dropWhile_eq_self_iff takeWhile_eq_all_conv)
  assume "l \<in> set (mandatoryDirectives inp)"
  then have "l \<in> (\<lambda>(k, v). k @ '' '' @ v) ` set (mandatoryPairs inp)" by (metis mandatory_pairs set_map)
  then obtain k v where l: "l = k @ '' '' @ v" and k: "(k, v) \<in> set (mandatoryPairs inp)" by auto
  have "list_all (\<lambda>k. k \<noteq> [] \<and> hd k \<noteq> CHR ''#'' \<and> list_all (\<lambda>c. \<not> is_space c) k) (map fst (mandatoryPairs inp))"
    by (cases "RMinReplicasToWrite inp"; cases "RMinReplicasMaxLag inp") (simp_all add: mandatoryPairs_def is_space_def)
  with k have "k \<noteq> []" "hd k \<noteq> CHR ''#''" "list_all (\<lambda>c. \<not> is_space c) k" by (auto simp: list_all_iff)
  then show ?thesis using t[OF w, of k v] l by simp
qed

section \<open>Properties of the rendered file\<close>

definition ownedKeys :: "RenderInputs \<Rightarrow> string set" where
  "ownedKeys inp = set bannedDirectiveKeys \<union> set (mandatoryKeyset (mandatoryDirectives inp))"

lemma ownedKeys_nonempty: "d \<in> ownedKeys inp \<Longrightarrow> d \<noteq> []"
  by (auto simp: ownedKeys_def bannedDirectiveKeys_def mandatoryKeyset_def)

lemma ownedKeys_skipped: "d \<in> ownedKeys inp \<Longrightarrow> d \<in> set (skipped inp)"
  by (auto simp: ownedKeys_def skipped_def mergeKeysets_def)

lemma mandatory_owned: "l \<in> set (mandatoryDirectives inp) \<Longrightarrow> directive l \<in> ownedKeys inp"
  using mandatory_directive[of l inp] by (auto simp: ownedKeys_def mandatoryKeyset_def)

lemma overrideLines_directive:
  assumes "l \<in> set (overrideLines inp)" and "\<forall>(k, v)\<in>set (Overrides inp). TrimSpace k \<noteq> []"
  shows "directive l \<notin> ownedKeys inp"
proof -
  obtain k where k: "k \<in> set (map fst (keptOverrides inp))" "l = overrideLine (keptOverrides inp) k"
    using assms(1) by (auto simp: overrideLines_def)
  obtain v where v: "(k, v) \<in> set (keptOverrides inp)" "overrideLine (keptOverrides inp) k = k @ '' '' @ v"
    using overrideLine_kept[OF k(1)] by blast
  have "first_token k \<noteq> []" using v(1) assms(2) by (auto simp: keptOverrides_plain TrimSpace_empty)
  then have "directive l = directive k" using directive_override[of k v] k(2) v(2) by simp
  with v(1) show ?thesis by (simp add: keptOverrides_plain ownedKeys_def)
qed

lemma owned_lines:
  assumes "\<forall>(k, v)\<in>set (Overrides inp). TrimSpace k \<noteq> []"
  shows "filter (\<lambda>l. directive l \<in> ownedKeys inp) (Split (Render inp) newline) = mandatoryDirectives inp"
proof -
  let ?P = "\<lambda>l. directive l \<in> ownedKeys inp"
  have "filter ?P (mandatoryDirectives inp) = mandatoryDirectives inp"
    using mandatory_owned by (simp add: filter_id_conv)
  moreover have "filter (\<lambda>l. ?P l \<and> directive l \<notin> set (skipped inp)) (Split (Configuration inp) newline) = []"
    using ownedKeys_skipped by (auto simp: filter_empty_conv)
  moreover have "filter ?P (overrideLines inp) = []"
    using overrideLines_directive[OF _ assms] by (auto simp: filter_empty_conv)
  moreover have "directive l \<in> ownedKeys inp \<Longrightarrow> directive l \<noteq> []" for l using ownedKeys_nonempty by blast
  ultimately show ?thesis using filter_kept[of ?P inp] by simp
qed

text \<open>
  How the server finds the directive of a line, without the functions of the renderer: blanks are
  skipped, and the word up to the next blank names a directive when it spells the name letter by
  letter, in either case. A word in quotation marks is not read here.
\<close>

definition same_letter :: "char \<Rightarrow> char \<Rightarrow> bool" where
  "same_letter c k \<longleftrightarrow>
     c = k \<or> (65 \<le> (of_char c :: nat) \<and> (of_char c :: nat) \<le> 90 \<and> (of_char c :: nat) + 32 = of_char k)"

fun spells :: "string \<Rightarrow> string \<Rightarrow> bool" where
  "spells [] l = (l = [] \<or> is_space (hd l))"
| "spells (k # ks) [] = False"
| "spells (k # ks) (c # cs) = (same_letter c k \<and> spells ks cs)"

fun names_directive :: "string \<Rightarrow> string \<Rightarrow> bool" where
  "names_directive n [] = False"
| "names_directive n (c # cs) = (if is_space c then names_directive n cs else spells n (c # cs))"

definition ownedNames :: "string list" where
  "ownedNames =
     [''bind'', ''daemonize'', ''dir'', ''masterauth'', ''min-replicas-max-lag'', ''min-replicas-to-write'', ''port'',
      ''protected-mode'', ''replica-announce-ip'', ''replica-announce-port'', ''replicaof'', ''requirepass'',
      ''sentinel'', ''slaveof'', ''unixsocket'']"

definition lower_word :: "string \<Rightarrow> bool" where
  "lower_word n \<longleftrightarrow> n \<noteq> [] \<and> hd n \<noteq> CHR ''#'' \<and> list_all (\<lambda>c. \<not> is_space c \<and> lower_byte c = c) n"

lemma same_letter_iff: "lower_byte k = k \<Longrightarrow> same_letter c k \<longleftrightarrow> lower_byte c = k"
proof -
  assume k: "lower_byte k = k"
  have "\<not> (65 \<le> (of_char k :: nat) \<and> (of_char k :: nat) \<le> 90)"
  proof
    assume r: "65 \<le> (of_char k :: nat) \<and> (of_char k :: nat) \<le> 90"
    then have "(of_char (lower_byte k) :: nat) = of_char k + 32" by (simp add: lower_byte_def Let_def of_char_of)
    with k show False by simp
  qed
  moreover have "char_of (of_char c + 32 :: nat) = k \<longleftrightarrow> of_char c + 32 = (of_char k :: nat)"
    if "(of_char c :: nat) \<le> 90" using that by (auto simp: of_char_of)
  ultimately show ?thesis by (auto simp: same_letter_def lower_byte_def Let_def)
qed

lemma spells_iff:
  "list_all (\<lambda>c. \<not> is_space c \<and> lower_byte c = c) n \<Longrightarrow>
     spells n l \<longleftrightarrow> map lower_byte (takeWhile (\<lambda>c. \<not> is_space c) l) = n"
proof (induction n l rule: spells.induct)
  case (1 l)
  then show ?case by (cases l) auto
next
  case (3 k ks c cs)
  then have "same_letter c k \<longleftrightarrow> lower_byte c = k" "\<not> is_space k" by (simp_all add: same_letter_iff)
  then show ?case using 3 by (cases "is_space c") (auto dest: arg_cong[where f = is_space])
qed simp

lemma names_iff: "lower_word n \<Longrightarrow> names_directive n l \<longleftrightarrow> directive l = n"
proof -
  assume n: "lower_word n"
  then have "list_all (\<lambda>c. \<not> is_space c \<and> lower_byte c = c) n" by (simp add: lower_word_def)
  note spell = spells_iff[OF this]
  have "names_directive n l \<longleftrightarrow> ToLower (first_token l) = n"
  proof (induction l)
    case Nil
    then show ?case using n by (auto simp: first_token_def ToLower_def lower_word_def)
  next
    case (Cons c l)
    then show ?case by (simp add: first_token_def ToLower_def spell)
  qed
  moreover have "ToLower f = n \<Longrightarrow> f \<noteq> [] \<and> hd f \<noteq> CHR ''#''" for f
    using n by (cases f) (auto simp: ToLower_def lower_word_def lower_byte_def)
  ultimately show ?thesis using n by (auto simp: directive_token lower_word_def)
qed

lemma ownedNames_lower: "list_all lower_word ownedNames"
  by (simp add: ownedNames_def lower_word_def is_space_def lower_byte_def)

lemma directive_name: "lower_word n \<Longrightarrow> directive n = n" "lower_word n \<Longrightarrow> directive (n @ '' '' @ v) = n"
proof -
  assume n: "lower_word n"
  then have t: "takeWhile (\<lambda>c. \<not> is_space c) n = n" "map lower_byte n = n"
    "takeWhile (\<lambda>c. \<not> is_space c) (n @ '' '' @ v) = n"
    by (auto simp: lower_word_def list_all_iff takeWhile_eq_all_conv takeWhile_append map_idI)
  have "spells n l \<longleftrightarrow> map lower_byte (takeWhile (\<lambda>c. \<not> is_space c) l) = n" for l
    using n by (intro spells_iff) (simp add: lower_word_def)
  then have "spells n n" "spells n (n @ '' '' @ v)" by (simp_all only: t)
  then have "names_directive n n" "names_directive n (n @ '' '' @ v)"
    using n by (cases n; simp add: lower_word_def)+
  then show "directive n = n" "directive (n @ '' '' @ v) = n" using names_iff[OF n] by blast+
qed

lemma ownedKeys_names: "ownedKeys inp = set ownedNames"
proof -
  have l: "lower_word n" if "n \<in> set ownedNames" for n using that ownedNames_lower by (simp add: list_all_iff)
  have "directive ''sentinel announce-hostnames'' = ''sentinel''" "directive ''sentinel monitor'' = ''sentinel''"
    "directive ''sentinel resolve-hostnames'' = ''sentinel''"
    using directive_name(2)[OF l, of "''sentinel''" "''announce-hostnames''"]
      directive_name(2)[OF l, of "''sentinel''" "''monitor''"] directive_name(2)[OF l, of "''sentinel''" "''resolve-hostnames''"]
    by (simp_all add: ownedNames_def)
  moreover have "directive n = n" if "n \<in> set ownedNames" for n by (rule directive_name(1)[OF l[OF that]])
  ultimately have b: "set bannedDirectiveKeys = set ownedNames - {''dir''}"
    by (simp add: bannedDirectiveKeys_def OperatorOwnedDirectives_def ownedNames_def) auto
  have p: "fst ` set (mandatoryPairs inp) \<subseteq> set ownedNames" "''dir'' \<in> fst ` set (mandatoryPairs inp)"
    by (auto simp: mandatoryPairs_def ownedNames_def split: option.splits)
  have "directive ` set (mandatoryDirectives inp) = fst ` set (mandatoryPairs inp)"
    unfolding mandatory_pairs set_map image_image
    by (rule image_cong[OF refl]) (use p(1) directive_name(2)[OF l] in \<open>auto simp: image_subset_iff\<close>)
  moreover have "set (mandatoryKeyset (mandatoryDirectives inp)) = directive ` set (mandatoryDirectives inp)"
    using mandatory_directive[of _ inp] by (fastforce simp: mandatoryKeyset_def)
  ultimately have "set (mandatoryKeyset (mandatoryDirectives inp)) = fst ` set (mandatoryPairs inp)" by simp
  with b p show ?thesis by (auto simp: ownedKeys_def ownedNames_def)
qed

text \<open>
  C10. Operator-owned configuration is the operator's. Whatever the user writes into the raw snippet and
  the override map, as long as no override key is blank, the lines of the rendered file whose first
  word, unquoted and in any case, spells a directive the operator owns or sets are exactly the
  mandatory lines of the renderer, each once and in its order. (A first word in quotation marks, and a
  blank key, are not caught; \<^verbatim>\<open>Webhook_Validate\<close> shows what comes of it.)
\<close>

theorem owned_lines_exact:
  assumes "\<forall>(k, v)\<in>set (Overrides inp). TrimSpace k \<noteq> []"
  shows "filter (\<lambda>l. list_ex (\<lambda>n. names_directive n l) ownedNames) (Split (Render inp) newline) =
    mandatoryDirectives inp"
proof -
  have "list_ex (\<lambda>n. names_directive n l) ownedNames \<longleftrightarrow> directive l \<in> ownedKeys inp" for l
    using ownedNames_lower names_iff by (auto simp: ownedKeys_names list_ex_iff list_all_iff)
  then show ?thesis using owned_lines[OF assms] by simp
qed

definition example_config :: RenderInputs where
  "example_config = \<lparr>Persistent = True, Configuration = ''save 60 1'' @ [newline] @ ''  RequirePass x'', Overrides = [('' Port'', ''1''), (''SAVE'', ''900 1'')],
     RMinReplicasToWrite = Some 1, RMinReplicasMaxLag = None\<rparr>"

lemma example_mandatory:
  "mandatoryDirectives example_config = [''dir /data'', ''port 6379'', ''protected-mode no'', ''replica-announce-ip _POD_IP_'',
     ''replica-announce-port 6379'', ''min-replicas-to-write 1'']"
  by (simp add: mandatoryDirectives_def example_config_def ValkeyPort_def PodIPPlaceholder_def itoa_def digits_of_nat.simps digit_char_def char_of_def bit_iff_odd)

theorem owned_lines_exact_witness:
  "filter (\<lambda>l. list_ex (\<lambda>n. names_directive n l) ownedNames) (Split (Render example_config) newline) =
   [''dir /data'', ''port 6379'', ''protected-mode no'', ''replica-announce-ip _POD_IP_'', ''replica-announce-port 6379'',
    ''min-replicas-to-write 1'']"
proof -
  have h: "\<forall>(k, v)\<in>set (Overrides example_config). TrimSpace k \<noteq> []"
    by (simp add: example_config_def TrimSpace_def is_space_def)
  with owned_lines_exact[OF h] show ?thesis by (simp add: example_mandatory)
qed

text \<open>
  The layers of the rendered file. For every directive the file has the operator's lines for it,
  then the lines of the raw snippet in their order unless the directive is owned, mandatory or a
  surviving override key, then the lines of the override map, sorted by key; nothing else, and nothing
  twice.
\<close>

theorem render_layers:
  assumes "d \<noteq> []"
  shows "filter (\<lambda>l. directive l = d) (Split (Render inp) newline) =
    filter (\<lambda>l. directive l = d) (mandatoryDirectives inp)
    @ (if d \<in> ownedKeys inp \<or> d \<in> (\<lambda>(k, v). ToLower (TrimSpace k)) ` set (keptOverrides inp) then []
       else filter (\<lambda>l. directive l = d) (Split (Configuration inp) newline))
    @ filter (\<lambda>l. directive l = d) (map (overrideLine (keptOverrides inp)) (sort (map fst (keptOverrides inp))))"
proof -
  have s: "d \<in> set (skipped inp) \<longleftrightarrow> d \<in> ownedKeys inp \<or> d \<in> (\<lambda>(k, v). ToLower (TrimSpace k)) ` set (keptOverrides inp)"
    by (auto simp: skipped_def mergeKeysets_def ownedKeys_def)
  have "filter (\<lambda>l. directive l = d \<and> directive l \<notin> set (skipped inp)) (Split (Configuration inp) newline) =
    (if d \<in> set (skipped inp) then [] else filter (\<lambda>l. directive l = d) (Split (Configuration inp) newline))"
    by (auto intro: filter_cong simp: filter_empty_conv)
  then show ?thesis using filter_kept[of "\<lambda>l. directive l = d" inp] assms
    unfolding s[symmetric] overrideLines_def by simp
qed

theorem render_layers_witness:
  "filter (\<lambda>l. directive l = ''save'') (Split (Render example_config) newline) = [''SAVE 900 1'']"
proof -
  have k: "keptOverrides example_config = [(''SAVE'', ''900 1'')]"
    unfolding keptOverrides_def example_mandatory unfolding example_config_def by code_simp
  have m: "filter (\<lambda>l. directive l = ''save'') (mandatoryDirectives example_config) = []"
    unfolding example_mandatory by code_simp
  have t: "ToLower (TrimSpace ''SAVE'') = ''save''" "directive (''SAVE 900 1'') = ''save''" by code_simp+
  have "filter (\<lambda>l. directive l = ''save'') (map (overrideLine [(''SAVE'', ''900 1'')]) (sort (map fst [(''SAVE'', ''900 1'')]))) = [''SAVE 900 1'']"
    using t(2) by (simp add: overrideLine_def)
  then show ?thesis using render_layers[of "''save''" example_config] by (simp only: k m t(1)) (simp add: t(1))
qed

text \<open>
  Rendering is deterministic. The bytes do not depend on the order in which the runtime walks the
  override map, so the hash that triggers rollouts is stable.
\<close>

theorem render_map_order:
  assumes "mset ov = mset ov'" and "distinct (map fst ov)"
  shows "Render (inp\<lparr>Overrides := ov\<rparr>) = Render (inp\<lparr>Overrides := ov'\<rparr>)"
proof -
  let ?a = "inp\<lparr>Overrides := ov\<rparr>" and ?b = "inp\<lparr>Overrides := ov'\<rparr>"
  have m: "mandatoryDirectives ?a = mandatoryDirectives ?b" by (simp add: mandatoryDirectives_def)
  have ms1: "mset (keptOverrides ?a) = mset (keptOverrides ?b)"
    by (simp add: keptOverrides_def filterOverrides_def m assms(1))
  note ms = ms1 mset_eq_setD[OF ms1]
  have "mset (map fst ov) = mset (map fst ov')" using assms(1) by simp
  then have d': "distinct (map fst ov')" using assms(2) by (metis mset_eq_imp_distinct_iff)
  have "distinct (map fst (keptOverrides ?a))" "distinct (map fst (keptOverrides ?b))"
    using assms(2) d' by (simp_all add: keptOverrides_def filterOverrides_def distinct_map_filter)
  then have "map_of (keptOverrides ?a) = map_of (keptOverrides ?b)" using ms(2) by (simp add: map_of_inject_set)
  moreover have "sort (map fst (keptOverrides ?a)) = sort (map fst (keptOverrides ?b))"
  proof (rule properties_for_sort)
    show "mset (sort (map fst (keptOverrides ?b))) = mset (map fst (keptOverrides ?a))" using ms(1) by (simp only: mset_sort mset_map)
  qed simp
  ultimately have "overrideLines ?a = overrideLines ?b" by (simp add: overrideLines_def overrideLine_def)
  moreover have "keptLines ?a = keptLines ?b"
  proof -
    have "set (skipped ?a) = set (skipped ?b)" by (simp add: skipped_def mergeKeysets_def m ms(2))
    then show ?thesis by (simp add: keptLines_def)
  qed
  moreover have "keptOverrides ?a = [] \<longleftrightarrow> keptOverrides ?b = []" using ms(2) by auto
  ultimately show ?thesis by (simp add: Render_lines renderLines_def m)
qed

theorem render_map_order_witness:
  "Render (example_config\<lparr>Overrides := [(''a'', ''1''), (''b'', ''2'')]\<rparr>) = Render (example_config\<lparr>Overrides := [(''b'', ''2''), (''a'', ''1'')]\<rparr>)"
  by (rule render_map_order) simp_all

end
