(* ===== verification/Spec_Defaults.thy ===== *)
theory Spec_Defaults
  imports API_Types Version_Compat "HOL-Library.AList"
begin

text \<open>
  \<^verbatim>\<open>internal/defaults/defaults.go\<close>, the default stamps that the mutating webhook and the reconciler
  share, and \<^verbatim>\<open>internal/webhook/v1beta1/valkey_defaulter.go\<close>. The custom resource is here the part of the spec
  that admission reads or fills: the pod specs of the other components extended by the fields of
  admission. A nil map or pointer is None; a quantity is its value in thousandths; an affinity keeps
  its anti-affinity and carries the rest along; of a probe's handlers, HTTP and gRPC are only
  present or absent. Replica arithmetic wraps at 32 bits and divides towards zero, as Go's does.
\<close>

section \<open>The resource as admission sees it\<close>

type_synonym resourceList = "(string \<times> int) list"

record ResourceRequirements =
  Requests :: "resourceList option"
  Limits :: "resourceList option"

record Probe =
  ProbeExec :: "string list option"
  ProbeTCPSocket :: "int option"
  ProbeHTTPGet :: bool
  ProbeGRPC :: bool
  InitialDelaySeconds :: int
  PeriodSeconds :: int
  TimeoutSeconds :: int
  FailureThreshold :: int
  SuccessThreshold :: int

datatype IntOrString = IntVal int | StrVal string

record PDBSpec =
  MinAvailable :: "IntOrString option"
  PDBMaxUnavailable :: "IntOrString option"

datatype SelectorOp = SelectorOpIn | SelectorOpNotIn | SelectorOpExists | SelectorOpDoesNotExist

record LabelRequirement =
  ReqKey :: string
  ReqOperator :: SelectorOp
  ReqValues :: "string list"

record LabelSelector =
  MatchLabels :: "(string \<times> string) list"
  MatchExpressions :: "LabelRequirement list"

record PodAffinityTerm =
  TopologyKey :: string
  TermSelector :: "LabelSelector option"

record PodAntiAffinity =
  RequiredTerms :: "PodAffinityTerm list"
  PreferredTerms :: "(int \<times> PodAffinityTerm) list"

record Affinity =
  AntiAffinity :: "PodAntiAffinity option"
  OtherAffinity :: string

record ImageSpec =
  ImageValkey :: ContainerImage
  ImageSentinel :: ContainerImage
  ImageExporter :: ContainerImage

record ValkeyPod = ValkeyPodSpec +
  VResources :: ResourceRequirements
  VLiveness :: "Probe option"
  VReadiness :: "Probe option"
  VAffinity :: "Affinity option"
  VPodAnnotations :: "(string \<times> string) list option"
  VPodLabels :: "(string \<times> string) list option"
  VConfiguration :: string
  VOverrides :: "(string \<times> string) list"
  VPDB :: "PDBSpec option"
  MinReplicasToWrite :: "int option"
  MinReplicasMaxLag :: "int option"

record SentinelPod = SentinelPodSpec +
  SPDB :: "PDBSpec option"
  SResources :: ResourceRequirements
  SLiveness :: "Probe option"
  SReadiness :: "Probe option"
  SAffinity :: "Affinity option"
  SPodAnnotations :: "(string \<times> string) list option"
  SPodLabels :: "(string \<times> string) list option"

record PodMonitorSpec =
  MonitorEnabled :: "bool option"
  ScrapeInterval :: string

record MetricsSpec =
  MetricsEnabled :: "bool option"
  PodMonitor :: PodMonitorSpec

record CRSpec =
  CMode :: Mode
  CImage :: ImageSpec
  CValkey :: ValkeyPod
  CSentinel :: "SentinelPod option"
  CMetrics :: MetricsSpec
  CRollout :: RolloutSpec
  FeatureGates :: "(string \<times> bool) list"

record ValkeyCR =
  CRName :: string
  CRNamespace :: string
  CRLabels :: "(string \<times> string) list option"
  CRAnnotations :: "(string \<times> string) list option"
  CSpec :: CRSpec

section \<open>The stamps\<close>

definition CRLabelKey :: string where
  "CRLabelKey = ''velkir.ioxie.dev/cr''"

definition ComponentLabelKey :: string where
  "ComponentLabelKey = ''velkir.ioxie.dev/component''"

definition ComponentValkey :: string where
  "ComponentValkey = ''valkey''"

definition ComponentSentinel :: string where
  "ComponentSentinel = ''sentinel''"

definition AntiAffinityTopologyKey :: string where
  "AntiAffinityTopologyKey = ''kubernetes.io/hostname''"

definition zeroImage :: ContainerImage where
  "zeroImage = \<lparr>Repository = [], Tag = []\<rparr>"

definition DefaultValkeyImage :: ContainerImage where
  "DefaultValkeyImage = \<lparr>Repository = ''valkey/valkey'', Tag = ''8.1.6-alpine''\<rparr>"

definition DefaultExporterImage :: ContainerImage where
  "DefaultExporterImage = \<lparr>Repository = ''oliver006/redis_exporter'', Tag = ''v1.62.0''\<rparr>"

definition onSpec :: "(CRSpec \<Rightarrow> CRSpec) \<Rightarrow> ValkeyCR \<Rightarrow> ValkeyCR" where
  "onSpec f v = v\<lparr>CSpec := f (CSpec v)\<rparr>"

definition onValkey :: "(ValkeyPod \<Rightarrow> ValkeyPod) \<Rightarrow> ValkeyCR \<Rightarrow> ValkeyCR" where
  "onValkey f = onSpec (\<lambda>s. s\<lparr>CValkey := f (CValkey s)\<rparr>)"

definition onSentinel :: "(SentinelPod \<Rightarrow> SentinelPod) \<Rightarrow> ValkeyCR \<Rightarrow> ValkeyCR" where
  "onSentinel f = onSpec (\<lambda>s. s\<lparr>CSentinel := map_option f (CSentinel s)\<rparr>)"

definition stampImageDefaults :: "ValkeyCR \<Rightarrow> ValkeyCR" where
  "stampImageDefaults = onSpec (\<lambda>s. s\<lparr>CImage :=
     \<lparr>ImageValkey = (if ImageValkey (CImage s) = zeroImage then DefaultValkeyImage else ImageValkey (CImage s)),
      ImageSentinel = (if ImageSentinel (CImage s) = zeroImage then DefaultValkeyImage else ImageSentinel (CImage s)),
      ImageExporter = (if ImageExporter (CImage s) = zeroImage then DefaultExporterImage else ImageExporter (CImage s))\<rparr>\<rparr>)"

definition stampReplicasForMode :: "ValkeyCR \<Rightarrow> ValkeyCR" where
  "stampReplicasForMode v = onValkey (\<lambda>p. p\<lparr>Replicas :=
     (if Replicas p \<noteq> 0 then Replicas p
      else case CMode (CSpec v) of ModeReplication \<Rightarrow> 2 | ModeSentinel \<Rightarrow> 3 | ModeStandalone \<Rightarrow> 1)\<rparr>) v"

definition filled :: "'a option \<Rightarrow> 'a \<Rightarrow> 'a option" where
  "filled x d = (case x of None \<Rightarrow> Some d | Some y \<Rightarrow> Some y)"

definition stampMinReplicas :: "ValkeyCR \<Rightarrow> ValkeyCR" where
  "stampMinReplicas v =
     (if CMode (CSpec v) = ModeStandalone then v
      else onValkey (\<lambda>p. p\<lparr>MinReplicasToWrite := filled (MinReplicasToWrite p) 1,
                           MinReplicasMaxLag := filled (MinReplicasMaxLag p) 10\<rparr>) v)"

definition valkeyCLIPing :: "string list" where
  "valkeyCLIPing = [''valkey-cli'', ''-h'', ''127.0.0.1'', ''-p'', ''6379'', ''ping'']"

definition execProbe :: "int \<Rightarrow> int \<Rightarrow> Probe" where
  "execProbe delay failures =
     \<lparr>ProbeExec = Some valkeyCLIPing, ProbeTCPSocket = None, ProbeHTTPGet = False, ProbeGRPC = False,
      InitialDelaySeconds = delay, PeriodSeconds = 10, TimeoutSeconds = 3, FailureThreshold = failures, SuccessThreshold = 1\<rparr>"

definition stampValkeyProbes :: "ValkeyCR \<Rightarrow> ValkeyCR" where
  "stampValkeyProbes = onValkey (\<lambda>p. p\<lparr>VLiveness := filled (VLiveness p) (execProbe 30 6), VReadiness := filled (VReadiness p) (execProbe 5 3)\<rparr>)"

definition stampValkeyResources :: "ValkeyCR \<Rightarrow> ValkeyCR" where
  "stampValkeyResources = onValkey (\<lambda>p. p\<lparr>VResources :=
     \<lparr>Requests = filled (Requests (VResources p)) [(''cpu'', 100), (''memory'', 268435456000)],
      Limits = filled (Limits (VResources p)) [(''cpu'', 500), (''memory'', 536870912000)]\<rparr>\<rparr>)"

definition stampReadinessGate :: "ValkeyCR \<Rightarrow> ValkeyCR" where
  "stampReadinessGate v = onValkey (\<lambda>p. p\<lparr>ReadinessGate :=
     \<lparr>Enabled = filled (Enabled (ReadinessGate p)) (CMode (CSpec v) \<noteq> ModeStandalone),
      GateMaxLagBytes = filled (GateMaxLagBytes (ReadinessGate p)) 1048576\<rparr>\<rparr>) v"

definition stampMetricsDefaults :: "ValkeyCR \<Rightarrow> ValkeyCR" where
  "stampMetricsDefaults = onSpec (\<lambda>s. s\<lparr>CMetrics :=
     \<lparr>MetricsEnabled = filled (MetricsEnabled (CMetrics s)) False,
      PodMonitor = \<lparr>MonitorEnabled = filled (MonitorEnabled (PodMonitor (CMetrics s))) False,
        ScrapeInterval = (if ScrapeInterval (PodMonitor (CMetrics s)) = [] then ''30s'' else ScrapeInterval (PodMonitor (CMetrics s)))\<rparr>\<rparr>\<rparr>)"

definition orDefault :: "int \<Rightarrow> int \<Rightarrow> int" where
  "orDefault x d = (if x = 0 then d else x)"

definition goDiv :: "int \<Rightarrow> int \<Rightarrow> int" where
  "goDiv a b = (if a < 0 then - ((- a) div b) else a div b)"

definition sentinelBaseline :: resourceList where
  "sentinelBaseline = [(''cpu'', 100), (''memory'', 134217728000)]"

definition guaranteed :: "ResourceRequirements \<Rightarrow> ResourceRequirements" where
  "guaranteed r =
     (case (Requests r, Limits r) of
        (None, None) \<Rightarrow> \<lparr>Requests = Some sentinelBaseline, Limits = Some sentinelBaseline\<rparr>
      | (Some q, None) \<Rightarrow> \<lparr>Requests = Some q, Limits = Some q\<rparr>
      | (None, Some l) \<Rightarrow> \<lparr>Requests = Some l, Limits = Some l\<rparr>
      | (Some q, Some l) \<Rightarrow> r)"

definition majority :: "int \<Rightarrow> int" where
  "majority replicas = goDiv (wrap32 (replicas + 2)) 2"

definition stampSentinelDefaults :: "ValkeyCR \<Rightarrow> ValkeyCR" where
  "stampSentinelDefaults = onSentinel (\<lambda>s.
     let replicas = orDefault (SentinelReplicas s) 3 in
     s\<lparr>SentinelReplicas := replicas,
       DownAfterMilliseconds := orDefault (DownAfterMilliseconds s) 3000,
       FailoverTimeout := orDefault (FailoverTimeout s) 180000,
       ParallelSyncs := orDefault (ParallelSyncs s) 1,
       SpecQuorum := orDefault (SpecQuorum s) (majority replicas),
       SResources := guaranteed (SResources s)\<rparr>)"

definition tcpProbe :: "int \<Rightarrow> int \<Rightarrow> int \<Rightarrow> Probe" where
  "tcpProbe delay period failures =
     \<lparr>ProbeExec = None, ProbeTCPSocket = Some 26379, ProbeHTTPGet = False, ProbeGRPC = False,
      InitialDelaySeconds = delay, PeriodSeconds = period, TimeoutSeconds = 3, FailureThreshold = failures, SuccessThreshold = 1\<rparr>"

definition stampSentinelProbes :: "ValkeyCR \<Rightarrow> ValkeyCR" where
  "stampSentinelProbes = onSentinel (\<lambda>s. s\<lparr>SLiveness := filled (SLiveness s) (tcpProbe 30 10 6), SReadiness := filled (SReadiness s) (tcpProbe 5 5 3)\<rparr>)"

definition pdbFor :: "int \<Rightarrow> PDBSpec option \<Rightarrow> PDBSpec option" where
  "pdbFor replicas pdb =
     (if 2 \<le> replicas \<and> pdb = None
      then Some \<lparr>MinAvailable = Some (IntVal (max 1 (wrap32 (replicas - 1)))), PDBMaxUnavailable = None\<rparr> else pdb)"

definition stampPDB :: "ValkeyCR \<Rightarrow> ValkeyCR" where
  "stampPDB v = onSentinel (\<lambda>s. s\<lparr>SPDB := pdbFor (SentinelReplicas s) (SPDB s)\<rparr>)
     (onValkey (\<lambda>p. p\<lparr>VPDB := pdbFor (Replicas p) (VPDB p)\<rparr>) v)"

definition softTerm :: "string \<Rightarrow> string \<Rightarrow> PodAffinityTerm" where
  "softTerm crName component =
     \<lparr>TopologyKey = AntiAffinityTopologyKey,
      TermSelector = Some \<lparr>MatchLabels = [(CRLabelKey, crName), (ComponentLabelKey, component)], MatchExpressions = []\<rparr>\<rparr>"

definition ensureSoftPodAntiAffinity :: "string \<Rightarrow> string \<Rightarrow> Affinity option \<Rightarrow> Affinity option" where
  "ensureSoftPodAntiAffinity component crName aff =
     (let a = (case aff of None \<Rightarrow> \<lparr>AntiAffinity = None, OtherAffinity = []\<rparr> | Some a \<Rightarrow> a) in
      if AntiAffinity a \<noteq> None then Some a
      else Some (a\<lparr>AntiAffinity := Some \<lparr>RequiredTerms = [], PreferredTerms = [(100, softTerm crName component)]\<rparr>\<rparr>))"

definition stampAntiAffinity :: "ValkeyCR \<Rightarrow> ValkeyCR" where
  "stampAntiAffinity v =
     onSentinel (\<lambda>s. s\<lparr>SAffinity := (if 2 \<le> SentinelReplicas s then ensureSoftPodAntiAffinity ComponentSentinel (CRName v) (SAffinity s) else SAffinity s)\<rparr>)
     (onValkey (\<lambda>p. p\<lparr>VAffinity := (if 2 \<le> Replicas p then ensureSoftPodAntiAffinity ComponentValkey (CRName v) (VAffinity p) else VAffinity p)\<rparr>) v)"

definition stampRolloutDefaults :: "ValkeyCR \<Rightarrow> ValkeyCR" where
  "stampRolloutDefaults = onSpec (\<lambda>s. s\<lparr>CRollout := (CRollout s)
     \<lparr>MaxUnavailable := orDefault (MaxUnavailable (CRollout s)) 1,
      ReplicaReadyTimeoutSeconds := orDefault (ReplicaReadyTimeoutSeconds (CRollout s)) 300,
      MaxLagBytes := orDefault (MaxLagBytes (CRollout s)) 10000\<rparr>\<rparr>)"

definition ApplySpecDefaults :: "ValkeyCR \<Rightarrow> ValkeyCR" where
  "ApplySpecDefaults v =
     stampAntiAffinity (stampPDB (stampRolloutDefaults (stampSentinelProbes (stampSentinelDefaults
       (stampMetricsDefaults (stampMinReplicas (stampReadinessGate (stampValkeyResources (stampValkeyProbes
         (stampReplicasForMode (stampImageDefaults v)))))))))))"

section \<open>The admission defaulter\<close>

definition ManagedByLabel :: string where
  "ManagedByLabel = ''app.kubernetes.io/managed-by''"

definition ManagedByValue :: string where
  "ManagedByValue = ''velkir''"

definition stampManagedByLabel :: "ValkeyCR \<Rightarrow> ValkeyCR" where
  "stampManagedByLabel v =
     (let ls = (case CRLabels v of None \<Rightarrow> [] | Some ls \<Rightarrow> ls) in
      v\<lparr>CRLabels := Some (if map_of ls ManagedByLabel = None then AList.update ManagedByLabel ManagedByValue ls else ls)\<rparr>)"

definition AllowAggressiveTimeoutsAnnotation :: string where
  "AllowAggressiveTimeoutsAnnotation = ''velkir.ioxie.dev/allow-aggressive-timeouts''"

definition triggerTrueValue :: string where
  "triggerTrueValue = ''true''"

definition operatorTriggerAnnotations :: "string list" where
  "operatorTriggerAnnotations =
     [''velkir.ioxie.dev/accept-pvc-loss'', AllowAggressiveTimeoutsAnnotation, ''velkir.ioxie.dev/force-rotate'', ''velkir.ioxie.dev/paused'']"

definition requestorAnnotationSuffix :: string where
  "requestorAnnotationSuffix = ''-requestor''"

definition annotation :: "(string \<times> string) list option \<Rightarrow> string \<Rightarrow> string option" where
  "annotation ann k = (case ann of None \<Rightarrow> None | Some xs \<Rightarrow> map_of xs k)"

definition stampRequestor :: "string \<Rightarrow> (string \<times> string) list \<Rightarrow> string \<Rightarrow> (string \<times> string) list" where
  "stampRequestor username ann trigger =
     (let siblingKey = trigger @ requestorAnnotationSuffix in
      if map_of ann trigger = Some triggerTrueValue \<and> username \<noteq> [] then AList.update siblingKey username ann
      else AList.delete siblingKey ann)"

definition stampOperatorTriggerRequestor :: "string option \<Rightarrow> ValkeyCR \<Rightarrow> ValkeyCR" where
  "stampOperatorTriggerRequestor req v =
     (case req of None \<Rightarrow> v
      | Some username \<Rightarrow>
          let ann = foldl (stampRequestor username) (case CRAnnotations v of None \<Rightarrow> [] | Some a \<Rightarrow> a) operatorTriggerAnnotations
          in v\<lparr>CRAnnotations := (if ann = [] then None else Some ann)\<rparr>)"

definition Default :: "string option \<Rightarrow> ValkeyCR \<Rightarrow> ValkeyCR" where
  "Default req v = stampOperatorTriggerRequestor req (ApplySpecDefaults (stampManagedByLabel v))"

section \<open>The filled spec\<close>

definition imageFilled :: "ImageSpec \<Rightarrow> ImageSpec" where
  "imageFilled i =
     \<lparr>ImageValkey = (if ImageValkey i = zeroImage then DefaultValkeyImage else ImageValkey i),
      ImageSentinel = (if ImageSentinel i = zeroImage then DefaultValkeyImage else ImageSentinel i),
      ImageExporter = (if ImageExporter i = zeroImage then DefaultExporterImage else ImageExporter i)\<rparr>"

definition replicasFilled :: "Mode \<Rightarrow> int \<Rightarrow> int" where
  "replicasFilled m r = orDefault r (case m of ModeReplication \<Rightarrow> 2 | ModeSentinel \<Rightarrow> 3 | ModeStandalone \<Rightarrow> 1)"

definition affinityFor :: "int \<Rightarrow> string \<Rightarrow> string \<Rightarrow> Affinity option \<Rightarrow> Affinity option" where
  "affinityFor replicas component crName aff = (if 2 \<le> replicas then ensureSoftPodAntiAffinity component crName aff else aff)"

definition valkeyFilled :: "Mode \<Rightarrow> string \<Rightarrow> ValkeyPod \<Rightarrow> ValkeyPod" where
  "valkeyFilled m crName p =
     p\<lparr>Replicas := replicasFilled m (Replicas p),
       ReadinessGate := \<lparr>Enabled = filled (Enabled (ReadinessGate p)) (m \<noteq> ModeStandalone), GateMaxLagBytes = filled (GateMaxLagBytes (ReadinessGate p)) 1048576\<rparr>,
       VResources := \<lparr>Requests = filled (Requests (VResources p)) [(''cpu'', 100), (''memory'', 268435456000)],
         Limits = filled (Limits (VResources p)) [(''cpu'', 500), (''memory'', 536870912000)]\<rparr>,
       VLiveness := filled (VLiveness p) (execProbe 30 6), VReadiness := filled (VReadiness p) (execProbe 5 3),
       VAffinity := affinityFor (replicasFilled m (Replicas p)) ComponentValkey crName (VAffinity p),
       VPDB := pdbFor (replicasFilled m (Replicas p)) (VPDB p),
       MinReplicasToWrite := (if m = ModeStandalone then MinReplicasToWrite p else filled (MinReplicasToWrite p) 1),
       MinReplicasMaxLag := (if m = ModeStandalone then MinReplicasMaxLag p else filled (MinReplicasMaxLag p) 10)\<rparr>"

definition sentinelFilled :: "string \<Rightarrow> SentinelPod \<Rightarrow> SentinelPod" where
  "sentinelFilled crName s =
     (let r = orDefault (SentinelReplicas s) 3 in
      s\<lparr>SentinelReplicas := r, SpecQuorum := orDefault (SpecQuorum s) (majority r),
        DownAfterMilliseconds := orDefault (DownAfterMilliseconds s) 3000, FailoverTimeout := orDefault (FailoverTimeout s) 180000,
        ParallelSyncs := orDefault (ParallelSyncs s) 1, SPDB := pdbFor r (SPDB s), SResources := guaranteed (SResources s),
        SLiveness := filled (SLiveness s) (tcpProbe 30 10 6), SReadiness := filled (SReadiness s) (tcpProbe 5 5 3),
        SAffinity := affinityFor r ComponentSentinel crName (SAffinity s)\<rparr>)"

definition metricsFilled :: "MetricsSpec \<Rightarrow> MetricsSpec" where
  "metricsFilled x =
     \<lparr>MetricsEnabled = filled (MetricsEnabled x) False,
      PodMonitor = \<lparr>MonitorEnabled = filled (MonitorEnabled (PodMonitor x)) False,
        ScrapeInterval = (if ScrapeInterval (PodMonitor x) = [] then ''30s'' else ScrapeInterval (PodMonitor x))\<rparr>\<rparr>"

definition rolloutFilled :: "RolloutSpec \<Rightarrow> RolloutSpec" where
  "rolloutFilled x =
     x\<lparr>MaxUnavailable := orDefault (MaxUnavailable x) 1, ReplicaReadyTimeoutSeconds := orDefault (ReplicaReadyTimeoutSeconds x) 300,
       MaxLagBytes := orDefault (MaxLagBytes x) 10000\<rparr>"

definition specFilled :: "string \<Rightarrow> CRSpec \<Rightarrow> CRSpec" where
  "specFilled crName s =
     s\<lparr>CImage := imageFilled (CImage s), CValkey := valkeyFilled (CMode s) crName (CValkey s),
       CSentinel := map_option (sentinelFilled crName) (CSentinel s), CMetrics := metricsFilled (CMetrics s), CRollout := rolloutFilled (CRollout s)\<rparr>"

lemma ApplySpecDefaults_form: "ApplySpecDefaults v = v\<lparr>CSpec := specFilled (CRName v) (CSpec v)\<rparr>"
proof -
  note stamps = ApplySpecDefaults_def stampAntiAffinity_def stampPDB_def stampRolloutDefaults_def stampSentinelProbes_def stampSentinelDefaults_def
    stampMetricsDefaults_def stampMinReplicas_def stampReadinessGate_def stampValkeyResources_def stampValkeyProbes_def
    stampReplicasForMode_def stampImageDefaults_def onSpec_def onValkey_def onSentinel_def
  have r: "(if x \<noteq> 0 then x else d) = orDefault x d" for x d :: int by (simp add: orDefault_def)
  show ?thesis
    by (cases "CSentinel (CSpec v)")
      (simp_all add: stamps r specFilled_def imageFilled_def valkeyFilled_def replicasFilled_def sentinelFilled_def metricsFilled_def
        rolloutFilled_def affinityFor_def Let_def)
qed

section \<open>Filling agrees with itself\<close>

text \<open>
  The order of specs in which a field that is set keeps its value: \<open>fills\<close> for pointers and maps,
  \<open>nz\<close> for numbers whose zero means unset. A spec that an older operator filled in part lies between
  the spec of the user and the fully filled one.
\<close>

definition fills :: "'a option \<Rightarrow> 'a option \<Rightarrow> bool" where
  "fills x y \<longleftrightarrow> x = None \<or> y = x"

definition nz :: "int \<Rightarrow> int \<Rightarrow> bool" where
  "nz x y \<longleftrightarrow> x = 0 \<or> y = x"

definition affinity_le :: "Affinity option \<Rightarrow> Affinity option \<Rightarrow> bool" where
  "affinity_le x y \<longleftrightarrow>
     (case (x, y) of (None, None) \<Rightarrow> True
      | (None, Some b) \<Rightarrow> OtherAffinity b = [] \<and> AntiAffinity b \<noteq> None
      | (Some a, Some b) \<Rightarrow> OtherAffinity a = OtherAffinity b \<and> fills (AntiAffinity a) (AntiAffinity b)
      | (Some a, None) \<Rightarrow> False)"

definition image_le :: "ContainerImage \<Rightarrow> ContainerImage \<Rightarrow> bool" where
  "image_le x y \<longleftrightarrow> x = zeroImage \<or> y = x"

definition resources_le :: "ResourceRequirements \<Rightarrow> ResourceRequirements \<Rightarrow> bool" where
  "resources_le x y \<longleftrightarrow> fills (Requests x) (Requests y) \<and> fills (Limits x) (Limits y)"

definition images_le :: "ImageSpec \<Rightarrow> ImageSpec \<Rightarrow> bool" where
  "images_le x y \<longleftrightarrow> image_le (ImageValkey x) (ImageValkey y) \<and> image_le (ImageSentinel x) (ImageSentinel y) \<and> image_le (ImageExporter x) (ImageExporter y)"

definition valkey_le :: "ValkeyPod \<Rightarrow> ValkeyPod \<Rightarrow> bool" where
  "valkey_le x y \<longleftrightarrow>
     nz (Replicas x) (Replicas y) \<and> fills (Enabled (ReadinessGate x)) (Enabled (ReadinessGate y)) \<and>
     fills (GateMaxLagBytes (ReadinessGate x)) (GateMaxLagBytes (ReadinessGate y)) \<and> resources_le (VResources x) (VResources y) \<and>
     fills (VLiveness x) (VLiveness y) \<and> fills (VReadiness x) (VReadiness y) \<and> affinity_le (VAffinity x) (VAffinity y) \<and>
     VPodAnnotations x = VPodAnnotations y \<and> VPodLabels x = VPodLabels y \<and> VConfiguration x = VConfiguration y \<and> VOverrides x = VOverrides y \<and>
     fills (VPDB x) (VPDB y) \<and> fills (MinReplicasToWrite x) (MinReplicasToWrite y) \<and> fills (MinReplicasMaxLag x) (MinReplicasMaxLag y)"

definition sentinel_le :: "SentinelPod \<Rightarrow> SentinelPod \<Rightarrow> bool" where
  "sentinel_le x y \<longleftrightarrow>
     MasterName x = MasterName y \<and> nz (SentinelReplicas x) (SentinelReplicas y) \<and> nz (SpecQuorum x) (SpecQuorum y) \<and>
     nz (DownAfterMilliseconds x) (DownAfterMilliseconds y) \<and> nz (FailoverTimeout x) (FailoverTimeout y) \<and> nz (ParallelSyncs x) (ParallelSyncs y) \<and>
     fills (SPDB x) (SPDB y) \<and> resources_le (SResources x) (SResources y) \<and> fills (SLiveness x) (SLiveness y) \<and> fills (SReadiness x) (SReadiness y) \<and>
     affinity_le (SAffinity x) (SAffinity y) \<and> SPodAnnotations x = SPodAnnotations y \<and> SPodLabels x = SPodLabels y"

definition metrics_le :: "MetricsSpec \<Rightarrow> MetricsSpec \<Rightarrow> bool" where
  "metrics_le x y \<longleftrightarrow> fills (MetricsEnabled x) (MetricsEnabled y) \<and> fills (MonitorEnabled (PodMonitor x)) (MonitorEnabled (PodMonitor y)) \<and>
     (ScrapeInterval (PodMonitor x) = [] \<or> ScrapeInterval (PodMonitor y) = ScrapeInterval (PodMonitor x))"

definition rollout_le :: "RolloutSpec \<Rightarrow> RolloutSpec \<Rightarrow> bool" where
  "rollout_le x y \<longleftrightarrow> nz (MaxUnavailable x) (MaxUnavailable y) \<and> FailoverGracePeriodSeconds x = FailoverGracePeriodSeconds y \<and>
     nz (ReplicaReadyTimeoutSeconds x) (ReplicaReadyTimeoutSeconds y) \<and> nz (MaxLagBytes x) (MaxLagBytes y)"

definition spec_le :: "CRSpec \<Rightarrow> CRSpec \<Rightarrow> bool" where
  "spec_le x y \<longleftrightarrow> CMode x = CMode y \<and> FeatureGates x = FeatureGates y \<and> images_le (CImage x) (CImage y) \<and> valkey_le (CValkey x) (CValkey y) \<and>
     rel_option sentinel_le (CSentinel x) (CSentinel y) \<and> metrics_le (CMetrics x) (CMetrics y) \<and> rollout_le (CRollout x) (CRollout y)"

named_theorems between \<open>a value between the given and the filled one is filled alike\<close>

lemma fills_between [between]: "fills x y \<Longrightarrow> fills y (filled x d) \<Longrightarrow> filled y d = filled x d"
  by (cases x; cases y) (auto simp: fills_def filled_def)

lemma fills_same [between]: "fills x y \<Longrightarrow> fills y x \<Longrightarrow> y = x"
  by (auto simp: fills_def)

lemma nz_between [between]: "nz x y \<Longrightarrow> nz y (orDefault x d) \<Longrightarrow> orDefault y d = orDefault x d"
  by (auto simp: nz_def orDefault_def)

lemma pdb_between [between]: "fills x y \<Longrightarrow> fills y (pdbFor r x) \<Longrightarrow> pdbFor r y = pdbFor r x"
  by (auto simp: fills_def pdbFor_def)

lemma affinity_between [between]: "affinity_le x y \<Longrightarrow> affinity_le y (affinityFor r c n x) \<Longrightarrow> affinityFor r c n y = affinityFor r c n x"
  by (cases x; cases y) (auto simp: affinity_le_def affinityFor_def ensureSoftPodAntiAffinity_def fills_def Let_def split: if_splits)

lemma image_between [between]:
  "images_le x y \<Longrightarrow> images_le y (imageFilled x) \<Longrightarrow> imageFilled y = imageFilled x"
  by (auto simp: images_le_def image_le_def imageFilled_def split: if_splits)

lemma resources_between [between]:
  "resources_le x y \<Longrightarrow> resources_le y (guaranteed x) \<Longrightarrow> guaranteed y = guaranteed x"
  by (cases "Requests x"; cases "Limits x"; cases "Requests y"; cases "Limits y")
    (auto simp: resources_le_def guaranteed_def fills_def)

lemma rollout_between [between]: "rollout_le x y \<Longrightarrow> rollout_le y (rolloutFilled x) \<Longrightarrow> rolloutFilled y = rolloutFilled x"
  by (cases x; cases y) (simp add: rollout_le_def rolloutFilled_def between)

lemma metrics_between [between]: "metrics_le x y \<Longrightarrow> metrics_le y (metricsFilled x) \<Longrightarrow> metricsFilled y = metricsFilled x"
  by (auto simp: metrics_le_def metricsFilled_def between split: if_splits)

lemma valkey_between:
  assumes "valkey_le x y" and "valkey_le y (valkeyFilled m n x)"
  shows "valkeyFilled m n y = valkeyFilled m n x"
proof -
  define r where "r = replicasFilled m (Replicas x)"
  note a = assms(1)[unfolded valkey_le_def resources_le_def]
  have b: "nz (Replicas y) r" "fills (Enabled (ReadinessGate y)) (filled (Enabled (ReadinessGate x)) (m \<noteq> ModeStandalone))"
    "fills (GateMaxLagBytes (ReadinessGate y)) (filled (GateMaxLagBytes (ReadinessGate x)) 1048576)"
    "fills (Requests (VResources y)) (filled (Requests (VResources x)) [(''cpu'', 100), (''memory'', 268435456000)])"
    "fills (Limits (VResources y)) (filled (Limits (VResources x)) [(''cpu'', 500), (''memory'', 536870912000)])"
    "fills (VLiveness y) (filled (VLiveness x) (execProbe 30 6))" "fills (VReadiness y) (filled (VReadiness x) (execProbe 5 3))"
    "affinity_le (VAffinity y) (affinityFor r ComponentValkey n (VAffinity x))" "fills (VPDB y) (pdbFor r (VPDB x))"
    "fills (MinReplicasToWrite y) (if m = ModeStandalone then MinReplicasToWrite x else filled (MinReplicasToWrite x) 1)"
    "fills (MinReplicasMaxLag y) (if m = ModeStandalone then MinReplicasMaxLag x else filled (MinReplicasMaxLag x) 10)"
    using assms(2) by (simp_all add: valkey_le_def valkeyFilled_def resources_le_def r_def)
  have opt: "(if m = ModeStandalone then u else filled u d) = (if m = ModeStandalone then t else filled t d)"
    if "fills t u" "fills u (if m = ModeStandalone then t else filled t d)" for t u :: "int option" and d
    using that fills_between[of t u d] fills_same[of t u] by (cases "m = ModeStandalone") simp_all
  have r: "replicasFilled m (Replicas y) = r" using nz_between[of "Replicas x" "Replicas y"] a b(1) by (simp add: replicasFilled_def r_def)
  note fs = fills_between[OF _ b(2)] fills_between[OF _ b(3)] fills_between[OF _ b(4)] fills_between[OF _ b(5)] fills_between[OF _ b(6)]
    fills_between[OF _ b(7)] affinity_between[OF _ b(8)] pdb_between[OF _ b(9)] opt[OF _ b(10)] opt[OF _ b(11)]
  show ?thesis
    by (cases x; cases y; cases "m = ModeStandalone") (use fs a r in \<open>simp_all add: valkeyFilled_def r_def\<close>)
qed

lemma sentinel_between:
  assumes "sentinel_le x y" and "sentinel_le y (sentinelFilled n x)"
  shows "sentinelFilled n y = sentinelFilled n x"
proof -
  define r where "r = orDefault (SentinelReplicas x) 3"
  note a = assms(1)[unfolded sentinel_le_def]
  have b: "nz (SentinelReplicas y) r" "nz (SpecQuorum y) (orDefault (SpecQuorum x) (majority r))"
    "nz (DownAfterMilliseconds y) (orDefault (DownAfterMilliseconds x) 3000)" "nz (FailoverTimeout y) (orDefault (FailoverTimeout x) 180000)"
    "nz (ParallelSyncs y) (orDefault (ParallelSyncs x) 1)" "fills (SPDB y) (pdbFor r (SPDB x))" "resources_le (SResources y) (guaranteed (SResources x))"
    "fills (SLiveness y) (filled (SLiveness x) (tcpProbe 30 10 6))" "fills (SReadiness y) (filled (SReadiness x) (tcpProbe 5 5 3))"
    "affinity_le (SAffinity y) (affinityFor r ComponentSentinel n (SAffinity x))"
    using assms(2) by (simp_all add: sentinel_le_def sentinelFilled_def Let_def r_def)
  have r: "orDefault (SentinelReplicas y) 3 = r" using nz_between[of "SentinelReplicas x" "SentinelReplicas y"] a b(1) by (simp add: r_def)
  note fs = nz_between[OF _ b(2)] nz_between[OF _ b(3)] nz_between[OF _ b(4)] nz_between[OF _ b(5)] pdb_between[OF _ b(6)]
    resources_between[OF _ b(7)] fills_between[OF _ b(8)] fills_between[OF _ b(9)] affinity_between[OF _ b(10)]
  show ?thesis
    by (cases x; cases y) (use fs a r in \<open>simp add: sentinelFilled_def Let_def r_def\<close>)
qed

lemma spec_between:
  assumes "spec_le x y" and "spec_le y (specFilled n x)"
  shows "specFilled n y = specFilled n x"
proof -
  have v: "valkeyFilled (CMode y) n (CValkey y) = valkeyFilled (CMode x) n (CValkey x)"
    using assms valkey_between[of "CValkey x" "CValkey y" "CMode x" n] by (simp add: spec_le_def specFilled_def)
  have s: "map_option (sentinelFilled n) (CSentinel y) = map_option (sentinelFilled n) (CSentinel x)"
    using assms sentinel_between by (cases "CSentinel x"; cases "CSentinel y") (auto simp: spec_le_def specFilled_def)
  have o: "imageFilled (CImage y) = imageFilled (CImage x)" "metricsFilled (CMetrics y) = metricsFilled (CMetrics x)" "rolloutFilled (CRollout y) = rolloutFilled (CRollout x)"
    using assms by (auto simp: spec_le_def specFilled_def intro!: between)
  show ?thesis
    by (cases x; cases y) (use v s o assms(1) in \<open>simp add: specFilled_def spec_le_def\<close>)
qed

lemma fills_refl [simp]: "fills x x" "nz a a" "image_le i i" "resources_le r r"
  by (simp_all add: fills_def nz_def image_le_def resources_le_def)

lemma filled_le [simp]: "fills x (filled x d)" "nz a (orDefault a b)" "fills q (pdbFor r q)"
  by (auto simp: fills_def filled_def nz_def orDefault_def pdbFor_def split: option.splits)

lemma affinity_filled_le [simp]: "affinity_le x (affinityFor r c n x)"
  by (cases x) (auto simp: affinity_le_def affinityFor_def ensureSoftPodAntiAffinity_def fills_def Let_def split: option.splits)

lemma spec_filled_le: "spec_le x (specFilled n x)"
proof -
  have r: "resources_le z (guaranteed z)" for z
    by (cases "Requests z"; cases "Limits z") (auto simp: resources_le_def guaranteed_def fills_def)
  have "sentinel_le z (sentinelFilled n z)" for z by (simp add: sentinel_le_def sentinelFilled_def Let_def r)
  then have "rel_option sentinel_le (CSentinel x) (map_option (sentinelFilled n) (CSentinel x))" by (cases "CSentinel x") simp_all
  moreover have "valkey_le z (valkeyFilled m n z)" for z m
    by (simp add: valkey_le_def valkeyFilled_def replicasFilled_def resources_le_def)
  moreover have "images_le z (imageFilled z)" for z by (simp add: images_le_def imageFilled_def image_le_def)
  moreover have "metrics_le z (metricsFilled z)" for z by (simp add: metrics_le_def metricsFilled_def)
  moreover have "rollout_le z (rolloutFilled z)" for z by (simp add: rollout_le_def rolloutFilled_def)
  ultimately show ?thesis by (simp add: spec_le_def specFilled_def)
qed

lemma spec_le_refl [simp]: "spec_le x x"
proof -
  have "affinity_le a a" for a by (cases a) (simp_all add: affinity_le_def)
  then show ?thesis
    by (cases "CSentinel x") (simp_all add: spec_le_def images_le_def valkey_le_def sentinel_le_def metrics_le_def rollout_le_def)
qed

lemma ApplySpecDefaults_spec [simp]:
  "CSpec (ApplySpecDefaults v) = specFilled (CRName v) (CSpec v)" "CRName (ApplySpecDefaults v) = CRName v"
  "CRAnnotations (ApplySpecDefaults v) = CRAnnotations v" "CRLabels (ApplySpecDefaults v) = CRLabels v"
  by (simp_all add: ApplySpecDefaults_form)

lemma Default_spec [simp]: "CSpec (Default req v) = specFilled (CRName v) (CSpec v)" "CRName (Default req v) = CRName v"
  by (cases req; simp add: Default_def stampOperatorTriggerRequestor_def stampManagedByLabel_def Let_def)+

definition minimal_cr :: ValkeyCR where
  "minimal_cr =
     \<lparr>CRName = ''v'', CRNamespace = ''ns'', CRLabels = None,
      CRAnnotations = Some [(''velkir.ioxie.dev/paused'', ''true''), (''velkir.ioxie.dev/force-rotate-requestor'', ''root'')],
      CSpec =
        \<lparr>CMode = ModeSentinel, CImage = \<lparr>ImageValkey = zeroImage, ImageSentinel = zeroImage, ImageExporter = zeroImage\<rparr>,
         CValkey = \<lparr>Replicas = 0, ReadinessGate = \<lparr>Enabled = None, GateMaxLagBytes = None\<rparr>,
           VResources = \<lparr>Requests = None, Limits = None\<rparr>, VLiveness = None, VReadiness = None, VAffinity = None, VPodAnnotations = None,
           VPodLabels = None, VConfiguration = [], VOverrides = [], VPDB = None, MinReplicasToWrite = None, MinReplicasMaxLag = None\<rparr>,
         CSentinel = Some \<lparr>MasterName = ''m'', SentinelReplicas = 5, SpecQuorum = 0, DownAfterMilliseconds = 0, FailoverTimeout = 0, ParallelSyncs = 0,
           SPDB = None, SResources = \<lparr>Requests = None, Limits = None\<rparr>, SLiveness = None, SReadiness = None, SAffinity = None,
           SPodAnnotations = None, SPodLabels = None\<rparr>,
         CMetrics = \<lparr>MetricsEnabled = None, PodMonitor = \<lparr>MonitorEnabled = None, ScrapeInterval = []\<rparr>\<rparr>,
         CRollout = \<lparr>MaxUnavailable = 0, FailoverGracePeriodSeconds = 0, ReplicaReadyTimeoutSeconds = 0, MaxLagBytes = 0\<rparr>,
         FeatureGates = []\<rparr>\<rparr>"

text \<open>
  C24. What is rendered does not depend on what admission did. Let some of the defaults be filled
  already, by this webhook, by an older operator that knew only some of them, or by hand: any spec
  between the one the user wrote and the fully filled one is filled by the reconciler to the same
  spec, and so is the spec that the webhook leaves behind, whoever sent the request.
\<close>

theorem defaults_converge:
  assumes "CRName w = CRName v" and "spec_le (CSpec v) (CSpec w)" and "spec_le (CSpec w) (CSpec (ApplySpecDefaults v))"
  shows "CSpec (ApplySpecDefaults w) = CSpec (ApplySpecDefaults v) \<and> CSpec (ApplySpecDefaults (Default req v)) = CSpec (ApplySpecDefaults v)"
proof -
  have "specFilled (CRName v) (specFilled (CRName v) (CSpec v)) = specFilled (CRName v) (CSpec v)"
    by (rule spec_between[OF spec_filled_le spec_le_refl])
  moreover have "specFilled (CRName v) (CSpec w) = specFilled (CRName v) (CSpec v)"
    using spec_between[OF assms(2)] assms(3) by simp
  ultimately show ?thesis using assms(1) by simp
qed

theorem defaults_converge_witness:
  "CSpec (ApplySpecDefaults (stampImageDefaults minimal_cr)) = CSpec (ApplySpecDefaults minimal_cr)"
proof -
  have s: "CSpec (stampImageDefaults minimal_cr) = (CSpec minimal_cr)\<lparr>CImage := imageFilled (CImage (CSpec minimal_cr))\<rparr>"
    by (simp add: stampImageDefaults_def onSpec_def imageFilled_def)
  have i: "images_le z (imageFilled z)" "images_le z z" for z by (simp_all add: images_le_def imageFilled_def image_le_def)
  have "spec_le (CSpec minimal_cr) (CSpec (stampImageDefaults minimal_cr))"
    using spec_le_refl[of "CSpec minimal_cr", unfolded spec_le_def] unfolding s by (simp add: spec_le_def i)
  moreover have "spec_le (CSpec (stampImageDefaults minimal_cr)) (CSpec (ApplySpecDefaults minimal_cr))"
    using spec_filled_le[of "CSpec minimal_cr" "CRName minimal_cr", unfolded spec_le_def] unfolding s by (simp add: spec_le_def specFilled_def i)
  moreover have "CRName (stampImageDefaults minimal_cr) = CRName minimal_cr" by (simp add: stampImageDefaults_def onSpec_def)
  ultimately show ?thesis using defaults_converge by blast
qed

text \<open>What the rest of the operator may rely on in a filled spec.\<close>

definition complete_valkey :: "Mode \<Rightarrow> ValkeyPod \<Rightarrow> bool" where
  "complete_valkey m p \<longleftrightarrow>
     Replicas p \<noteq> 0 \<and> Enabled (ReadinessGate p) \<noteq> None \<and> GateMaxLagBytes (ReadinessGate p) \<noteq> None \<and> Requests (VResources p) \<noteq> None \<and>
     Limits (VResources p) \<noteq> None \<and> VLiveness p \<noteq> None \<and> VReadiness p \<noteq> None \<and>
     (2 \<le> Replicas p \<longrightarrow> VPDB p \<noteq> None \<and> (\<exists>a. VAffinity p = Some a \<and> AntiAffinity a \<noteq> None)) \<and>
     (m = ModeStandalone \<or> MinReplicasToWrite p \<noteq> None \<and> MinReplicasMaxLag p \<noteq> None)"

definition complete_sentinel :: "SentinelPod \<Rightarrow> bool" where
  "complete_sentinel s \<longleftrightarrow>
     SentinelReplicas s \<noteq> 0 \<and> DownAfterMilliseconds s \<noteq> 0 \<and> FailoverTimeout s \<noteq> 0 \<and> ParallelSyncs s \<noteq> 0 \<and>
     Requests (SResources s) \<noteq> None \<and> Limits (SResources s) \<noteq> None \<and> SLiveness s \<noteq> None \<and> SReadiness s \<noteq> None \<and>
     (2 \<le> SentinelReplicas s \<longrightarrow> SPDB s \<noteq> None \<and> (\<exists>a. SAffinity s = Some a \<and> AntiAffinity a \<noteq> None))"

definition complete_spec :: "CRSpec \<Rightarrow> bool" where
  "complete_spec s \<longleftrightarrow>
     list_all (\<lambda>i. i \<noteq> zeroImage) [ImageValkey (CImage s), ImageSentinel (CImage s), ImageExporter (CImage s)] \<and>
     complete_valkey (CMode s) (CValkey s) \<and> (case CSentinel s of None \<Rightarrow> True | Some x \<Rightarrow> complete_sentinel x) \<and>
     MetricsEnabled (CMetrics s) \<noteq> None \<and> MonitorEnabled (PodMonitor (CMetrics s)) \<noteq> None \<and> ScrapeInterval (PodMonitor (CMetrics s)) \<noteq> [] \<and>
     MaxUnavailable (CRollout s) \<noteq> 0 \<and> ReplicaReadyTimeoutSeconds (CRollout s) \<noteq> 0 \<and> MaxLagBytes (CRollout s) \<noteq> 0"

lemma filled_Some [simp]: "filled x d \<noteq> None"
  by (cases x) (simp_all add: filled_def)

lemma orDefault_nonzero [simp]: "d \<noteq> 0 \<Longrightarrow> orDefault x d \<noteq> 0"
  by (simp add: orDefault_def)

lemma affinityFor_Some: "2 \<le> r \<Longrightarrow> \<exists>a. affinityFor r c n x = Some a \<and> AntiAffinity a \<noteq> None"
  by (cases x) (auto simp: affinityFor_def ensureSoftPodAntiAffinity_def Let_def)

lemma pdbFor_Some: "2 \<le> r \<Longrightarrow> pdbFor r x \<noteq> None"
  by (simp add: pdbFor_def)

lemma guaranteed_Some: "Requests (guaranteed r) \<noteq> None" "Limits (guaranteed r) \<noteq> None"
  by (cases "Requests r"; cases "Limits r"; simp add: guaranteed_def)+

text \<open>
  C25. The defaults are total and never override. A filled spec has every field that the operator
  defaults, keeps every field that was set, filling it again changes nothing, and the stamped
  sentinel quorum is a strict majority of the pool.
\<close>

theorem defaults_total:
  "complete_spec (CSpec (ApplySpecDefaults v)) \<and> spec_le (CSpec v) (CSpec (ApplySpecDefaults v)) \<and>
   ApplySpecDefaults (ApplySpecDefaults v) = ApplySpecDefaults v \<and>
   (\<forall>s. CSentinel (CSpec v) = Some s \<and> SpecQuorum s = 0 \<and> 0 \<le> SentinelReplicas s \<and> SentinelReplicas s < 2147483646 \<longrightarrow>
      (\<exists>t. CSentinel (CSpec (ApplySpecDefaults v)) = Some t \<and> SpecQuorum t \<le> max 2 (SentinelReplicas t) \<and> SentinelReplicas t < 2 * SpecQuorum t))"
proof -
  have v: "complete_valkey m (valkeyFilled m n p)" for m n p
    using affinityFor_Some pdbFor_Some unfolding complete_valkey_def valkeyFilled_def replicasFilled_def
    by (cases m) (simp_all add: filled_Some)
  have s: "complete_sentinel (sentinelFilled n x)" for n x
    using affinityFor_Some pdbFor_Some guaranteed_Some unfolding complete_sentinel_def sentinelFilled_def by (simp add: Let_def)
  have i: "zeroImage \<noteq> DefaultValkeyImage" "zeroImage \<noteq> DefaultExporterImage"
    by (simp_all add: zeroImage_def DefaultValkeyImage_def DefaultExporterImage_def)
  have c: "complete_spec (specFilled n x)" for n x
    using v s i by (cases "CSentinel x") (simp_all add: complete_spec_def specFilled_def imageFilled_def metricsFilled_def rolloutFilled_def)
  have idem: "specFilled n (specFilled n x) = specFilled n x" for n x by (rule spec_between[OF spec_filled_le spec_le_refl])
  have q: "SpecQuorum (sentinelFilled n x) \<le> max 2 (SentinelReplicas (sentinelFilled n x)) \<and>
      SentinelReplicas (sentinelFilled n x) < 2 * SpecQuorum (sentinelFilled n x)"
    if "SpecQuorum x = 0" "0 \<le> SentinelReplicas x" "SentinelReplicas x < 2147483646" for n x
  proof -
    define r where "r = orDefault (SentinelReplicas x) 3"
    have "0 < r" "r < 2147483646" using that by (auto simp: r_def orDefault_def)
    then have "majority r = (r + 2) div 2" by (simp add: majority_def goDiv_def wrap32_id)
    moreover have "SpecQuorum (sentinelFilled n x) = majority r" "SentinelReplicas (sentinelFilled n x) = r"
      using that(1) by (simp_all add: sentinelFilled_def Let_def r_def orDefault_def[of 0])
    moreover have "(r + 2) div 2 \<le> max 2 r" "r < 2 * ((r + 2) div 2)" using \<open>0 < r\<close> by linarith+
    ultimately show ?thesis by simp
  qed
  have "\<forall>x. CSentinel (CSpec v) = Some x \<and> SpecQuorum x = 0 \<and> 0 \<le> SentinelReplicas x \<and> SentinelReplicas x < 2147483646 \<longrightarrow>
      (\<exists>t. CSentinel (specFilled (CRName v) (CSpec v)) = Some t \<and> SpecQuorum t \<le> max 2 (SentinelReplicas t) \<and> SentinelReplicas t < 2 * SpecQuorum t)"
    using q by (auto simp: specFilled_def)
  then show ?thesis using c idem spec_filled_le by (simp add: ApplySpecDefaults_form)
qed

theorem defaults_total_witness:
  "\<exists>t. CSentinel (CSpec (ApplySpecDefaults minimal_cr)) = Some t \<and> SentinelReplicas t < 2 * SpecQuorum t"
proof -
  let ?s = "the (CSentinel (CSpec minimal_cr))"
  have "CSentinel (CSpec minimal_cr) = Some ?s \<and> SpecQuorum ?s = 0 \<and> 0 \<le> SentinelReplicas ?s \<and> SentinelReplicas ?s < 2147483646"
    by (simp add: minimal_cr_def)
  with defaults_total[of minimal_cr, THEN conjunct2, THEN conjunct2, THEN conjunct2] show ?thesis by blast
qed

section \<open>The recorded requestor\<close>

lemma map_of_stampRequestor:
  "map_of (stampRequestor u ann t) k =
     (if k = t @ requestorAnnotationSuffix then (if map_of ann t = Some triggerTrueValue \<and> u \<noteq> [] then Some u else None) else map_of ann k)"
  by (auto simp: stampRequestor_def Let_def update_conv' delete_conv')

lemma fold_stampRequestor:
  assumes "distinct ts" and "\<forall>t\<in>set ts. \<forall>t'\<in>set ts. t' \<noteq> t @ requestorAnnotationSuffix"
  shows "map_of (foldl (stampRequestor u) ann ts) k =
    (if \<exists>t\<in>set ts. k = t @ requestorAnnotationSuffix
     then (if map_of ann (take (length k - length requestorAnnotationSuffix) k) = Some triggerTrueValue \<and> u \<noteq> [] then Some u else None)
     else map_of ann k)"
  using assms
proof (induction ts arbitrary: ann)
  case (Cons t ts)
  let ?a = "stampRequestor u ann t"
  have ih: "map_of (foldl (stampRequestor u) ?a ts) k =
    (if \<exists>t\<in>set ts. k = t @ requestorAnnotationSuffix
     then (if map_of ?a (take (length k - length requestorAnnotationSuffix) k) = Some triggerTrueValue \<and> u \<noteq> [] then Some u else None)
     else map_of ?a k)" using Cons by simp
  show ?case
  proof (cases "\<exists>t'\<in>set ts. k = t' @ requestorAnnotationSuffix")
    case True
    then obtain t' where t': "t' \<in> set ts" "k = t' @ requestorAnnotationSuffix" by blast
    have "map_of ?a t' = map_of ann t'" using Cons.prems(2) t'(1) by (simp add: map_of_stampRequestor)
    then show ?thesis using ih t' by auto
  next
    case False
    then show ?thesis using ih by (auto simp: map_of_stampRequestor)
  qed
qed simp

lemma triggers_distinct: "distinct operatorTriggerAnnotations"
  "\<forall>t\<in>set operatorTriggerAnnotations. \<forall>t'\<in>set operatorTriggerAnnotations. t' \<noteq> t @ requestorAnnotationSuffix"
  by (simp_all add: operatorTriggerAnnotations_def AllowAggressiveTimeoutsAnnotation_def requestorAnnotationSuffix_def)

lemma annotation_Default:
  "annotation (CRAnnotations (Default (Some u) v)) k =
     map_of (foldl (stampRequestor u) (case CRAnnotations v of None \<Rightarrow> [] | Some a \<Rightarrow> a) operatorTriggerAnnotations) k"
  by (simp add: Default_def stampOperatorTriggerRequestor_def stampManagedByLabel_def annotation_def Let_def)

text \<open>
  C35. The requestor of a privileged trigger cannot be forged. After the webhook ran for a request of a
  user, the annotation beside each trigger names that user when the trigger is literally true (and the
  user has a name) and is absent otherwise, whatever the object carried before; all other annotations
  are untouched.
\<close>

theorem requestor_not_forged:
  assumes "w = Default (Some u) v"
  shows "(\<forall>t\<in>set operatorTriggerAnnotations.
      annotation (CRAnnotations w) (t @ ''-requestor'') = (if annotation (CRAnnotations v) t = Some ''true'' \<and> u \<noteq> [] then Some u else None)) \<and>
    (\<forall>k. k \<notin> (\<lambda>t. t @ ''-requestor'') ` set operatorTriggerAnnotations \<longrightarrow> annotation (CRAnnotations w) k = annotation (CRAnnotations v) k)"
proof -
  have a: "annotation (CRAnnotations w) k =
    (if \<exists>t\<in>set operatorTriggerAnnotations. k = t @ ''-requestor''
     then (if annotation (CRAnnotations v) (take (length k - length ''-requestor'') k) = Some ''true'' \<and> u \<noteq> [] then Some u else None)
     else annotation (CRAnnotations v) k)" for k
  proof -
    have "map_of (case CRAnnotations v of None \<Rightarrow> [] | Some a \<Rightarrow> a) j = annotation (CRAnnotations v) j" for j
      by (cases "CRAnnotations v") (simp_all add: annotation_def)
    then show ?thesis
      unfolding assms annotation_Default fold_stampRequestor[OF triggers_distinct] by (simp only: requestorAnnotationSuffix_def triggerTrueValue_def)
  qed
  have "annotation (CRAnnotations w) (t @ ''-requestor'') = (if annotation (CRAnnotations v) t = Some ''true'' \<and> u \<noteq> [] then Some u else None)"
    if "t \<in> set operatorTriggerAnnotations" for t
    using a[of "t @ ''-requestor''"] that by auto
  moreover have "annotation (CRAnnotations w) k = annotation (CRAnnotations v) k"
    if "k \<notin> (\<lambda>t. t @ ''-requestor'') ` set operatorTriggerAnnotations" for k
    using a[of k] that by (auto simp only: image_iff if_False)
  ultimately show ?thesis by blast
qed

theorem requestor_not_forged_witness:
  "annotation (CRAnnotations (Default (Some ''alice'') minimal_cr)) ''velkir.ioxie.dev/paused-requestor'' = Some ''alice'' \<and>
   annotation (CRAnnotations (Default (Some ''alice'') minimal_cr)) ''velkir.ioxie.dev/force-rotate-requestor'' = None"
proof -
  have m: "''velkir.ioxie.dev/paused'' \<in> set operatorTriggerAnnotations" "''velkir.ioxie.dev/force-rotate'' \<in> set operatorTriggerAnnotations"
    by (simp_all add: operatorTriggerAnnotations_def)
  note r = requestor_not_forged[OF refl, where u = "''alice''" and v = minimal_cr, THEN conjunct1, rule_format]
  show ?thesis using r[OF m(1)] r[OF m(2)] by (simp add: minimal_cr_def annotation_def)
qed

end
