(* ===== verification/Webhook_Validate.thy ===== *)
theory Webhook_Validate
  imports Config_Render Spec_Defaults
begin

text \<open>
  The validating webhook, \<^verbatim>\<open>internal/webhook/v1beta1/valkey_validator.go\<close>, and the deviations it warns
  of, \<^verbatim>\<open>deviations.go\<close> beside it. A field error is its path and its type, which is what the audit stream
  records; a warning is a value that names the rule with the numbers in its text. Go walks a map in no
  fixed order: where the code sorts the keys, so does the model, and elsewhere the model takes the
  order of the association list, and the lemmas speak of emptiness and membership only. The two
  regular expressions are written out as functions.
\<close>

datatype ErrorType = ErrorTypeInvalid | ErrorTypeForbidden | ErrorTypeRequired | ErrorTypeNotSupported

record fieldError =
  FEPath :: string
  FEType :: ErrorType

definition fieldErr :: "ErrorType \<Rightarrow> string \<Rightarrow> fieldError" where
  "fieldErr t p = \<lparr>FEPath = p, FEType = t\<rparr>"

definition Key :: "string \<Rightarrow> string \<Rightarrow> string" where
  "Key p k = p @ ''['' @ k @ '']''"

record Deviation =
  DReason :: string
  DField :: string

datatype Warning =
    FloatingTag string string
  | SubFloorAccepted string int int
  | PreflightDisabled
  | UnknownGates "string list"
  | SubHA int
  | EvenPool int
  | SubMajority int int int
  | NoLimit string
  | RequestDiffers string
  | DeviationWarning Deviation
  | ZeroMaxLag

section \<open>Metadata rules\<close>

definition reservedLabels :: "string list" where
  "reservedLabels =
     [''app.kubernetes.io/component'', ''app.kubernetes.io/instance'', ''app.kubernetes.io/managed-by'', ''app.kubernetes.io/name'',
      ''app.kubernetes.io/part-of'', ''velkir.ioxie.dev/component'', ''velkir.ioxie.dev/cr'', ''velkir.ioxie.dev/instance-name'', ''velkir.ioxie.dev/role'']"

definition reservedAnnotationPrefixes :: "string list" where
  "reservedAnnotationPrefixes = [''velkir.ioxie.dev/'']"

definition reservedAnnotationKeys :: "string list" where
  "reservedAnnotationKeys = [''app.kubernetes.io/managed-by'']"

definition validateOperatorTriggerAnnotations :: "(string \<times> string) list option \<Rightarrow> fieldError list" where
  "validateOperatorTriggerAnnotations ann =
     concat (map (\<lambda>key. case annotation ann key of None \<Rightarrow> []
       | Some val \<Rightarrow> if val \<noteq> triggerTrueValue then [fieldErr ErrorTypeInvalid (Key ''metadata.annotations'' key)] else [])
       operatorTriggerAnnotations)"

definition validateReservedLabels :: "string \<Rightarrow> (string \<times> string) list option \<Rightarrow> fieldError list" where
  "validateReservedLabels parent labels =
     (case labels of None \<Rightarrow> []
      | Some ls \<Rightarrow> map (\<lambda>(k, v). fieldErr ErrorTypeForbidden (Key parent k)) (filter (\<lambda>(k, v). k \<in> set reservedLabels) ls))"

definition validateReservedAnnotations :: "string \<Rightarrow> (string \<times> string) list option \<Rightarrow> fieldError list" where
  "validateReservedAnnotations parent ann =
     (case ann of None \<Rightarrow> []
      | Some xs \<Rightarrow> concat (map (\<lambda>(k, v).
          if k \<in> set reservedAnnotationKeys then [fieldErr ErrorTypeForbidden (Key parent k)]
          else if list_ex (HasPrefix k) reservedAnnotationPrefixes then [fieldErr ErrorTypeForbidden (Key parent k)] else []) xs))"

section \<open>Configuration rules\<close>

definition re_space :: "char \<Rightarrow> bool" where
  "re_space c \<longleftrightarrow> (of_char c :: nat) \<in> {9, 10, 12, 13, 32}"

definition re_word :: "char \<Rightarrow> bool" where
  "re_word c \<longleftrightarrow> is_letter c \<or> is_digit c \<or> c = CHR ''-''"

definition wordAt :: "string \<Rightarrow> string option" where
  "wordAt s = (case s of [] \<Rightarrow> None | c # cs \<Rightarrow> if is_letter c then Some (c # takeWhile re_word cs) else None)"

definition configLineRegexp :: "string \<Rightarrow> string option" where
  "configLineRegexp line =
     (let s = dropWhile re_space line in
      case wordAt s of None \<Rightarrow> None
      | Some w \<Rightarrow>
          let r = drop (length w) s; sp = takeWhile re_space r in
          if sp = [] then Some w
          else case wordAt (drop (length sp) r) of None \<Rightarrow> Some w | Some w2 \<Rightarrow> Some (w @ sp @ w2))"

definition extractDirective :: "string \<Rightarrow> string" where
  "extractDirective line =
     (case configLineRegexp line of None \<Rightarrow> []
      | Some m \<Rightarrow> (case Fields m of [] \<Rightarrow> [] | [a] \<Rightarrow> a | a # b # cs \<Rightarrow> if a = ''sentinel'' then a @ '' '' @ b else a))"

definition bannedLine :: "string \<Rightarrow> bool" where
  "bannedLine line \<longleftrightarrow>
     (let trimmed = TrimSpace line in
      if trimmed = [] \<or> HasPrefix trimmed ''#'' then False
      else let d = extractDirective trimmed in if d = [] then False else ToLower d \<in> set OperatorOwnedDirectives)"

definition configPath :: string where
  "configPath = ''spec.valkey.configuration''"

definition overridesPath :: string where
  "overridesPath = ''spec.valkey.configurationOverrides''"

definition validateConfigBanlist :: "string \<Rightarrow> (string \<times> string) list \<Rightarrow> fieldError list" where
  "validateConfigBanlist raw overrides =
     (if raw \<noteq> [] then map (\<lambda>l. fieldErr ErrorTypeInvalid configPath) (filter bannedLine (Split raw newline)) else [])
     @ map (\<lambda>k. fieldErr ErrorTypeForbidden (Key overridesPath k))
         (filter (\<lambda>k. NormalizeDirectiveKey k \<in> set bannedDirectiveKeys) (sort (map fst overrides)))"

definition validateConfigControlChars :: "string \<Rightarrow> (string \<times> string) list \<Rightarrow> fieldError list" where
  "validateConfigControlChars raw overrides =
     (if ContainsNUL raw then [fieldErr ErrorTypeInvalid configPath] else [])
     @ concat (map (\<lambda>k.
         (if ContainsInjectionChars k then [fieldErr ErrorTypeInvalid (Key overridesPath k)] else [])
         @ (if ContainsInjectionChars (case map_of overrides k of None \<Rightarrow> [] | Some v \<Rightarrow> v)
            then [fieldErr ErrorTypeInvalid (Key overridesPath k)] else [])) (sort (map fst overrides)))"

definition reservedRenderTokens :: "string list" where
  "reservedRenderTokens = remdups [PodIPPlaceholder, SentinelAnnounceIPPlaceholder]"

definition validateReservedRenderTokens :: "string \<Rightarrow> (string \<times> string) list \<Rightarrow> fieldError list" where
  "validateReservedRenderTokens raw overrides =
     concat (map (\<lambda>tok.
       (if raw \<noteq> [] \<and> Contains raw tok then [fieldErr ErrorTypeInvalid configPath] else [])
       @ map (\<lambda>(k, v). fieldErr ErrorTypeInvalid (Key overridesPath k)) (filter (\<lambda>(k, v). Contains v tok) overrides))
       reservedRenderTokens)"

section \<open>Image rules\<close>

definition imagesByName :: "ImageSpec \<Rightarrow> (string \<times> ContainerImage) list" where
  "imagesByName img = [(''exporter'', ImageExporter img), (''sentinel'', ImageSentinel img), (''valkey'', ImageValkey img)]"

definition validateImageBanlist :: "ImageSpec \<Rightarrow> fieldError list" where
  "validateImageBanlist img =
     map (\<lambda>(name, ci). fieldErr ErrorTypeInvalid (''spec.image.'' @ name @ ''.repository''))
       (filter (\<lambda>(name, ci). Contains (ToLower (Repository ci)) ''bitnami'') (imagesByName img))"

definition tagChar :: "char \<Rightarrow> bool" where
  "tagChar c \<longleftrightarrow> is_letter c \<or> is_digit c \<or> c = CHR ''_''"

definition imageTagRegexp :: "string \<Rightarrow> bool" where
  "imageTagRegexp t \<longleftrightarrow>
     (case t of [] \<Rightarrow> False | c # cs \<Rightarrow> tagChar c \<and> length cs \<le> 127 \<and> list_all (\<lambda>x. tagChar x \<or> x = CHR ''.'' \<or> x = CHR ''-'') cs)"

definition floatingTags :: "string list" where
  "floatingTags = [''latest'', ''main'', ''master'', ''stable'', ''edge'']"

definition checkTag :: "string \<times> ContainerImage \<Rightarrow> Warning list \<times> fieldError list" where
  "checkTag c =
     (let name = fst c; tag = Tag (snd c); path = ''spec.image.'' @ name @ ''.tag'';
          hasDigestPin = Contains (Repository (snd c)) ''@sha256:'' in
      if tag = [] \<and> \<not> hasDigestPin then ([], [fieldErr ErrorTypeRequired path])
      else if tag \<noteq> [] \<and> \<not> imageTagRegexp tag then ([], [fieldErr ErrorTypeInvalid path])
      else if ToLower tag \<in> set floatingTags then ([FloatingTag name tag], [])
      else ([], []))"

definition validateImageTagFormat :: "ImageSpec \<Rightarrow> Warning list \<times> fieldError list" where
  "validateImageTagFormat img =
     (concat (map (fst \<circ> checkTag) (imagesByName img)), concat (map (snd \<circ> checkTag) (imagesByName img)))"

definition validateValkeyImageMajorSupported :: "ContainerImage \<Rightarrow> fieldError list" where
  "validateValkeyImageMajorSupported ci =
     (if Tag ci = [] then []
      else case ParseValkeyTag (imageRef ci) of Inl e \<Rightarrow> []
        | Inr v \<Rightarrow> if \<not> IsSupportedMajor v then [fieldErr ErrorTypeNotSupported ''spec.image.valkey.tag''] else [])"

section \<open>Probe, gate and sentinel rules\<close>

definition validateProbeHandler :: "string \<Rightarrow> Probe option \<Rightarrow> fieldError list" where
  "validateProbeHandler path p =
     (case p of None \<Rightarrow> []
      | Some p \<Rightarrow>
          if \<not> ProbeHTTPGet p \<and> \<not> ProbeGRPC p \<and> (ProbeTCPSocket p \<noteq> None \<or> ProbeExec p \<noteq> None) then []
          else [fieldErr ErrorTypeInvalid (path @ ''.handler'')])"

definition validateFeatureGates :: "(string \<times> bool) list \<Rightarrow> Warning list" where
  "validateFeatureGates gates =
     (if map_of gates FeatureGateUpgradePreflight = Some False then [PreflightDisabled] else [])
     @ (let keys = filter (\<lambda>k. k \<noteq> FeatureGateUpgradePreflight) (map fst gates) in if keys \<noteq> [] then [UnknownGates (sort keys)] else [])"

definition validateReadinessGateMaxLagBytes :: "ValkeyCR \<Rightarrow> Warning list" where
  "validateReadinessGateMaxLagBytes v = (if GateMaxLagBytes (ReadinessGate (CValkey (CSpec v))) = Some 0 then [ZeroMaxLag] else [])"

definition downAfterFloor :: int where
  "downAfterFloor = 1000"

definition failoverTimeoutFloor :: int where
  "failoverTimeoutFloor = 180000"

definition downAfterRecommended :: int where
  "downAfterRecommended = 30000"

definition sentinelMode :: "ValkeyCR \<Rightarrow> SentinelPod option" where
  "sentinelMode v = (if CMode (CSpec v) \<noteq> ModeSentinel then None else CSentinel (CSpec v))"

definition checkFloor :: "bool \<Rightarrow> string \<Rightarrow> int \<Rightarrow> int \<Rightarrow> Warning list \<times> fieldError list \<times> bool" where
  "checkFloor bypass name val flr =
     (if flr \<le> val then ([], [], False)
      else if bypass then ([SubFloorAccepted name val flr], [], True)
      else ([], [fieldErr ErrorTypeInvalid (''spec.sentinel.'' @ name)], False))"

definition validateSentinelTimingFloors :: "ValkeyCR \<Rightarrow> Warning list \<times> fieldError list \<times> bool" where
  "validateSentinelTimingFloors v =
     (case sentinelMode v of None \<Rightarrow> ([], [], False)
      | Some s \<Rightarrow>
          let bypass = annotation (CRAnnotations v) AllowAggressiveTimeoutsAnnotation = Some triggerTrueValue;
              a = checkFloor bypass ''downAfterMilliseconds'' (DownAfterMilliseconds s) downAfterFloor;
              b = checkFloor bypass ''failoverTimeout'' (FailoverTimeout s) failoverTimeoutFloor
          in (fst a @ fst b, fst (snd a) @ fst (snd b), snd (snd a) \<or> snd (snd b)))"

definition resourceOf :: "resourceList option \<Rightarrow> string \<Rightarrow> int option" where
  "resourceOf r n = (case r of None \<Rightarrow> None | Some xs \<Rightarrow> map_of xs n)"

fun qosLoop :: "ResourceRequirements \<Rightarrow> string list \<Rightarrow> Warning list" where
  "qosLoop r [] = []"
| "qosLoop r (n # ns) =
     (case resourceOf (Limits r) n of None \<Rightarrow> [NoLimit n]
      | Some lim \<Rightarrow>
          if lim = 0 then [NoLimit n]
          else case resourceOf (Requests r) n of None \<Rightarrow> qosLoop r ns
            | Some req \<Rightarrow> if req \<noteq> lim then [RequestDiffers n] else qosLoop r ns)"

definition validateSentinelQoS :: "ValkeyCR \<Rightarrow> Warning list" where
  "validateSentinelQoS v = (case sentinelMode v of None \<Rightarrow> [] | Some s \<Rightarrow> qosLoop (SResources s) [''cpu'', ''memory''])"

definition validateSentinelHA :: "ValkeyCR \<Rightarrow> Warning list" where
  "validateSentinelHA v =
     (if CMode (CSpec v) \<noteq> ModeSentinel \<or> 2 \<le> Replicas (CValkey (CSpec v)) then [] else [SubHA (Replicas (CValkey (CSpec v)))])"

definition validateSentinelReplicaParity :: "ValkeyCR \<Rightarrow> Warning list" where
  "validateSentinelReplicaParity v =
     (case sentinelMode v of None \<Rightarrow> []
      | Some s \<Rightarrow> if SentinelReplicas s < 4 \<or> SentinelReplicas s mod 2 \<noteq> 0 then [] else [EvenPool (SentinelReplicas s)])"

definition validateSentinelQuorumSubMajority :: "ValkeyCR \<Rightarrow> Warning list" where
  "validateSentinelQuorumSubMajority v =
     (case sentinelMode v of None \<Rightarrow> []
      | Some s \<Rightarrow>
          if SpecQuorum s \<le> 0 \<or> majority (SentinelReplicas s) \<le> SpecQuorum s then []
          else [SubMajority (SpecQuorum s) (majority (SentinelReplicas s)) (SentinelReplicas s)])"

section \<open>Deviations\<close>

definition deviation :: "string \<Rightarrow> string \<Rightarrow> Deviation" where
  "deviation r f = \<lparr>DReason = r, DField = f\<rparr>"

definition pdbBelowDefault :: "string \<Rightarrow> PDBSpec option \<Rightarrow> int \<Rightarrow> Deviation list" where
  "pdbBelowDefault fieldRef pdb replicas =
     (case pdb of None \<Rightarrow> []
      | Some p \<Rightarrow> (case MinAvailable p of None \<Rightarrow> [] | Some (StrVal s) \<Rightarrow> []
          | Some (IntVal n) \<Rightarrow> if max 1 (wrap32 (replicas - 1)) \<le> n then [] else [deviation ''PDBTooPermissive'' fieldRef]))"

definition pdbDeviations :: "ValkeyCR \<Rightarrow> Deviation list" where
  "pdbDeviations v =
     pdbBelowDefault ''spec.valkey.pdb'' (VPDB (CValkey (CSpec v))) (Replicas (CValkey (CSpec v)))
     @ (case CSentinel (CSpec v) of None \<Rightarrow> [] | Some s \<Rightarrow> pdbBelowDefault ''spec.sentinel.pdb'' (SPDB s) (SentinelReplicas s))
     @ (case VPDB (CValkey (CSpec v)) of None \<Rightarrow> []
        | Some p \<Rightarrow> if MinAvailable p = None \<and> PDBMaxUnavailable p \<noteq> None then [deviation ''MaxUnavailableInsteadOfMin'' ''spec.valkey.pdb''] else [])"

definition requirementTargets :: "string \<Rightarrow> LabelRequirement \<Rightarrow> bool" where
  "requirementTargets component r \<longleftrightarrow>
     ReqKey r = ComponentLabelKey \<and>
     (case ReqOperator r of SelectorOpExists \<Rightarrow> True | SelectorOpIn \<Rightarrow> component \<in> set (ReqValues r) | _ \<Rightarrow> False)"

definition termTargetsComponent :: "PodAffinityTerm \<Rightarrow> string \<Rightarrow> bool" where
  "termTargetsComponent t component \<longleftrightarrow>
     (case TermSelector t of None \<Rightarrow> False
      | Some sel \<Rightarrow> (case map_of (MatchLabels sel) ComponentLabelKey of None \<Rightarrow> component = [] | Some c \<Rightarrow> c = component) \<or>
          list_ex (requirementTargets component) (MatchExpressions sel))"

definition hasSamePodSetAntiAffinity :: "PodAntiAffinity \<Rightarrow> string \<Rightarrow> bool" where
  "hasSamePodSetAntiAffinity paa component \<longleftrightarrow>
     list_ex (\<lambda>t. termTargetsComponent t component) (RequiredTerms paa) \<or>
     list_ex (\<lambda>t. termTargetsComponent (snd t) component) (PreferredTerms paa)"

definition antiAffinityBelowDefault :: "string \<Rightarrow> Affinity option \<Rightarrow> int \<Rightarrow> string \<Rightarrow> Deviation list" where
  "antiAffinityBelowDefault fieldRef aff replicas component =
     (if replicas < 2 then []
      else case aff of None \<Rightarrow> []
        | Some a \<Rightarrow> (case AntiAffinity a of None \<Rightarrow> []
            | Some paa \<Rightarrow> if hasSamePodSetAntiAffinity paa component then [] else [deviation ''AntiAffinityTooPermissive'' fieldRef]))"

definition antiAffinityDeviations :: "ValkeyCR \<Rightarrow> Deviation list" where
  "antiAffinityDeviations v =
     antiAffinityBelowDefault ''spec.valkey.affinity'' (VAffinity (CValkey (CSpec v))) (Replicas (CValkey (CSpec v))) ComponentValkey
     @ (case CSentinel (CSpec v) of None \<Rightarrow> []
        | Some s \<Rightarrow> antiAffinityBelowDefault ''spec.sentinel.affinity'' (SAffinity s) (SentinelReplicas s) ComponentSentinel)"

definition rolloutDeviations :: "ValkeyCR \<Rightarrow> Deviation list" where
  "rolloutDeviations v =
     (let ro = CRollout (CSpec v) in
      (if 1 < MaxUnavailable ro then [deviation ''RolloutFragileQuorum'' ''spec.rollout.maxUnavailable''] else [])
      @ (case CSentinel (CSpec v) of None \<Rightarrow> []
         | Some s \<Rightarrow>
             if 0 < FailoverGracePeriodSeconds ro \<and> FailoverGracePeriodSeconds ro < goDiv (FailoverTimeout s) 1000
             then [deviation ''RolloutGraceTooTight'' ''spec.rollout.failoverGracePeriodSeconds''] else []))"

definition sentinelTimingDeviations :: "ValkeyCR \<Rightarrow> Deviation list" where
  "sentinelTimingDeviations v =
     (case sentinelMode v of None \<Rightarrow> []
      | Some s \<Rightarrow>
          if DownAfterMilliseconds s < downAfterFloor \<or> downAfterRecommended \<le> DownAfterMilliseconds s then []
          else [deviation ''WarnAggressiveTimeouts'' ''spec.sentinel.downAfterMilliseconds''])"

definition Deviations :: "ValkeyCR \<Rightarrow> Deviation list" where
  "Deviations v = pdbDeviations v @ antiAffinityDeviations v @ rolloutDeviations v @ sentinelTimingDeviations v"

section \<open>The decision\<close>

datatype auditEntry = AdmissionRejected string ErrorType | AggressiveTimeoutsAccepted int int

definition validateErrors :: "ValkeyCR \<Rightarrow> fieldError list" where
  "validateErrors v =
     (let s = CSpec v; p = CValkey s in
      validateOperatorTriggerAnnotations (CRAnnotations v)
      @ validateReservedLabels ''spec.valkey.podLabels'' (VPodLabels p)
      @ validateReservedAnnotations ''spec.valkey.podAnnotations'' (VPodAnnotations p)
      @ (case CSentinel s of None \<Rightarrow> []
         | Some t \<Rightarrow> validateReservedLabels ''spec.sentinel.podLabels'' (SPodLabels t)
             @ validateReservedAnnotations ''spec.sentinel.podAnnotations'' (SPodAnnotations t))
      @ validateConfigBanlist (VConfiguration p) (VOverrides p)
      @ validateConfigControlChars (VConfiguration p) (VOverrides p)
      @ validateReservedRenderTokens (VConfiguration p) (VOverrides p)
      @ validateImageBanlist (CImage s)
      @ snd (validateImageTagFormat (CImage s))
      @ validateValkeyImageMajorSupported (ImageValkey (CImage s))
      @ fst (snd (validateSentinelTimingFloors v))
      @ validateProbeHandler ''spec.valkey.customLivenessProbe'' (VLiveness p))"

definition validateWarnings :: "ValkeyCR \<Rightarrow> Warning list" where
  "validateWarnings v =
     fst (validateImageTagFormat (CImage (CSpec v))) @ fst (validateSentinelTimingFloors v)
     @ validateFeatureGates (FeatureGates (CSpec v)) @ validateSentinelHA v @ validateSentinelReplicaParity v
     @ validateSentinelQuorumSubMajority v @ validateSentinelQoS v @ map DeviationWarning (Deviations v) @ validateReadinessGateMaxLagBytes v"

definition validate :: "ValkeyCR \<Rightarrow> Warning list \<times> fieldError list \<times> auditEntry list" where
  "validate v =
     (let errs = validateErrors v in
      (validateWarnings v, errs,
       if errs \<noteq> [] then map (\<lambda>e. AdmissionRejected (FEPath e) (FEType e)) errs
       else if snd (snd (validateSentinelTimingFloors v))
         then (case CSentinel (CSpec v) of None \<Rightarrow> [] | Some s \<Rightarrow> [AggressiveTimeoutsAccepted (DownAfterMilliseconds s) (FailoverTimeout s)])
       else []))"

definition ValidateCreate :: "ValkeyCR \<Rightarrow> Warning list \<times> fieldError list \<times> auditEntry list" where
  "ValidateCreate v = validate v"

definition ValidateUpdate :: "ValkeyCR \<Rightarrow> ValkeyCR \<Rightarrow> Warning list \<times> fieldError list \<times> auditEntry list" where
  "ValidateUpdate old v = validate v"

definition ValidateDelete :: "ValkeyCR \<Rightarrow> Warning list \<times> fieldError list \<times> auditEntry list" where
  "ValidateDelete v = ([], [], [])"

definition renderInputs :: "ValkeyCR \<Rightarrow> bool \<Rightarrow> RenderInputs" where
  "renderInputs v persistent =
     \<lparr>Persistent = persistent, Configuration = VConfiguration (CValkey (CSpec v)), Overrides = VOverrides (CValkey (CSpec v)),
      RMinReplicasToWrite = MinReplicasToWrite (CValkey (CSpec v)), RMinReplicasMaxLag = MinReplicasMaxLag (CValkey (CSpec v))\<rparr>"

section \<open>Admission and the renderer\<close>

lemma re_space_space: "re_space c \<Longrightarrow> is_space c"
  by (auto simp: re_space_def is_space_def)

lemma word_not_space: "re_word c \<Longrightarrow> \<not> is_space c"
  by (auto simp: re_word_def is_letter_def is_digit_def is_space_def Let_def)

lemma letter_word: "is_letter c \<Longrightarrow> re_word c"
  by (simp add: re_word_def)

lemma lower_letter: "is_letter (lower_byte c) = is_letter c"
proof -
  have "65 \<le> n \<Longrightarrow> n \<le> 90 \<Longrightarrow> of_char (char_of (n + 32) :: char) = (n + 32 :: nat)" for n :: nat
    by (simp add: of_char_of)
  then show ?thesis by (auto simp: lower_byte_def is_letter_def Let_def)
qed

lemma lower_dash: "lower_byte c = CHR ''-'' \<longleftrightarrow> c = CHR ''-''"
proof
  assume a: "lower_byte c = CHR ''-''"
  have "\<not> (65 \<le> (of_char c :: nat) \<and> (of_char c :: nat) \<le> 90)"
  proof
    assume "65 \<le> (of_char c :: nat) \<and> (of_char c :: nat) \<le> 90"
    then have "is_letter (lower_byte c)" unfolding lower_letter by (simp add: is_letter_def Let_def)
    then show False using a by (simp add: is_letter_def Let_def)
  qed
  then show "c = CHR ''-''" using a by (simp add: lower_byte_def Let_def split: if_splits)
qed (simp add: lower_byte_def Let_def)

definition plainDirective :: "string \<Rightarrow> bool" where
  "plainDirective d \<longleftrightarrow> (case d of [] \<Rightarrow> False | c # cs \<Rightarrow> is_letter c \<and> list_all (\<lambda>x. is_letter x \<or> x = CHR ''-'') cs)"

lemma takeWhile_word:
  assumes "list_all re_word w" and "s = [] \<or> \<not> re_word (hd s)"
  shows "takeWhile re_word (w @ s) = w"
  using assms by (cases s) (auto simp: list_all_iff takeWhile_append)

lemma word_of_token:
  assumes "TrimSpace l = c # t" and "plainDirective (ToLower (first_token l))"
  shows "wordAt (TrimSpace l) = Some (first_token l) \<and> list_all re_word (first_token l)"
proof -
  have f: "first_token l = c # takeWhile (\<lambda>x. \<not> is_space x) t" using hd_TrimSpace[OF assms(1)] .
  then have p: "is_letter c" "list_all (\<lambda>x. is_letter x \<or> x = CHR ''-'') (takeWhile (\<lambda>x. \<not> is_space x) t)"
    using assms(2) by (simp_all add: plainDirective_def ToLower_def lower_letter lower_dash list_all_iff)
  then have w: "list_all re_word (takeWhile (\<lambda>x. \<not> is_space x) t)" by (auto simp: list_all_iff re_word_def)
  have "dropWhile (\<lambda>x. \<not> is_space x) t = [] \<or> is_space (hd (dropWhile (\<lambda>x. \<not> is_space x) t))"
    using hd_dropWhile[of "\<lambda>x. \<not> is_space x" t] by blast
  then have "takeWhile re_word (takeWhile (\<lambda>x. \<not> is_space x) t @ dropWhile (\<lambda>x. \<not> is_space x) t) = takeWhile (\<lambda>x. \<not> is_space x) t"
    using word_not_space by (intro takeWhile_word[OF w]) auto
  then show ?thesis using p(1) w f assms(1) letter_word by (simp add: wordAt_def)
qed

lemma Fields_words:
  assumes "list_all re_word w" and "w \<noteq> []" and "list_all re_space sp" and "sp \<noteq> []"
  shows "\<exists>ws. Fields (w @ sp @ u) = w # ws"
proof -
  obtain c cs where w: "w = c # cs" using assms(2) by (cases w) auto
  obtain b bs where sp: "sp = b # bs" using assms(4) by (cases sp) auto
  have ns: "\<forall>x\<in>set w. \<not> is_space x" using assms(1) word_not_space by (auto simp: list_all_iff)
  have "first_token (w @ sp @ u) = w"
  proof -
    have "dropWhile is_space (w @ sp @ u) = w @ sp @ u" using ns w by simp
    moreover have "takeWhile (\<lambda>x. \<not> is_space x) (w @ sp @ u) = w"
      using ns assms(3) re_space_space sp by (simp add: takeWhile_append)
    ultimately show ?thesis by (simp add: first_token_def)
  qed
  then show ?thesis using Fields_first[of "w @ sp @ u"] assms(2) by auto
qed

lemma extract_token:
  assumes "TrimSpace l = c # t" and "plainDirective (ToLower (first_token l))" and "ToLower (first_token l) \<noteq> ''sentinel''"
  shows "extractDirective (TrimSpace l) = first_token l"
proof -
  let ?w = "first_token l"
  note wd = word_of_token[OF assms(1,2)]
  have ne: "?w \<noteq> []" using hd_TrimSpace[OF assms(1)] by simp
  have ns: "?w \<noteq> ''sentinel''" using assms(3) by (auto simp: ToLower_def lower_byte_def)
  have "\<not> re_space c" using TrimSpace_head[OF assms(1)] re_space_space by blast
  then have d: "dropWhile re_space (TrimSpace l) = TrimSpace l" using assms(1) by simp
  define r where "r = drop (length ?w) (TrimSpace l)"
  define sp where "sp = takeWhile re_space r"
  have single: "Fields ?w = [?w]"
    using wd ne word_not_space by (intro Fields_word) (auto simp: is_word_def list_all_iff)
  have m: "configLineRegexp (TrimSpace l) = Some ?w \<or> (sp \<noteq> [] \<and> (\<exists>u. configLineRegexp (TrimSpace l) = Some (?w @ sp @ u)))"
    unfolding configLineRegexp_def d Let_def using wd
    by (cases "wordAt (drop (length sp) r)") (auto simp: r_def[symmetric] sp_def[symmetric])
  have s: "list_all re_space sp" unfolding sp_def by (auto simp: list_all_iff dest: set_takeWhileD)
  from m show ?thesis
  proof
    assume "configLineRegexp (TrimSpace l) = Some ?w"
    then show ?thesis by (simp add: extractDirective_def single)
  next
    assume "sp \<noteq> [] \<and> (\<exists>u. configLineRegexp (TrimSpace l) = Some (?w @ sp @ u))"
    then obtain u where u: "sp \<noteq> []" "configLineRegexp (TrimSpace l) = Some (?w @ sp @ u)" by blast
    obtain ws where "Fields (?w @ sp @ u) = ?w # ws" using Fields_words[of ?w sp u] wd ne s u(1) by blast
    then show ?thesis using u(2) ns by (cases ws) (simp_all add: extractDirective_def)
  qed
qed

lemma banned_line:
  assumes "directive l \<in> set OperatorOwnedDirectives" and "plainDirective (directive l)" and "directive l \<noteq> ''sentinel''"
  shows "bannedLine l"
proof -
  have ne: "directive l \<noteq> []" using assms(2) by (auto simp: plainDirective_def)
  then have t: "first_token l \<noteq> []" "hd (first_token l) \<noteq> CHR ''#''" "directive l = ToLower (first_token l)"
    by (auto simp: directive_token split: if_splits)
  then obtain c cs where c: "TrimSpace l = c # cs" using TrimSpace_empty[of l] by (cases "TrimSpace l") auto
  have "\<not> HasPrefix (TrimSpace l) ''#''" using t(2) hd_TrimSpace[OF c] c by (simp add: HasPrefix_def)
  moreover have "extractDirective (TrimSpace l) = first_token l" using extract_token[OF c] assms(2,3) t(3) by simp
  ultimately show ?thesis using c t assms(1) by (simp add: bannedLine_def Let_def)
qed

lemma banned_keys: "bannedDirectiveKeys =
   [''bind'', ''daemonize'', ''masterauth'', ''min-replicas-max-lag'', ''min-replicas-to-write'', ''port'', ''protected-mode'',
    ''replica-announce-ip'', ''replica-announce-port'', ''replicaof'', ''requirepass'', ''sentinel'', ''sentinel'', ''sentinel'', ''slaveof'', ''unixsocket'']"
  by code_simp

lemma banned_keys_owned: "d \<in> set bannedDirectiveKeys \<Longrightarrow> d = ''sentinel'' \<or> d \<in> set OperatorOwnedDirectives \<and> plainDirective d"
proof -
  have "list_all (\<lambda>d. d = ''sentinel'' \<or> List.member OperatorOwnedDirectives d \<and> plainDirective d) bannedDirectiveKeys" by code_simp
  then show "d \<in> set bannedDirectiveKeys \<Longrightarrow> d = ''sentinel'' \<or> d \<in> set OperatorOwnedDirectives \<and> plainDirective d"
    by (auto simp: list_all_iff)
qed

lemma admitted_line: "\<not> bannedLine l \<Longrightarrow> directive l \<in> set bannedDirectiveKeys \<Longrightarrow> directive l = ''sentinel''"
  using banned_keys_owned[of "directive l"] banned_line[of l] by blast

lemma admitted_config:
  assumes "validateConfigBanlist raw ov = []" and "validateConfigControlChars raw ov = []"
  shows "l \<in> set (Split raw newline) \<Longrightarrow> \<not> bannedLine l"
    and "(k, x) \<in> set ov \<Longrightarrow> distinct (map fst ov) \<Longrightarrow>
      directive k \<notin> set bannedDirectiveKeys \<and> \<not> ContainsInjectionChars k \<and> \<not> ContainsInjectionChars x"
proof -
  have b: "raw \<noteq> [] \<Longrightarrow> filter bannedLine (Split raw newline) = []"
    "filter (\<lambda>k. NormalizeDirectiveKey k \<in> set bannedDirectiveKeys) (sort (map fst ov)) = []"
    using assms(1) by (simp_all add: validateConfigBanlist_def)
  have "bannedLine [] = False" by (simp add: bannedLine_def TrimSpace_def)
  then show "l \<in> set (Split raw newline) \<Longrightarrow> \<not> bannedLine l"
    using b(1) by (cases "raw = []") (auto simp: filter_empty_conv)
  assume k: "(k, x) \<in> set ov" and d: "distinct (map fst ov)"
  then have m: "k \<in> set (sort (map fst ov))" "map_of ov k = Some x" by force+
  have "concat (map (\<lambda>k. (if ContainsInjectionChars k then [fieldErr ErrorTypeInvalid (Key overridesPath k)] else [])
     @ (if ContainsInjectionChars (case map_of ov k of None \<Rightarrow> [] | Some v \<Rightarrow> v) then [fieldErr ErrorTypeInvalid (Key overridesPath k)] else []))
     (sort (map fst ov))) = []"
    using assms(2) unfolding validateConfigControlChars_def by (simp only: append_is_Nil_conv)
  then have "\<forall>k\<in>set (sort (map fst ov)). \<not> ContainsInjectionChars k \<and> \<not> ContainsInjectionChars (case map_of ov k of None \<Rightarrow> [] | Some v \<Rightarrow> v)"
    unfolding concat_eq_Nil_conv by (auto split: if_splits)
  then have "\<not> ContainsInjectionChars k" "\<not> ContainsInjectionChars x" using m by auto
  moreover have "directive k \<notin> set bannedDirectiveKeys"
    using b(2) m(1) by (auto simp: filter_empty_conv NormalizeDirectiveKey_def)
  ultimately show "directive k \<notin> set bannedDirectiveKeys \<and> \<not> ContainsInjectionChars k \<and> \<not> ContainsInjectionChars x" by simp
qed

lemma mandatory_keys:
  "set (mandatoryKeyset (mandatoryDirectives inp)) \<subseteq> insert ''dir'' (set bannedDirectiveKeys)"
  "''dir'' \<in> set (mandatoryKeyset (mandatoryDirectives inp))"
proof -
  have ks: "directive (k @ '' '' @ x) = k" if "k \<in> set [''dir'', ''port'', ''protected-mode'', ''replica-announce-ip'', ''replica-announce-port'',
      ''min-replicas-to-write'', ''min-replicas-max-lag'']" for k x
  proof -
    have "list_all (\<lambda>k. first_token k \<noteq> [] \<and> directive k = k) [''dir'', ''port'', ''protected-mode'', ''replica-announce-ip'', ''replica-announce-port'',
      ''min-replicas-to-write'', ''min-replicas-max-lag'']" by code_simp
    with that have "first_token k \<noteq> []" "directive k = k" by (auto simp only: list_all_iff)
    then show ?thesis using directive_override[of k x] by simp
  qed
  have "map directive (mandatoryDirectives inp) = map fst (mandatoryPairs inp)"
    unfolding mandatory_pairs map_map
  proof (rule map_cong[OF refl])
    fix kx assume "kx \<in> set (mandatoryPairs inp)"
    then have "fst kx \<in> set [''dir'', ''port'', ''protected-mode'', ''replica-announce-ip'', ''replica-announce-port'',
      ''min-replicas-to-write'', ''min-replicas-max-lag'']"
      by (cases "RMinReplicasToWrite inp"; cases "RMinReplicasMaxLag inp") (auto simp: mandatoryPairs_def)
    from ks[OF this] show "(directive \<circ> (\<lambda>(k, v). k @ '' '' @ v)) kx = fst kx" by (cases kx) simp
  qed
  then show "set (mandatoryKeyset (mandatoryDirectives inp)) \<subseteq> insert ''dir'' (set bannedDirectiveKeys)"
    "''dir'' \<in> set (mandatoryKeyset (mandatoryDirectives inp))"
    unfolding mandatoryKeyset_def banned_keys
    by (cases "RMinReplicasToWrite inp"; cases "RMinReplicasMaxLag inp"; simp add: mandatoryPairs_def)+
qed

lemma admitted_renders:
  assumes "validateConfigBanlist (Configuration inp) (Overrides inp) = []" and "validateConfigControlChars (Configuration inp) (Overrides inp) = []"
    and "distinct (map fst (Overrides inp))"
  shows "keptOverrides inp = filter (\<lambda>(k, x). directive k \<noteq> ''dir'') (Overrides inp) \<and>
    (\<forall>l\<in>set (Split (Configuration inp) newline). l \<notin> set (Split (Render inp) newline) \<longrightarrow>
       TrimSpace l = [] \<or> directive l \<in> {''dir'', ''sentinel''} \<or> directive l \<in> (\<lambda>(k, x). ToLower (TrimSpace k)) ` set (Overrides inp))"
proof -
  note ok = admitted_config[OF assms(1,2)]
  have kept: "keptOverrides inp = filter (\<lambda>(k, x). directive k \<noteq> ''dir'') (Overrides inp)"
    unfolding keptOverrides_def filterOverrides_def
  proof (rule filter_cong[OF refl])
    fix kx assume m: "kx \<in> set (Overrides inp)"
    obtain k x where kx: "kx = (k, x)" by (cases kx)
    then have kx2: "(k, x) \<in> set (Overrides inp)" using m by simp
    show "(case kx of (k, v) \<Rightarrow> \<not> (ContainsInjectionChars k \<or> ContainsInjectionChars v) \<and>
        \<not> (directive k \<in> set (mandatoryKeyset (mandatoryDirectives inp)) \<or> directive k \<in> set bannedDirectiveKeys)) =
      (case kx of (k, x) \<Rightarrow> directive k \<noteq> ''dir'')"
      using ok(2)[OF kx2 assms(3)] mandatory_keys[of inp] kx by auto
  qed
  have line: "directive l \<in> {''dir'', ''sentinel''} \<or> directive l \<in> (\<lambda>(k, x). ToLower (TrimSpace k)) ` set (Overrides inp)"
    if "l \<in> set (Split (Configuration inp) newline)" "directive l \<in> set (skipped inp)" for l
  proof -
    have "directive l \<in> set (mandatoryKeyset (mandatoryDirectives inp)) \<or> directive l \<in> set bannedDirectiveKeys \<or>
        directive l \<in> (\<lambda>(k, x). ToLower (TrimSpace k)) ` set (keptOverrides inp)"
      using that(2) by (auto simp: skipped_def mergeKeysets_def)
    moreover have "directive l \<in> set bannedDirectiveKeys \<Longrightarrow> directive l = ''sentinel''" using admitted_line ok(1)[OF that(1)] by blast
    ultimately show ?thesis using mandatory_keys(1)[of inp] kept by auto
  qed
  have "directive l \<in> set (skipped inp) \<or> TrimSpace l = []"
    if "l \<in> set (Split (Configuration inp) newline)" "l \<notin> set (Split (Render inp) newline)" for l
  proof (rule ccontr)
    assume n: "\<not> (directive l \<in> set (skipped inp) \<or> TrimSpace l = [])"
    then have "l \<noteq> []" by (auto simp: TrimSpace_def)
    let ?P = "\<lambda>x. x = l"
    have "l \<in> set (filter (\<lambda>l. \<not> (directive l \<noteq> [] \<and> directive l \<in> set (skipped inp))) (Split (Configuration inp) newline))"
      using that(1) n by simp
    then have "l \<in> set (filter ?P (keptLines inp))"
      unfolding keptLines_def filter_trim_lines[where P = ?P, OF \<open>l \<noteq> []\<close>[symmetric]] by simp
    then have "l \<in> set (keptLines inp)" by simp
    then have "l \<in> set (renderLines inp)" by (auto simp: renderLines_def)
    then show False using that(2) by (simp add: Split_Render)
  qed
  with line kept show ?thesis by blast
qed

text \<open>
  C26. Admission rejects what the renderer would drop. Once the configuration rules of the webhook pass,
  the renderer drops an override only for the directive \<^verbatim>\<open>dir\<close>, and a line of the raw snippet only for
  \<^verbatim>\<open>dir\<close>, for \<^verbatim>\<open>sentinel\<close> or because an override replaces it: these two directives are the whole
  difference between the two lists.
\<close>

theorem admitted_config_survives:
  assumes "validateConfigBanlist (Configuration inp) (Overrides inp) = []" and "validateConfigControlChars (Configuration inp) (Overrides inp) = []"
    and "distinct (map fst (Overrides inp))"
  shows "keptOverrides inp = filter (\<lambda>(k, x). directive k \<noteq> ''dir'') (Overrides inp) \<and>
    (\<forall>l\<in>set (Split (Configuration inp) newline). l \<notin> set (Split (Render inp) newline) \<longrightarrow>
       TrimSpace l = [] \<or> directive l \<in> {''dir'', ''sentinel''} \<or> directive l \<in> (\<lambda>(k, x). ToLower (TrimSpace k)) ` set (Overrides inp))"
  by (rule admitted_renders[OF assms])

theorem admitted_config_survives_witness:
  "keptOverrides (example_config\<lparr>Configuration := ''save 60 1'', Overrides := [(''dir'', ''/x''), (''maxmemory'', ''1gb'')]\<rparr>) = [(''maxmemory'', ''1gb'')]"
proof -
  let ?i = "example_config\<lparr>Configuration := ''save 60 1'', Overrides := [(''dir'', ''/x''), (''maxmemory'', ''1gb'')]\<rparr>"
  have "validateConfigBanlist ''save 60 1'' [(''dir'', ''/x''), (''maxmemory'', ''1gb'')] = []"
    "validateConfigControlChars ''save 60 1'' [(''dir'', ''/x''), (''maxmemory'', ''1gb'')] = []" by code_simp+
  then have v: "validateConfigBanlist (Configuration ?i) (Overrides ?i) = []" "validateConfigControlChars (Configuration ?i) (Overrides ?i) = []" by simp_all
  have d: "directive ''dir'' = ''dir''" "directive ''maxmemory'' = ''maxmemory''" by code_simp+
  have "distinct (map fst (Overrides ?i))" by simp
  from admitted_config_survives[OF v this, THEN conjunct1] show ?thesis by (simp add: d)
qed

text \<open>
  C40. Two ways to smuggle an operator-owned directive. An override with an empty key passes the
  webhook's configuration rules for every one-line value, and the renderer writes the value as a line
  of its own, whose directive is that of the value. A raw line that begins with a quotation mark passes
  too and is rendered verbatim, although the server's own reader of the file removes the quotation
  marks around its first word.
\<close>

theorem smuggled_directive:
  assumes "\<not> ContainsInjectionChars x" and "\<not> Contains x ''_POD_IP_''" and "one_line l" and "\<not> ContainsNUL l" and "\<not> Contains (CHR 0x22 # l) ''_POD_IP_''"
    and "inp = \<lparr>Persistent = p, Configuration = CHR 0x22 # l, Overrides = [([], x)], RMinReplicasToWrite = a, RMinReplicasMaxLag = b\<rparr>"
  shows "validateConfigBanlist (CHR 0x22 # l) [([], x)] = [] \<and> validateConfigControlChars (CHR 0x22 # l) [([], x)] = [] \<and>
    validateReservedRenderTokens (CHR 0x22 # l) [([], x)] = [] \<and>
    ('' '' @ x) \<in> set (Split (Render inp) newline) \<and> directive ('' '' @ x) = directive x \<and> (CHR 0x22 # l) \<in> set (Split (Render inp) newline)"
proof -
  have q: "\<not> is_space (CHR 0x22)" "\<not> is_letter (CHR 0x22)" "\<not> re_space (CHR 0x22)"
    by (simp_all add: is_space_def is_letter_def re_space_def Let_def)
  obtain t where t: "TrimSpace (CHR 0x22 # l) = CHR 0x22 # t"
  proof -
    have "rev (dropWhile is_space (rev l @ [CHR 0x22])) = CHR 0x22 # rev (dropWhile is_space (rev l))"
      using q(1) by (induction l rule: rev_induct) (auto simp: dropWhile_append dropWhile_eq_Nil_conv)
    then show ?thesis using that q(1) by (simp add: TrimSpace_def)
  qed
  have "extractDirective (CHR 0x22 # t) = []" using q by (simp add: extractDirective_def configLineRegexp_def wordAt_def)
  then have nb: "\<not> bannedLine (CHR 0x22 # l)" by (simp add: bannedLine_def t Let_def HasPrefix_def)
  have sp: "Split (CHR 0x22 # l) newline = [CHR 0x22 # l]" using assms(3) by (intro Split_no_sep) (simp add: one_line_def)
  have nk: "[] \<notin> set bannedDirectiveKeys" by (simp add: bannedDirectiveKeys_def)
  have v1: "validateConfigBanlist (CHR 0x22 # l) [([], x)] = []"
    using nb sp nk by (simp add: validateConfigBanlist_def NormalizeDirectiveKey_def)
  have ij: "\<not> ContainsInjectionChars []" by (simp add: ContainsInjectionChars_def ContainsNUL_def)
  have v2: "validateConfigControlChars (CHR 0x22 # l) [([], x)] = []"
    using assms(1,4) ij by (simp add: validateConfigControlChars_def ContainsNUL_def)
  have v3: "validateReservedRenderTokens (CHR 0x22 # l) [([], x)] = []"
    using assms(2,5) by (simp add: validateReservedRenderTokens_def reservedRenderTokens_def PodIPPlaceholder_def SentinelAnnounceIPPlaceholder_def)
  have k: "keptOverrides inp = [([], x)]"
    using admitted_renders[of inp] v1 v2 assms(6) by simp
  then have "'' '' @ x \<in> set (overrideLines inp)" by (simp add: overrideLines_def overrideLine_def)
  then have o: "('' '' @ x) \<in> set (Split (Render inp) newline)" using k by (simp add: Split_Render renderLines_def)
  have "first_token (CHR 0x22 # l) = CHR 0x22 # takeWhile (\<lambda>c. \<not> is_space c) l" using q(1) by (simp add: first_token_def)
  then have d: "directive (CHR 0x22 # l) = ToLower (CHR 0x22 # takeWhile (\<lambda>c. \<not> is_space c) l)" by (simp add: directive_token)
  have "directive (CHR 0x22 # l) \<notin> {''dir'', ''sentinel'', []}" unfolding d by (simp add: ToLower_def lower_byte_def)
  moreover have "ToLower (TrimSpace []) = []" by (simp add: TrimSpace_def ToLower_def)
  moreover have "\<forall>l'\<in>set (Split (Configuration inp) newline). l' \<notin> set (Split (Render inp) newline) \<longrightarrow>
       TrimSpace l' = [] \<or> directive l' \<in> {''dir'', ''sentinel''} \<or> directive l' \<in> (\<lambda>(k, x). ToLower (TrimSpace k)) ` set (Overrides inp)"
    using admitted_renders[of inp, THEN conjunct2] v1 v2 assms(6) by simp
  ultimately have "(CHR 0x22 # l) \<in> set (Split (Render inp) newline)" using sp t assms(6) by auto
  then show ?thesis using v1 v2 v3 o directive_blank[of "[]" x] by (simp add: first_token_def)
qed

theorem smuggled_directive_witness:
  "validateConfigBanlist [CHR 0x22] [([], ''requirepass x'')] = [] \<and>
   '' requirepass x'' \<in> set (Split (Render \<lparr>Persistent = False, Configuration = [CHR 0x22], Overrides = [([], ''requirepass x'')],
     RMinReplicasToWrite = None, RMinReplicasMaxLag = None\<rparr>) newline) \<and> directive '' requirepass x'' = ''requirepass''"
proof -
  have h: "\<not> ContainsInjectionChars ''requirepass x''" "\<not> Contains ''requirepass x'' ''_POD_IP_''" "one_line []" "\<not> ContainsNUL []"
    "\<not> Contains [CHR 0x22] ''_POD_IP_''" "directive ''requirepass x'' = ''requirepass''" by code_simp+
  from smuggled_directive[OF h(1-5) refl, where p = False and a = None and b = None] h(6) show ?thesis by simp
qed

section \<open>Timing floors\<close>

lemma pdb_reason: "d \<in> set (pdbBelowDefault f p r) \<Longrightarrow> DReason d = ''PDBTooPermissive''"
  by (cases p; cases "MinAvailable (the p)") (auto simp: pdbBelowDefault_def deviation_def split: IntOrString.splits if_splits)

lemma affinity_reason: "d \<in> set (antiAffinityBelowDefault f a r c) \<Longrightarrow> DReason d = ''AntiAffinityTooPermissive''"
  by (cases a; cases "AntiAffinity (the a)") (auto simp: antiAffinityBelowDefault_def deviation_def split: if_splits)

lemma deviation_reasons:
  "d \<in> set (pdbDeviations v @ antiAffinityDeviations v @ rolloutDeviations v) \<Longrightarrow>
   DReason d \<in> {''PDBTooPermissive'', ''MaxUnavailableInsteadOfMin'', ''AntiAffinityTooPermissive'', ''RolloutFragileQuorum'', ''RolloutGraceTooTight''}"
  by (cases "CSentinel (CSpec v)"; cases "VPDB (CValkey (CSpec v))")
    (auto simp: pdbDeviations_def antiAffinityDeviations_def rolloutDeviations_def Let_def deviation_def dest: pdb_reason affinity_reason split: if_splits)

text \<open>
  The bands of the sentinel timings. For a CR in sentinel mode, a timing is reported as an error
  exactly when it is below its floor and the escape annotation is not literally true; an admitted CR
  below a floor carries the annotation and leaves an audit entry with both values, and no other
  admitted CR does; and the warning of an aggressive down-after is given exactly from the floor up to
  the recommended value.
\<close>

theorem timing_bands:
  assumes "CMode (CSpec v) = ModeSentinel" and "CSentinel (CSpec v) = Some s"
    and "bypass \<longleftrightarrow> annotation (CRAnnotations v) ''velkir.ioxie.dev/allow-aggressive-timeouts'' = Some ''true''"
    and "low \<longleftrightarrow> DownAfterMilliseconds s < 1000 \<or> FailoverTimeout s < 180000"
  shows "(fst (snd (validateSentinelTimingFloors v)) \<noteq> [] \<longleftrightarrow> low \<and> \<not> bypass)
    \<and> (fst (snd (validate v)) = [] \<and> low \<longrightarrow> bypass)
    \<and> (fst (snd (validate v)) = [] \<longrightarrow>
         snd (snd (validate v)) = (if low then [AggressiveTimeoutsAccepted (DownAfterMilliseconds s) (FailoverTimeout s)] else []))
    \<and> (deviation ''WarnAggressiveTimeouts'' ''spec.sentinel.downAfterMilliseconds'' \<in> set (Deviations v) \<longleftrightarrow>
         1000 \<le> DownAfterMilliseconds s \<and> DownAfterMilliseconds s < 30000)"
proof -
  have m: "sentinelMode v = Some s" using assms(1,2) by (simp add: sentinelMode_def)
  have bp: "annotation (CRAnnotations v) AllowAggressiveTimeoutsAnnotation = Some triggerTrueValue \<longleftrightarrow> bypass"
    unfolding assms(3) by (simp add: AllowAggressiveTimeoutsAnnotation_def triggerTrueValue_def)
  have t: "fst (snd (validateSentinelTimingFloors v)) \<noteq> [] \<longleftrightarrow> low \<and> \<not> bypass" "snd (snd (validateSentinelTimingFloors v)) \<longleftrightarrow> low \<and> bypass"
    unfolding validateSentinelTimingFloors_def m option.case Let_def bp assms(4)
    by (auto simp: checkFloor_def downAfterFloor_def failoverTimeoutFloor_def)
  have e: "validateErrors v = [] \<Longrightarrow> fst (snd (validateSentinelTimingFloors v)) = []" by (simp add: validateErrors_def Let_def)
  have dr: "deviation ''WarnAggressiveTimeouts'' ''spec.sentinel.downAfterMilliseconds'' \<in> set (Deviations v) \<longleftrightarrow>
      deviation ''WarnAggressiveTimeouts'' ''spec.sentinel.downAfterMilliseconds'' \<in> set (sentinelTimingDeviations v)"
  proof -
    have "DReason d \<noteq> ''WarnAggressiveTimeouts''" if "d \<in> set (pdbDeviations v @ antiAffinityDeviations v @ rolloutDeviations v)" for d
      using deviation_reasons[OF that] by auto
    then show ?thesis unfolding Deviations_def by (fastforce simp: deviation_def)
  qed
  have "sentinelTimingDeviations v = (if 1000 \<le> DownAfterMilliseconds s \<and> DownAfterMilliseconds s < 30000
      then [deviation ''WarnAggressiveTimeouts'' ''spec.sentinel.downAfterMilliseconds''] else [])"
    by (simp add: sentinelTimingDeviations_def m downAfterFloor_def downAfterRecommended_def)
  then show ?thesis using t e dr assms(2) by (auto simp: validate_def Let_def)
qed

theorem timing_bands_witness:
  "fst (snd (validateSentinelTimingFloors (minimal_cr\<lparr>CSpec := (CSpec minimal_cr)\<lparr>CSentinel :=
     Some ((the (CSentinel (CSpec minimal_cr)))\<lparr>DownAfterMilliseconds := 500, FailoverTimeout := 180000\<rparr>)\<rparr>\<rparr>))) \<noteq> []"
proof -
  let ?s = "(the (CSentinel (CSpec minimal_cr)))\<lparr>DownAfterMilliseconds := 500, FailoverTimeout := 180000\<rparr>"
  let ?v = "minimal_cr\<lparr>CSpec := (CSpec minimal_cr)\<lparr>CSentinel := Some ?s\<rparr>\<rparr>"
  have "CMode (CSpec ?v) = ModeSentinel" "CSentinel (CSpec ?v) = Some ?s" by (simp_all add: minimal_cr_def)
  from timing_bands[OF this refl refl, THEN conjunct1] show ?thesis by (simp add: minimal_cr_def annotation_def)
qed

section \<open>A bare resource is admitted\<close>

definition bare_sentinel :: "SentinelPod \<Rightarrow> bool" where
  "bare_sentinel s \<longleftrightarrow>
     SentinelReplicas s = 0 \<and> SpecQuorum s = 0 \<and> DownAfterMilliseconds s = 0 \<and> FailoverTimeout s = 0 \<and> SPDB s = None \<and> SAffinity s = None \<and>
     SResources s = \<lparr>Requests = None, Limits = None\<rparr> \<and> SPodAnnotations s = None \<and> SPodLabels s = None"

definition bare_valkey :: "ValkeyPod \<Rightarrow> bool" where
  "bare_valkey p \<longleftrightarrow>
     Replicas p = 0 \<and> GateMaxLagBytes (ReadinessGate p) = None \<and> VLiveness p = None \<and> VAffinity p = None \<and> VPodAnnotations p = None \<and> VPodLabels p = None \<and>
     VConfiguration p = [] \<and> VOverrides p = [] \<and> VPDB p = None"

definition bare :: "ValkeyCR \<Rightarrow> bool" where
  "bare v \<longleftrightarrow>
     CRAnnotations v = None \<and> FeatureGates (CSpec v) = [] \<and> CImage (CSpec v) = \<lparr>ImageValkey = zeroImage, ImageSentinel = zeroImage, ImageExporter = zeroImage\<rparr> \<and>
     bare_valkey (CValkey (CSpec v)) \<and> MaxUnavailable (CRollout (CSpec v)) = 0 \<and> FailoverGracePeriodSeconds (CRollout (CSpec v)) = 0 \<and>
     (case CSentinel (CSpec v) of None \<Rightarrow> CMode (CSpec v) \<noteq> ModeSentinel | Some s \<Rightarrow> bare_sentinel s)"

lemma soft_targets: "hasSamePodSetAntiAffinity \<lparr>RequiredTerms = [], PreferredTerms = [(100, softTerm n c)]\<rparr> c"
  by (simp add: hasSamePodSetAntiAffinity_def termTargetsComponent_def softTerm_def CRLabelKey_def ComponentLabelKey_def)

lemma stamped_affinity: "antiAffinityBelowDefault f (affinityFor r c n None) r c = []"
  using soft_targets[of n c] by (simp add: antiAffinityBelowDefault_def affinityFor_def ensureSoftPodAntiAffinity_def Let_def)

lemma stamped_pdb: "pdbBelowDefault f (pdbFor r None) r = []"
  by (simp add: pdbBelowDefault_def pdbFor_def)

lemma default_images:
  "validateImageBanlist \<lparr>ImageValkey = DefaultValkeyImage, ImageSentinel = DefaultValkeyImage, ImageExporter = DefaultExporterImage\<rparr> = []"
  "validateImageTagFormat \<lparr>ImageValkey = DefaultValkeyImage, ImageSentinel = DefaultValkeyImage, ImageExporter = DefaultExporterImage\<rparr> = ([], [])"
  "validateValkeyImageMajorSupported DefaultValkeyImage = []"
  by code_simp+

lemma bare_Default:
  assumes "bare v"
  shows "CRAnnotations (Default req v) = None"
proof -
  have "foldl (stampRequestor u) [] ts = []" for u ts by (induction ts) (simp_all add: stampRequestor_def Let_def)
  then show ?thesis using assms
    by (cases req) (simp_all add: bare_def Default_def stampOperatorTriggerRequestor_def stampManagedByLabel_def Let_def)
qed

lemma filled_sentinel:
  assumes "bare_sentinel s"
  shows "sentinelFilled n s = s\<lparr>SentinelReplicas := 3, SpecQuorum := 2, DownAfterMilliseconds := 3000, FailoverTimeout := 180000,
    ParallelSyncs := orDefault (ParallelSyncs s) 1, SPDB := pdbFor 3 None, SResources := \<lparr>Requests = Some sentinelBaseline, Limits = Some sentinelBaseline\<rparr>,
    SLiveness := filled (SLiveness s) (tcpProbe 30 10 6), SReadiness := filled (SReadiness s) (tcpProbe 5 5 3), SAffinity := affinityFor 3 ComponentSentinel n None\<rparr>"
proof -
  have "majority 3 = 2" by (simp add: majority_def goDiv_def wrap32_def)
  then show ?thesis using assms
    by (simp add: sentinelFilled_def bare_sentinel_def orDefault_def[of 0] guaranteed_def Let_def)
qed

text \<open>
  C34. A resource that leaves everything to the operator is admitted after defaulting: no rule of the
  webhook rejects it, in any mode and for any user. It is admitted in silence outside sentinel mode;
  in sentinel mode the stamped down-after of three seconds always draws the warning of aggressive
  timeouts, and that is the only one.
\<close>

theorem bare_resource_admitted:
  assumes "bare v"
  shows "validate (Default req v) =
    ((if CMode (CSpec v) = ModeSentinel then [DeviationWarning (deviation ''WarnAggressiveTimeouts'' ''spec.sentinel.downAfterMilliseconds'')] else []), [], [])"
proof -
  define w where "w = Default req v"
  define r where "r = replicasFilled (CMode (CSpec v)) 0"
  have b: "bare_valkey (CValkey (CSpec v))" "FeatureGates (CSpec v) = []" "MaxUnavailable (CRollout (CSpec v)) = 0"
    "FailoverGracePeriodSeconds (CRollout (CSpec v)) = 0" using assms by (simp_all add: bare_def)
  have i: "CImage (CSpec w) = \<lparr>ImageValkey = DefaultValkeyImage, ImageSentinel = DefaultValkeyImage, ImageExporter = DefaultExporterImage\<rparr>"
    using assms by (simp add: w_def bare_def specFilled_def imageFilled_def)
  have an: "CRAnnotations w = None" using bare_Default[OF assms] by (simp add: w_def)
  have p: "Replicas (CValkey (CSpec w)) = r" "VPDB (CValkey (CSpec w)) = pdbFor r None" "VAffinity (CValkey (CSpec w)) = affinityFor r ComponentValkey (CRName v) None"
    "VPodLabels (CValkey (CSpec w)) = None" "VPodAnnotations (CValkey (CSpec w)) = None" "VConfiguration (CValkey (CSpec w)) = []"
    "VOverrides (CValkey (CSpec w)) = []" "VLiveness (CValkey (CSpec w)) = Some (execProbe 30 6)" "GateMaxLagBytes (ReadinessGate (CValkey (CSpec w))) = Some 1048576"
    using b(1) by (simp_all add: w_def specFilled_def valkeyFilled_def bare_valkey_def r_def filled_def)
  have o: "CMode (CSpec w) = CMode (CSpec v)" "FeatureGates (CSpec w) = []" "MaxUnavailable (CRollout (CSpec w)) = 1" "FailoverGracePeriodSeconds (CRollout (CSpec w)) = 0"
    "CSentinel (CSpec w) = map_option (sentinelFilled (CRName v)) (CSentinel (CSpec v))"
    using b by (simp_all add: w_def specFilled_def rolloutFilled_def orDefault_def)
  have c: "validateConfigBanlist [] [] = []" "validateConfigControlChars [] [] = []" "validateReservedRenderTokens [] [] = []"
    "validateOperatorTriggerAnnotations None = []" "validateProbeHandler q (Some (execProbe x y)) = []"
    "\<not> (MinAvailable \<lparr>MinAvailable = Some z, PDBMaxUnavailable = None\<rparr> = None)" for q x y z
    by (simp_all add: validateConfigBanlist_def validateConfigControlChars_def ContainsNUL_def validateReservedRenderTokens_def
        validateOperatorTriggerAnnotations_def annotation_def validateProbeHandler_def execProbe_def)
  have pm: "(case pdbFor r None of None \<Rightarrow> [] | Some p \<Rightarrow> if MinAvailable p = None \<and> PDBMaxUnavailable p \<noteq> None
      then [deviation ''MaxUnavailableInsteadOfMin'' ''spec.valkey.pdb''] else []) = []" by (simp add: pdbFor_def)
  have gate: "validateFeatureGates [] = []" by (simp add: validateFeatureGates_def)
  note V = validate_def validateErrors_def validateWarnings_def Deviations_def pdbDeviations_def antiAffinityDeviations_def rolloutDeviations_def
    sentinelTimingDeviations_def validateSentinelTimingFloors_def validateSentinelHA_def validateSentinelReplicaParity_def
    validateSentinelQuorumSubMajority_def validateSentinelQoS_def validateReadinessGateMaxLagBytes_def sentinelMode_def Let_def
  show ?thesis unfolding w_def[symmetric]
  proof (cases "CSentinel (CSpec v)")
    case None
    then have "CMode (CSpec v) \<noteq> ModeSentinel" using assms by (simp add: bare_def)
    then show "validate w = ((if CMode (CSpec v) = ModeSentinel then [DeviationWarning (deviation ''WarnAggressiveTimeouts'' ''spec.sentinel.downAfterMilliseconds'')] else []), [], [])"
      using None by (simp add: V i an p o c default_images stamped_affinity stamped_pdb pm gate validateReservedLabels_def validateReservedAnnotations_def)
  next
    case (Some s)
    then have bs: "bare_sentinel s" using assms by (simp add: bare_def)
    define t where "t = sentinelFilled (CRName v) s"
    have t: "SentinelReplicas t = 3" "SpecQuorum t = 2" "DownAfterMilliseconds t = 3000" "FailoverTimeout t = 180000" "SPDB t = pdbFor 3 None"
      "SAffinity t = affinityFor 3 ComponentSentinel (CRName v) None" "SResources t = \<lparr>Requests = Some sentinelBaseline, Limits = Some sentinelBaseline\<rparr>"
      "SPodAnnotations t = None" "SPodLabels t = None"
      unfolding t_def filled_sentinel[OF bs] using bs by (simp_all add: bare_sentinel_def)
    have cs: "CSentinel (CSpec w) = Some t" using o(5) Some by (simp add: t_def)
    have "majority 3 = 2" by (simp add: majority_def goDiv_def wrap32_def)
    moreover have "CMode (CSpec v) = ModeSentinel \<Longrightarrow> 2 \<le> r" by (simp add: r_def replicasFilled_def orDefault_def)
    ultimately show "validate w = ((if CMode (CSpec v) = ModeSentinel then [DeviationWarning (deviation ''WarnAggressiveTimeouts'' ''spec.sentinel.downAfterMilliseconds'')] else []), [], [])"
      by (simp add: V i an p o(1-4) cs t c resourceOf_def sentinelBaseline_def default_images stamped_affinity stamped_pdb pm gate validateReservedLabels_def validateReservedAnnotations_def
          checkFloor_def downAfterFloor_def failoverTimeoutFloor_def downAfterRecommended_def)
  qed
qed

theorem bare_resource_admitted_witness:
  "fst (validate (Default (Some ''alice'') (minimal_cr\<lparr>CRAnnotations := None,
     CSpec := (CSpec minimal_cr)\<lparr>CSentinel := Some ((the (CSentinel (CSpec minimal_cr)))\<lparr>SentinelReplicas := 0\<rparr>)\<rparr>\<rparr>))) =
   [DeviationWarning (deviation ''WarnAggressiveTimeouts'' ''spec.sentinel.downAfterMilliseconds'')]"
proof -
  have "bare (minimal_cr\<lparr>CRAnnotations := None,
     CSpec := (CSpec minimal_cr)\<lparr>CSentinel := Some ((the (CSentinel (CSpec minimal_cr)))\<lparr>SentinelReplicas := 0\<rparr>)\<rparr>\<rparr>)"
    by (simp add: minimal_cr_def bare_def bare_valkey_def bare_sentinel_def)
  from bare_resource_admitted[OF this, of "Some ''alice''"] show ?thesis by (simp add: minimal_cr_def)
qed

end
