(* ===== verification/Status_Update.thy ===== *)
theory Status_Update
  imports Rollout_Dispatch Status_Conditions
begin

text \<open>
  The status write at the end of every reconcile, from
  \<^verbatim>\<open>internal/controller/valkey_controller.go\<close>: the reads of the in-memory trackers, the observation
  they feed to the evaluators, the patch of the status subresource (\<open>updateStatus\<close>), the readiness
  watchdog's verdict, and the requeue hints of the status defer.

  \<^verbatim>\<open>meta.SetStatusCondition\<close> is library code and so the parameter \<open>setCond\<close>; \<open>set_condition\<close> is what
  it documents, on the fields the model keeps. The transition times it also maintains are not read
  by the operator. The merge of the patch is the parameter \<open>merge\<close>; \<open>merge_fields\<close> is what a merge
  patch does to the condition array and to the two strings. The gauges are left out.

  The lemmas show that the stored conditions are those of the evaluators, what evidence stands
  behind a stored \<^verbatim>\<open>Ready\<close> and behind \<^verbatim>\<open>MasterLost\<close>, and the bounds on the requeue.
\<close>

section \<open>Definitions\<close>

definition masterInfoProbeFreshnessWindow :: duration where
  "masterInfoProbeFreshnessWindow = 2 * sqKeepAliveInterval"

definition masterLostFromTimeout :: "gotime option \<Rightarrow> gotime \<Rightarrow> int \<Rightarrow> gotime \<Rightarrow> bool" where
  "masterLostFromTimeout since probedAt downAfterMillis now =
     (case since of
        None \<Rightarrow> False
      | Some t \<Rightarrow>
          if downAfterMillis \<le> 0 then False
          else if IsZero probedAt \<or> masterInfoProbeFreshnessWindow < Sub now probedAt then False
          else downAfterMillis * (Second div 1000) \<le> Sub now t)"

fun findReplicationConditionC :: "(string \<times> ConditionStatus) list \<Rightarrow> ConditionStatus option" where
  "findReplicationConditionC [] = None"
| "findReplicationConditionC ((t, s) # cs) =
     (if t = ReplicationReadyGate then Some s else findReplicationConditionC cs)"

definition findReplicationCondition :: "Pod \<Rightarrow> ConditionStatus option" where
  "findReplicationCondition p = findReplicationConditionC (pConditions p)"

definition observeReplicationHealthy :: "Valkey \<Rightarrow> Pod list option \<Rightarrow> ReplicationObservation" where
  "observeReplicationHealthy v listed =
     (if mode_of v = ModeStandalone then \<lparr>GateEnabled = False, ReplReadyReplicas = 0\<rparr>
      else if Enabled (ReadinessGate (SpecValkey (Spec v))) \<noteq> Some True
      then \<lparr>GateEnabled = False, ReplReadyReplicas = 0\<rparr>
      else \<lparr>GateEnabled = True,
            ReplReadyReplicas =
              (case listed of
                 None \<Rightarrow> 0
               | Some pods \<Rightarrow>
                   int (length (filter (\<lambda>p. role p = roleValueReplica \<and>
                          findReplicationCondition p = Some ConditionTrue) pods)))\<rparr>)"

text \<open>The clock readings of one status update, in the order the code takes them.\<close>

record statusClock =
  tLinkup :: gotime
  tMaster :: gotime
  tTopology :: gotime
  tDual :: gotime

text \<open>What the caller passes: the status defer computed it, or the reconcile left it.\<close>

record statusInputs =
  siSts :: "StatefulSet option"
  siError :: "string option"
  siPaused :: bool
  siWatchdog :: WatchdogResult
  siQuorum :: AggResult
  siSplitBrain :: bool
  siNoMaster :: bool
  siPods :: "Pod list option"

definition downAfterOf :: "Valkey \<Rightarrow> int" where
  "downAfterOf v =
     (case SpecSentinel (Spec v) of None \<Rightarrow> 0 | Some sp \<Rightarrow> API_Types.DownAfterMilliseconds sp)"

definition statusObservation ::
  "statusClock \<Rightarrow> Valkey \<Rightarrow> statusInputs \<Rightarrow> perCRState \<Rightarrow> perCRState \<times> Observation" where
  "statusObservation c v si s =
     (let (s1, stuck, supp, lost, mism, sd, rd1) =
            (if mode_of v = ModeSentinel then
               (let (s0, q) = quorumTracker s;
                    (q1, stuck) = strandedLinkupStuckActiveOrExpire q (tLinkup c);
                    lost = masterLostFromTimeout (masterInfoTimeoutSince q1) (masterInfoObservedAt q1)
                             (downAfterOf v) (tMaster c);
                    (q2, mism, sd, rd1) = topologyMismatchActiveOrExpire q1 (tTopology c)
                in (s0\<lparr>quorum := Some q2\<rparr>, stuck, suppressionActive q1, lost, mism, sd, rd1))
             else (s, False, False, False, False, 0, 0));
          (s2, dual) =
            (if mode_of v \<noteq> ModeStandalone
             then dualMasterActiveOrExpire (\<lambda>ob. dualMasterActiveFromStamp ob (tDual c)) s1
             else (s1, False))
      in (s2, \<lparr>CR = Some v, STS = siSts si, ReconcileError = siError si, Paused = siPaused si,
               RolloutWatchdog = siWatchdog si, SentinelQuorum = siQuorum si,
               SplitBrainActive = siSplitBrain si, NoMasterAgreementActive = siNoMaster si,
               MasterLostActive = lost, DualMasterActive = dual,
               SentinelPeerLinkupStuckActive = stuck, QuorumSuppressionActive = supp,
               Replication = observeReplicationHealthy v (siPods si),
               SentinelTopologyMismatchActive = mism, SentinelTopologySentinelDeficit = sd,
               SentinelTopologyReplicaDeficit = rd1\<rparr>))"

datatype patchResult = PatchApplied | PatchConflict | PatchFailed

definition patchedStatus ::
  "(Condition list \<Rightarrow> Condition \<Rightarrow> Condition list) \<Rightarrow> Valkey \<Rightarrow> statusInputs \<Rightarrow> Observation \<Rightarrow> ValkeyStatus" where
  "patchedStatus setCond v si ob =
     (let (conds, phase) = Evaluate ob;
          p1 = (Status v)\<lparr>Conditions := foldl setCond (Conditions (Status v)) conds, StatusPhase := phase\<rparr>;
          p2 = (if Active (siWatchdog si) \<and> Expired (siWatchdog si)
                then updRollout (\<lambda>r. r\<lparr>MasterAware := Some Disarm\<rparr>) p1 else p1)
      in p2\<lparr>StatusPrimaryPod := PrimaryPod (siQuorum si)\<rparr>)"

text \<open>
  The patch is the difference from the object in memory; on success the answer of the server
  replaces the patched copy, so the resolved event compares the stored conditions.
\<close>

definition updateStatus ::
  "merge \<Rightarrow> (Condition list \<Rightarrow> Condition \<Rightarrow> Condition list) \<Rightarrow> patchResult \<Rightarrow> statusClock \<Rightarrow> Valkey \<Rightarrow>
   statusInputs \<Rightarrow> ValkeyStatus \<Rightarrow> perCRState \<Rightarrow> (ValkeyStatus \<times> perCRState) \<times> string list \<times> bool" where
  "updateStatus merge setCond res c v si stored s =
     (let (s', ob) = statusObservation c v si s;
          patched = patchedStatus setCond v si ob
      in case res of
           PatchConflict \<Rightarrow> ((stored, s'), [], True)
         | PatchFailed \<Rightarrow> ((stored, s'), [], False)
         | PatchApplied \<Rightarrow>
             (let st = merge (Status v) patched stored
              in ((st, s'),
                  if DegradedFlippedFalse (Conditions (Status v)) (Conditions st)
                  then [''DegradedResolved''] else [], True)))"

definition masterAwareSubstate :: "Valkey \<Rightarrow> MasterAwareRolloutStatus option" where
  "masterAwareSubstate v = (case Rollout (Status v) of None \<Rightarrow> None | Some r \<Rightarrow> MasterAware r)"

definition evaluateRolloutWatchdog ::
  "gotime \<Rightarrow> gotime \<Rightarrow> Valkey \<Rightarrow> bool \<Rightarrow> WatchdogResult \<times> duration \<times> string list" where
  "evaluateRolloutWatchdog now1 now2 v paused =
     (if paused then (\<lparr>Active = False, Expired = False, PodName = [], WDeadline = 0\<rparr>, 0, [])
      else
        (let wd = Check now1 (masterAwareSubstate v)
         in if \<not> Active wd then (wd, 0, [])
            else if Expired wd then (wd, 0, [''RolloutStalled''])
            else if 0 < Sub (WDeadline wd) now2 then (wd, Sub (WDeadline wd) now2, [])
            else (wd, 0, [])))"

section \<open>Requeue hints of the status defer\<close>

definition readyConvergeRequeue :: duration where
  "readyConvergeRequeue = 5 * Second"

definition quorumSuppressedRequeue :: duration where
  "quorumSuppressedRequeue = DefaultPollInterval"

definition baselineReconcileWatchdog :: duration where
  "baselineReconcileWatchdog = 5 * Minute"

definition sentinelKeepAliveRequeue :: "bool \<Rightarrow> duration" where
  "sentinelKeepAliveRequeue isSentinel = (if isSentinel then sqKeepAliveInterval else 0)"

definition statusRequeueHint :: "Valkey \<Rightarrow> StatefulSet option \<Rightarrow> bool \<Rightarrow> bool \<Rightarrow> duration" where
  "statusRequeueHint v gotSts paused reachedSteadyState =
     (let h1 = (case gotSts of
                  None \<Rightarrow> 0
                | Some sts \<Rightarrow>
                    (case StsReplicas sts of
                       None \<Rightarrow> 0
                     | Some n \<Rightarrow>
                         if \<not> paused \<and> 0 < n \<and> ReadyReplicas sts < n
                         then mergeRequeue 0 readyConvergeRequeue else 0))
      in if reachedSteadyState
         then mergeRequeue h1 (sentinelKeepAliveRequeue (mode_of v = ModeSentinel)) else h1)"

definition applyStatusRequeue :: "duration \<Rightarrow> Valkey \<Rightarrow> StatefulSet option \<Rightarrow> bool \<Rightarrow> bool \<Rightarrow> duration" where
  "applyStatusRequeue result v gotSts paused reachedSteadyState =
     mergeRequeue result (statusRequeueHint v gotSts paused reachedSteadyState)"

definition suppressionPaceHint :: "duration \<Rightarrow> perCRState \<Rightarrow> bool \<Rightarrow> duration" where
  "suppressionPaceHint current s reachedSteadyState =
     (if \<not> reachedSteadyState then current
      else if \<not> IsSentinelSuppressed s then current
      else mergeRequeue current quorumSuppressedRequeue)"

text \<open>
  The requeue of a pass that ran every phase: the hints of the observation pass and of the apply
  phases, the baseline, and then what the status defer merges into the named result.
\<close>

definition steadyRequeue ::
  "duration \<Rightarrow> duration \<Rightarrow> duration \<Rightarrow> Valkey \<Rightarrow> StatefulSet option \<Rightarrow> bool \<Rightarrow> perCRState \<Rightarrow> duration" where
  "steadyRequeue observeHint applyHint watchdogHint v gotSts paused s =
     (let body = mergeRequeue (mergeRequeue (mergeRequeue 0 observeHint) applyHint) baselineReconcileWatchdog;
          r1 = mergeRequeue body watchdogHint
      in suppressionPaceHint (applyStatusRequeue r1 v gotSts paused True) s True)"

section \<open>Library hypotheses\<close>

definition set_condition :: "(Condition list \<Rightarrow> Condition \<Rightarrow> Condition list) \<Rightarrow> bool" where
  "set_condition setCond \<longleftrightarrow>
     (\<forall>cs c t. findCondition (setCond cs c) t = (if t = CondType c then Some c else findCondition cs t))"

definition merge_fields :: "merge \<Rightarrow> bool" where
  "merge_fields merge \<longleftrightarrow>
     (\<forall>orig new stored.
        Conditions (merge orig new stored) =
          (if Conditions orig = Conditions new then Conditions stored else Conditions new) \<and>
        StatusPhase (merge orig new stored) =
          (if StatusPhase orig = StatusPhase new then StatusPhase stored else StatusPhase new) \<and>
        StatusPrimaryPod (merge orig new stored) =
          (if StatusPrimaryPod orig = StatusPrimaryPod new then StatusPrimaryPod stored
           else StatusPrimaryPod new))"

text \<open>Instances, which the examples are evaluated with.\<close>

definition putCond :: "Condition list \<Rightarrow> Condition \<Rightarrow> Condition list" where
  "putCond cs c =
     (if list_ex (\<lambda>d. CondType d = CondType c) cs
      then map (\<lambda>d. if CondType d = CondType c then c else d) cs else cs @ [c])"

definition fullMerge :: merge where
  "fullMerge orig new stored =
     (statusMerge orig new stored)
       \<lparr>Conditions := (if Conditions orig = Conditions new then Conditions stored else Conditions new),
        StatusPhase := (if StatusPhase orig = StatusPhase new then StatusPhase stored else StatusPhase new),
        StatusPrimaryPod := (if StatusPrimaryPod orig = StatusPrimaryPod new then StatusPrimaryPod stored
           else StatusPrimaryPod new)\<rparr>"

lemma find_put_other:
  "t \<noteq> CondType c \<Longrightarrow> findCondition (map (\<lambda>d. if CondType d = CondType c then c else d) cs) t = findCondition cs t"
  by (induction cs) auto

lemma find_put_map:
  "list_ex (\<lambda>d. CondType d = CondType c) cs \<Longrightarrow>
   findCondition (map (\<lambda>d. if CondType d = CondType c then c else d) cs) t =
     (if t = CondType c then Some c else findCondition cs t)"
  "\<not> list_ex (\<lambda>d. CondType d = CondType c) cs \<Longrightarrow>
   findCondition (cs @ [c]) t = (if t = CondType c then Some c else findCondition cs t)"
  by (induction cs) (auto simp: find_put_other)

lemma set_condition_putCond: "set_condition putCond"
  unfolding set_condition_def putCond_def by (simp add: find_put_map)

lemma merge_fields_fullMerge: "merge_fields fullMerge"
  by (simp add: merge_fields_def fullMerge_def)

lemma rolloutOf_fields [simp]:
  "rolloutOf (st\<lparr>Conditions := a\<rparr>) = rolloutOf st" "rolloutOf (st\<lparr>StatusPhase := b\<rparr>) = rolloutOf st"
  "rolloutOf (st\<lparr>StatusPrimaryPod := d\<rparr>) = rolloutOf st"
  by (simp_all add: rolloutOf_def)

lemma merge_patch_fullMerge: "merge_patch floorSecond fullMerge"
  using merge_patch_statusMerge by (simp add: merge_patch_def fullMerge_def)

section \<open>What is stored\<close>

lemma find_fold:
  assumes "set_condition setCond" and "distinct (map CondType ds)"
  shows "findCondition (foldl setCond cs ds) t =
    (case findCondition ds t of Some c \<Rightarrow> Some c | None \<Rightarrow> findCondition cs t)"
  using assms(2)
proof (induction ds arbitrary: cs)
  case (Cons d ds)
  have f: "findCondition ds (CondType d) = None"
    using Cons.prems by (induction ds) auto
  have "findCondition (foldl setCond cs (d # ds)) t =
      (case findCondition ds t of Some c \<Rightarrow> Some c | None \<Rightarrow> findCondition (setCond cs d) t)"
    using Cons.IH[of "setCond cs d"] Cons.prems by simp
  moreover have "findCondition (setCond cs d) t = (if t = CondType d then Some d else findCondition cs t)"
    using assms(1) unfolding set_condition_def by blast
  ultimately show ?case using f by (cases "CondType d = t") (auto split: option.split)
qed simp

lemma Evaluate_distinct: "distinct (map CondType (fst (Evaluate ob)))"
  unfolding Evaluate_types by code_simp

lemma patched_fields:
  "Conditions (patchedStatus setCond v si ob) = foldl setCond (Conditions (Status v)) (fst (Evaluate ob))"
  "StatusPhase (patchedStatus setCond v si ob) = snd (Evaluate ob)"
  "StatusPrimaryPod (patchedStatus setCond v si ob) = PrimaryPod (siQuorum si)"
  by (cases "Evaluate ob", simp add: patchedStatus_def updRollout_def Let_def)+

lemma stored_fields:
  assumes "set_condition setCond" and "merge_fields merge"
    and "Conditions stored = Conditions (Status v)" and "StatusPhase stored = StatusPhase (Status v)"
    and "StatusPrimaryPod stored = StatusPrimaryPod (Status v)"
    and "st = merge (Status v) (patchedStatus setCond v si ob) stored"
  shows "findCondition (Conditions st) t =
      (case findCondition (fst (Evaluate ob)) t of Some c \<Rightarrow> Some c | None \<Rightarrow> findCondition (Conditions stored) t)"
    and "StatusPhase st = snd (Evaluate ob)" and "StatusPrimaryPod st = PrimaryPod (siQuorum si)"
proof -
  have m: "Conditions st = foldl setCond (Conditions (Status v)) (fst (Evaluate ob))"
    "StatusPhase st = snd (Evaluate ob)" "StatusPrimaryPod st = PrimaryPod (siQuorum si)"
    using assms(2-6) by (simp_all add: merge_fields_def patched_fields)
  show "findCondition (Conditions st) t =
      (case findCondition (fst (Evaluate ob)) t of Some c \<Rightarrow> Some c | None \<Rightarrow> findCondition (Conditions stored) t)"
    unfolding m(1) find_fold[OF assms(1) Evaluate_distinct] assms(3) ..
  show "StatusPhase st = snd (Evaluate ob)" "StatusPrimaryPod st = PrimaryPod (siQuorum si)"
    by (rule m)+
qed

lemma quorumTracker_dual [simp]: "dualMasterObserved (fst (quorumTracker s)) = dualMasterObserved s"
  by (simp add: quorumTracker_def split: option.split)

definition trackedQuorum :: "perCRState \<Rightarrow> crQuorumState" where
  "trackedQuorum s = snd (quorumTracker s)"

lemma linkup_keeps:
  "masterInfoTimeoutSince (fst (strandedLinkupStuckActiveOrExpire q t)) = masterInfoTimeoutSince q"
  "masterInfoObservedAt (fst (strandedLinkupStuckActiveOrExpire q t)) = masterInfoObservedAt q"
  "suppressionActive (fst (strandedLinkupStuckActiveOrExpire q t)) = suppressionActive q"
  by (simp_all add: strandedLinkupStuckActiveOrExpire_def)

lemma observation_lost:
  "MasterLostActive (snd (statusObservation c v si s)) \<longleftrightarrow> mode_of v = ModeSentinel \<and>
     masterLostFromTimeout (masterInfoTimeoutSince (trackedQuorum s)) (masterInfoObservedAt (trackedQuorum s))
       (downAfterOf v) (tMaster c)"
  "QuorumSuppressionActive (snd (statusObservation c v si s)) \<longleftrightarrow> mode_of v = ModeSentinel \<and> suppressionActive (trackedQuorum s)"
  "SentinelPeerLinkupStuckActive (snd (statusObservation c v si s)) \<longleftrightarrow> mode_of v = ModeSentinel \<and>
     snd (strandedLinkupStuckActiveOrExpire (trackedQuorum s) (tLinkup c))"
  by (simp_all add: statusObservation_def Let_def trackedQuorum_def linkup_keeps case_prod_unfold)

lemma observation_dual:
  "DualMasterActive (snd (statusObservation c v si s)) \<longleftrightarrow> mode_of v \<noteq> ModeStandalone \<and>
     dualMasterActiveFromStamp (dualMasterObserved s) (tDual c)"
proof -
  have d: "snd (dualMasterActiveOrExpire f s1) = f (dualMasterObserved s1)" for f and s1 :: perCRState
    by (simp add: dualMasterActiveOrExpire_def)
  have "dualMasterObserved (fst (quorumTracker s)\<lparr>quorum := q\<rparr>) = dualMasterObserved s" for q
    by simp
  then show ?thesis
    by (simp add: statusObservation_def Let_def case_prod_unfold d)
qed

lemma observation_inputs:
  "CR (snd (statusObservation c v si s)) = Some v" "STS (snd (statusObservation c v si s)) = siSts si"
  "NoMasterAgreementActive (snd (statusObservation c v si s)) = siNoMaster si"
  "SplitBrainActive (snd (statusObservation c v si s)) = siSplitBrain si"
  "ReconcileError (snd (statusObservation c v si s)) = siError si"
  "RolloutWatchdog (snd (statusObservation c v si s)) = siWatchdog si"
  by (simp_all add: statusObservation_def Let_def case_prod_unfold)

definition ready_evidence :: "statusClock \<Rightarrow> Valkey \<Rightarrow> statusInputs \<Rightarrow> perCRState \<Rightarrow> bool" where
  "ready_evidence c v si s \<longleftrightarrow>
     (case siSts si of None \<Rightarrow> False | Some sts \<Rightarrow> 0 < desired sts \<and> desired sts \<le> ReadyReplicas sts) \<and>
     \<not> siNoMaster si \<and>
     \<not> (mode_of v \<noteq> ModeStandalone \<and> dualMasterActiveFromStamp (dualMasterObserved s) (tDual c)) \<and>
     \<not> (mode_of v = ModeSentinel \<and>
        masterLostFromTimeout (masterInfoTimeoutSince (trackedQuorum s)) (masterInfoObservedAt (trackedQuorum s))
          (downAfterOf v) (tMaster c))"

lemma Ready_evidence:
  "CondStatus (evalReady (snd (statusObservation c v si s))) = ConditionTrue \<longleftrightarrow> ready_evidence c v si s"
  unfolding Ready_iff observation_lost observation_dual observation_inputs replicas_ready_def ready_evidence_def
  by auto

lemma stored_fresh:
  assumes "set_condition setCond" and "merge_fields merge"
    and "Conditions stored = Conditions (Status v)" and "StatusPhase stored = StatusPhase (Status v)"
    and "StatusPrimaryPod stored = StatusPrimaryPod (Status v)"
    and "updateStatus merge setCond PatchApplied c v si stored s = ((st, s'), evs, ok)"
    and "ob = snd (statusObservation c v si s)"
  shows "findCondition (Conditions st) = (\<lambda>t. case findCondition (fst (Evaluate ob)) t of
        Some d \<Rightarrow> Some d | None \<Rightarrow> findCondition (Conditions (Status v)) t)"
    and "StatusPhase st = snd (Evaluate ob)" and "StatusPrimaryPod st = PrimaryPod (siQuorum si)"
    and "(\<exists>d. findCondition (Conditions st) ''Ready'' = Some d \<and> CondStatus d = ConditionTrue) \<longleftrightarrow> ready_evidence c v si s"
    and "evs = [''DegradedResolved''] \<longleftrightarrow>
       (\<exists>d. findCondition (Conditions stored) ''Degraded'' = Some d \<and> CondStatus d = ConditionTrue) \<and> \<not> degraded_cause ob"
proof -
  have st: "st = merge (Status v) (patchedStatus setCond v si ob) stored"
    and evs: "evs = (if DegradedFlippedFalse (Conditions (Status v)) (Conditions st) then [''DegradedResolved''] else [])"
    using assms(6,7) by (auto simp: updateStatus_def Let_def case_prod_unfold)
  note f = stored_fields[OF assms(1-5) st]
  show "findCondition (Conditions st) = (\<lambda>t. case findCondition (fst (Evaluate ob)) t of
        Some d \<Rightarrow> Some d | None \<Rightarrow> findCondition (Conditions (Status v)) t)"
    by (rule ext) (rule f(1)[unfolded assms(3)])
  show "StatusPhase st = snd (Evaluate ob)" "StatusPrimaryPod st = PrimaryPod (siQuorum si)" by (rule f)+
  have R: "findCondition (fst (Evaluate ob)) ''Ready'' = Some (stampGeneration (CR ob) (evalReady ob))"
    by (simp add: fst_Evaluate evaluators_def)
  show "(\<exists>d. findCondition (Conditions st) ''Ready'' = Some d \<and> CondStatus d = ConditionTrue) \<longleftrightarrow> ready_evidence c v si s"
    unfolding f(1) R using Ready_evidence[of c v si s] by (simp add: assms(7))
  show "evs = [''DegradedResolved''] \<longleftrightarrow>
      (\<exists>d. findCondition (Conditions stored) ''Degraded'' = Some d \<and> CondStatus d = ConditionTrue) \<and> \<not> degraded_cause ob"
    unfolding evs DegradedFlippedFalse_def f(1) find_Degraded assms(3)
    by (simp add: Degraded_iff split: option.split)
qed

lemma unapplied_keeps:
  "r \<noteq> PatchApplied \<Longrightarrow> fst (fst (updateStatus merge setCond r c v si stored s)) = stored \<and>
     fst (snd (updateStatus merge setCond r c v si stored s)) = []"
  by (cases r) (simp_all add: updateStatus_def Let_def case_prod_unfold)

lemma stored_any:
  assumes "set_condition setCond" and "merge_fields merge"
    and "updateStatus merge setCond PatchApplied c v si stored s = ((st, s'), evs, ok)"
    and "ob = snd (statusObservation c v si s)"
    and "want = (\<lambda>t. case findCondition (fst (Evaluate ob)) t of
          Some d \<Rightarrow> Some d | None \<Rightarrow> findCondition (Conditions (Status v)) t)"
  shows "(findCondition (Conditions st) = want \<or>
      want = findCondition (Conditions (Status v)) \<and> Conditions st = Conditions stored) \<and>
    StatusPhase st = (if snd (Evaluate ob) = StatusPhase (Status v) then StatusPhase stored else snd (Evaluate ob)) \<and>
    StatusPrimaryPod st = (if PrimaryPod (siQuorum si) = StatusPrimaryPod (Status v) then StatusPrimaryPod stored
      else PrimaryPod (siQuorum si))"
proof -
  have st: "st = merge (Status v) (patchedStatus setCond v si ob) stored"
    using assms(3,4) by (auto simp: updateStatus_def Let_def case_prod_unfold)
  have w: "findCondition (foldl setCond (Conditions (Status v)) (fst (Evaluate ob))) = want"
    unfolding assms(5) by (rule ext) (rule find_fold[OF assms(1) Evaluate_distinct])
  have "Conditions st = (if Conditions (Status v) = foldl setCond (Conditions (Status v)) (fst (Evaluate ob))
      then Conditions stored else foldl setCond (Conditions (Status v)) (fst (Evaluate ob)))"
    "StatusPhase st = (if StatusPhase (Status v) = snd (Evaluate ob) then StatusPhase stored else snd (Evaluate ob))"
    "StatusPrimaryPod st = (if StatusPrimaryPod (Status v) = PrimaryPod (siQuorum si) then StatusPrimaryPod stored
      else PrimaryPod (siQuorum si))"
    using assms(2) by (simp_all add: merge_fields_def patched_fields st)
  then show ?thesis using w by (auto split: if_splits)
qed

text \<open>
  C19. What a status update stores, and the evidence behind it. The patch is the difference between the
  object the pass read and the evaluated status, so whatever the server holds when it is applied: the
  conditions become the evaluated ones, with every other type as it was read, unless that changes
  nothing against the object read, in which case the stored ones stay; phase and primary pod likewise.
  When the server still holds what the pass read, every evaluated condition, the phase and the primary
  pod are those of the evaluators. A stored \<^verbatim>\<open>Ready\<close> then says exactly: all desired replicas are ready,
  the observed primary is a current pod, no two pods were seen as master within the freshness window,
  and in sentinel mode the labelled primary has not been silent for the down-after time. The
  resolved event is then recorded exactly when a stored degradation has no cause left. On a conflict
  or an error nothing is stored and no event is recorded.
\<close>

theorem stored_status_exact:
  assumes "set_condition setCond" and "merge_fields merge"
    and "updateStatus merge setCond PatchApplied c v si stored s = ((st, s'), evs, ok)"
    and "ob = snd (statusObservation c v si s)"
    and "want = (\<lambda>t. case findCondition (fst (Evaluate ob)) t of
          Some d \<Rightarrow> Some d | None \<Rightarrow> findCondition (Conditions (Status v)) t)"
  shows "(findCondition (Conditions st) = want \<or>
      want = findCondition (Conditions (Status v)) \<and> Conditions st = Conditions stored) \<and>
    StatusPhase st = (if snd (Evaluate ob) = StatusPhase (Status v) then StatusPhase stored else snd (Evaluate ob)) \<and>
    StatusPrimaryPod st = (if PrimaryPod (siQuorum si) = StatusPrimaryPod (Status v) then StatusPrimaryPod stored
      else PrimaryPod (siQuorum si)) \<and>
    (Conditions stored = Conditions (Status v) \<and> StatusPhase stored = StatusPhase (Status v) \<and>
     StatusPrimaryPod stored = StatusPrimaryPod (Status v) \<longrightarrow>
     findCondition (Conditions st) = want \<and> StatusPhase st = snd (Evaluate ob) \<and> StatusPrimaryPod st = PrimaryPod (siQuorum si) \<and>
     ((\<exists>d. findCondition (Conditions st) ''Ready'' = Some d \<and> CondStatus d = ConditionTrue) \<longleftrightarrow> ready_evidence c v si s) \<and>
     (evs = [''DegradedResolved''] \<longleftrightarrow>
       (\<exists>d. findCondition (Conditions stored) ''Degraded'' = Some d \<and> CondStatus d = ConditionTrue) \<and>
       \<not> degraded_cause ob)) \<and>
    (\<forall>r. r \<noteq> PatchApplied \<longrightarrow> fst (fst (updateStatus merge setCond r c v si stored s)) = stored \<and>
       fst (snd (updateStatus merge setCond r c v si stored s)) = [])"
proof -
  have u: "\<forall>r. r \<noteq> PatchApplied \<longrightarrow> fst (fst (updateStatus merge setCond r c v si stored s)) = stored \<and>
      fst (snd (updateStatus merge setCond r c v si stored s)) = []"
    using unapplied_keeps by (intro allI impI)
  note a = stored_any[OF assms]
  note f = stored_fresh[OF assms(1,2) _ _ _ assms(3,4), folded assms(5)]
  show ?thesis
    by (intro conjI impI a[THEN conjunct1] a[THEN conjunct2, THEN conjunct1] a[THEN conjunct2, THEN conjunct2] u)
      (elim conjE, rule f; assumption)+
qed

section \<open>The master-lost signal\<close>

text \<open>A history of INFO probes of the labelled primary, and the failed ones since the last success.\<close>

definition probeRun :: "(bool \<times> gotime) list \<Rightarrow> crQuorumState" where
  "probeRun ps = run_state (\<lambda>q (ok, t). fst (observeMasterInfoTimeout q ok t)) zeroQuorumState ps"

definition failingStreak :: "(bool \<times> gotime) list \<Rightarrow> (bool \<times> gotime) list" where
  "failingStreak ps = takeWhile (\<lambda>(ok, t). \<not> ok) (rev ps)"

lemma run_state_snoc: "run_state f s (xs @ [x]) = f (run_state f s xs) x"
  by (induction xs arbitrary: s) simp_all

lemma probeRun_inv:
  "masterInfoTimeoutSince (probeRun ps) =
     (if failingStreak ps = [] then None else Some (snd (last (failingStreak ps)))) \<and>
   masterInfoObservedAt (probeRun ps) = (if ps = [] then 0 else snd (last ps))"
proof (induction ps rule: rev_induct)
  case (snoc p ps)
  obtain ok t where p: "p = (ok, t)" by (cases p)
  have "probeRun (ps @ [p]) = fst (observeMasterInfoTimeout (probeRun ps) ok t)"
    by (simp add: probeRun_def run_state_snoc p)
  then show ?case
    using snoc by (simp add: p failingStreak_def observeMasterInfoTimeout_def Let_def split: option.split)
qed (simp add: probeRun_def failingStreak_def zeroQuorumState_def)

text \<open>
  C30. The evidence for a lost master. After any history of INFO probes the signal is on exactly when
  down-after is set, the last probe failed and is at most sixty seconds old, and the first failure
  since the last success is at least the down-after time old. The time is counted to the moment of
  reading, not between the failures: one failed probe is enough once it is as old as down-after. A
  history without a recent probe never holds the signal up, and one success clears it.
\<close>

theorem master_lost_evidence:
  "masterLostFromTimeout (masterInfoTimeoutSince (probeRun ps)) (masterInfoObservedAt (probeRun ps)) downAfter now \<longleftrightarrow>
     0 < downAfter \<and> failingStreak ps \<noteq> [] \<and> snd (last ps) \<noteq> 0 \<and>
     Sub now (snd (last ps)) \<le> 60 * Second \<and>
     downAfter * 1000000 \<le> Sub now (snd (last (failingStreak ps)))"
proof -
  have n: "ps \<noteq> []" if "failingStreak ps \<noteq> []" using that by (auto simp: failingStreak_def)
  have w: "masterInfoProbeFreshnessWindow = 60 * Second" "Second div 1000 = 1000000"
    by (simp_all add: masterInfoProbeFreshnessWindow_def sqKeepAliveInterval_def sentinelQuorumFreshnessWindow_def
        Second_def)
  show ?thesis
    using n unfolding masterLostFromTimeout_def probeRun_inv[THEN conjunct1] probeRun_inv[THEN conjunct2] w
    by (auto simp: IsZero_def)
qed

section \<open>The cadence of a steady pass\<close>

lemma merge_zero_pos: "0 < h \<Longrightarrow> mergeRequeue 0 h = max minRequeueFloor h"
  by (simp add: mergeRequeue_min)

lemma merge_merge: "0 < a \<Longrightarrow> 0 < b \<Longrightarrow> mergeRequeue c (mergeRequeue (max minRequeueFloor a) b) = mergeRequeue (mergeRequeue c a) b"
  by (auto simp: mergeRequeue_min minRequeueFloor_def min_def max_def)

lemma merge_floor: "mergeRequeue c (max minRequeueFloor a) = (if 0 < a then mergeRequeue c a else mergeRequeue c minRequeueFloor)"
  by (auto simp: mergeRequeue_min minRequeueFloor_def)

definition behindReplicas :: "StatefulSet option \<Rightarrow> bool" where
  "behindReplicas gotSts =
     (case gotSts of None \<Rightarrow> False | Some sts \<Rightarrow> 0 < desired sts \<and> ReadyReplicas sts < desired sts)"

lemma hint_eq:
  "statusRequeueHint v gotSts paused True =
     (if mode_of v = ModeSentinel
      then mergeRequeue (if \<not> paused \<and> behindReplicas gotSts then readyConvergeRequeue else 0) sqKeepAliveInterval
      else if \<not> paused \<and> behindReplicas gotSts then readyConvergeRequeue else 0)"
  by (simp add: statusRequeueHint_def behindReplicas_def desired_def sentinelKeepAliveRequeue_def mergeRequeue_min
      readyConvergeRequeue_def Second_def minRequeueFloor_def Let_def split: option.split) auto

lemma cadence_consts:
  "0 < readyConvergeRequeue" "max minRequeueFloor readyConvergeRequeue = readyConvergeRequeue"
  "0 < sqKeepAliveInterval" "max minRequeueFloor sqKeepAliveInterval = sqKeepAliveInterval"
  by (simp_all add: readyConvergeRequeue_def sqKeepAliveInterval_def sentinelQuorumFreshnessWindow_def Second_def
      minRequeueFloor_def)

lemma apply_hint:
  "applyStatusRequeue r v gotSts paused True =
     foldl mergeRequeue r
       ((if \<not> paused \<and> behindReplicas gotSts then [readyConvergeRequeue] else []) @
        (if mode_of v = ModeSentinel then [sqKeepAliveInterval] else []))"
  using merge_merge[OF cadence_consts(1,3), of r] cadence_consts
  by (simp add: applyStatusRequeue_def hint_eq merge_zero_pos) (simp add: mergeRequeue_min)

text \<open>
  C31. When a converged resource is looked at again. After a pass that ran every phase the requeue is
  exactly the least of the hints, each raised to the floor: those of the phases and of the watchdog,
  five minutes, five seconds while replicas are missing, half the freshness window of the quorum
  records in sentinel mode, and the poll interval while the suppression gate is closed. So a
  sentinel resource is probed at least twice within every window that the recorded quorum and the
  master probe stay fresh for.
\<close>

theorem steady_requeue_exact:
  "steadyRequeue o1 a1 w1 v gotSts paused s =
     Min (set (floored ([o1, a1, 5 * Minute, w1] @
       (if \<not> paused \<and> behindReplicas gotSts then [5 * Second] else []) @
       (if mode_of v = ModeSentinel then [sentinelQuorumFreshnessWindow div 2] else []) @
       (if IsSentinelSuppressed s then [DefaultPollInterval] else [])))) \<and>
   (mode_of v = ModeSentinel \<longrightarrow>
      2 * steadyRequeue o1 a1 w1 v gotSts paused s \<le> sentinelQuorumFreshnessWindow \<and>
      2 * steadyRequeue o1 a1 w1 v gotSts paused s \<le> masterInfoProbeFreshnessWindow)"
proof -
  let ?hs = "[o1, a1, 5 * Minute, w1] @
       (if \<not> paused \<and> behindReplicas gotSts then [5 * Second] else []) @
       (if mode_of v = ModeSentinel then [sentinelQuorumFreshnessWindow div 2] else []) @
       (if IsSentinelSuppressed s then [DefaultPollInterval] else [])"
  have f: "steadyRequeue o1 a1 w1 v gotSts paused s = foldl mergeRequeue 0 ?hs"
    by (simp add: steadyRequeue_def suppressionPaceHint_def apply_hint baselineReconcileWatchdog_def
        readyConvergeRequeue_def sqKeepAliveInterval_def quorumSuppressedRequeue_def Let_def)
  have n: "floored ?hs \<noteq> []" by (simp add: floored_def Minute_def Second_def)
  have eq: "steadyRequeue o1 a1 w1 v gotSts paused s = Min (set (floored ?hs))"
    unfolding f requeue_merge if_not_P[OF n] ..
  have b: "2 * Min (set (floored ?hs)) \<le> 60 * Second" if "mode_of v = ModeSentinel"
  proof -
    have "max minRequeueFloor (sentinelQuorumFreshnessWindow div 2) \<in> set (floored ?hs)"
      using that by (simp add: floored_def sentinelQuorumFreshnessWindow_def Second_def)
    then have "Min (set (floored ?hs)) \<le> max minRequeueFloor (sentinelQuorumFreshnessWindow div 2)"
      by (intro Min_le) simp_all
    then show ?thesis by (simp add: sentinelQuorumFreshnessWindow_def Second_def minRequeueFloor_def)
  qed
  have w: "sentinelQuorumFreshnessWindow = 60 * Second" "masterInfoProbeFreshnessWindow = 60 * Second"
    by (simp_all add: sentinelQuorumFreshnessWindow_def masterInfoProbeFreshnessWindow_def sqKeepAliveInterval_def
        Second_def)
  have "2 * steadyRequeue o1 a1 w1 v gotSts paused s \<le> 60 * Second" if "mode_of v = ModeSentinel"
    unfolding eq by (rule b[OF that])
  then have "mode_of v = ModeSentinel \<longrightarrow>
      2 * steadyRequeue o1 a1 w1 v gotSts paused s \<le> sentinelQuorumFreshnessWindow \<and>
      2 * steadyRequeue o1 a1 w1 v gotSts paused s \<le> masterInfoProbeFreshnessWindow"
    by (simp only: w) blast
  with eq show ?thesis by (rule conjI)
qed

section \<open>Examples\<close>

definition degraded_cr :: Valkey where
  "degraded_cr = example_cr\<lparr>Status := emptyStatus\<lparr>Conditions := [cond ''Degraded'' ConditionTrue ''SplitBrain'' []]\<rparr>\<rparr>"

definition healthy_inputs :: statusInputs where
  "healthy_inputs =
     \<lparr>siSts = Some \<lparr>StsReplicas = Some 3, ReadyReplicas = 3, UpdateRevision = ''r'', CurrentRevision = ''r''\<rparr>,
      siError = None, siPaused = False,
      siWatchdog = \<lparr>Active = False, Expired = False, PodName = [], WDeadline = 0\<rparr>,
      siQuorum = \<lparr>PrimaryPod = ''v-0'', PrimaryConfirmed = True, QuorumLost = False, AggQuorum = QuorumStatusOK,
                  FreshCount = 3, StaleCount = 0\<rparr>,
      siSplitBrain = False, siNoMaster = False, siPods = Some example_pods\<rparr>"

definition some_clock :: statusClock where
  "some_clock = \<lparr>tLinkup = Second, tMaster = Second, tTopology = Second, tDual = Second\<rparr>"

theorem stored_status_exact_witness:
  "(\<exists>d. findCondition (Conditions (fst (fst (updateStatus fullMerge putCond PatchApplied some_clock degraded_cr
       healthy_inputs (Status degraded_cr) zeroPerCR)))) ''Ready'' = Some d \<and> CondStatus d = ConditionTrue) \<and>
   fst (snd (updateStatus fullMerge putCond PatchApplied some_clock degraded_cr healthy_inputs (Status degraded_cr)
       zeroPerCR)) = [''DegradedResolved'']"
proof -
  let ?u = "updateStatus fullMerge putCond PatchApplied some_clock degraded_cr healthy_inputs (Status degraded_cr) zeroPerCR"
  let ?ob = "snd (statusObservation some_clock degraded_cr healthy_inputs zeroPerCR)"
  have u: "?u = ((fst (fst ?u), snd (fst ?u)), fst (snd ?u), snd (snd ?u))" by simp
  have d: "\<not> degraded_cause ?ob"
    by (simp add: degraded_cause_def observation_dual observation_lost observation_inputs isSubHASentinel_def
        trackedQuorum_def quorumTracker_def zeroPerCR_def zeroQuorumState_def dualMasterActiveFromStamp_def
        degraded_cr_def example_cr_def healthy_inputs_def
        strandedLinkupStuckActiveOrExpire_def)
  have a: "\<exists>sts. siSts healthy_inputs = Some sts \<and> 0 < desired sts \<and> desired sts \<le> ReadyReplicas sts"
    "\<not> siNoMaster healthy_inputs"
    by (simp_all add: healthy_inputs_def desired_def)
  have b: "\<not> dualMasterActiveFromStamp (dualMasterObserved zeroPerCR) (tDual some_clock)"
    "\<not> masterLostFromTimeout (masterInfoTimeoutSince (trackedQuorum zeroPerCR))
       (masterInfoObservedAt (trackedQuorum zeroPerCR)) (downAfterOf degraded_cr) (tMaster some_clock)"
    by (simp_all add: zeroPerCR_def dualMasterActiveFromStamp_def masterLostFromTimeout_def trackedQuorum_def
        quorumTracker_def zeroQuorumState_def)
  have r: "ready_evidence some_clock degraded_cr healthy_inputs zeroPerCR"
    using a b unfolding ready_evidence_def by auto
  have e: "\<exists>d. findCondition (Conditions (Status degraded_cr)) ''Degraded'' = Some d \<and> CondStatus d = ConditionTrue"
    by (simp add: degraded_cr_def)
  show ?thesis
    using stored_status_exact[OF set_condition_putCond merge_fields_fullMerge u refl refl]
      d e r by blast
qed

theorem steady_requeue_exact_witness:
  "2 * steadyRequeue 0 0 0 example_cr None False zeroPerCR \<le> sentinelQuorumFreshnessWindow"
proof -
  have "mode_of example_cr = ModeSentinel" by (simp add: example_cr_def)
  then show ?thesis using steady_requeue_exact[of 0 0 0 example_cr None False zeroPerCR] by blast
qed

end
