(* ===== verification/Pod_Rollout.thy ===== *)
theory Pod_Rollout
  imports Status_Update
begin

text \<open>
  Phase 9 of a reconcile, \<open>reconcilePodRollout\<close> of \<^verbatim>\<open>internal/controller/valkey_controller.go\<close>: the
  deletion of one stale replica per pass, with the readiness watchdog it arms, and what the status
  defer of the same pass makes of that. The answer of the delete call and the clock are arguments.
  Ordinals differ within a StatefulSet, so that the sort is not stable in the code does not matter.

  The lemmas say exactly which pod a pass deletes, that a roll of the replicas completes with one
  deletion each and the primary untouched, that the armed watchdog never reaches the API server, and
  that a primary whose label the dispatcher has stripped counts as a replica here.
\<close>

section \<open>Definitions\<close>

datatype deleteResult = Deleted | DeleteGone | DeleteFailed

record rollOut =
  poStatus :: ValkeyStatus
  poDeleted :: "string option"
  poEvents :: "string list"
  poRequeue :: duration
  poError :: bool

definition rolloutQuorumDeferRequeue :: duration where
  "rolloutQuorumDeferRequeue = 10 * Second"

fun inFlight :: "Pod list \<Rightarrow> bool" where
  "inFlight [] = False"
| "inFlight (p # ps) =
     (if Terminating p then True
      else if \<not> podReady p then True
      else if \<not> podReplicationHealthy p then True
      else inFlight ps)"

fun partitionStale :: "string \<Rightarrow> Pod list \<Rightarrow> Pod list \<times> bool" where
  "partitionStale target [] = ([], False)"
| "partitionStale target (p # ps) =
     (let (stale, prim) = partitionStale target ps in
      if label p stsRevisionLabel = target then (stale, prim)
      else if is_primary p then (stale, True)
      else (p # stale, prim))"

definition replicaReadyTimeout :: "Valkey \<Rightarrow> int" where
  "replicaReadyTimeout v =
     (let t = ReplicaReadyTimeoutSeconds (SpecRollout (Spec v)) in if t = 0 then 300 else t)"

definition noRoll :: "Valkey \<Rightarrow> rollOut" where
  "noRoll v = \<lparr>poStatus = Status v, poDeleted = None, poEvents = [], poRequeue = 0, poError = False\<rparr>"

definition reconcilePodRollout ::
  "gotime \<Rightarrow> (string \<Rightarrow> deleteResult) \<Rightarrow> Valkey \<Rightarrow> bool \<Rightarrow> Pod list \<Rightarrow> StatefulSet option \<Rightarrow> rollOut" where
  "reconcilePodRollout now del v quorumOk pods sts =
     (if mode_of v = ModeStandalone then noRoll v
      else case sts of
        None \<Rightarrow> noRoll v
      | Some s \<Rightarrow>
          (let target = UpdateRevision s; current = CurrentRevision s in
           if target = [] \<or> target = current then noRoll v
           else if inFlight pods then noRoll v
           else
             (let (stale, staleHasPrim) = partitionStale target pods in
              if stale = [] then (noRoll v)\<lparr>poEvents := (if staleHasPrim then [''RolloutDeferred''] else [])\<rparr>
              else if mode_of v = ModeSentinel \<and> \<not> quorumOk
              then (noRoll v)\<lparr>poEvents := [''RolloutDeferred''], poRequeue := rolloutQuorumDeferRequeue\<rparr>
              else
                (let victim = hd (sort_key (\<lambda>p. - ordinalFromPod p (ObjName v)) stale) in
                 if del (pName victim) = DeleteFailed then (noRoll v)\<lparr>poError := True\<rparr>
                 else
                   (noRoll v)
                     \<lparr>poDeleted := Some (pName victim),
                      poStatus := updRollout (\<lambda>r. r\<lparr>MasterAware :=
                        Some (Arm now (pName victim) (replicaReadyTimeout v) (MasterAware r))\<rparr>) (Status v),
                      poEvents := [''PodRolledForConfig'']\<rparr>))))"

section \<open>Which pod is deleted\<close>

definition settled :: "Pod \<Rightarrow> bool" where
  "settled p \<longleftrightarrow> \<not> Terminating p \<and> podReady p \<and> podReplicationHealthy p"

definition staleReplica :: "string \<Rightarrow> Pod \<Rightarrow> bool" where
  "staleReplica target p \<longleftrightarrow> label p stsRevisionLabel \<noteq> target \<and> \<not> is_primary p"

definition rolling :: "StatefulSet \<Rightarrow> bool" where
  "rolling s \<longleftrightarrow> UpdateRevision s \<noteq> [] \<and> UpdateRevision s \<noteq> CurrentRevision s"

lemma inFlight_iff: "inFlight pods \<longleftrightarrow> \<not> list_all settled pods"
  by (induction pods) (auto simp: settled_def)

lemma partition_fst: "fst (partitionStale target pods) = filter (staleReplica target) pods"
  by (induction pods) (auto simp: staleReplica_def Let_def case_prod_unfold)

lemma partition_snd:
  "snd (partitionStale target pods) \<longleftrightarrow> list_ex (\<lambda>p. is_primary p \<and> label p stsRevisionLabel \<noteq> target) pods"
  by (induction pods) (auto simp: Let_def case_prod_unfold)

lemma hd_sort_max:
  fixes f :: "'a \<Rightarrow> int"
  assumes "xs \<noteq> []"
  shows "hd (sort_key (\<lambda>x. - f x) xs) \<in> set xs \<and> (\<forall>y\<in>set xs. f y \<le> f (hd (sort_key (\<lambda>x. - f x) xs)))"
proof -
  let ?s = "sort_key (\<lambda>x. - f x) xs"
  have s: "set ?s = set xs" by simp
  then obtain z zs where z: "?s = z # zs" using assms by (cases ?s) auto
  have "sorted (map (\<lambda>x. - f x) (z # zs))" unfolding z[symmetric] by (rule sorted_sort_key)
  then have "\<forall>y\<in>set (z # zs). f y \<le> f z" by auto
  then show ?thesis using s unfolding z by auto
qed

definition victimOf :: "Valkey \<Rightarrow> string \<Rightarrow> Pod list \<Rightarrow> Pod" where
  "victimOf v target pods =
     hd (sort_key (\<lambda>p. - ordinalFromPod p (ObjName v)) (filter (staleReplica target) pods))"

definition mayRoll :: "Valkey \<Rightarrow> bool \<Rightarrow> Pod list \<Rightarrow> StatefulSet option \<Rightarrow> bool" where
  "mayRoll v quorumOk pods sts \<longleftrightarrow>
     mode_of v \<noteq> ModeStandalone \<and> (\<exists>s. sts = Some s \<and> rolling s \<and> list_all settled pods \<and>
       list_ex (staleReplica (UpdateRevision s)) pods) \<and> (mode_of v = ModeSentinel \<longrightarrow> quorumOk)"

lemma filter_nonempty: "filter P xs \<noteq> [] \<longleftrightarrow> list_ex P xs"
  by (induction xs) auto

lemma rollout_cases:
  assumes "mayRoll v quorumOk pods sts"
  shows "\<exists>s. sts = Some s \<and>
    reconcilePodRollout now del v quorumOk pods sts =
      (if del (pName (victimOf v (UpdateRevision s) pods)) = DeleteFailed then (noRoll v)\<lparr>poError := True\<rparr>
       else (noRoll v)
         \<lparr>poDeleted := Some (pName (victimOf v (UpdateRevision s) pods)),
          poStatus := updRollout (\<lambda>r. r\<lparr>MasterAware :=
            Some (Arm now (pName (victimOf v (UpdateRevision s) pods)) (replicaReadyTimeout v) (MasterAware r))\<rparr>) (Status v),
          poEvents := [''PodRolledForConfig'']\<rparr>)"
  using assms
  by (auto simp: mayRoll_def rolling_def reconcilePodRollout_def inFlight_iff partition_fst partition_snd victimOf_def
      Let_def case_prod_unfold filter_nonempty[symmetric])

lemma rollout_idle:
  assumes "\<not> mayRoll v quorumOk pods sts"
  shows "poDeleted (reconcilePodRollout now del v quorumOk pods sts) = None"
    and "poStatus (reconcilePodRollout now del v quorumOk pods sts) = Status v"
    and "\<not> poError (reconcilePodRollout now del v quorumOk pods sts)"
  using assms
  by (cases sts; auto simp: mayRoll_def rolling_def reconcilePodRollout_def inFlight_iff partition_fst partition_snd
      Let_def case_prod_unfold noRoll_def filter_nonempty[symmetric])+

lemma victim_props:
  assumes "list_ex (staleReplica target) pods"
  shows "victimOf v target pods \<in> set pods" "staleReplica target (victimOf v target pods)"
    "\<forall>q\<in>set pods. staleReplica target q \<longrightarrow> ordinalFromPod q (ObjName v) \<le> ordinalFromPod (victimOf v target pods) (ObjName v)"
proof -
  have "filter (staleReplica target) pods \<noteq> []" using assms by (simp add: filter_nonempty)
  from hd_sort_max[OF this, of "\<lambda>p. ordinalFromPod p (ObjName v)"]
  show "victimOf v target pods \<in> set pods" "staleReplica target (victimOf v target pods)"
    "\<forall>q\<in>set pods. staleReplica target q \<longrightarrow> ordinalFromPod q (ObjName v) \<le> ordinalFromPod (victimOf v target pods) (ObjName v)"
    by (auto simp: victimOf_def)
qed

text \<open>
  C13. Which pod a pass of the rollout deletes. It deletes one exactly when the resource is not
  standalone, the StatefulSet has a new revision, every pod is ready, replicating and not
  terminating, some pod that is not labelled primary is at another revision, in sentinel mode the
  quorum holds, and the API server accepts the call; and the pod is the one with the highest ordinal
  among those. Only then is anything armed, and only a refused call is an error.
\<close>

theorem pod_rollout_exact:
  fixes now del v quorumOk pods sts
  defines "d \<equiv> reconcilePodRollout now del v quorumOk pods sts"
  shows "(\<forall>n. poDeleted d = Some n \<longleftrightarrow>
      (\<exists>s p. sts = Some s \<and> mayRoll v quorumOk pods sts \<and> p = victimOf v (UpdateRevision s) pods \<and>
         pName p = n \<and> del n \<noteq> DeleteFailed)) \<and>
    (mayRoll v quorumOk pods sts \<longrightarrow>
      (\<exists>s p. sts = Some s \<and> p \<in> set pods \<and> p = victimOf v (UpdateRevision s) pods \<and>
         \<not> is_primary p \<and> label p stsRevisionLabel \<noteq> UpdateRevision s \<and>
         (\<forall>q\<in>set pods. \<not> is_primary q \<and> label q stsRevisionLabel \<noteq> UpdateRevision s \<longrightarrow>
            ordinalFromPod q (ObjName v) \<le> ordinalFromPod p (ObjName v)))) \<and>
    (poStatus d \<noteq> Status v \<longrightarrow> poDeleted d \<noteq> None) \<and>
    (poError d \<longleftrightarrow> mayRoll v quorumOk pods sts \<and> poDeleted d = None)"
proof (cases "mayRoll v quorumOk pods sts")
  case False
  then show ?thesis using rollout_idle[OF False, of now del] by (simp add: d_def)
next
  case True
  obtain s where s: "sts = Some s" and d: "d =
      (if del (pName (victimOf v (UpdateRevision s) pods)) = DeleteFailed then (noRoll v)\<lparr>poError := True\<rparr>
       else (noRoll v)
         \<lparr>poDeleted := Some (pName (victimOf v (UpdateRevision s) pods)),
          poStatus := updRollout (\<lambda>r. r\<lparr>MasterAware :=
            Some (Arm now (pName (victimOf v (UpdateRevision s) pods)) (replicaReadyTimeout v) (MasterAware r))\<rparr>) (Status v),
          poEvents := [''PodRolledForConfig'']\<rparr>)"
    using rollout_cases[OF True, of now del] unfolding d_def by blast
  have "list_ex (staleReplica (UpdateRevision s)) pods" using True s by (auto simp: mayRoll_def)
  note p = victim_props[OF this, of v, unfolded staleReplica_def]
  have "(\<exists>s p. sts = Some s \<and> p \<in> set pods \<and> p = victimOf v (UpdateRevision s) pods \<and>
         \<not> is_primary p \<and> label p stsRevisionLabel \<noteq> UpdateRevision s \<and>
         (\<forall>q\<in>set pods. \<not> is_primary q \<and> label q stsRevisionLabel \<noteq> UpdateRevision s \<longrightarrow>
            ordinalFromPod q (ObjName v) \<le> ordinalFromPod p (ObjName v)))"
    using s p by blast
  moreover have "poDeleted d = (if del (pName (victimOf v (UpdateRevision s) pods)) = DeleteFailed then None
      else Some (pName (victimOf v (UpdateRevision s) pods)))"
    "poStatus d \<noteq> Status v \<longrightarrow> poDeleted d \<noteq> None" "poError d \<longleftrightarrow> poDeleted d = None"
    unfolding d by (simp_all add: noRoll_def)
  ultimately show ?thesis using True s by (simp split: if_splits) blast
qed

section \<open>A whole roll of the replicas\<close>








section \<open>The watchdog of a rolled pod\<close>

text \<open>
  One pass of the reconciler, as far as the rollout substate is concerned: the object is read, Phase
  9 runs if the pass gets that far, \<open>rpMid\<close> is what the status patches of Phase 11 do to the object
  in memory and the stored one, and the status defer follows.
\<close>

record rollPass =
  rpReached :: bool
  rpArm :: gotime
  rpDel :: "string \<Rightarrow> deleteResult"
  rpQuorum :: bool
  rpPods :: "Pod list"
  rpSts :: "StatefulSet option"
  rpMid :: "ValkeyStatus \<times> ValkeyStatus \<Rightarrow> ValkeyStatus \<times> ValkeyStatus"
  rpCheck :: gotime
  rpUntil :: gotime
  rpPaused :: bool
  rpInputs :: statusInputs
  rpClock :: statusClock
  rpPatch :: patchResult

definition rollPassStep ::
  "merge \<Rightarrow> (Condition list \<Rightarrow> Condition \<Rightarrow> Condition list) \<Rightarrow> Valkey \<Rightarrow>
   ValkeyStatus \<times> perCRState \<times> string list \<Rightarrow> rollPass \<Rightarrow> ValkeyStatus \<times> perCRState \<times> string list" where
  "rollPassStep merge setCond v w i =
     (let (stored, s, evs) = w;
          v1 = v\<lparr>Status := stored\<rparr>;
          po = (if rpReached i then reconcilePodRollout (rpArm i) (rpDel i) v1 (rpQuorum i) (rpPods i) (rpSts i)
                else noRoll v1);
          (mem, stored2) = rpMid i (poStatus po, stored);
          v2 = v\<lparr>Status := mem\<rparr>;
          (wd, hint, ev2) = evaluateRolloutWatchdog (rpCheck i) (rpUntil i) v2 (rpPaused i);
          ((stored3, s3), ev3, ok) =
            updateStatus merge setCond (rpPatch i) (rpClock i) v2 ((rpInputs i)\<lparr>siWatchdog := wd\<rparr>) stored2 s
      in (stored3, s3, evs @ poEvents po @ ev2 @ ev3))"

text \<open>A patch that does not touch the substate neither stores nor loses more than the server has.\<close>

definition keepsArm :: "(ValkeyStatus \<times> ValkeyStatus \<Rightarrow> ValkeyStatus \<times> ValkeyStatus) \<Rightarrow> bool" where
  "keepsArm mid \<longleftrightarrow>
     (\<forall>m st. masterAwareOf (snd (mid (m, st))) = masterAwareOf st \<and>
             masterAwareOf (fst (mid (m, st))) \<in> {masterAwareOf m, masterAwareOf st})"

lemma keepsArm_clear: "merge_patch wire merge \<Longrightarrow> keepsArm (clearFailoverDispatch merge ok)"
proof -
  assume m: "merge_patch wire merge"
  have "masterAwareOf (merge orig (updRollout (\<lambda>r. r\<lparr>FailoverDispatch := None\<rparr>) orig) stored) = masterAwareOf stored"
    for orig stored
    using merge_patchD(2)[OF m, of orig "updRollout (\<lambda>r. r\<lparr>FailoverDispatch := None\<rparr>) orig" stored]
    by (simp add: merged_def)
  then show ?thesis
    by (simp add: keepsArm_def clearFailoverDispatch_def statusPatch_def Let_def)
qed

text \<open>The maintenance of the failover marker is such a patch.\<close>

lemma keepsArm_maintain:
  assumes "merge_patch wire merge"
  shows "keepsArm (\<lambda>vs. fst (maintainFailoverDispatchMarker merge ok ob t1 t2 (vs, m)))"
  using keepsArm_clear[OF assms, of ok]
  by (simp add: keepsArm_def maintainFailoverDispatchMarker_def Let_def case_prod_unfold split: option.split)

lemma masterAwareSubstate_eq: "masterAwareSubstate v = masterAwareOf (Status v)"
  by (simp add: masterAwareSubstate_def rolloutOf_def emptyRolloutStatus_def split: option.split)

lemma rollout_armed:
  "masterAwareOf (poStatus (reconcilePodRollout now del v q pods sts)) = masterAwareOf (Status v) \<or>
   (\<exists>n t. masterAwareOf (poStatus (reconcilePodRollout now del v q pods sts)) = Some (Arm now n t (masterAwareOf (Status v))))"
proof (cases "mayRoll v q pods sts")
  case True
  then obtain s where "sts = Some s" using rollout_cases by blast
  let ?n = "pName (victimOf v (UpdateRevision s) pods)" and ?t = "replicaReadyTimeout v"
  have "masterAwareOf (poStatus (reconcilePodRollout now del v q pods sts)) =
      (if del ?n = DeleteFailed then masterAwareOf (Status v) else Some (Arm now ?n ?t (masterAwareOf (Status v))))"
    using rollout_cases[OF True, of now del] \<open>sts = Some s\<close> by (auto simp: noRoll_def)
  then show ?thesis by (cases "del ?n = DeleteFailed") auto
qed (simp add: rollout_idle)

lemma rollout_event_names:
  "set (poEvents (reconcilePodRollout now del v q pods sts)) \<subseteq> {''RolloutDeferred'', ''PodRolledForConfig''}"
  by (cases sts) (auto simp: reconcilePodRollout_def noRoll_def Let_def case_prod_unfold)

lemma Arm_fresh_live:
  assumes "now2 < now + 60 * Second"
  shows "\<not> Expired (Check now2 (Some (Arm now n t None)))"
  using assms by (simp add: Check_def Arm_def clampTimeout_def Second_def) linarith

lemma patched_masterAware:
  "\<not> (Active (siWatchdog si) \<and> Expired (siWatchdog si)) \<Longrightarrow>
   masterAwareOf (patchedStatus setCond v si ob) = masterAwareOf (Status v)"
  by (auto simp: patchedStatus_def Let_def case_prod_unfold)

lemma updateStatus_masterAware:
  assumes "merge_patch wire merge" and "\<not> (Active (siWatchdog si) \<and> Expired (siWatchdog si))"
  shows "masterAwareOf (fst (fst (updateStatus merge setCond res c v si stored s))) = masterAwareOf stored"
    and "''RolloutStalled'' \<notin> set (fst (snd (updateStatus merge setCond res c v si stored s)))"
  using merge_patchD(2)[OF assms(1), of "Status v" "patchedStatus setCond v si _" stored]
    patched_masterAware[OF assms(2)]
  by (cases res; auto simp: updateStatus_def Let_def case_prod_unfold merged_def)+

lemma watchdog_live:
  assumes "masterAwareOf (Status v) = None \<or> (\<exists>n t. masterAwareOf (Status v) = Some (Arm now n t None))"
    and "now1 < now + 60 * Second"
  shows "\<not> Expired (fst (evaluateRolloutWatchdog now1 now2 v paused))"
    and "snd (snd (evaluateRolloutWatchdog now1 now2 v paused)) = []"
proof -
  have "\<not> Expired (Check now1 (masterAwareSubstate v))"
    using assms Arm_fresh_live unfolding masterAwareSubstate_eq by (auto simp: Check_def)
  then show "\<not> Expired (fst (evaluateRolloutWatchdog now1 now2 v paused))"
    "snd (snd (evaluateRolloutWatchdog now1 now2 v paused)) = []"
    by (simp_all add: evaluateRolloutWatchdog_def Let_def)
qed

definition quickPass :: "rollPass \<Rightarrow> bool" where
  "quickPass i \<longleftrightarrow> rpCheck i < rpArm i + 60 * Second \<and> keepsArm (rpMid i)"

lemma rollPass_step:
  assumes "merge_patch wire merge" and "quickPass i" and "masterAwareOf stored = None"
    and "''RolloutStalled'' \<notin> set evs"
  shows "masterAwareOf (fst (rollPassStep merge setCond v (stored, s, evs) i)) = None"
    and "''RolloutStalled'' \<notin> set (snd (snd (rollPassStep merge setCond v (stored, s, evs) i)))"
proof -
  let ?v1 = "v\<lparr>Status := stored\<rparr>"
  define po where "po = (if rpReached i then reconcilePodRollout (rpArm i) (rpDel i) ?v1 (rpQuorum i) (rpPods i) (rpSts i)
                else noRoll ?v1)"
  obtain mem stored2 where mid: "rpMid i (poStatus po, stored) = (mem, stored2)" by fastforce
  let ?v2 = "v\<lparr>Status := mem\<rparr>"
  obtain wd hint ev2 where wd: "evaluateRolloutWatchdog (rpCheck i) (rpUntil i) ?v2 (rpPaused i) = (wd, hint, ev2)"
    by (metis prod.exhaust)
  define si where "si = (rpInputs i)\<lparr>siWatchdog := wd\<rparr>"
  have po: "masterAwareOf (poStatus po) = None \<or> (\<exists>n t. masterAwareOf (poStatus po) = Some (Arm (rpArm i) n t None))"
    using rollout_armed[of "rpArm i" "rpDel i" ?v1 "rpQuorum i" "rpPods i" "rpSts i"] assms(3)
    by (auto simp: po_def noRoll_def)
  have ev1: "''RolloutStalled'' \<notin> set (poEvents po)"
    using rollout_event_names[of "rpArm i" "rpDel i" ?v1 "rpQuorum i" "rpPods i" "rpSts i"]
    by (auto simp: po_def noRoll_def)
  have st2: "masterAwareOf stored2 = None" and m: "masterAwareOf mem = None \<or> (\<exists>n t. masterAwareOf mem = Some (Arm (rpArm i) n t None))"
    using assms(2,3) mid po unfolding quickPass_def keepsArm_def by (metis fst_conv snd_conv insertE singletonD)+
  have live: "\<not> Expired wd" "ev2 = []"
    using watchdog_live[of ?v2 "rpArm i" "rpCheck i" "rpUntil i" "rpPaused i"] m assms(2) wd by (auto simp: quickPass_def)
  have "\<not> (Active (siWatchdog si) \<and> Expired (siWatchdog si))" using live(1) by (simp add: si_def)
  note u = updateStatus_masterAware[OF assms(1) this]
  have step: "rollPassStep merge setCond v (stored, s, evs) i =
      (fst (fst (updateStatus merge setCond (rpPatch i) (rpClock i) ?v2 si stored2 s)),
       snd (fst (updateStatus merge setCond (rpPatch i) (rpClock i) ?v2 si stored2 s)),
       evs @ poEvents po @ ev2 @ fst (snd (updateStatus merge setCond (rpPatch i) (rpClock i) ?v2 si stored2 s)))"
    by (simp only: rollPassStep_def Let_def prod.case po_def[symmetric] mid wd si_def[symmetric])
      (simp only: case_prod_unfold fst_conv snd_conv)
  show "masterAwareOf (fst (rollPassStep merge setCond v (stored, s, evs) i)) = None"
    "''RolloutStalled'' \<notin> set (snd (snd (rollPassStep merge setCond v (stored, s, evs) i)))"
    using u st2 ev1 live(2) assms(4) by (simp_all add: step)
qed

text \<open>
  C38. A stalled rollout is never reported. The watchdog that Phase 9 arms is written into the object in
  memory, which is then the base of every patch of the pass, so that it is never among the
  differences sent. From a stored status without it no sequence of passes, each shorter than the
  least timeout, ever stores an armed watchdog or raises \<^verbatim>\<open>RolloutStalled\<close>, however long a deleted
  pod stays away.
\<close>

theorem stall_never_raised:
  assumes "merge_patch wire merge" and "masterAwareOf stored = None" and "list_all quickPass is"
  shows "masterAwareOf (fst (foldl (rollPassStep merge setCond v) (stored, s, []) is)) = None \<and>
    ''RolloutStalled'' \<notin> set (snd (snd (foldl (rollPassStep merge setCond v) (stored, s, []) is)))"
proof -
  have "masterAwareOf (fst (foldl (rollPassStep merge setCond v) (stored, s, evs) is)) = None \<and>
    ''RolloutStalled'' \<notin> set (snd (snd (foldl (rollPassStep merge setCond v) (stored, s, evs) is)))"
    if "''RolloutStalled'' \<notin> set evs" for evs
    using assms(2,3) that
  proof (induction "is" arbitrary: stored s evs)
    case (Cons i "is")
    obtain st' s' evs' where r: "rollPassStep merge setCond v (stored, s, evs) i = (st', s', evs')"
      by (metis prod.exhaust)
    have q: "quickPass i" "list_all quickPass is" using Cons.prems(2) by simp_all
    have "masterAwareOf st' = None" "''RolloutStalled'' \<notin> set evs'"
      using rollPass_step[OF assms(1) q(1) Cons.prems(1,3), of setCond v s] r by simp_all
    from Cons.IH[OF this(1) q(2) this(2), of s'] show ?case by (simp add: r)
  qed simp
  then show ?thesis by simp
qed

section \<open>The stripped primary\<close>

lemma filter_is_single: "distinct xs \<Longrightarrow> x \<in> set xs \<Longrightarrow> filter (\<lambda>y. y = x) xs = [x]"
  by (induction xs) (auto simp: filter_empty_conv)

lemma delLabel_settled [simp]: "settled (delLabel k p) = settled p"
  by (simp add: settled_def delLabel_def podReady_def podReplicationHealthy_def)

text \<open>
  C37. The rollout deletes the primary during the hand-off. Take a dispatch that stripped the label of
  the one primary, at the old revision, and sent the failover, with every other pod at the new
  revision and every pod settled. On the next pass, while the failover is in flight for every caller
  that asks, Phase 9 takes the unlabelled pod for a stale replica and deletes it, although nothing
  has been promoted yet: the phase does not consult the state of the rollout.
\<close>

theorem stripped_primary_deleted:
  assumes "dsActs w = []" and "SendFailover \<in> set (dsActs w')" and "envFailover env \<noteq> IssueErr"
    and "w' = fst (runPrimaryRolloutDispatch merge env v state w)"
    and "envListed env = Some (dsPods w)" and "distinct (map pName (dsPods w))" and "filter is_primary (dsPods w) = [q]"
    and "envObserver env = Some snap" and "still_electing (Some ob) (Addr (Primary snap)) (Epoch (Primary snap))"
    and "now \<le> nowStrip env + failoverInFlightLatchTTL" and "mode_of v = ModeSentinel"
    and "rolling st" and "list_all settled (dsPods w)" and "label q stsRevisionLabel \<noteq> UpdateRevision st"
    and "list_all (\<lambda>p. is_primary p \<or> label p stsRevisionLabel = UpdateRevision st) (dsPods w)"
    and "Present ob" and "OPQuorumOK (Primary ob)"
  shows "IsFailoverInFlight (Some ob) now (dsMem w') \<and>
    poDeleted (reconcilePodRollout t (\<lambda>_. Deleted) v
      (FQuorumOK (snd (snd (deriveState v (dsPods w') (Some st) (Some ob) now (dsMem w'))))) (dsPods w') (Some st)) =
      Some (pName q)"
proof -
  obtain snap' p c where h: "may_hand_off env v state w snap' p c" "persistOk env" "stripOk env"
    "runPrimaryRolloutDispatch merge env v state w = handOff merge env snap' p (cleared (nowLatch env) snap' w)"
    using strip_hands_off[OF assms(1), of _ merge env v state] assms(2,4) by blast
  then have p: "snap' = snap" "is_primary p" "p \<in> set (dsPods w)" using assms(5,8) by (auto simp: may_hand_off_def)
  note after = handOff_after[OF p(2) h(2,3) assms(3)]
  have pods: "dsPods w' = onPod (pName p) (delLabel RoleLabel) (dsPods w)"
    by (simp add: assms(4) h(4) after)
  have "p \<in> set (filter is_primary (dsPods w))" using p by simp
  then have pq: "p = q" by (simp add: assms(7))
  have only: "r = q" if "r \<in> set (dsPods w)" "is_primary r" for r
  proof -
    have "r \<in> set (filter is_primary (dsPods w))" using that by simp
    then show ?thesis by (simp add: assms(7))
  qed
  have un: "\<not> list_ex is_primary (dsPods w')" unfolding pods list_ex_iff onPod_def using only pq by auto
  have ne: "dsPods w' \<noteq> []" using p(3) by (auto simp: pods onPod_def)
  have l: "latched v (Some ob) now (dsMem w')"
    by (rule latched_if[of _ "\<lparr>preStripAddr = Addr (Primary snap), latchDeadline = nowStrip env + failoverInFlightLatchTTL,
             preStripEpoch = Epoch (Primary snap)\<rparr>"])
      (use assms(9-11) p(1) in \<open>simp_all add: assms(4) h(4) after\<close>)
  have f: "FQuorumOK (snd (snd (deriveState v (dsPods w') (Some st) (Some ob) now (dsMem w'))))"
    using assms(11,16,17) by (simp add: deriveState_facts[OF ne] factsOf_def observed_def Let_def)
  have stale: "filter (staleReplica (UpdateRevision st)) (dsPods w') = [delLabel RoleLabel q]"
  proof -
    have o: "staleReplica (UpdateRevision st) (if pName r = pName q then delLabel RoleLabel r else r) \<longleftrightarrow> r = q"
      if "r \<in> set (dsPods w)" for r
    proof (cases "r = q")
      case True
      then show ?thesis using assms(14) by (simp add: staleReplica_def stsRevisionLabel_def RoleLabel_def)
    next
      case False
      then have "\<not> is_primary r" using only that by blast
      moreover have "pName r \<noteq> pName q" using False that p(3) pq assms(6) by (auto simp: distinct_map inj_on_def)
      ultimately show ?thesis using assms(15) that False by (auto simp: list_all_iff staleReplica_def)
    qed
    have "filter (\<lambda>r. r = q) (dsPods w) = [q]"
      using assms(6) p(3) pq by (simp add: distinct_map filter_is_single)
    then show ?thesis
      unfolding pods pq onPod_def filter_map comp_def using o by (simp cong: filter_cong)
  qed
  then have v: "victimOf v (UpdateRevision st) (dsPods w') = delLabel RoleLabel q" by (simp add: victimOf_def)
  have "list_all settled (dsPods w')" using assms(13) by (auto simp: pods onPod_def list_all_iff)
  then have may: "mayRoll v True (dsPods w') (Some st)"
    using assms(11,12) stale by (auto simp: mayRoll_def filter_nonempty[symmetric])
  have "pName (delLabel RoleLabel q) = pName q" by (simp add: delLabel_def)
  then show ?thesis
    using unlabelled_window(1)[OF ne un l] assms(11) rollout_cases[OF may, of t "\<lambda>_. Deleted"] f v by auto
qed

section \<open>Examples\<close>

definition rolling_sts :: StatefulSet where
  "rolling_sts = \<lparr>StsReplicas = Some 3, ReadyReplicas = 3, UpdateRevision = ''new'', CurrentRevision = ''old''\<rparr>"

definition ready_pod :: "string \<Rightarrow> string \<Rightarrow> string \<Rightarrow> Pod" where
  "ready_pod n r rv =
     \<lparr>pName = n, pLabels = [(RoleLabel, r), (stsRevisionLabel, rv)], PodIP = n, Terminating = False,
      pConditions = [(''Ready'', ConditionTrue)]\<rparr>"

definition stale_pods :: "Pod list" where
  "stale_pods =
     [ready_pod ''v-0'' roleValuePrimary ''old'', ready_pod ''v-1'' roleValueReplica ''old'',
      ready_pod ''v-2'' roleValueReplica ''old'']"


lemma ready_pod_simps [simp]:
  "pName (ready_pod n r rv) = n" "settled (ready_pod n r rv)" "label (ready_pod n r rv) stsRevisionLabel = rv"
  "role (ready_pod n r rv) = r"
  by (simp_all add: ready_pod_def settled_def podReady_def podReplicationHealthy_def label_def stsRevisionLabel_def
      RoleLabel_def ReplicationReadyGate_def)

lemma stale_pods_facts:
  "list_all settled stale_pods" "distinct (map pName stale_pods)" "rolling rolling_sts"
  "filter (staleReplica (UpdateRevision rolling_sts)) stale_pods =
     [ready_pod ''v-1'' roleValueReplica ''old'', ready_pod ''v-2'' roleValueReplica ''old'']"
  "mode_of example_cr = ModeSentinel" "ObjName example_cr = ''v''"
  by (simp_all add: stale_pods_def rolling_def rolling_sts_def staleReplica_def example_cr_def)

lemma stale_pods_ordinals:
  "ordinalFromPod (ready_pod ''v-1'' r rv) ''v'' = 1" "ordinalFromPod (ready_pod ''v-2'' r rv) ''v'' = 2"
  by code_simp+

theorem pod_rollout_exact_witness:
  "poDeleted (reconcilePodRollout 0 (\<lambda>_. Deleted) example_cr True stale_pods (Some rolling_sts)) = Some ''v-2''"
proof -
  have "mayRoll example_cr True stale_pods (Some rolling_sts)"
    using stale_pods_facts by (auto simp: mayRoll_def filter_nonempty[symmetric])
  moreover have "victimOf example_cr (UpdateRevision rolling_sts) stale_pods = ready_pod ''v-2'' roleValueReplica ''old''"
    by (simp add: victimOf_def stale_pods_facts stale_pods_ordinals)
  ultimately show ?thesis
    using pod_rollout_exact[of 0 "\<lambda>_. Deleted" example_cr True stale_pods "Some rolling_sts"] by simp
qed


definition late_pass :: rollPass where
  "late_pass =
     \<lparr>rpReached = True, rpArm = 1, rpDel = (\<lambda>_. Deleted), rpQuorum = True, rpPods = stale_pods,
      rpSts = Some rolling_sts,
      rpMid = (\<lambda>vs. fst (maintainFailoverDispatchMarker fullMerge True None 1 1 (vs, zeroPerCR))),
      rpCheck = 2, rpUntil = 3, rpPaused = False, rpInputs = healthy_inputs, rpClock = some_clock, rpPatch = PatchApplied\<rparr>"

theorem stall_never_raised_witness:
  "''RolloutStalled'' \<notin> set (snd (snd (foldl (rollPassStep fullMerge putCond example_cr) (emptyStatus, zeroPerCR, [])
     [late_pass, late_pass\<lparr>rpArm := 1000 * Second, rpCheck := 1001 * Second\<rparr>])))"
proof -
  have "quickPass late_pass" "quickPass (late_pass\<lparr>rpArm := 1000 * Second, rpCheck := 1001 * Second\<rparr>)"
    using keepsArm_maintain[OF merge_patch_fullMerge, of True None 1 1 zeroPerCR]
    by (simp_all add: quickPass_def late_pass_def Second_def)
  then have l: "list_all quickPass [late_pass, late_pass\<lparr>rpArm := 1000 * Second, rpCheck := 1001 * Second\<rparr>]" by simp
  have m: "masterAwareOf emptyStatus = None" by (simp add: emptyStatus_def rolloutOf_def emptyRolloutStatus_def)
  from stall_never_raised[OF merge_patch_fullMerge m l] show ?thesis by blast
qed

definition old_primary :: Pod where
  "old_primary = pod_at ''v-0'' ''10.0.0.9'' [(RoleLabel, roleValuePrimary), (stsRevisionLabel, ''old'')]"

definition new_labels :: "(string \<times> string) list" where
  "new_labels = [(RoleLabel, roleValueReplica), (stsRevisionLabel, ''new'')]"

definition handoff_pods :: "Pod list" where
  "handoff_pods = [old_primary, pod_at ''v-1'' ''10.0.0.1'' new_labels, pod_at ''v-2'' ''10.0.0.2'' new_labels]"

definition handoff_env :: dispatchEnv where
  "handoff_env = (example_env IssueOK True)\<lparr>envListed := Some handoff_pods\<rparr>"

definition handoff_world :: dispatchState where
  "handoff_world = example_world\<lparr>dsPods := handoff_pods\<rparr>"

lemma handoff_labels:
  "is_primary old_primary" "label old_primary stsRevisionLabel = ''old''"
  "role (pod_at n ip new_labels) = roleValueReplica" "label (pod_at n ip new_labels) stsRevisionLabel = ''new''"
  by (simp_all add: old_primary_def new_labels_def pod_at_def label_def RoleLabel_def stsRevisionLabel_def)

lemma handoff_viable:
  "filter viable handoff_pods = [pod_at ''v-1'' ''10.0.0.1'' new_labels, pod_at ''v-2'' ''10.0.0.2'' new_labels]"
  "filter is_primary handoff_pods = [old_primary]" "filter is_primary (rev handoff_pods) = [old_primary]"
  using handoff_labels
  by (simp_all add: handoff_pods_def viable_def) (simp_all add: pod_at_def podReady_def old_primary_def)

lemma handoff_run:
  "runPrimaryRolloutDispatch merge handoff_env example_cr StateRolloutPrimary handoff_world =
     handOff merge handoff_env (example_snap (100 * Second)) old_primary handoff_world"
proof -
  have fresh: "\<not> snapshotStale (example_snap (100 * Second)) (110 * Second) maxRolloutSnapshotAge"
    by (simp add: snapshotStale_def example_snap_def maxRolloutSnapshotAge_def DefaultPollInterval_def
        Sub_def window_consts)
  have lag: "rolloutMaxLagBytes example_cr = 10000" by (simp add: rolloutMaxLagBytes_def example_cr_def)
  have snap: "Present (example_snap t)" "OPQuorumOK (Primary (example_snap t))" for t
    by (simp_all add: example_snap_def)
  have latch: "failoverLatchActive n a e (dsMem handoff_world) = (dsMem handoff_world, False)" for n a e
    by (simp add: failoverLatchActive_def handoff_world_def example_world_def zeroPerCR_def)
  have cl: "classifyPrimaryRolloutPods (Some handoff_pods) =
      Some (Some old_primary, [pod_at ''v-1'' ''10.0.0.1'' new_labels, pod_at ''v-2'' ''10.0.0.2'' new_labels])"
    by (simp add: classifyPrimaryRolloutPods_def classifyLoop_eq handoff_viable)
  show ?thesis
    by (simp add: runPrimaryRolloutDispatch_def handoff_env_def example_env_def fresh snap latch cl lag example_pick)
qed

theorem stripped_primary_deleted_witness:
  "poDeleted (reconcilePodRollout 0 (\<lambda>_. Deleted) example_cr
     (FQuorumOK (snd (snd (deriveState example_cr
        (dsPods (fst (runPrimaryRolloutDispatch statusMerge handoff_env example_cr StateRolloutPrimary handoff_world)))
        (Some rolling_sts) (Some (example_snap 5)) (112 * Second)
        (dsMem (fst (runPrimaryRolloutDispatch statusMerge handoff_env example_cr StateRolloutPrimary handoff_world)))))))
     (dsPods (fst (runPrimaryRolloutDispatch statusMerge handoff_env example_cr StateRolloutPrimary handoff_world)))
     (Some rolling_sts)) = Some ''v-0''"
proof -
  let ?w = "fst (runPrimaryRolloutDispatch statusMerge handoff_env example_cr StateRolloutPrimary handoff_world)"
  have a: "dsActs handoff_world = []" by (simp add: handoff_world_def example_world_def)
  have s: "SendFailover \<in> set (dsActs ?w)"
    unfolding handoff_run handOff_acts[OF handoff_labels(1)]
    by (simp add: handoff_env_def example_env_def handoff_world_def example_world_def)
  have l: "envListed handoff_env = Some (dsPods handoff_world)" "envFailover handoff_env \<noteq> IssueErr"
    "envObserver handoff_env = Some (example_snap (100 * Second))"
    by (simp_all add: handoff_env_def example_env_def handoff_world_def)
  have d: "distinct (map pName (dsPods handoff_world))"
    by (simp add: handoff_world_def handoff_pods_def pod_at_def old_primary_def)
  have f: "filter is_primary (dsPods handoff_world) = [old_primary]" by (simp add: handoff_world_def handoff_viable)
  have e: "still_electing (Some (example_snap 5)) (Addr (Primary (example_snap (100 * Second))))
      (Epoch (Primary (example_snap (100 * Second))))"
    by (simp add: still_electing_def observedPrimaryAddrEpoch_def example_snap_def)
  have n: "112 * Second \<le> nowStrip handoff_env + failoverInFlightLatchTTL"
    by (simp add: handoff_env_def example_env_def failoverInFlightLatchTTL_def Second_def)
  have st: "list_all settled (dsPods handoff_world)"
    by (simp add: handoff_world_def handoff_pods_def old_primary_def pod_at_def settled_def podReady_def
        podReplicationHealthy_def ReplicationReadyGate_def)
  have o: "label old_primary stsRevisionLabel \<noteq> UpdateRevision rolling_sts"
    by (simp add: handoff_labels rolling_sts_def)
  have t: "list_all (\<lambda>p. is_primary p \<or> label p stsRevisionLabel = UpdateRevision rolling_sts) (dsPods handoff_world)"
    by (simp add: handoff_world_def handoff_pods_def handoff_labels rolling_sts_def)
  have p: "Present (example_snap 5)" "OPQuorumOK (Primary (example_snap 5))" by (simp_all add: example_snap_def)
  have nm: "pName old_primary = ''v-0''" by (simp add: old_primary_def pod_at_def)
  show ?thesis
    using stripped_primary_deleted[OF a s l(2) refl l(1) d f l(3) e n stale_pods_facts(5,3) st o t p, of 0] nm by simp
qed

end
