(* ===== verification/SQ_Records.thy ===== *)
theory SQ_Records
  imports Status_Update Velkir_Text
begin

text \<open>
  The per-sentinel quorum records, \<^verbatim>\<open>sentinelquorum_create.go\<close> and \<^verbatim>\<open>sentinelquorum_aggregate.go\<close> of
  \<^verbatim>\<open>internal/controller\<close>: one SentinelQuorum resource per sentinel pod, the writer that stamps the
  observer's last poll onto them unless nothing changed recently, and the read that aggregates them
  for the status conditions. The stored resources are an association list from names to statuses;
  the answers of the API server are arguments, and so is the time format \<open>wire\<close>.

  The digest of the written content is SHA-256 over one line per sentinel; it is the parameter
  \<open>hash\<close>, and that it does not collide is the named hypothesis \<open>inj hash\<close>.

  The lemmas show that the skipped writes lose nothing: after every pass the records carry the
  content of the last poll and a stamp at most half a minute older, so that the aggregate over all
  stored records is the strict majority of that poll once the records of departed sentinels are stale.
\<close>

section \<open>Definitions\<close>

type_synonym sqStore = "(string \<times> SentinelQuorumStatus) list"

definition emptySQ :: SentinelQuorumStatus where
  "emptySQ = \<lparr>SQObservedPrimary = [], QuorumReachable = None, LastObservedTime = None\<rparr>"

text \<open>\<open>reconcileSentinelQuorums\<close>: an apply of the spec leaves an existing status alone.\<close>

fun reconcileSentinelQuorums :: "(string \<Rightarrow> bool) \<Rightarrow> Pod list \<Rightarrow> sqStore \<Rightarrow> sqStore \<times> bool" where
  "reconcileSentinelQuorums accept [] st = (st, True)"
| "reconcileSentinelQuorums accept (p # ps) st =
     (if \<not> accept (pName p) then (st, False)
      else reconcileSentinelQuorums accept ps
             (if map_of st (pName p) = None then st @ [(pName p, emptySQ)] else st))"

definition primaryPodNameFromAddr :: "string \<Rightarrow> (string \<times> string) list \<Rightarrow> string" where
  "primaryPodNameFromAddr addr ipToPodName =
     (if addr = [] then []
      else (case SplitHostPort addr of
              None \<Rightarrow> []
            | Some (host, port) \<Rightarrow> (case map_of ipToPodName host of None \<Rightarrow> [] | Some n \<Rightarrow> n)))"

definition ipToPodName :: "Pod list \<Rightarrow> (string \<times> string) list" where
  "ipToPodName pods = rev (map (\<lambda>p. (PodIP p, pName p)) (filter (\<lambda>p. PodIP p \<noteq> []) pods))"

record sqEntry =
  seName :: string
  sePrimaryAddr :: string
  sePrimaryPodName :: string
  seQuorumReachable :: bool
  seReachable :: bool

definition sqEntries :: "EndpointObservation list \<Rightarrow> Pod list \<Rightarrow> Pod list \<Rightarrow> sqEntry list" where
  "sqEntries obs sentinelPods valkeyPods =
     sort_key seName
       (map (\<lambda>eo. \<lparr>seName = EOName eo, sePrimaryAddr = EOPrimaryAddr eo,
                  sePrimaryPodName = primaryPodNameFromAddr (EOPrimaryAddr eo) (ipToPodName valkeyPods),
                  seQuorumReachable = EOQuorumReachable eo \<and> EOReachable eo, seReachable = EOReachable eo\<rparr>)
          (filter (\<lambda>eo. EOName eo \<in> set (map pName sentinelPods)) obs))"

definition showBool :: "bool \<Rightarrow> string" where
  "showBool b = (if b then ''true'' else ''false'')"

definition entryLine :: "sqEntry \<Rightarrow> string" where
  "entryLine e =
     Join [seName e, sePrimaryAddr e, sePrimaryPodName e, showBool (seQuorumReachable e), showBool (seReachable e)] ''|''"

definition sqDigest :: "(string \<Rightarrow> string) \<Rightarrow> sqEntry list \<Rightarrow> string" where
  "sqDigest hash es = hash (unlines (map entryLine es))"

fun entryTime :: "gotime \<Rightarrow> EndpointObservation list \<Rightarrow> string \<Rightarrow> gotime" where
  "entryTime t [] n = t"
| "entryTime t (eo # obs) n = (if EOName eo = n then EOAt eo else entryTime t obs n)"

fun statusLoop ::
  "(string \<Rightarrow> bool) \<Rightarrow> (gotime \<Rightarrow> gotime) \<Rightarrow> EndpointObservation list \<Rightarrow> sqEntry list \<Rightarrow> sqStore \<Rightarrow> sqStore \<times> bool" where
  "statusLoop accept wire obs [] st = (st, True)"
| "statusLoop accept wire obs (e # es) st =
     (if \<not> accept (seName e) \<or> map_of st (seName e) = None then (st, False)
      else statusLoop accept wire obs es
             (AList.update (seName e)
                \<lparr>SQObservedPrimary = sePrimaryPodName e, QuorumReachable = Some (seQuorumReachable e),
                 LastObservedTime = Some (wire (entryTime (EOAt (hd obs)) obs (seName e)))\<rparr> st))"

definition reconcileSentinelQuorumStatus ::
  "(string \<Rightarrow> string) \<Rightarrow> (gotime \<Rightarrow> gotime) \<Rightarrow> (string \<Rightarrow> bool) \<Rightarrow> EndpointObservation list option \<Rightarrow>
   Pod list \<Rightarrow> Pod list \<Rightarrow> sqStore \<times> perCRState \<Rightarrow> (sqStore \<times> perCRState) \<times> bool" where
  "reconcileSentinelQuorumStatus hash wire accept ob sentinelPods valkeyPods w =
     (case ob of
        None \<Rightarrow> (w, True)
      | Some obs \<Rightarrow>
          if obs = [] then (w, True)
          else
            (let es = sqEntries obs sentinelPods valkeyPods;
                 digest = sqDigest hash es
             in if sqStatusWriteSkippable digest (EOAt (hd obs)) (snd w) then (w, True)
                else (case statusLoop accept wire obs es (fst w) of
                        (st, ok) \<Rightarrow>
                          if \<not> ok then ((st, snd w), False)
                          else ((st, setSQDigest digest (EOAt (hd obs)) (snd w)), True))))"

definition clampQuorumToPoolMajority :: "int \<Rightarrow> int \<Rightarrow> int" where
  "clampQuorumToPoolMajority want replicas =
     (let flr = (if replicas < 0 then replicas else int (QuorumThreshold (nat replicas))) in
      if flr < 0 \<or> 2147483647 < flr then want
      else if flr \<le> want then want else flr)"

definition zeroAgg :: AggResult where
  "zeroAgg =
     \<lparr>PrimaryPod = [], PrimaryConfirmed = False, QuorumLost = False, AggQuorum = QuorumStatusUnknown,
      FreshCount = 0, StaleCount = 0\<rparr>"

definition aggregateSentinelQuorum ::
  "(votes \<Rightarrow> votes) \<Rightarrow> gotime \<Rightarrow> Valkey \<Rightarrow> SentinelQuorumStatus list option \<Rightarrow> AggResult" where
  "aggregateSentinelQuorum order now v listed =
     (if mode_of v \<noteq> ModeSentinel then zeroAgg
      else (case SpecSentinel (Spec v) of
              None \<Rightarrow> zeroAgg
            | Some sp \<Rightarrow>
                (case listed of
                   None \<Rightarrow> zeroAgg
                 | Some sqs \<Rightarrow>
                     Aggregate order now sentinelQuorumFreshnessWindow
                       (clampQuorumToPoolMajority (SpecQuorum sp) (SentinelReplicas sp)) sqs)))"

text \<open>Phase 11 of one pass, as far as the records are concerned; both answers are only logged.\<close>

record sqPass =
  spCreate :: "string \<Rightarrow> bool"
  spStatus :: "string \<Rightarrow> bool"
  spObs :: "EndpointObservation list option"
  spSentinels :: "Pod list"
  spValkeys :: "Pod list"

definition sqPassStep :: "(string \<Rightarrow> string) \<Rightarrow> (gotime \<Rightarrow> gotime) \<Rightarrow> sqStore \<times> perCRState \<Rightarrow> sqPass \<Rightarrow> sqStore \<times> perCRState" where
  "sqPassStep hash wire w i =
     (let st1 = fst (reconcileSentinelQuorums (spCreate i) (spSentinels i) (fst w))
      in fst (reconcileSentinelQuorumStatus hash wire (spStatus i) (spObs i) (spSentinels i) (spValkeys i) (st1, snd w)))"

section \<open>The digest\<close>

definition plain :: "sqEntry \<Rightarrow> bool" where
  "plain e \<longleftrightarrow>
     (\<forall>s\<in>{seName e, sePrimaryAddr e, sePrimaryPodName e}. CHR ''|'' \<notin> set s \<and> newline \<notin> set s)"

lemma showBool_plain [simp]: "CHR ''|'' \<notin> set (showBool b)" "newline \<notin> set (showBool b)"
  by (simp_all add: showBool_def)

lemma showBool_inj [simp]: "showBool a = showBool b \<longleftrightarrow> a = b"
  by (simp add: showBool_def)

lemma entryLine_split:
  "plain e \<Longrightarrow> Split (entryLine e) CHR ''|'' =
     [seName e, sePrimaryAddr e, sePrimaryPodName e, showBool (seQuorumReachable e), showBool (seReachable e)]"
  unfolding entryLine_def by (rule Split_Join) (simp_all add: plain_def)

lemma entryLine_inj: "plain e \<Longrightarrow> plain e' \<Longrightarrow> entryLine e = entryLine e' \<Longrightarrow> e = e'"
  using entryLine_split[of e] entryLine_split[of e'] by (cases e; cases e') simp

lemma entryLine_one_line: "plain e \<Longrightarrow> one_line (entryLine e)"
  by (simp add: one_line_def entryLine_def plain_def)

lemma sqDigest_inj:
  assumes "inj hash" and "list_all plain es" and "list_all plain es'" and "sqDigest hash es = sqDigest hash es'"
  shows "es = es'"
proof -
  have u: "unlines (map entryLine es) = unlines (map entryLine es')"
    using assms(1,4) by (simp add: sqDigest_def inj_eq)
  have l: "list_all one_line (map entryLine ds)" if "list_all plain ds" for ds
    using that by (induction ds) (simp_all add: entryLine_one_line)
  have "map entryLine es = map entryLine es'"
    using Split_unlines[OF l[OF assms(2)], of "[]"] Split_unlines[OF l[OF assms(3)], of "[]"] u by simp
  then show ?thesis using assms(2,3)
  proof (induction es arbitrary: es')
    case (Cons e es)
    then obtain d ds where d: "es' = d # ds" by (cases es') auto
    with Cons have "e = d" by (auto intro: entryLine_inj)
    with Cons d show ?case by simp
  qed simp
qed

section \<open>The loops\<close>

definition recordOf :: "sqEntry \<Rightarrow> gotime \<Rightarrow> SentinelQuorumStatus" where
  "recordOf e t =
     \<lparr>SQObservedPrimary = sePrimaryPodName e, QuorumReachable = Some (seQuorumReachable e), LastObservedTime = Some t\<rparr>"

lemma create_all:
  assumes "\<And>n. accept n"
  shows "(map_of st n \<noteq> None \<longrightarrow> map_of (fst (reconcileSentinelQuorums accept ps st)) n = map_of st n) \<and>
    (n \<in> pName ` set ps \<longrightarrow> map_of (fst (reconcileSentinelQuorums accept ps st)) n \<noteq> None)"
proof (induction ps arbitrary: st)
  case (Cons p ps)
  let ?st = "if map_of st (pName p) = None then st @ [(pName p, emptySQ)] else st"
  have "map_of st n \<noteq> None \<longrightarrow> map_of ?st n = map_of st n" by (auto simp: map_add_def)
  moreover have "map_of ?st (pName p) \<noteq> None" by (auto simp: map_add_def)
  ultimately show ?case using Cons.IH[of ?st] assms by (auto simp del: not_None_eq)
qed simp

lemma entryTime_uniform: "list_all (\<lambda>eo. EOAt eo = t) obs \<Longrightarrow> entryTime t obs n = t"
  by (induction obs) simp_all

lemma status_all:
  assumes "\<And>n. accept n" and "list_all (\<lambda>eo. EOAt eo = EOAt (hd obs)) obs" and "distinct (map seName es)"
    and "\<forall>e\<in>set es. map_of st (seName e) \<noteq> None"
  shows "snd (statusLoop accept wire obs es st) \<and>
    (\<forall>e\<in>set es. map_of (fst (statusLoop accept wire obs es st)) (seName e) = Some (recordOf e (wire (EOAt (hd obs))))) \<and>
    (\<forall>n. n \<notin> seName ` set es \<longrightarrow> map_of (fst (statusLoop accept wire obs es st)) n = map_of st n)"
  using assms(3,4)
proof (induction es arbitrary: st)
  case (Cons e es)
  let ?st = "AList.update (seName e) (recordOf e (wire (EOAt (hd obs)))) st"
  have loop: "statusLoop accept wire obs (e # es) st = statusLoop accept wire obs es ?st"
    using Cons.prems(2) assms(1) entryTime_uniform[OF assms(2)] by (auto simp: recordOf_def)
  have "\<forall>d\<in>set es. map_of ?st (seName d) \<noteq> None"
    using Cons.prems by (auto simp: update_conv' simp del: not_None_eq)
  from Cons.IH[OF _ this] Cons.prems(1) show ?case unfolding loop by (auto simp: update_conv')
qed simp

section \<open>The invariant\<close>

definition goodPass :: "sqPass \<Rightarrow> bool" where
  "goodPass i \<longleftrightarrow>
     (\<forall>n. spCreate i n) \<and> (\<forall>n. spStatus i n) \<and>
     (case spObs i of
        None \<Rightarrow> True
      | Some obs \<Rightarrow> distinct (map EOName obs) \<and> list_all (\<lambda>eo. EOAt eo = EOAt (hd obs)) obs \<and>
          list_all plain (sqEntries obs (spSentinels i) (spValkeys i)))"

definition recorded :: "(string \<Rightarrow> string) \<Rightarrow> (gotime \<Rightarrow> gotime) \<Rightarrow> sqStore \<times> perCRState \<Rightarrow> bool" where
  "recorded hash wire w \<longleftrightarrow>
     sqLastObservedAt (snd w) = 0 \<or>
     (\<exists>es. list_all plain es \<and> sqStatusDigest (snd w) = sqDigest hash es \<and>
        (\<forall>e\<in>set es. map_of (fst w) (seName e) = Some (recordOf e (wire (sqLastObservedAt (snd w))))))"

lemma sqEntries_props:
  "seName ` set (sqEntries obs sp vp) \<subseteq> pName ` set sp"
  "distinct (map EOName obs) \<Longrightarrow> distinct (map seName (sqEntries obs sp vp))"
proof -
  show "seName ` set (sqEntries obs sp vp) \<subseteq> pName ` set sp" by (auto simp: sqEntries_def)
  assume d: "distinct (map EOName obs)"
  let ?m = "map (\<lambda>eo. \<lparr>seName = EOName eo, sePrimaryAddr = EOPrimaryAddr eo,
                  sePrimaryPodName = primaryPodNameFromAddr (EOPrimaryAddr eo) (ipToPodName vp),
                  seQuorumReachable = EOQuorumReachable eo \<and> EOReachable eo, seReachable = EOReachable eo\<rparr>)
          (filter (\<lambda>eo. EOName eo \<in> set (map pName sp)) obs)"
  have "mset (map seName (sqEntries obs sp vp)) = mset (map seName ?m)" by (simp only: sqEntries_def mset_map mset_sort)
  moreover have "map seName ?m = map EOName (filter (\<lambda>eo. EOName eo \<in> set (map pName sp)) obs)" by simp
  ultimately show "distinct (map seName (sqEntries obs sp vp))"
    using distinct_map_filter[OF d] by (metis mset_eq_imp_distinct_iff)
qed

lemma skip_young:
  "Sub t u < sqKeepAliveInterval \<Longrightarrow> t - u < 30 * Second"
  by (simp add: Sub_def sqKeepAliveInterval_def sentinelQuorumFreshnessWindow_def window_consts max_def min_def
      split: if_splits)

lemma status_step:
  fixes hash wire accept obs sp vp w
  defines "es \<equiv> sqEntries obs sp vp"
  defines "w' \<equiv> fst (reconcileSentinelQuorumStatus hash wire accept (Some obs) sp vp w)"
  assumes "inj hash" and "wire_time wire" and "\<And>n. accept n" and "obs \<noteq> []" and "recorded hash wire w"
    and "distinct (map EOName obs)" and "list_all (\<lambda>eo. EOAt eo = EOAt (hd obs)) obs" and "list_all plain es"
    and "\<forall>n\<in>pName ` set sp. map_of (fst w) n \<noteq> None"
  shows "recorded hash wire w' \<and>
    (\<forall>e\<in>set es. \<exists>t. map_of (fst w') (seName e) = Some (recordOf e t) \<and> EOAt (hd obs) - 31 * Second < t)"
proof -
  let ?at = "EOAt (hd obs)"
  have wt: "u < wire u + Second" for u using assms(4) by (auto simp: wire_time_def)
  show ?thesis
  proof (cases "sqStatusWriteSkippable (sqDigest hash es) ?at (snd w)")
    case True
    then have s: "w' = w" using assms(6) by (simp add: w'_def es_def reconcileSentinelQuorumStatus_def Let_def)
    from True have k: "sqStatusDigest (snd w) = sqDigest hash es" "sqLastObservedAt (snd w) \<noteq> 0"
      "?at - sqLastObservedAt (snd w) < 30 * Second"
      by (auto simp: sqStatusWriteSkippable_def IsZero_def skip_young split: if_splits)
    then obtain ds where ds: "list_all plain ds" "sqDigest hash es = sqDigest hash ds"
      "\<forall>e\<in>set ds. map_of (fst w) (seName e) = Some (recordOf e (wire (sqLastObservedAt (snd w))))"
      using assms(7) by (auto simp: recorded_def)
    have "ds = es" using sqDigest_inj[OF assms(3) ds(1) assms(10)] ds(2) by simp
    moreover have "?at - 31 * Second < wire (sqLastObservedAt (snd w))"
      using k(3) wt[of "sqLastObservedAt (snd w)"] by (simp add: Second_def)
    ultimately show ?thesis using s assms(7) ds(3) by auto
  next
    case False
    have ne: "\<forall>e\<in>set es. map_of (fst w) (seName e) \<noteq> None"
      using assms(11) sqEntries_props(1)[of obs sp vp] unfolding es_def by blast
    note l = status_all[of accept, OF assms(5,9) sqEntries_props(2)[OF assms(8), of sp vp, folded es_def] ne, of wire]
    have s: "w' = (fst (statusLoop accept wire obs es (fst w)), setSQDigest (sqDigest hash es) ?at (snd w))"
      using False assms(6) l by (simp add: w'_def es_def[symmetric] reconcileSentinelQuorumStatus_def Let_def case_prod_unfold)
    have "?at - 31 * Second < wire ?at" using wt[of ?at] by (simp add: Second_def)
    then show ?thesis using l assms(10) unfolding s recorded_def by (auto simp: setSQDigest_def)
  qed
qed

lemma sqPass_step:
  assumes "inj hash" and "wire_time wire" and "goodPass i" and "recorded hash wire w"
  shows "recorded hash wire (sqPassStep hash wire w i) \<and>
    (\<forall>obs e. spObs i = Some obs \<and> obs \<noteq> [] \<and> e \<in> set (sqEntries obs (spSentinels i) (spValkeys i)) \<longrightarrow>
      (\<exists>t. map_of (fst (sqPassStep hash wire w i)) (seName e) = Some (recordOf e t) \<and> EOAt (hd obs) - 31 * Second < t))"
proof -
  define st1 where "st1 = fst (reconcileSentinelQuorums (spCreate i) (spSentinels i) (fst w))"
  have acc: "\<And>n. spCreate i n" "\<And>n. spStatus i n" using assms(3) by (auto simp: goodPass_def)
  have keep: "map_of st1 n = map_of (fst w) n" if "map_of (fst w) n \<noteq> None" for n
    using create_all[of "spCreate i" "fst w" n "spSentinels i"] acc that by (simp add: st1_def)
  have have1: "\<forall>n\<in>pName ` set (spSentinels i). map_of (fst (st1, snd w)) n \<noteq> None"
    using create_all[of "spCreate i" "fst w" _ "spSentinels i"] acc by (simp add: st1_def)
  have rec1: "recorded hash wire (st1, snd w)"
    using assms(4) keep unfolding recorded_def fst_conv snd_conv by (metis option.distinct(1))
  have step: "sqPassStep hash wire w i =
      fst (reconcileSentinelQuorumStatus hash wire (spStatus i) (spObs i) (spSentinels i) (spValkeys i) (st1, snd w))"
    by (simp add: sqPassStep_def st1_def Let_def)
  show ?thesis
  proof (cases "\<exists>obs. spObs i = Some obs \<and> obs \<noteq> []")
    case True
    then obtain obs where o: "spObs i = Some obs" "obs \<noteq> []" by blast
    have g: "distinct (map EOName obs)" "list_all (\<lambda>eo. EOAt eo = EOAt (hd obs)) obs"
      "list_all plain (sqEntries obs (spSentinels i) (spValkeys i))"
      using assms(3) o by (auto simp: goodPass_def)
    show ?thesis
      using status_step[OF assms(1,2) acc(2) o(2) rec1 g have1] unfolding step o(1) by simp
  next
    case False
    then have "sqPassStep hash wire w i = (st1, snd w)"
      by (cases "spObs i") (auto simp: step reconcileSentinelQuorumStatus_def)
    then show ?thesis using rec1 False by auto
  qed
qed

section \<open>The aggregate\<close>

definition entriesOf :: "sqPass \<Rightarrow> sqEntry list" where
  "entriesOf i = (case spObs i of None \<Rightarrow> [] | Some obs \<Rightarrow> sqEntries obs (spSentinels i) (spValkeys i))"

definition polledAt :: "sqPass \<Rightarrow> gotime" where
  "polledAt i = (case spObs i of None \<Rightarrow> 0 | Some obs \<Rightarrow> EOAt (hd obs))"

lemma run_recorded:
  assumes "inj hash" and "wire_time wire" and "list_all goodPass ps" and "recorded hash wire w"
  shows "recorded hash wire (foldl (sqPassStep hash wire) w ps)"
  using assms(3,4)
proof (induction ps arbitrary: w)
  case (Cons i ps)
  then have "recorded hash wire (sqPassStep hash wire w i)" using sqPass_step[OF assms(1,2), of i w] by simp
  with Cons show ?case by simp
qed simp

lemma records_after:
  assumes "inj hash" and "wire_time wire" and "list_all goodPass (ps @ [p])" and "e \<in> set (entriesOf p)"
  shows "\<exists>t. map_of (fst (foldl (sqPassStep hash wire) ([], zeroPerCR) (ps @ [p]))) (seName e) = Some (recordOf e t) \<and>
    polledAt p - 31 * Second < t"
proof -
  have "recorded hash wire ([], zeroPerCR)" by (simp add: recorded_def zeroPerCR_def)
  then have r: "recorded hash wire (foldl (sqPassStep hash wire) ([], zeroPerCR) ps)"
    using assms(3) by (intro run_recorded[OF assms(1,2)]) auto
  have g: "goodPass p" using assms(3) by simp
  obtain obs where "spObs p = Some obs" "obs \<noteq> []" "e \<in> set (sqEntries obs (spSentinels p) (spValkeys p))"
  proof (cases "spObs p")
    case (Some obs)
    moreover have "sqEntries [] (spSentinels p) (spValkeys p) = []" by (simp add: sqEntries_def)
    ultimately show ?thesis using assms(4) that[of obs] by (cases "obs = []") (simp_all add: entriesOf_def)
  qed (use assms(4) in \<open>simp add: entriesOf_def\<close>)
  then show ?thesis using sqPass_step[OF assms(1,2) g r] by (simp add: polledAt_def)
qed

lemma record_fields [simp]:
  "SQObservedPrimary (recordOf e t) = sePrimaryPodName e" "QuorumReachable (recordOf e t) = Some (seQuorumReachable e)"
  "LastObservedTime (recordOf e t) = Some t"
  by (simp_all add: recordOf_def)

lemma clamp_ge:
  "0 \<le> n \<Longrightarrow> n < 2147483648 \<Longrightarrow> clampQuorumToPoolMajority q n \<le> k \<longleftrightarrow> q \<le> k \<and> int (QuorumThreshold (nat n)) \<le> k"
  by (auto simp: clampQuorumToPoolMajority_def QuorumThreshold_def Let_def)

lemma records_fresh:
  assumes "\<forall>e\<in>set es. \<exists>t. f e = Some (recordOf e t) \<and> at - 31 * Second < t" and "31 * Second \<le> at"
    and "now \<le> at + 29 * Second"
  shows "fresh_records now sentinelQuorumFreshnessWindow (map (\<lambda>e. the (f e)) es) = map (\<lambda>e. the (f e)) es"
    and "e \<in> set es \<Longrightarrow> SQObservedPrimary (the (f e)) = sePrimaryPodName e"
    and "e \<in> set es \<Longrightarrow> QuorumReachable (the (f e)) = Some (seQuorumReachable e)"
proof -
  have "is_fresh now sentinelQuorumFreshnessWindow (the (f e))" if e: "e \<in> set es" for e
  proof -
    obtain t where t: "f e = Some (recordOf e t)" "at - 31 * Second < t" using assms(1) e by blast
    have "now - t \<le> 60 * Second" "t \<noteq> 0" using t(2) assms(2,3) by (simp_all add: Second_def)
    then show ?thesis
      using t(1) by (simp add: is_fresh_def IsZero_def sentinelQuorumFreshnessWindow_def Sub_def window_consts)
  qed
  then show "fresh_records now sentinelQuorumFreshnessWindow (map (\<lambda>e. the (f e)) es) = map (\<lambda>e. the (f e)) es"
    by (auto simp: fresh_records_def intro: filter_True)
  show "e \<in> set es \<Longrightarrow> SQObservedPrimary (the (f e)) = sePrimaryPodName e"
    "e \<in> set es \<Longrightarrow> QuorumReachable (the (f e)) = Some (seQuorumReachable e)"
    using assms(1) by fastforce+
qed

section \<open>Where a record comes from\<close>

text \<open>No pass deletes a record, so the store also holds those of sentinels that have left the pool.\<close>

definition stamped :: "(gotime \<Rightarrow> gotime) \<Rightarrow> sqPass list \<Rightarrow> sqStore \<Rightarrow> bool" where
  "stamped wire qs st \<longleftrightarrow>
     distinct (map fst st) \<and>
     (\<forall>n r. map_of st n = Some r \<longrightarrow>
        LastObservedTime r = None \<or>
        (\<exists>i\<in>set qs. n \<in> seName ` set (entriesOf i) \<and> LastObservedTime r = Some (wire (polledAt i))))"

lemma create_records:
  "distinct (map fst st) \<Longrightarrow>
     distinct (map fst (fst (reconcileSentinelQuorums accept ps st))) \<and>
     (\<forall>n r. map_of (fst (reconcileSentinelQuorums accept ps st)) n = Some r \<longrightarrow> map_of st n = Some r \<or> r = emptySQ)"
proof (induction ps arbitrary: st)
  case (Cons p ps)
  let ?st = "if map_of st (pName p) = None then st @ [(pName p, emptySQ)] else st"
  have "distinct (map fst ?st)" using Cons.prems by (auto simp: map_of_eq_None_iff)
  moreover have "map_of ?st n = Some r \<Longrightarrow> map_of st n = Some r \<or> r = emptySQ" for n r
    by (auto simp: map_add_def split: if_splits option.splits)
  ultimately show ?case using Cons.IH[of ?st] Cons.prems by (auto split: if_splits)
qed simp

lemma status_records:
  assumes "list_all (\<lambda>eo. EOAt eo = EOAt (hd obs)) obs"
  shows "distinct (map fst st) \<Longrightarrow>
     distinct (map fst (fst (statusLoop accept wire obs es st))) \<and>
     (\<forall>n r. map_of (fst (statusLoop accept wire obs es st)) n = Some r \<longrightarrow>
        map_of st n = Some r \<or> n \<in> seName ` set es \<and> LastObservedTime r = Some (wire (EOAt (hd obs))))"
proof (induction es arbitrary: st)
  case (Cons e es)
  let ?st = "AList.update (seName e) (recordOf e (wire (EOAt (hd obs)))) st"
  have "distinct (map fst ?st)" using Cons.prems by (rule distinct_update)
  note IH = Cons.IH[OF this]
  have loop: "statusLoop accept wire obs (e # es) st =
      (if \<not> accept (seName e) \<or> map_of st (seName e) = None then (st, False) else statusLoop accept wire obs es ?st)"
    using entryTime_uniform[OF assms] by (simp add: recordOf_def)
  have "map_of ?st n = Some r \<Longrightarrow> map_of st n = Some r \<or> n = seName e \<and> LastObservedTime r = Some (wire (EOAt (hd obs)))"
    for n r by (auto simp: update_conv' split: if_splits)
  then have new: "\<forall>n r. map_of (fst (statusLoop accept wire obs es ?st)) n = Some r \<longrightarrow>
      map_of st n = Some r \<or> n \<in> seName ` set (e # es) \<and> LastObservedTime r = Some (wire (EOAt (hd obs)))"
    using IH unfolding list.set(2) image_insert by blast
  show ?case
  proof (cases "\<not> accept (seName e) \<or> map_of st (seName e) = None")
    case True
    then show ?thesis unfolding loop using Cons.prems by simp
  next
    case False
    then have "statusLoop accept wire obs (e # es) st = statusLoop accept wire obs es ?st" unfolding loop by (rule if_not_P)
    then show ?thesis using IH new by (simp only: simp_thms)
  qed
qed simp

lemma stamped_more: "stamped wire qs st \<Longrightarrow> stamped wire (qs @ [i]) st"
  unfolding stamped_def set_append by blast

lemma pass_stamped:
  assumes "goodPass i" and "stamped wire qs (fst w)"
  shows "stamped wire (qs @ [i]) (fst (sqPassStep hash wire w i))"
proof -
  define st1 where "st1 = fst (reconcileSentinelQuorums (spCreate i) (spSentinels i) (fst w))"
  have s1: "stamped wire qs st1"
    using assms(2) create_records[of "fst w" "spCreate i" "spSentinels i"]
    unfolding stamped_def st1_def by (fastforce simp: emptySQ_def)
  show ?thesis
  proof (cases "\<exists>obs. spObs i = Some obs \<and> obs \<noteq> []")
    case True
    then obtain obs where o: "spObs i = Some obs" "obs \<noteq> []" by blast
    let ?es = "sqEntries obs (spSentinels i) (spValkeys i)"
    have e: "entriesOf i = ?es" "polledAt i = EOAt (hd obs)" using o by (simp_all add: entriesOf_def polledAt_def)
    have "list_all (\<lambda>eo. EOAt eo = EOAt (hd obs)) obs" using assms(1) o by (simp add: goodPass_def)
    note l = status_records[OF this, of st1 "spStatus i" wire ?es]
    have "fst (sqPassStep hash wire w i) \<in> {st1, fst (statusLoop (spStatus i) wire obs ?es st1)}"
      using o by (simp add: sqPassStep_def st1_def[symmetric] reconcileSentinelQuorumStatus_def Let_def case_prod_unfold)
    moreover have "stamped wire (qs @ [i]) st1" by (rule stamped_more[OF s1])
    moreover have "stamped wire (qs @ [i]) (fst (statusLoop (spStatus i) wire obs ?es st1))"
    proof -
      have d: "distinct (map fst st1)" using s1 by (simp add: stamped_def)
      have old: "LastObservedTime r = None \<or>
          (\<exists>j\<in>set (qs @ [i]). n \<in> seName ` set (entriesOf j) \<and> LastObservedTime r = Some (wire (polledAt j)))"
        if "map_of st1 n = Some r" for n r using s1 that unfolding stamped_def set_append by blast
      have new: "\<exists>j\<in>set (qs @ [i]). n \<in> seName ` set (entriesOf j) \<and> LastObservedTime r = Some (wire (polledAt j))"
        if "n \<in> seName ` set ?es" "LastObservedTime r = Some (wire (EOAt (hd obs)))" for n r
        using that e by (intro bexI[of _ i]) simp_all
      show ?thesis unfolding stamped_def using l[OF d] old new by blast
    qed
    ultimately show ?thesis by auto
  next
    case False
    then have "fst (sqPassStep hash wire w i) = st1"
      by (cases "spObs i") (auto simp: sqPassStep_def st1_def[symmetric] reconcileSentinelQuorumStatus_def)
    then show ?thesis using stamped_more[OF s1] by simp
  qed
qed

lemma run_stamped: "list_all goodPass ps \<Longrightarrow> stamped wire ps (fst (foldl (sqPassStep hash wire) ([], zeroPerCR) ps))"
proof (induction ps rule: rev_induct)
  case (snoc i ps)
  then show ?case using pass_stamped[of i wire ps] by simp
qed (simp add: stamped_def)

lemma entries_distinct: "goodPass p \<Longrightarrow> distinct (map seName (entriesOf p))"
  using sqEntries_props(2) by (auto simp: entriesOf_def goodPass_def split: option.splits)

text \<open>
  The sentinels of the last poll are the pool: every sentinel polled before either is still polled, or
  was polled for the last time more than the freshness window ago.
\<close>

definition left_long_ago :: "gotime \<Rightarrow> sqPass list \<Rightarrow> sqPass \<Rightarrow> bool" where
  "left_long_ago now ps p \<longleftrightarrow>
     list_all (\<lambda>i. list_all (\<lambda>e. seName e \<in> seName ` set (entriesOf p) \<or> polledAt i + 60 * Second < now) (entriesOf i)) ps"

lemma fresh_listed:
  assumes "inj hash" and "wire_time wire" and "list_all goodPass (ps @ [p])"
    and "st = fst (foldl (sqPassStep hash wire) ([], zeroPerCR) (ps @ [p]))"
    and "31 * Second \<le> polledAt p" and "now \<le> polledAt p + 29 * Second" and "left_long_ago now ps p"
  shows "mset (fresh_records now sentinelQuorumFreshnessWindow (map snd st)) =
    mset (map (\<lambda>e. the (map_of st (seName e))) (entriesOf p))"
proof -
  let ?F = "is_fresh now sentinelQuorumFreshnessWindow" and ?g = "\<lambda>e. the (map_of st (seName e))"
  have at: "\<forall>e\<in>set (entriesOf p). \<exists>t. map_of st (seName e) = Some (recordOf e t) \<and> polledAt p - 31 * Second < t"
    using records_after[OF assms(1-3)] assms(4) by blast
  have fresh: "?F (?g e)" if "e \<in> set (entriesOf p)" for e
    using records_fresh(1)[OF at assms(5,6)] that by (auto simp: fresh_records_def filter_id_conv)
  have s: "stamped wire (ps @ [p]) st" unfolding assms(4) by (rule run_stamped[OF assms(3)])
  then have d: "distinct (map fst st)" by (simp add: stamped_def)
  have only: "n \<in> seName ` set (entriesOf p)" if nr: "(n, r) \<in> set st" "?F r" for n r
  proof -
    obtain t where t: "LastObservedTime r = Some t" "Sub now t \<le> 60 * Second"
      using nr(2) by (auto simp: is_fresh_def sentinelQuorumFreshnessWindow_def split: option.splits)
    have "map_of st n = Some r" using d nr(1) by simp
    then obtain i where i: "i \<in> set (ps @ [p])" "n \<in> seName ` set (entriesOf i)" "t = wire (polledAt i)"
      using s t(1) by (fastforce simp: stamped_def)
    have "t \<le> polledAt i" using assms(2) i(3) by (simp add: wire_time_def)
    then have "\<not> polledAt i + 60 * Second < now"
      using t(2) by (auto simp: Sub_def window_consts max_def min_def split: if_splits)
    then show ?thesis using i(1,2) assms(7) by (auto simp: left_long_ago_def list_all_iff)
  qed
  have "set (filter (?F \<circ> snd) st) = set (map (\<lambda>e. (seName e, ?g e)) (entriesOf p))"
  proof
    show "set (filter (?F \<circ> snd) st) \<subseteq> set (map (\<lambda>e. (seName e, ?g e)) (entriesOf p))"
      using only d by fastforce
    show "set (map (\<lambda>e. (seName e, ?g e)) (entriesOf p)) \<subseteq> set (filter (?F \<circ> snd) st)"
      using fresh at by (fastforce dest: map_of_SomeD)
  qed
  moreover have "distinct (filter (?F \<circ> snd) st)" using d by (simp add: distinct_map)
  moreover have "distinct (map (\<lambda>e. (seName e, ?g e)) (entriesOf p))"
    using entries_distinct[of p] assms(3) by (auto simp: distinct_map inj_on_def)
  ultimately have "mset (filter (?F \<circ> snd) st) = mset (map (\<lambda>e. (seName e, ?g e)) (entriesOf p))"
    using set_eq_iff_mset_eq_distinct by blast
  then have "mset (map snd (filter (?F \<circ> snd) st)) = mset (map snd (map (\<lambda>e. (seName e, ?g e)) (entriesOf p)))"
    unfolding mset_map by simp
  then show ?thesis by (simp add: fresh_records_def filter_map comp_def)
qed

lemma counts_mset:
  assumes "mset rs = mset rs'"
  shows "length rs = length rs'" "votes_for n rs = votes_for n rs'" "reachable_count rs = reachable_count rs'"
  using assms mset_eq_length[OF assms] unfolding votes_for_def reachable_count_def
  by (simp_all add: mset_filter flip: size_mset)

text \<open>
  C16. The reported quorum follows the last poll, skipped writes and left-over records included. The
  read lists every record of the resource, also those of sentinels that have left, which no pass
  deletes. After any sequence of passes whose applies succeed, in which every sentinel that is gone
  was polled for the last time more than sixty seconds ago, such a read within 29 seconds of the last
  poll confirms a primary pod exactly when a strict majority of that poll's answers name it, and
  reports quorum exactly when at least the configured number and at least a majority of the pool reach
  theirs; so neither skipping unchanged content nor a quorum configured below the majority lets a
  verdict rest on anything else. (A sentinel that left within the sixty seconds still votes.)
\<close>

theorem aggregate_tracks_poll:
  assumes "inj hash" and "wire_time wire" and "list_all goodPass (ps @ [p])"
    and "\<And>vs. mset (order vs) = mset vs"
    and "st = fst (foldl (sqPassStep hash wire) ([], zeroPerCR) (ps @ [p]))"
    and "mset listed = mset (map snd st)"
    and "31 * Second \<le> polledAt p" and "now \<le> polledAt p + 29 * Second" and "left_long_ago now ps p"
    and "mode_of v = ModeSentinel" and "SpecSentinel (Spec v) = Some sp"
    and "0 \<le> SentinelReplicas sp" and "SentinelReplicas sp < 2147483648"
  shows "let r = aggregateSentinelQuorum order now v (Some listed);
             reach = int (length (filter seQuorumReachable (entriesOf p)))
    in (PrimaryConfirmed r \<and> PrimaryPod r = n \<longleftrightarrow>
          n \<noteq> [] \<and> length (entriesOf p) < 2 * length (filter (\<lambda>e. sePrimaryPodName e = n) (entriesOf p))) \<and>
       (AggQuorum r = QuorumStatusOK \<longleftrightarrow>
          entriesOf p \<noteq> [] \<and> SpecQuorum sp \<le> reach \<and> int (QuorumThreshold (nat (SentinelReplicas sp))) \<le> reach)"
proof -
  let ?w = sentinelQuorumFreshnessWindow and ?q = "clampQuorumToPoolMajority (SpecQuorum sp) (SentinelReplicas sp)"
  define rs where "rs = map (\<lambda>e. the (map_of st (seName e))) (entriesOf p)"
  have "\<forall>e\<in>set (entriesOf p). \<exists>t. map_of st (seName e) = Some (recordOf e t) \<and> polledAt p - 31 * Second < t"
    using records_after[OF assms(1-3)] assms(5) by blast
  note f = records_fresh[OF this assms(7,8)]
  have "mset (fresh_records now ?w listed) = mset (fresh_records now ?w (map snd st))"
    using assms(6) by (simp add: fresh_records_def)
  then have m: "mset (fresh_records now ?w listed) = mset rs"
    unfolding rs_def using fresh_listed[OF assms(1-3,5,7-9)] by simp
  note c = counts_mset[OF m]
  have vf: "votes_for n rs = length (filter (\<lambda>e. sePrimaryPodName e = n) (entriesOf p))"
    unfolding votes_for_def rs_def filter_map length_map comp_def
    by (rule arg_cong[where f = length], rule filter_cong[OF refl]) (simp add: f(2))
  have rc: "reachable_count rs = length (filter seQuorumReachable (entriesOf p))"
    unfolding reachable_count_def rs_def filter_map length_map comp_def
    by (rule arg_cong[where f = length], rule filter_cong[OF refl]) (simp add: f(3))
  have r: "aggregateSentinelQuorum order now v (Some listed) = Aggregate order now ?w ?q listed"
    using assms(10,11) by (simp add: aggregateSentinelQuorum_def)
  have "PrimaryConfirmed (Aggregate order now ?w ?q listed) \<and> PrimaryPod (Aggregate order now ?w ?q listed) = n \<longleftrightarrow>
      majority_pod n (fresh_records now ?w listed)"
    using agg_winner[OF assms(4), of now ?w listed n] by (auto simp: Aggregate_def Let_def agg_loop_counts)
  moreover have "AggQuorum (Aggregate order now ?w ?q listed) = QuorumStatusOK \<longleftrightarrow>
      length (fresh_records now ?w listed) \<noteq> 0 \<and> ?q \<le> int (reachable_count (fresh_records now ?w listed))"
    by (auto simp: Aggregate_def Let_def agg_loop_counts fresh_records_def[of _ _ "[]"])
  ultimately show ?thesis
    unfolding r Let_def majority_pod_def c vf rc clamp_ge[OF assms(12,13)] by (auto simp: rs_def)
qed

section \<open>Examples\<close>

definition seen :: "string \<Rightarrow> string \<Rightarrow> gotime \<Rightarrow> EndpointObservation" where
  "seen n a t =
     \<lparr>EOName = n, EOPrimaryAddr = a, EOQuorumReachable = (a \<noteq> []), EOReachable = True, EOAt = t,
      EOKnownReplicas = 2, EOKnownSentinels = 2, EOCountsValid = True\<rparr>"

definition example_sqPass :: "gotime \<Rightarrow> sqPass" where
  "example_sqPass t =
     \<lparr>spCreate = (\<lambda>_. True), spStatus = (\<lambda>_. True),
      spObs = Some [seen ''s-0'' ''10.0.0.9:6379'' t, seen ''s-1'' ''10.0.0.9:6379'' t, seen ''s-2'' [] t],
      spSentinels = [pod_at ''s-0'' ''10.0.1.0'' [], pod_at ''s-1'' ''10.0.1.1'' [], pod_at ''s-2'' ''10.0.1.2'' []],
      spValkeys = example_pods\<rparr>"

definition three_sentinels :: Valkey where
  "three_sentinels = example_cr\<lparr>Spec := (Spec example_cr)\<lparr>SpecSentinel :=
     Some \<lparr>MasterName = ''m'', SentinelReplicas = 3, SpecQuorum = 1, DownAfterMilliseconds = 3000,
           FailoverTimeout = 180000, ParallelSyncs = 1\<rparr>\<rparr>\<rparr>"

lemma example_entries:
  "entriesOf (example_sqPass t) =
     [\<lparr>seName = ''s-0'', sePrimaryAddr = ''10.0.0.9:6379'', sePrimaryPodName = ''v-0'',
       seQuorumReachable = True, seReachable = True\<rparr>,
      \<lparr>seName = ''s-1'', sePrimaryAddr = ''10.0.0.9:6379'', sePrimaryPodName = ''v-0'',
       seQuorumReachable = True, seReachable = True\<rparr>,
      \<lparr>seName = ''s-2'', sePrimaryAddr = [], sePrimaryPodName = [], seQuorumReachable = False, seReachable = True\<rparr>]"
  by code_simp

lemma example_good: "goodPass (example_sqPass t)"
proof -
  have "list_all plain (entriesOf (example_sqPass t))" unfolding example_entries by code_simp
  then show ?thesis by (simp add: goodPass_def example_sqPass_def entriesOf_def seen_def)
qed

text \<open>A fourth sentinel, polled once and gone since; its record stays in the store.\<close>

definition departed_sqPass :: sqPass where
  "departed_sqPass =
     \<lparr>spCreate = (\<lambda>_. True), spStatus = (\<lambda>_. True), spObs = Some [seen ''s-3'' ''10.0.0.1:6379'' (40 * Second)],
      spSentinels = [pod_at ''s-3'' ''10.0.1.3'' []], spValkeys = example_pods\<rparr>"

lemma departed_entries:
  "map seName (entriesOf departed_sqPass) = [''s-3'']" "list_all plain (entriesOf departed_sqPass)"
  by code_simp+

lemma departed_good: "goodPass departed_sqPass"
  using departed_entries(2) by (simp add: goodPass_def departed_sqPass_def entriesOf_def)

theorem aggregate_tracks_poll_witness:
  "let st = fst (foldl (sqPassStep id floorSecond) ([], zeroPerCR) ([departed_sqPass] @ [example_sqPass (110 * Second)]));
       r = aggregateSentinelQuorum rev (120 * Second) three_sentinels (Some (rev (map snd st)))
   in PrimaryConfirmed r \<and> PrimaryPod r = ''v-0'' \<and> AggQuorum r = QuorumStatusOK"
proof -
  let ?p = "example_sqPass (110 * Second)"
  have g: "list_all goodPass ([departed_sqPass] @ [?p])" by (simp add: example_good departed_good)
  have t: "31 * Second \<le> polledAt ?p" "120 * Second \<le> polledAt ?p + 29 * Second"
    by (simp_all add: polledAt_def example_sqPass_def seen_def Second_def)
  have "polledAt departed_sqPass + 60 * Second < 120 * Second"
    by (simp add: polledAt_def departed_sqPass_def seen_def Second_def)
  then have l: "left_long_ago (120 * Second) [departed_sqPass] ?p" by (simp add: left_long_ago_def list_all_iff)
  have v: "mode_of three_sentinels = ModeSentinel"
    "SpecSentinel (Spec three_sentinels) = Some \<lparr>MasterName = ''m'', SentinelReplicas = 3, SpecQuorum = 1,
       DownAfterMilliseconds = 3000, FailoverTimeout = 180000, ParallelSyncs = 1\<rparr>"
    by (simp_all add: three_sentinels_def example_cr_def)
  have n: "0 \<le> SentinelReplicas \<lparr>MasterName = ''m'', SentinelReplicas = 3, SpecQuorum = 1,
       DownAfterMilliseconds = 3000, FailoverTimeout = 180000, ParallelSyncs = 1\<rparr>"
    "SentinelReplicas \<lparr>MasterName = ''m'', SentinelReplicas = 3, SpecQuorum = 1,
       DownAfterMilliseconds = 3000, FailoverTimeout = 180000, ParallelSyncs = 1\<rparr> < 2147483648"
    by simp_all
  have m: "\<And>vs. mset (rev vs) = mset (vs :: votes)" "mset (rev rs) = mset rs" for rs :: "SentinelQuorumStatus list"
    by simp_all
  show ?thesis
    using aggregate_tracks_poll[OF inj_on_id wire_time_floorSecond g m(1) refl m(2) t l v n, of "''v-0''"]
    unfolding Let_def example_entries by (simp add: QuorumThreshold_def)
qed

end
