(* ===== verification/Retention.thy ===== *)
theory Retention
  imports Status_Update PVC_Resize
begin

text \<open>
  Phase 0 of a reconcile, \<^verbatim>\<open>internal/controller/valkey_controller.go\<close> and
  \<^verbatim>\<open>valkey_controller_pvcloss.go\<close>: the pause annotation, the retention finalizer, the deletion that
  applies \<^verbatim>\<open>spec.pvcRetentionPolicy\<close> to the claims, the missing auth Secret with its backoff, and the
  gate that refuses to recreate a StatefulSet whose claims are all gone.

  Of the object's metadata the model keeps what these functions read: the UID, whether the finalizer
  list holds the retention finalizer (all that the finalizer helpers are asked), the annotations,
  the deletion mark, the policy and the name of the auth Secret. A claim has its owners' UIDs and a
  deletion mark. The answers of the API server are arguments. Audit, log and metrics only write; the
  audited requestor is part of the result. The rotation driver, which cannot stop the phase, is left
  out.

  The lemmas say what a deletion leaves behind under each policy and when the finalizer goes, when
  the gate lets a pass through, that a consent is used once, and that the gate also refuses a
  resource whose first pass was interrupted.
\<close>

section \<open>Metadata\<close>

definition PauseAnnotation :: string where
  "PauseAnnotation = ''velkir.ioxie.dev/paused''"

definition AcceptPVCLossAnnotation :: string where
  "AcceptPVCLossAnnotation = ''velkir.ioxie.dev/accept-pvc-loss''"

definition AcceptPVCLossRequestorAnnotation :: string where
  "AcceptPVCLossRequestorAnnotation = AcceptPVCLossAnnotation @ ''-requestor''"

definition ForceRotateAnnotation :: string where
  "ForceRotateAnnotation = ''velkir.ioxie.dev/force-rotate''"

definition singleShotAnnotations :: "string list" where
  "singleShotAnnotations = [AcceptPVCLossAnnotation, ForceRotateAnnotation]"

record crMeta =
  mUID :: string
  mRetention :: bool
  mAnnotations :: "(string \<times> string) list"
  mDeleting :: bool
  mPolicy :: string
  mAuthSecret :: string

definition annotation :: "crMeta \<Rightarrow> string \<Rightarrow> string" where
  "annotation m k = (case map_of (mAnnotations m) k of None \<Rightarrow> [] | Some x \<Rightarrow> x)"

definition policyOf :: "crMeta \<Rightarrow> string" where
  "policyOf m = (if mPolicy m = [] then ''Retain'' else mPolicy m)"

section \<open>Deletion\<close>

record claim =
  clName :: string
  clOwners :: "string list"
  clTerminating :: bool

definition hasCROwnerRef :: "claim \<Rightarrow> crMeta \<Rightarrow> bool" where
  "hasCROwnerRef c m = list_ex (\<lambda>u. u = mUID m) (clOwners c)"

definition stripCROwnerRef :: "string list \<Rightarrow> crMeta \<Rightarrow> string list" where
  "stripCROwnerRef refs m = filter (\<lambda>u. u \<noteq> mUID m) refs"

text \<open>One turn of the loop: the claim as the server then has it, and whether the patch failed.\<close>

definition deletionTurn :: "(string \<Rightarrow> bool) \<Rightarrow> crMeta \<Rightarrow> claim \<Rightarrow> claim \<times> bool" where
  "deletionTurn accept m c =
     (if policyOf m = ''Delete'' then
        (if \<not> hasCROwnerRef c m then
           (if accept (clName c) then (c\<lparr>clOwners := clOwners c @ [mUID m]\<rparr>, False) else (c, True))
         else (c, False))
      else
        (if hasCROwnerRef c m then
           (if accept (clName c) then (c\<lparr>clOwners := stripCROwnerRef (clOwners c) m\<rparr>, False) else (c, True))
         else (c, False)))"

fun deletionLoop :: "(string \<Rightarrow> bool) \<Rightarrow> crMeta \<Rightarrow> claim list \<Rightarrow> claim list \<times> bool" where
  "deletionLoop accept m [] = ([], False)"
| "deletionLoop accept m (c # cs) =
     (let (c', e) = deletionTurn accept m c; (cs', es) = deletionLoop accept m cs in (c' # cs', e \<or> es))"

definition reconcileDeletion ::
  "bool \<Rightarrow> (string \<Rightarrow> bool) \<Rightarrow> bool \<Rightarrow> crMeta \<times> claim list \<Rightarrow> (crMeta \<times> claim list) \<times> bool" where
  "reconcileDeletion listOk accept finalOk w =
     (let (m, claims) = w in
      if \<not> listOk then (w, False)
      else
        (let (claims', errs) = deletionLoop accept m claims in
         if errs then ((m, claims'), False)
         else if mRetention m then
           (if finalOk then ((m\<lparr>mRetention := False\<rparr>, claims'), True) else ((m, claims'), False))
         else ((m, claims'), True)))"

section \<open>The gate\<close>

datatype gateResult = GateProceed "string option" | GateRefused | GateError

definition detectPVCLossAndGate :: "crMeta \<Rightarrow> bool \<Rightarrow> StatefulSet fetched \<Rightarrow> claim list option \<Rightarrow> gateResult" where
  "detectPVCLossAndGate m hadFinalizer sts listed =
     (if \<not> hadFinalizer then GateProceed None
      else if policyOf m \<noteq> ''Retain'' then GateProceed None
      else (case sts of
              Found s \<Rightarrow> GateProceed None
            | FetchError e \<Rightarrow> GateError
            | NotFound \<Rightarrow>
                (case listed of
                   None \<Rightarrow> GateError
                 | Some pvcs \<Rightarrow>
                     if 0 < length (filter (\<lambda>c. \<not> clTerminating c) pvcs) then GateProceed None
                     else if annotation m AcceptPVCLossAnnotation = ''true''
                     then GateProceed (Some (annotation m AcceptPVCLossRequestorAnnotation))
                     else GateRefused)))"

definition clearSingleShotAnnotations :: "bool \<Rightarrow> crMeta \<Rightarrow> crMeta \<times> bool" where
  "clearSingleShotAnnotations ok m =
     (if \<not> list_ex (\<lambda>k. map_of (mAnnotations m) k \<noteq> None) singleShotAnnotations then (m, True)
      else if ok
      then (m\<lparr>mAnnotations := filter (\<lambda>(k, x). k \<notin> set singleShotAnnotations) (mAnnotations m)\<rparr>, True)
      else (m, False))"

section \<open>The auth Secret\<close>

definition authSecretMissingRequeue :: duration where
  "authSecretMissingRequeue = 30 * Second"

definition backoffForMissingAuthSecret :: "duration \<Rightarrow> duration" where
  "backoffForMissingAuthSecret elapsed =
     (if elapsed < 5 * Minute then authSecretMissingRequeue
      else if elapsed < 30 * Minute then Minute
      else 5 * Minute)"

definition observeMissingAuthSecret :: "gotime \<Rightarrow> perCRState \<Rightarrow> perCRState \<times> duration" where
  "observeMissingAuthSecret now s =
     (let (s', t0) = observeMissingAuthFirstSeen now s in (s', backoffForMissingAuthSecret (Sub now t0)))"

section \<open>Phase 0\<close>

datatype secretRead = SecretFound | SecretMissing | SecretError

record phase0Env =
  evFinalizerOk :: bool
  evContended :: bool
  evListOk :: bool
  evAccept :: "string \<Rightarrow> bool"
  evFinalOk :: bool
  evSecret :: secretRead
  evNow :: gotime
  evSts :: "StatefulSet fetched"
  evClaims :: "claim list option"

datatype phase0Out =
    Paused0 duration | FinalizerFailed | Contended duration | DeletionDone | DeletionFailed
  | AuthMissing duration | AuthFailed | LossRefused duration | Proceeds "string option"

definition pausedRequeueAfter :: duration where
  "pausedRequeueAfter = 5 * Minute"

definition pvcLossGateRequeue :: duration where
  "pvcLossGateRequeue = 30 * Second"

text \<open>The caller answers a refusal and an error of the gate alike.\<close>

definition phase0 ::
  "phase0Env \<Rightarrow> crMeta \<times> claim list \<times> perCRState \<Rightarrow> (crMeta \<times> claim list \<times> perCRState) \<times> phase0Out" where
  "phase0 env w =
     (let (m, claims, s) = w; had = mRetention m in
      if annotation m PauseAnnotation = ''true''
      then (w, Paused0 (mergeRequeue pausedRequeueAfter baselineReconcileWatchdog))
      else if \<not> mDeleting m \<and> \<not> mRetention m \<and> \<not> evFinalizerOk env then (w, FinalizerFailed)
      else
        (let m1 = (if mDeleting m then m else m\<lparr>mRetention := True\<rparr>) in
         if evContended env then ((m1, claims, s), Contended minRequeueFloor)
         else if mDeleting m1 then
           (case reconcileDeletion (evListOk env) (evAccept env) (evFinalOk env) (m1, claims) of
              ((m2, cs), ok) \<Rightarrow> ((m2, cs, s), if ok then DeletionDone else DeletionFailed))
         else if mAuthSecret m1 \<noteq> [] \<and> evSecret env = SecretMissing then
           (let (s', d) = observeMissingAuthSecret (evNow env) s in ((m1, claims, s'), AuthMissing d))
         else if mAuthSecret m1 \<noteq> [] \<and> evSecret env = SecretError then ((m1, claims, s), AuthFailed)
         else
           (let s1 = (if mAuthSecret m1 \<noteq> [] then clearMissingAuthSeen s else s) in
            (case detectPVCLossAndGate m1 had (evSts env) (evClaims env) of
               GateProceed a \<Rightarrow> ((m1, claims, s1), Proceeds a)
             | GateRefused \<Rightarrow> ((m1, claims, s1), LossRefused pvcLossGateRequeue)
             | GateError \<Rightarrow> ((m1, claims, s1), LossRefused pvcLossGateRequeue)))))"

section \<open>What a deletion leaves\<close>

definition shaped :: "crMeta \<Rightarrow> claim \<Rightarrow> bool" where
  "shaped m c \<longleftrightarrow> (mUID m \<in> set (clOwners c) \<longleftrightarrow> policyOf m = ''Delete'')"

definition otherOwners :: "crMeta \<Rightarrow> claim \<Rightarrow> string list" where
  "otherOwners m c = filter (\<lambda>u. u \<noteq> mUID m) (clOwners c)"

lemma hasCROwnerRef_iff: "hasCROwnerRef c m \<longleftrightarrow> mUID m \<in> set (clOwners c)"
  by (auto simp: hasCROwnerRef_def list_ex_iff)

lemma turn_props:
  "snd (deletionTurn accept m c) \<longleftrightarrow> \<not> shaped m (fst (deletionTurn accept m c))"
  "shaped m (fst (deletionTurn accept m c)) \<longleftrightarrow> shaped m c \<or> accept (clName c)"
  "clName (fst (deletionTurn accept m c)) = clName c"
  "otherOwners m (fst (deletionTurn accept m c)) = otherOwners m c"
  by (auto simp: deletionTurn_def shaped_def otherOwners_def hasCROwnerRef_iff stripCROwnerRef_def)

lemma loop_map: "fst (deletionLoop accept m cs) = map (\<lambda>c. fst (deletionTurn accept m c)) cs"
  by (induction cs) (simp_all add: Let_def case_prod_unfold)

lemma loop_errs: "snd (deletionLoop accept m cs) \<longleftrightarrow> \<not> list_all (\<lambda>c. shaped m c \<or> accept (clName c)) cs"
  by (induction cs) (simp_all add: Let_def case_prod_unfold turn_props)

lemma meta_shaped [simp]:
  "shaped (m\<lparr>mRetention := b\<rparr>) = shaped m" "otherOwners (m\<lparr>mRetention := b\<rparr>) = otherOwners m"
  "policyOf (m\<lparr>mRetention := b\<rparr>) = policyOf m"
  by (simp_all add: fun_eq_iff shaped_def otherOwners_def policyOf_def)

definition deletionPass ::
  "crMeta \<times> claim list \<Rightarrow> bool \<times> (string \<Rightarrow> bool) \<times> bool \<Rightarrow> crMeta \<times> claim list" where
  "deletionPass w i = fst (reconcileDeletion (fst i) (fst (snd i)) (snd (snd i)) w)"

lemma deletionPass_eq:
  "deletionPass (m, cs) (listOk, accept, finalOk) =
     (if \<not> listOk then (m, cs)
      else (if list_all (\<lambda>c. shaped m c \<or> accept (clName c)) cs \<and> finalOk then m\<lparr>mRetention := False\<rparr> else m,
            map (\<lambda>c. fst (deletionTurn accept m c)) cs))"
  by (cases "mRetention m")
    (simp_all add: deletionPass_def reconcileDeletion_def Let_def case_prod_unfold loop_map loop_errs)

definition acceptedIn :: "(bool \<times> (string \<Rightarrow> bool) \<times> bool) list \<Rightarrow> string \<Rightarrow> bool" where
  "acceptedIn xs n = list_ex (\<lambda>(l, a, f). l \<and> a n) xs"

lemma deletion_run:
  "\<exists>b cs'. foldl deletionPass (m, cs) xs = (m\<lparr>mRetention := b\<rparr>, cs') \<and>
     (b \<or> \<not> mRetention m \<or> list_all (shaped m) cs') \<and> (\<not> mRetention m \<longrightarrow> \<not> b) \<and>
     map clName cs' = map clName cs \<and> map (otherOwners m) cs' = map (otherOwners m) cs \<and>
     map (shaped m) cs' = map (\<lambda>c. shaped m c \<or> acceptedIn xs (clName c)) cs"
proof (induction xs rule: rev_induct)
  case Nil
  have "m = m\<lparr>mRetention := mRetention m\<rparr>" by simp
  then show ?case by (intro exI[of _ "mRetention m"] exI[of _ cs]) (simp add: acceptedIn_def)
next
  case (snoc x xs)
  obtain l a f where x: "x = (l, a, f)" by (cases x)
  obtain b cs' where IH: "foldl deletionPass (m, cs) xs = (m\<lparr>mRetention := b\<rparr>, cs')"
    "b \<or> \<not> mRetention m \<or> list_all (shaped m) cs'" "\<not> mRetention m \<longrightarrow> \<not> b" "map clName cs' = map clName cs"
    "map (otherOwners m) cs' = map (otherOwners m) cs"
    "map (shaped m) cs' = map (\<lambda>c. shaped m c \<or> acceptedIn xs (clName c)) cs"
    using snoc by blast
  let ?m = "m\<lparr>mRetention := b\<rparr>" and ?d = "map (\<lambda>c. fst (deletionTurn a (m\<lparr>mRetention := b\<rparr>) c)) cs'"
  let ?all = "list_all (\<lambda>c. shaped m c \<or> a (clName c)) cs'"
  have t: "shaped m (fst (deletionTurn a ?m c)) \<longleftrightarrow> shaped m c \<or> a (clName c)"
    "otherOwners m (fst (deletionTurn a ?m c)) = otherOwners m c" for c
    using turn_props(2,4)[of ?m a c] by simp_all
  have run: "foldl deletionPass (m, cs) (xs @ [x]) =
      (if \<not> l then (?m, cs') else (m\<lparr>mRetention := b \<and> \<not> (?all \<and> f)\<rparr>, ?d))"
    using IH(1) by (simp add: x deletionPass_eq)
  have sh: "map (shaped m) ?d = map (\<lambda>c. shaped m c \<or> acceptedIn xs (clName c) \<or> a (clName c)) cs"
  proof (rule nth_equalityI)
    have len: "length cs' = length cs" using IH(4) map_eq_imp_length_eq by blast
    then show "length (map (shaped m) ?d) = length (map (\<lambda>c. shaped m c \<or> acceptedIn xs (clName c) \<or> a (clName c)) cs)"
      by simp
    fix i assume "i < length (map (shaped m) ?d)"
    then have i: "i < length cs'" "i < length cs" using len by simp_all
    have "clName (cs' ! i) = clName (cs ! i)" "shaped m (cs' ! i) \<longleftrightarrow> shaped m (cs ! i) \<or> acceptedIn xs (clName (cs ! i))"
      using arg_cong[OF IH(4), of "\<lambda>l. l ! i"] arg_cong[OF IH(6), of "\<lambda>l. l ! i"] i by simp_all
    with i show "map (shaped m) ?d ! i = map (\<lambda>c. shaped m c \<or> acceptedIn xs (clName c) \<or> a (clName c)) cs ! i"
      by (auto simp: t)
  qed
  have keep: "list_all (shaped m) ?d" if "?all \<or> list_all (shaped m) cs'"
    using that by (auto simp: list_all_iff t)
  show ?case
  proof (cases l)
    case False
    then show ?thesis using run IH by (intro exI[of _ b] exI[of _ cs']) (simp add: acceptedIn_def x)
  next
    case True
    have "map clName ?d = map clName cs" "map (otherOwners m) ?d = map (otherOwners m) cs"
      using IH(4,5) by (simp_all add: comp_def t turn_props(3))
    with True run IH(2,3) sh keep show ?thesis
      by (intro exI[of _ "b \<and> \<not> (?all \<and> f)"] exI[of _ ?d]) (auto simp: acceptedIn_def x)
  qed
qed

text \<open>
  C12. A deletion applies the retention policy before it lets the resource go. Over any sequence of
  deletion passes, whatever calls fail: once the finalizer is gone every claim is owned by the
  resource under \<^verbatim>\<open>Delete\<close>, so that garbage collection takes it, and by no one of that UID under every
  other policy, so that it stays; no claim and no other owner is touched. And the finalizer goes as
  soon as a pass completes its reads and its last patch, with the patch of every claim accepted in it
  or in an earlier pass: one failing claim holds up neither the others nor the result.
\<close>

theorem deletion_applies_policy:
  assumes "mRetention m"
  shows "let r = foldl deletionPass (m, claims) xs in
    (\<not> mRetention (fst r) \<longrightarrow> list_all (\<lambda>c. mUID m \<in> set (clOwners c) \<longleftrightarrow> policyOf m = ''Delete'') (snd r)) \<and>
    map clName (snd r) = map clName claims \<and>
    map (\<lambda>c. filter (\<lambda>u. u \<noteq> mUID m) (clOwners c)) (snd r) = map (\<lambda>c. filter (\<lambda>u. u \<noteq> mUID m) (clOwners c)) claims \<and>
    (list_all (\<lambda>c. acceptedIn (xs @ [(True, accept, True)]) (clName c)) claims \<longrightarrow>
       \<not> mRetention (fst (deletionPass r (True, accept, True))))"
proof -
  obtain b cs' where r: "foldl deletionPass (m, claims) xs = (m\<lparr>mRetention := b\<rparr>, cs')"
    "b \<or> \<not> mRetention m \<or> list_all (shaped m) cs'" "map clName cs' = map clName claims"
    "map (otherOwners m) cs' = map (otherOwners m) claims"
    "map (shaped m) cs' = map (\<lambda>c. shaped m c \<or> acceptedIn xs (clName c)) claims"
    using deletion_run[of m claims xs] by blast
  have sh: "shaped m = (\<lambda>c. mUID m \<in> set (clOwners c) \<longleftrightarrow> policyOf m = ''Delete'')"
    "otherOwners m = (\<lambda>c. filter (\<lambda>u. u \<noteq> mUID m) (clOwners c))"
    by (simp_all add: fun_eq_iff shaped_def otherOwners_def)
  have "\<not> mRetention (fst (deletionPass (m\<lparr>mRetention := b\<rparr>, cs') (True, accept, True)))"
    if "list_all (\<lambda>c. acceptedIn (xs @ [(True, accept, True)]) (clName c)) claims"
  proof -
    have "shaped m c \<or> accept (clName c)" if c: "c \<in> set cs'" for c
    proof -
      obtain i where i: "i < length cs'" "c = cs' ! i" using c by (auto simp: in_set_conv_nth)
      have len: "length cs' = length claims" using r(3) map_eq_imp_length_eq by blast
      have "clName c = clName (claims ! i)" "shaped m c \<longleftrightarrow> shaped m (claims ! i) \<or> acceptedIn xs (clName (claims ! i))"
        using arg_cong[OF r(3), of "\<lambda>l. l ! i"] arg_cong[OF r(5), of "\<lambda>l. l ! i"] i len by simp_all
      moreover have "acceptedIn (xs @ [(True, accept, True)]) (clName (claims ! i))"
        using \<open>list_all _ claims\<close> i len by (simp add: list_all_length)
      ultimately show ?thesis by (auto simp: acceptedIn_def)
    qed
    then show ?thesis by (simp add: deletionPass_eq list_all_iff)
  qed
  with r assms show ?thesis unfolding Let_def sh[symmetric] by (auto simp: r(1))
qed

section \<open>When the gate opens\<close>

definition lost :: "phase0Env \<Rightarrow> bool" where
  "lost env \<longleftrightarrow> evSts env = NotFound \<and> (\<exists>cs. evClaims env = Some cs \<and> list_all clTerminating cs)"

definition readable :: "phase0Env \<Rightarrow> bool" where
  "readable env \<longleftrightarrow> (\<forall>e. evSts env \<noteq> FetchError e) \<and> (evSts env = NotFound \<longrightarrow> evClaims env \<noteq> None)"

lemma gate_exact:
  "readable env \<Longrightarrow> detectPVCLossAndGate m had (evSts env) (evClaims env) =
     (if had \<and> policyOf m = ''Retain'' \<and> lost env
      then (if annotation m AcceptPVCLossAnnotation = ''true''
            then GateProceed (Some (annotation m AcceptPVCLossRequestorAnnotation)) else GateRefused)
      else GateProceed None)"
  by (cases "evSts env"; cases "evClaims env")
    (auto simp: detectPVCLossAndGate_def readable_def lost_def list_all_iff filter_empty_conv)

definition running :: "phase0Env \<Rightarrow> crMeta \<Rightarrow> bool" where
  "running env m \<longleftrightarrow>
     annotation m PauseAnnotation \<noteq> ''true'' \<and> \<not> mDeleting m \<and> \<not> evContended env \<and>
     (mAuthSecret m \<noteq> [] \<longrightarrow> evSecret env = SecretFound)"

lemma annotation_retention [simp]: "annotation (m\<lparr>mRetention := b\<rparr>) k = annotation m k"
  by (simp add: annotation_def)

lemma phase0_running:
  assumes "running env m" and "mRetention m \<or> evFinalizerOk env"
  shows "snd (phase0 env (m, claims, s)) =
      (case detectPVCLossAndGate m (mRetention m) (evSts env) (evClaims env) of
         GateProceed a \<Rightarrow> Proceeds a | _ \<Rightarrow> LossRefused pvcLossGateRequeue)"
    and "fst (fst (phase0 env (m, claims, s))) = m\<lparr>mRetention := True\<rparr>"
  using assms
  by (auto simp: phase0_def running_def Let_def detectPVCLossAndGate_def annotation_retention split: gateResult.split fetched.split option.split)

lemma map_of_drop_keys: "map_of (filter (\<lambda>(k, x). k \<notin> S) al) k = (if k \<in> S then None else map_of al k)"
  by (induction al) auto

lemma clear_annotation:
  "clearSingleShotAnnotations True m = (m', ok) \<Longrightarrow>
     annotation m' AcceptPVCLossAnnotation = [] \<and> mRetention m' = mRetention m \<and> policyOf m' = policyOf m \<and>
     mDeleting m' = mDeleting m \<and> mAuthSecret m' = mAuthSecret m \<and> annotation m' PauseAnnotation = annotation m PauseAnnotation"
proof -
  assume a: "clearSingleShotAnnotations True m = (m', ok)"
  have k: "PauseAnnotation \<notin> set singleShotAnnotations" "AcceptPVCLossAnnotation \<in> set singleShotAnnotations"
    by (simp_all add: singleShotAnnotations_def PauseAnnotation_def AcceptPVCLossAnnotation_def ForceRotateAnnotation_def)
  show ?thesis
  proof (cases "list_ex (\<lambda>k. map_of (mAnnotations m) k \<noteq> None) singleShotAnnotations")
    case True
    then have "m' = m\<lparr>mAnnotations := filter (\<lambda>(k, x). k \<notin> set singleShotAnnotations) (mAnnotations m)\<rparr>"
      using a by (simp add: clearSingleShotAnnotations_def)
    then show ?thesis using k by (simp add: annotation_def policyOf_def map_of_drop_keys)
  next
    case False
    then have "m' = m" "map_of (mAnnotations m) AcceptPVCLossAnnotation = None"
      using a k(2) by (simp_all add: clearSingleShotAnnotations_def list_ex_iff)
    then show ?thesis by (simp add: annotation_def)
  qed
qed

text \<open>
  C17. The data-loss gate, and that a consent is used once. On a running pass with the finalizer in
  place and readable state, the phases that create the StatefulSet and with it empty claims are
  reached exactly when the policy is not \<^verbatim>\<open>Retain\<close>, or the StatefulSet or a live claim is still there,
  or the annotation says \<^verbatim>\<open>true\<close>; only in the last case a requestor is audited. After the pass has
  cleared its annotations, another such loss is refused.
\<close>

theorem loss_needs_consent:
  assumes "running env m" and "mRetention m" and "readable env"
    and "clearSingleShotAnnotations True m = (m', ok)" and "running env' m" and "lost env'" and "policyOf m = ''Retain''"
  shows "((\<exists>a. snd (phase0 env (m, claims, s)) = Proceeds a) \<longleftrightarrow>
       \<not> lost env \<or> annotation m AcceptPVCLossAnnotation = ''true'') \<and>
    (\<forall>u. snd (phase0 env (m, claims, s)) = Proceeds (Some u) \<longrightarrow>
       lost env \<and> u = annotation m AcceptPVCLossRequestorAnnotation) \<and>
    snd (phase0 env' (m', claims, s')) = LossRefused (30 * Second)"
proof -
  have r: "readable env'" using assms(6) by (auto simp: readable_def lost_def)
  note c = clear_annotation[OF assms(4)]
  have run: "running env' m'" using assms(5) c by (simp add: running_def)
  have "snd (phase0 env' (m', claims, s')) = LossRefused (30 * Second)"
    using phase0_running(1)[OF run] c assms(2,6,7) gate_exact[OF r, of m' True] by (simp add: pvcLossGateRequeue_def)
  moreover have "snd (phase0 env (m, claims, s)) =
      (if lost env \<and> annotation m AcceptPVCLossAnnotation \<noteq> ''true'' then LossRefused pvcLossGateRequeue
       else Proceeds (if lost env then Some (annotation m AcceptPVCLossRequestorAnnotation) else None))"
    using phase0_running(1)[OF assms(1)] assms(2,7) gate_exact[OF assms(3), of m True] by simp
  ultimately show ?thesis by simp
qed

text \<open>
  C39. An interrupted first pass locks a new resource out. The gate takes the finalizer for the mark of
  a resource that once had data, but the first pass stamps it before it looks for the auth Secret.
  If the Secret does not exist yet, that pass ends there, and from then on every pass that gets to
  the gate is refused as a loss of data, although nothing was ever created, until someone consents
  to the loss.
\<close>

theorem interrupted_bootstrap_refused:
  assumes "\<not> mRetention m" and "policyOf m = ''Retain''" and "annotation m AcceptPVCLossAnnotation \<noteq> ''true''"
    and "mAuthSecret m \<noteq> []" and "annotation m PauseAnnotation \<noteq> ''true''" and "\<not> mDeleting m"
    and "\<not> evContended env" and "evFinalizerOk env" and "evSecret env = SecretMissing"
    and "list_all (\<lambda>e. evSts e = NotFound \<and> evClaims e = Some []) envs"
    and "w1 = fst (phase0 env (m, [], s))"
  shows "snd (phase0 env (m, [], s)) = AuthMissing (backoffForMissingAuthSecret
      (Sub (evNow env) (snd (observeMissingAuthFirstSeen (evNow env) s)))) \<and>
    (let w = foldl (\<lambda>w e. fst (phase0 e w)) w1 envs in
     evSts e = NotFound \<and> evClaims e = Some [] \<longrightarrow> (\<forall>a. snd (phase0 e w) \<noteq> Proceeds a) \<and>
     (running e m \<longrightarrow> snd (phase0 e w) = LossRefused (30 * Second)))"
proof -
  let ?m = "m\<lparr>mRetention := True\<rparr>"
  have p: "phase0 env (m, [], s) =
      ((?m, [], fst (observeMissingAuthFirstSeen (evNow env) s)),
       AuthMissing (backoffForMissingAuthSecret (Sub (evNow env) (snd (observeMissingAuthFirstSeen (evNow env) s)))))"
    using assms(1-9) by (simp add: phase0_def observeMissingAuthSecret_def Let_def case_prod_unfold)
  have stay: "fst (phase0 e (?m, [], s0)) = (?m, [], snd (snd (fst (phase0 e (?m, [], s0)))))"
    "\<forall>a. snd (phase0 e (?m, [], s0)) \<noteq> Proceeds a"
    "running e m \<longrightarrow> snd (phase0 e (?m, [], s0)) = LossRefused (30 * Second)"
    if e: "evSts e = NotFound \<and> evClaims e = Some []" for e s0
  proof -
    have g: "detectPVCLossAndGate ?m True (evSts e) (evClaims e) = GateRefused"
      using e assms(2,3) by (simp add: detectPVCLossAndGate_def)
    show "fst (phase0 e (?m, [], s0)) = (?m, [], snd (snd (fst (phase0 e (?m, [], s0)))))"
      "\<forall>a. snd (phase0 e (?m, [], s0)) \<noteq> Proceeds a"
      using assms(6) g by (simp_all add: phase0_def Let_def case_prod_unfold)
    show "running e m \<longrightarrow> snd (phase0 e (?m, [], s0)) = LossRefused (30 * Second)"
      using g phase0_running(1)[of e ?m "[]" s0] by (simp add: running_def pvcLossGateRequeue_def)
  qed
  have "\<exists>s'. foldl (\<lambda>w e. fst (phase0 e w)) (?m, [], s0) envs = (?m, [], s')" for s0
    using assms(10)
  proof (induction envs arbitrary: s0)
    case (Cons e envs)
    then have e: "evSts e = NotFound \<and> evClaims e = Some []" and es: "list_all (\<lambda>e. evSts e = NotFound \<and> evClaims e = Some []) envs"
      by simp_all
    obtain s1 where "fst (phase0 e (?m, [], s0)) = (?m, [], s1)" using stay(1)[OF e, of s0] by (rule that)
    then show ?case using Cons.IH[OF es, of s1] by simp
  qed simp
  then obtain s' where "foldl (\<lambda>w e. fst (phase0 e w)) w1 envs = (?m, [], s')"
    using p assms(11) by (metis fst_conv)
  then show ?thesis using p stay[of e s'] by (simp add: Let_def)
qed

section \<open>Examples\<close>

definition kept_meta :: crMeta where
  "kept_meta =
     \<lparr>mUID = ''u'', mRetention = True, mAnnotations = [(AcceptPVCLossAnnotation, ''true'')], mDeleting = False,
      mPolicy = [], mAuthSecret = []\<rparr>"

definition quiet_env :: phase0Env where
  "quiet_env =
     \<lparr>evFinalizerOk = True, evContended = False, evListOk = True, evAccept = (\<lambda>_. True), evFinalOk = True,
      evSecret = SecretMissing, evNow = Second, evSts = NotFound, evClaims = Some []\<rparr>"

theorem deletion_applies_policy_witness:
  "\<not> mRetention (fst (deletionPass (foldl deletionPass (kept_meta,
       [\<lparr>clName = ''a'', clOwners = [''u'', ''x''], clTerminating = False\<rparr>,
        \<lparr>clName = ''b'', clOwners = [''u''], clTerminating = False\<rparr>]) [(True, (\<lambda>n. n = ''a''), True)])
     (True, (\<lambda>n. n = ''b''), True)))"
  using deletion_applies_policy[of kept_meta
      "[\<lparr>clName = ''a'', clOwners = [''u'', ''x''], clTerminating = False\<rparr>,
        \<lparr>clName = ''b'', clOwners = [''u''], clTerminating = False\<rparr>]"
      "[(True, (\<lambda>n. n = ''a''), True)]" "\<lambda>n. n = ''b''"]
  unfolding Let_def by (simp add: kept_meta_def acceptedIn_def)

theorem loss_needs_consent_witness:
  "snd (phase0 quiet_env (kept_meta, [], zeroPerCR)) = Proceeds (Some []) \<and>
   snd (phase0 quiet_env (fst (clearSingleShotAnnotations True kept_meta), [], zeroPerCR)) = LossRefused (30 * Second)"
proof -
  have a: "annotation kept_meta AcceptPVCLossAnnotation = ''true''" "annotation kept_meta AcceptPVCLossRequestorAnnotation = []"
    "annotation kept_meta PauseAnnotation = []"
    by (simp_all add: annotation_def kept_meta_def AcceptPVCLossRequestorAnnotation_def AcceptPVCLossAnnotation_def
        PauseAnnotation_def)
  have r: "running quiet_env kept_meta" by (simp add: running_def a) (simp add: kept_meta_def quiet_env_def)
  have p: "mRetention kept_meta" "policyOf kept_meta = ''Retain''" by (simp_all add: kept_meta_def policyOf_def)
  have l: "lost quiet_env" "readable quiet_env" by (simp_all add: lost_def readable_def quiet_env_def)
  obtain m' ok where c: "clearSingleShotAnnotations True kept_meta = (m', ok)" by fastforce
  note t = loss_needs_consent[OF r p(1) l(2) c r l(1) p(2), of "[]" zeroPerCR zeroPerCR]
  then obtain b where b: "snd (phase0 quiet_env (kept_meta, [], zeroPerCR)) = Proceeds b" using a(1) by blast
  have "b = Some []"
    using phase0_running(1)[OF r, of "[]" zeroPerCR] p l a b gate_exact[OF l(2), of kept_meta True] by simp
  then show ?thesis using t b c by simp
qed

theorem interrupted_bootstrap_refused_witness:
  "let m = kept_meta\<lparr>mRetention := False, mAnnotations := [], mAuthSecret := ''auth''\<rparr> in
   snd (phase0 (quiet_env\<lparr>evSecret := SecretFound\<rparr>) (foldl (\<lambda>w e. fst (phase0 e w)) (fst (phase0 quiet_env (m, [], zeroPerCR)))
     [quiet_env])) = LossRefused (30 * Second)"
proof -
  let ?m = "kept_meta\<lparr>mRetention := False, mAnnotations := [], mAuthSecret := ''auth''\<rparr>"
  let ?e = "quiet_env\<lparr>evSecret := SecretFound\<rparr>"
  have m: "\<not> mRetention ?m" "policyOf ?m = ''Retain''" "annotation ?m AcceptPVCLossAnnotation \<noteq> ''true''"
    "mAuthSecret ?m \<noteq> []" "annotation ?m PauseAnnotation \<noteq> ''true''" "\<not> mDeleting ?m"
    by (simp_all add: kept_meta_def policyOf_def annotation_def)
  have e: "\<not> evContended quiet_env" "evFinalizerOk quiet_env" "evSecret quiet_env = SecretMissing"
    "list_all (\<lambda>e. evSts e = NotFound \<and> evClaims e = Some []) [quiet_env]"
    by (simp_all add: quiet_env_def)
  have r: "evSts ?e = NotFound \<and> evClaims ?e = Some []" "running ?e ?m"
    using m by (simp_all add: running_def) (simp_all add: quiet_env_def)
  show ?thesis
    using interrupted_bootstrap_refused[OF m e refl, of zeroPerCR ?e] r by (simp only: Let_def)
qed

end
