(* ===== verification/Sentinel_Surgery.thy ===== *)
theory Sentinel_Surgery
  imports Sentinel_Observer Pod_Model Velkir_Text
begin

text \<open>
  The repair of stranded sentinels, \<^verbatim>\<open>internal/sentinel/manager.go\<close>, with the commands it sends:
  \<^verbatim>\<open>monitor.go\<close>, \<^verbatim>\<open>remove.go\<close> and \<^verbatim>\<open>auth.go\<close>. As in \<^verbatim>\<open>Sentinel_Calls\<close> a network gives the bytes
  every endpoint will answer with; the pass reads a new one at each of its steps, because the
  sentinels move on between them.

  The lemmas reduce each classifier to the set of endpoints it selects. The
  stale-epoch class is empty unless the sentinels on the resolved master hold the highest
  config-epoch (\<open>stale_targets\<close>). The properties: which
  sentinels a pass removes and under which gates, and how long a ghost must have been absent before
  its holder is reaped.
\<close>

section \<open>Commands\<close>

text \<open>The part of an error text that comes from the peer.\<close>

fun readErrText :: "readErr \<Rightarrow> string" where
  "readErrText (ErrServer m) = m"
| "readErrText (ErrBadInteger s) = s"
| "readErrText (ErrBadBulkLength s) = s"
| "readErrText (ErrBadArrayLength s) = s"
| "readErrText (ErrArrayElement n e) = readErrText e"
| "readErrText _ = []"

fun connErrText :: "connErr \<Rightarrow> string" where
  "connErrText (ErrRead l e) = readErrText e"
| "connErrText (ErrUnexpected (RStr s)) = s"
| "connErrText _ = []"

definition isNoSuchMasterErr :: "connErr \<Rightarrow> bool" where
  "isNoSuchMasterErr e \<longleftrightarrow> Contains (ToLower (connErrText e)) ''no such master with that name''"

definition removeOne :: "network \<Rightarrow> Endpoint \<Rightarrow> string \<Rightarrow> string \<Rightarrow> connErr option" where
  "removeOne net ep mName pw =
     (case sentinelCall (net ep) pw ''SENTINEL REMOVE'' [''SENTINEL'', ''REMOVE'', mName] of
        Inl (ErrRead l e) \<Rightarrow>
          if l = ''SENTINEL REMOVE'' \<and> isNoSuchMasterErr (ErrRead l e) then None else Some (ErrRead l e)
      | Inl e \<Rightarrow> Some e
      | Inr r \<Rightarrow> if r = RStr ''OK'' then None else Some (ErrUnexpected r))"

definition RemoveAll :: "network \<Rightarrow> Endpoint list \<Rightarrow> string \<Rightarrow> string \<Rightarrow> (string \<times> connErr option) list" where
  "RemoveAll net eps mName pw =
     map (\<lambda>ep. (Name ep, removeOne net ep mName pw)) eps"

definition monitorOne ::
  "network \<Rightarrow> Endpoint \<Rightarrow> string \<Rightarrow> string \<Rightarrow> string \<Rightarrow> int \<Rightarrow> int \<Rightarrow> connErr option" where
  "monitorOne net ep mName masterIP pw port q =
     (case sentinelCall (net ep) pw ''SENTINEL MONITOR''
             [''SENTINEL'', ''MONITOR'', mName, masterIP, itoa port, itoa q] of
        Inl e \<Rightarrow> Some e
      | Inr r \<Rightarrow> if r = RStr ''OK'' then None else Some (ErrUnexpected r))"

definition MonitorAll ::
  "network \<Rightarrow> Endpoint list \<Rightarrow> string \<Rightarrow> string \<Rightarrow> string \<Rightarrow> int \<Rightarrow> int \<Rightarrow> (string \<times> connErr option) list" where
  "MonitorAll net eps mName masterIP pw port q =
     map (\<lambda>ep. (Name ep, monitorOne net ep mName masterIP pw port q)) eps"

record ProbeResult =
  prName :: string
  prAddr :: string
  prErr :: "connErr option"
  prEpoch :: int
  prEpochOK :: bool
  prFlags :: string

definition probeMasterEpochFlags :: "conn \<Rightarrow> string \<Rightarrow> int \<times> bool \<times> string" where
  "probeMasterEpochFlags c mName =
     (let (ok, c1) = WriteString c (EncodeCommand [''SENTINEL'', ''master'', mName]) in
      if \<not> ok then (0, False, [])
      else
        (case connRead c1 of
           (Inl e, _) \<Rightarrow> (0, False, [])
         | (Inr r, _) \<Rightarrow>
             (let (epoch, epochOK) = ParseSentinelMasterEpoch r; (flags, _) = masterReplyFlags r
              in (epoch, epochOK, flags))))"

definition probeOne :: "network \<Rightarrow> Endpoint \<Rightarrow> string \<Rightarrow> string \<Rightarrow> ProbeResult" where
  "probeOne net ep mName pw =
     (let failed = (\<lambda>e. \<lparr>prName = Name ep, prAddr = [], prErr = e, prEpoch = 0, prEpochOK = False, prFlags = []\<rparr>)
      in if \<not> fst (net ep) then failed (Some ErrDial)
         else
           (case authIfNeeded (snd (net ep)) pw of
              (Some e, _) \<Rightarrow> failed (Some e)
            | (None, c1) \<Rightarrow>
                (let (ok, c2) = WriteString c1 (EncodeCommand [''SENTINEL'', ''get-master-addr-by-name'', mName]) in
                 if \<not> ok then failed (Some (ErrWrite ''SENTINEL get-master-addr-by-name''))
                 else
                   (case connRead c2 of
                      (Inl e, _) \<Rightarrow> failed (Some (ErrRead ''SENTINEL get-master-addr-by-name'' e))
                    | (Inr r, c3) \<Rightarrow>
                        (case ParseGetMasterAddr r of
                           (addr, ok2) \<Rightarrow>
                             if \<not> ok2 then failed None
                             else
                               (case probeMasterEpochFlags c3 mName of
                                  (epoch, epochOK, flags) \<Rightarrow>
                                    \<lparr>prName = Name ep, prAddr = addr, prErr = None, prEpoch = epoch,
                                     prEpochOK = epochOK, prFlags = flags\<rparr>))))))"

definition ProbeAll :: "network \<Rightarrow> Endpoint list \<Rightarrow> string \<Rightarrow> string \<Rightarrow> ProbeResult list" where
  "ProbeAll net eps mName pw = map (\<lambda>ep. probeOne net ep mName pw) eps"

section \<open>Auth propagation\<close>

datatype authErr = AuthWire connErr | AuthMalformed | AuthMismatch

definition DefaultAuthRetryAttempts :: int where
  "DefaultAuthRetryAttempts = 3"

definition isWellFormedMultiBulk :: "reply \<Rightarrow> bool" where
  "isWellFormedMultiBulk r = (case r of RArr arr \<Rightarrow> 2 \<le> length arr \<and> even (length arr) | _ \<Rightarrow> False)"

definition setAndVerifyOne :: "network \<Rightarrow> Endpoint \<Rightarrow> string \<Rightarrow> string \<Rightarrow> authErr option" where
  "setAndVerifyOne net ep mName pw =
     (if \<not> fst (net ep) then Some (AuthWire ErrDial)
      else
        (case authIfNeeded (snd (net ep)) pw of
           (Some e, _) \<Rightarrow> Some (AuthWire e)
         | (None, c1) \<Rightarrow>
             (case writeAndExpectOK c1 [''SENTINEL'', ''SET'', mName, ''auth-pass'', pw] of
                (Some e, _) \<Rightarrow> Some (AuthWire e)
              | (None, c2) \<Rightarrow>
                  (let (ok, c3) = WriteString c2 (EncodeCommand [''SENTINEL'', ''MASTER'', mName]) in
                   if \<not> ok then Some (AuthWire (ErrWrite ''SENTINEL MASTER''))
                   else
                     (case connRead c3 of
                        (Inl e, _) \<Rightarrow> Some (AuthWire (ErrRead ''SENTINEL MASTER'' e))
                      | (Inr r, _) \<Rightarrow>
                          (case ParseSentinelMasterAuthPass r of
                             (got, ok2) \<Rightarrow>
                               if \<not> ok2 then (if isWellFormedMultiBulk r then None else Some AuthMalformed)
                               else if got \<noteq> pw then Some AuthMismatch
                               else None))))))"

text \<open>Attempt \<open>i\<close> meets the network \<open>nets i\<close>; the context is not cancelled during the backoff.\<close>

fun setAndVerifyWithRetry ::
  "(nat \<Rightarrow> network) \<Rightarrow> Endpoint \<Rightarrow> string \<Rightarrow> string \<Rightarrow> nat \<Rightarrow> nat \<Rightarrow> authErr option \<Rightarrow> authErr option" where
  "setAndVerifyWithRetry nets ep mName pw i 0 lastErr = lastErr"
| "setAndVerifyWithRetry nets ep mName pw i (Suc n) lastErr =
     (case setAndVerifyOne (nets i) ep mName pw of
        Some e \<Rightarrow> setAndVerifyWithRetry nets ep mName pw (Suc i) n (Some e)
      | None \<Rightarrow> None)"

definition setAuthPassAllWithAttempts ::
  "(nat \<Rightarrow> network) \<Rightarrow> Endpoint list \<Rightarrow> string \<Rightarrow> string \<Rightarrow> int \<Rightarrow> (string \<times> authErr option) list" where
  "setAuthPassAllWithAttempts nets eps mName pw attempts =
     (if pw = [] \<or> eps = [] then []
      else map (\<lambda>ep. (Name ep, setAndVerifyWithRetry nets ep mName pw 0
                  (nat (if attempts < 1 then DefaultAuthRetryAttempts else attempts)) None)) eps)"

definition authFailureNames :: "(string \<times> authErr option) list \<Rightarrow> string list" where
  "authFailureNames results = map fst (filter (\<lambda>r. snd r = Some AuthMismatch) results)"

section \<open>Empty peer lists and ghosts\<close>

record strandedClassification =
  scTargets :: "Endpoint list"
  scStranded :: "string list"
  scReachable :: nat
  scGhostHolders :: "(Endpoint \<times> string list) list"
  scQuorumReachable :: bool

fun strandedLoop ::
  "(connErr \<Rightarrow> bool) \<Rightarrow> string set \<Rightarrow> ((string \<times> (connErr + PeerInfo list)) \<times> Endpoint) list \<Rightarrow>
   strandedClassification \<Rightarrow> strandedClassification" where
  "strandedLoop recoverErr live [] c = c"
| "strandedLoop recoverErr live (((n, res), ep) # rest) c =
     (case res of
        Inl e \<Rightarrow>
          strandedLoop recoverErr live rest
            (if recoverErr e
             then c\<lparr>scReachable := Suc (scReachable c), scTargets := scTargets c @ [ep],
                    scStranded := scStranded c @ [Name ep]\<rparr>
             else c)
      | Inr peers \<Rightarrow>
          (let c1 = c\<lparr>scReachable := Suc (scReachable c)\<rparr> in
           if peers = [] then
             strandedLoop recoverErr live rest
               (c1\<lparr>scTargets := scTargets c @ [ep], scStranded := scStranded c @ [n]\<rparr>)
           else if live = {} then strandedLoop recoverErr live rest c1
           else
             (let ghosts = filter (\<lambda>ip. ip \<noteq> [] \<and> ip \<notin> live) (map PeerIP peers) in
              strandedLoop recoverErr live rest
                (if ghosts \<noteq> [] then c1\<lparr>scGhostHolders := scGhostHolders c @ [(ep, ghosts)]\<rparr> else c1))))"

definition classifyStrandedSentinels ::
  "(string \<times> (connErr + PeerInfo list)) list \<Rightarrow> Endpoint list \<Rightarrow> (connErr \<Rightarrow> bool) \<Rightarrow> string set \<Rightarrow>
   strandedClassification" where
  "classifyStrandedSentinels peerView eps recoverErr live =
     (let c = strandedLoop recoverErr live (zip peerView eps)
                \<lparr>scTargets = [], scStranded = [], scReachable = 0, scGhostHolders = [], scQuorumReachable = False\<rparr>
      in c\<lparr>scQuorumReachable := QuorumThreshold (length eps) \<le> scReachable c\<rparr>)"

definition hostOf :: "string \<Rightarrow> string option" where
  "hostOf addr =
     (case SplitHostPort addr of None \<Rightarrow> None | Some (h, p) \<Rightarrow> if h = [] then None else Some h)"

definition liveSentinelIPSet :: "Endpoint list \<Rightarrow> string set" where
  "liveSentinelIPSet eps = set (List.map_filter (\<lambda>ep. hostOf (EpAddr ep)) eps)"

section \<open>Sentinels that monitor the wrong master\<close>

record repointClassification =
  rcDeadMaster :: "Endpoint list"
  rcStaleEpoch :: "Endpoint list"
  rcCohort :: "Endpoint list"
  rcAgreeEpoch :: int

definition noRepoint :: repointClassification where
  "noRepoint = \<lparr>rcDeadMaster = [], rcStaleEpoch = [], rcCohort = [], rcAgreeEpoch = 0\<rparr>"

definition replicaTableDoomed :: "ReplicaInfo list \<Rightarrow> string set \<Rightarrow> bool" where
  "replicaTableDoomed replicas live \<longleftrightarrow> list_all (\<lambda>r. ReplicaIP r \<notin> live) replicas"

text \<open>The host a probe names, when the sentinel answered and monitors an address that parses.\<close>

definition monitored :: "ProbeResult \<Rightarrow> string option" where
  "monitored r = (if prErr r \<noteq> None \<or> prAddr r = [] then None else hostOf (prAddr r))"

text \<open>The first loop: frontier, cohort and its epoch, or \<open>None\<close> when the class is disarmed.\<close>

fun staleScan ::
  "string \<Rightarrow> (ProbeResult \<times> Endpoint) list \<Rightarrow> int \<times> Endpoint list \<times> int \<Rightarrow> (int \<times> Endpoint list \<times> int) option" where
  "staleScan mIP [] (frontier, cohort, agree) = Some (frontier, cohort, agree)"
| "staleScan mIP ((r, ep) # rest) (frontier, cohort, agree) =
     (case monitored r of
        None \<Rightarrow> staleScan mIP rest (frontier, cohort, agree)
      | Some host \<Rightarrow>
          if \<not> prEpochOK r then None
          else if host = mIP \<and> flagsIndicateElection (prFlags r) then None
          else
            staleScan mIP rest
              (max frontier (prEpoch r),
               if host = mIP then cohort @ [ep] else cohort,
               if host = mIP then max agree (prEpoch r) else agree))"

definition behind :: "string set \<Rightarrow> string \<Rightarrow> int \<Rightarrow> ProbeResult \<Rightarrow> bool" where
  "behind live mIP agree r \<longleftrightarrow>
     (case monitored r of
        None \<Rightarrow> False
      | Some host \<Rightarrow>
          prEpochOK r \<and> host \<noteq> mIP \<and> host \<in> live \<and> prEpoch r < agree \<and> \<not> flagsIndicateElection (prFlags r))"

definition classifyStaleEpochTargets ::
  "ProbeResult list \<Rightarrow> Endpoint list \<Rightarrow> string set \<Rightarrow> string \<Rightarrow> Endpoint list \<times> Endpoint list \<times> int" where
  "classifyStaleEpochTargets probeView eps live mIP =
     (case staleScan mIP (zip probeView eps) (0, [], 0) of
        None \<Rightarrow> ([], [], 0)
      | Some (frontier, cohort, agree) \<Rightarrow>
          if cohort = [] \<or> agree \<noteq> frontier then ([], [], 0)
          else (map snd (filter (\<lambda>(r, ep). behind live mIP agree r) (zip probeView eps)), cohort, agree))"

definition classifyRepointTargets ::
  "ProbeResult list \<Rightarrow> Endpoint list \<Rightarrow> string set \<Rightarrow> string \<Rightarrow> bool \<Rightarrow> repointClassification" where
  "classifyRepointTargets probeView eps live mIP allowStaleEpoch =
     (if live = {} \<or> mIP = [] then noRepoint
      else
        (let dead = map snd (filter (\<lambda>(r, ep).
               case monitored r of None \<Rightarrow> False | Some host \<Rightarrow> host \<noteq> mIP \<and> host \<notin> live) (zip probeView eps));
             (stale, cohort, agree) =
               (if allowStaleEpoch then classifyStaleEpochTargets probeView eps live mIP else ([], [], 0))
         in \<lparr>rcDeadMaster = dead, rcStaleEpoch = stale, rcCohort = cohort, rcAgreeEpoch = agree\<rparr>))"

definition selectRepointTargets ::
  "network \<Rightarrow> network \<Rightarrow> Endpoint list \<Rightarrow> string \<Rightarrow> string \<Rightarrow> string \<Rightarrow> string set \<Rightarrow> string set \<Rightarrow> bool \<Rightarrow>
   repointClassification" where
  "selectRepointTargets probeNet replicaNet eps mName pw mIP live beingWiped allowStaleEpoch =
     (if live = {} then noRepoint
      else
        (let classified = classifyRepointTargets (ProbeAll probeNet eps mName pw) eps live mIP allowStaleEpoch
         in classified
              \<lparr>rcStaleEpoch := filter (\<lambda>ep. Name ep \<notin> beingWiped) (rcStaleEpoch classified),
               rcDeadMaster :=
                 map snd (filter (\<lambda>((n, rv), ep). Name ep \<notin> beingWiped \<and>
                     (case rv of Inl e \<Rightarrow> False | Inr replicas \<Rightarrow> replicaTableDoomed replicas live))
                   (zip (ReplicasAll replicaNet (rcDeadMaster classified) mName pw) (rcDeadMaster classified)))\<rparr>))"

definition QuorumElectionDoomed :: "network \<Rightarrow> Endpoint list \<Rightarrow> string \<Rightarrow> string \<Rightarrow> string set \<Rightarrow> bool" where
  "QuorumElectionDoomed net eps mName pw live =
     (if eps = [] \<or> live = {} then False
      else
        (let answers = List.map_filter (\<lambda>(n, rv). case rv of Inl e \<Rightarrow> None | Inr rs \<Rightarrow> Some rs)
                         (ReplicasAll net eps mName pw)
         in list_all (\<lambda>rs. replicaTableDoomed rs live) answers \<and> QuorumThreshold (length eps) \<le> length answers))"

section \<open>Ghosts\<close>

definition ghostReapDebounce :: duration where
  "ghostReapDebounce = 30 * Second"

definition ghostStamps ::
  "gotime \<Rightarrow> (Endpoint \<times> string list) list \<Rightarrow> string set \<Rightarrow> (string \<times> gotime) list \<Rightarrow> (string \<times> gotime) list" where
  "ghostStamps now holders live seen =
     (let detected = remdups (concat (map snd holders));
          kept = filter (\<lambda>(ip, t). ip \<notin> live \<and> ip \<in> set detected) seen
      in kept @ map (\<lambda>ip. (ip, now)) (filter (\<lambda>ip. map_of kept ip = None) detected))"

definition reapable :: "gotime \<Rightarrow> (string \<times> gotime) list \<Rightarrow> Endpoint \<times> string list \<Rightarrow> bool" where
  "reapable now seen h =
     list_ex (\<lambda>ip. case map_of seen ip of None \<Rightarrow> False | Some t \<Rightarrow> ghostReapDebounce \<le> Sub now t) (snd h)"

fun lowestName :: "Endpoint list \<Rightarrow> Endpoint option \<Rightarrow> Endpoint option" where
  "lowestName [] chosen = chosen"
| "lowestName (ep # rest) chosen =
     lowestName rest (case chosen of None \<Rightarrow> Some ep | Some c \<Rightarrow> if Name ep < Name c then Some ep else Some c)"

definition selectGhostReapTarget ::
  "gotime \<Rightarrow> (Endpoint \<times> string list) list \<Rightarrow> string set \<Rightarrow> bool \<Rightarrow> (string \<times> gotime) list \<Rightarrow>
   (string \<times> gotime) list \<times> Endpoint option" where
  "selectGhostReapTarget now holders live allow seen =
     (let seen' = ghostStamps now holders live seen
      in (seen', if allow then lowestName (map fst (filter (reapable now seen') holders)) None else None))"

section \<open>One repair pass\<close>

record InitialResetTarget =
  rtMasterName :: string
  rtEndpoints :: "Endpoint list"
  rtPassword :: string
  rtMasterIP :: string
  rtPort :: int
  rtQuorum :: int
  rtTuning :: MasterTuning
  rtAllowGhostReap :: bool
  rtLiveValkeyIPs :: "string set"
  rtAllowStaleEpoch :: bool
  rtSkipStrandedAddrs :: "string set"

record StrandedRecoveryResult =
  srStranded :: "string list"
  srEmptyPeerStranded :: "string list"
  srSkippedStranded :: "string list"
  srRepointed :: "string list"
  srStaleEpochRepointed :: "string list"
  srResetResults :: "(string \<times> connErr option) list"
  srMonitorResults :: "(string \<times> connErr option) list"
  srAuthFailures :: "string list"
  srHealthy :: bool
  srProbed :: bool

definition emptyResult :: StrandedRecoveryResult where
  "emptyResult =
     \<lparr>srStranded = [], srEmptyPeerStranded = [], srSkippedStranded = [], srRepointed = [],
      srStaleEpochRepointed = [], srResetResults = [], srMonitorResults = [], srAuthFailures = [],
      srHealthy = False, srProbed = False\<rparr>"

text \<open>The network at each step of a pass, the clock and the answer of the deferral predicate.\<close>

record surgeryEnv =
  netPeers :: network
  netProbe :: network
  netReplicas :: network
  dialMaster :: "bool \<times> conn"
  netSurvivors :: network
  netRecheck :: network
  netCohort :: network
  netRemove :: network
  netMonitor :: network
  netAuth :: "nat \<Rightarrow> network"
  authAttempts :: int
  netTuning :: network
  surgeryClock :: gotime
  deferredBy :: bool

definition partitionEmptyPeerClass ::
  "Endpoint list \<Rightarrow> string set \<Rightarrow> Endpoint list \<times> string list \<times> string list \<times> string set" where
  "partitionEmptyPeerClass targets skip =
     (let wiped = filter (\<lambda>ep. EpAddr ep \<notin> skip) targets
      in (wiped, map Name wiped, map Name (filter (\<lambda>ep. EpAddr ep \<in> skip) targets), set (map Name targets)))"

definition foldRepointClassification ::
  "repointClassification \<Rightarrow> Endpoint list \<Rightarrow> string set \<Rightarrow> StrandedRecoveryResult \<Rightarrow>
   Endpoint list \<times> Endpoint list \<times> string set \<times> StrandedRecoveryResult" where
  "foldRepointClassification cl resetTargets beingWiped res =
     (resetTargets @ rcDeadMaster cl @ rcStaleEpoch cl, rcStaleEpoch cl,
      beingWiped \<union> Name ` set (rcDeadMaster cl) \<union> Name ` set (rcStaleEpoch cl),
      res\<lparr>srRepointed := srRepointed res @ map Name (rcDeadMaster cl),
          srStaleEpochRepointed := srStaleEpochRepointed res @ map Name (rcStaleEpoch cl)\<rparr>)"

definition applyStaleTargetDrops ::
  "Endpoint list \<Rightarrow> Endpoint list \<Rightarrow> Endpoint list \<Rightarrow> StrandedRecoveryResult \<Rightarrow> Endpoint list \<times> StrandedRecoveryResult" where
  "applyStaleTargetDrops staleTargets quiet resetTargets res =
     (let drp = Name ` set (filter (\<lambda>ep. Name ep \<notin> Name ` set quiet) staleTargets)
      in if drp = {} then (resetTargets, res)
         else (filter (\<lambda>ep. Name ep \<notin> drp) resetTargets,
               res\<lparr>srStaleEpochRepointed := filter (\<lambda>n. n \<notin> drp) (srStaleEpochRepointed res)\<rparr>))"

definition dropElectingStaleTargets ::
  "network \<Rightarrow> network \<Rightarrow> Endpoint list \<Rightarrow> Endpoint list \<Rightarrow> Endpoint list \<Rightarrow> int \<Rightarrow> string \<Rightarrow> string \<Rightarrow>
   StrandedRecoveryResult \<Rightarrow> Endpoint list \<times> StrandedRecoveryResult" where
  "dropElectingStaleTargets recheckNet cohortNet staleTargets resetTargets cohort agree mName pw res =
     (if staleTargets = [] then (resetTargets, res)
      else
        (let q1 = recheckElectionQuiet recheckNet staleTargets mName pw;
             q2 = (if q1 \<noteq> [] \<and> \<not> destinationCohortQuiet cohortNet cohort mName pw agree then [] else q1)
         in applyStaleTargetDrops staleTargets q2 resetTargets res))"

definition untouchedSurvivors ::
  "(string \<times> (connErr + PeerInfo list)) list \<Rightarrow> Endpoint list \<Rightarrow> Endpoint option \<Rightarrow> string set \<Rightarrow> Endpoint list" where
  "untouchedSurvivors peerView eps ghost beingWiped =
     map snd (filter (\<lambda>((n, res), ep).
         (case res of Inl e \<Rightarrow> False | Inr peers \<Rightarrow> peers \<noteq> []) \<and>
         (case ghost of None \<Rightarrow> True | Some g \<Rightarrow> Name ep \<noteq> Name g) \<and> Name ep \<notin> beingWiped)
       (zip peerView eps))"

text \<open>
  The commands of a pass: REMOVE, then MONITOR, auth and tuning for the sentinels whose REMOVE
  succeeded. The last component holds the outcomes of the tuning commands, which are only events.
\<close>

definition fireSurgery ::
  "surgeryEnv \<Rightarrow> InitialResetTarget \<Rightarrow> Endpoint list \<Rightarrow> StrandedRecoveryResult \<Rightarrow>
   StrandedRecoveryResult \<times> (string \<times> connErr option) list" where
  "fireSurgery env t resetTargets res =
     (let results = RemoveAll (netRemove env) resetTargets (rtMasterName t) (rtPassword t);
          succeeded = set (map fst (filter (\<lambda>r. snd r = None) results));
          successful = filter (\<lambda>ep. Name ep \<in> succeeded) resetTargets;
          res1 = res\<lparr>srResetResults := results\<rparr>
      in if successful = [] then (res1, [])
         else
           (res1\<lparr>srMonitorResults := MonitorAll (netMonitor env) successful (rtMasterName t) (rtMasterIP t)
                                     (rtPassword t) (rtPort t) (rtQuorum t),
                srAuthFailures :=
                  (if rtPassword t \<noteq> []
                   then authFailureNames (setAuthPassAllWithAttempts (netAuth env) successful (rtMasterName t)
                          (rtPassword t) (authAttempts env))
                   else srAuthFailures res1)\<rparr>,
            SetMasterTuningAll (netTuning env) successful (rtMasterName t) (rtTuning t) (rtPassword t)))"

definition RecoverStrandedSentinels ::
  "surgeryEnv \<Rightarrow> InitialResetTarget \<Rightarrow> bool \<Rightarrow> (string \<times> gotime) list \<Rightarrow>
   (string \<times> gotime) list \<times> StrandedRecoveryResult \<times> (string \<times> connErr option) list" where
  "RecoverStrandedSentinels env t bypassQuorumDeferral seen =
     (let eps = rtEndpoints t; mName = rtMasterName t; pw = rtPassword t
      in if eps = [] \<or> rtMasterIP t = [] then (seen, emptyResult, [])
         else if deferredBy env \<and> \<not> bypassQuorumDeferral then (seen, emptyResult, [])
         else
           (let liveS = liveSentinelIPSet eps;
                peerView = SentinelsAll (netPeers env) eps mName pw;
                classified = classifyStrandedSentinels peerView eps isNoSuchMasterErr liveS;
                (reset0, wiped, skipped, being0) =
                  partitionEmptyPeerClass (scTargets classified) (rtSkipStrandedAddrs t);
                res0 = emptyResult\<lparr>srProbed := True, srStranded := wiped, srSkippedStranded := skipped,
                                   srEmptyPeerStranded := wiped\<rparr>;
                cl = selectRepointTargets (netProbe env) (netReplicas env) eps mName pw (rtMasterIP t)
                       (rtLiveValkeyIPs t) being0 (rtAllowStaleEpoch t);
                (reset1, stale, being1, res1) = foldRepointClassification cl reset0 being0 res0;
                (seen', ghost0) =
                  (if liveS \<noteq> {}
                   then selectGhostReapTarget (surgeryClock env) (scGhostHolders classified) liveS (rtAllowGhostReap t) seen
                   else (seen, None));
                ghost = (case ghost0 of None \<Rightarrow> None | Some g \<Rightarrow> if Name g \<in> being1 then None else Some g)
            in if reset1 = [] \<and> ghost = None then
                 (seen', if srSkippedStranded res1 \<noteq> [] then res1
                         else res1\<lparr>srHealthy := scQuorumReachable classified\<rparr>, [])
               else if \<not> scQuorumReachable classified then (seen', emptyResult\<lparr>srProbed := True\<rparr>, [])
               else if masterReachable (dialMaster env) pw \<noteq> None then (seen', emptyResult\<lparr>srProbed := True\<rparr>, [])
               else if anyFailoverInProgress (netSurvivors env) (untouchedSurvivors peerView eps ghost being1) mName pw
               then (seen', emptyResult\<lparr>srProbed := True\<rparr>, [])
               else
                 (case dropElectingStaleTargets (netRecheck env) (netCohort env) stale reset1 (rcCohort cl)
                         (rcAgreeEpoch cl) mName pw res1 of
                    (reset2, res2) \<Rightarrow>
                      if reset2 = [] \<and> ghost = None then (seen', res2, [])
                      else
                        (seen', fireSurgery env t
                           (reset2 @ (case ghost of None \<Rightarrow> [] | Some g \<Rightarrow> [g]))
                           (res2\<lparr>srStranded := srStranded res2 @ (case ghost of None \<Rightarrow> [] | Some g \<Rightarrow> [Name g])\<rparr>)))))"

text \<open>The startup pass of one resource: empty peer lists only, and the auth pass goes to every endpoint.\<close>

definition runInitialResetOne ::
  "surgeryEnv \<Rightarrow> InitialResetTarget \<Rightarrow> string list option \<times> (string \<times> connErr option) list \<times>
   (string \<times> connErr option) list \<times> (string \<times> authErr option) list" where
  "runInitialResetOne env t =
     (let eps = rtEndpoints t; mName = rtMasterName t; pw = rtPassword t
      in if eps = [] \<or> rtMasterIP t = [] then (None, [], [], [])
         else
           (let classified = classifyStrandedSentinels (SentinelsAll (netPeers env) eps mName pw) eps (\<lambda>e. False) {}
            in if scTargets classified = [] \<or> \<not> scQuorumReachable classified then (None, [], [], [])
               else
                 (let results = RemoveAll (netRemove env) (scTargets classified) mName pw;
                      successful = filter (\<lambda>ep. Name ep \<in> set (map fst (filter (\<lambda>r. snd r = None) results)))
                                     (scTargets classified)
                  in (Some (scStranded classified), results,
                      if successful = [] then []
                      else MonitorAll (netMonitor env) successful mName (rtMasterIP t) pw (rtPort t) (rtQuorum t),
                      setAuthPassAllWithAttempts (netAuth env) eps mName pw (authAttempts env)))))"

section \<open>What the classifiers select\<close>

definition answering :: "surgeryEnv \<Rightarrow> InitialResetTarget \<Rightarrow> Endpoint \<Rightarrow> bool" where
  "answering env t ep \<longleftrightarrow>
     (case sentinelsOne (netPeers env) ep (rtMasterName t) (rtPassword t) of
        Inl e \<Rightarrow> isNoSuchMasterErr e | Inr peers \<Rightarrow> True)"

definition stranded :: "surgeryEnv \<Rightarrow> InitialResetTarget \<Rightarrow> Endpoint \<Rightarrow> bool" where
  "stranded env t ep \<longleftrightarrow>
     (case sentinelsOne (netPeers env) ep (rtMasterName t) (rtPassword t) of
        Inl e \<Rightarrow> isNoSuchMasterErr e | Inr peers \<Rightarrow> peers = [])"

lemma zip_map_self: "zip (map f xs) xs = map (\<lambda>x. (f x, x)) xs"
  by (induction xs) auto

lemma strandedLoop_facts:
  "scTargets (strandedLoop re live xs c) = scTargets c @
     map snd (filter (\<lambda>((n, res), ep). case res of Inl e \<Rightarrow> re e | Inr peers \<Rightarrow> peers = []) xs)"
  "scReachable (strandedLoop re live xs c) = scReachable c +
     length (filter (\<lambda>((n, res), ep). case res of Inl e \<Rightarrow> re e | Inr peers \<Rightarrow> True) xs)"
  by (induction re live xs c rule: strandedLoop.induct) (auto simp: Let_def split: sum.split)

lemma classify_facts:
  fixes env t eps live
  defines "c \<equiv> classifyStrandedSentinels (SentinelsAll (netPeers env) eps (rtMasterName t) (rtPassword t)) eps
                 isNoSuchMasterErr live"
  shows "scTargets c = filter (stranded env t) eps"
    and "scQuorumReachable c \<longleftrightarrow> QuorumThreshold (length eps) \<le> length (filter (answering env t) eps)"
proof -
  let ?xs = "map (\<lambda>ep. ((Name ep, sentinelsOne (netPeers env) ep (rtMasterName t) (rtPassword t)), ep)) eps"
  have e: "map snd (filter (\<lambda>((n, res), ep). case res of Inl e \<Rightarrow> isNoSuchMasterErr e | Inr peers \<Rightarrow> peers = []) ?xs) =
      filter (stranded env t) eps"
    "length (filter (\<lambda>((n, res), ep). case res of Inl e \<Rightarrow> isNoSuchMasterErr e | Inr peers \<Rightarrow> True) ?xs) =
      length (filter (answering env t) eps)"
    by (induction eps) (simp_all add: stranded_def answering_def)
  show "scTargets c = filter (stranded env t) eps"
    "scQuorumReachable c \<longleftrightarrow> QuorumThreshold (length eps) \<le> length (filter (answering env t) eps)"
    unfolding c_def classifyStrandedSentinels_def Let_def SentinelsAll_def zip_map_self
    by (simp_all only: strandedLoop_facts(2) strandedClassification.select_convs e(2) append_Nil add_0)
      (simp_all add: strandedLoop_facts(1) e(1))
qed

definition probeOf :: "surgeryEnv \<Rightarrow> InitialResetTarget \<Rightarrow> Endpoint \<Rightarrow> ProbeResult" where
  "probeOf env t ep = probeOne (netProbe env) ep (rtMasterName t) (rtPassword t)"

text \<open>A sentinel that monitors a dead address and knows no live replica to fail over to.\<close>

definition orphaned :: "surgeryEnv \<Rightarrow> InitialResetTarget \<Rightarrow> Endpoint \<Rightarrow> bool" where
  "orphaned env t ep \<longleftrightarrow>
     rtLiveValkeyIPs t \<noteq> {} \<and>
     (\<exists>h. monitored (probeOf env t ep) = Some h \<and> h \<noteq> rtMasterIP t \<and> h \<notin> rtLiveValkeyIPs t) \<and>
     (\<exists>rs. replicasOne (netReplicas env) ep (rtMasterName t) (rtPassword t) = Inr rs \<and>
        list_all (\<lambda>r. ReplicaIP r \<notin> rtLiveValkeyIPs t) rs)"

text \<open>The sentinels that already monitor the destination, and the highest config-epoch among them.\<close>

definition onMaster :: "surgeryEnv \<Rightarrow> InitialResetTarget \<Rightarrow> Endpoint list" where
  "onMaster env t = filter (\<lambda>ep. monitored (probeOf env t ep) = Some (rtMasterIP t)) (rtEndpoints t)"

definition agreeEpoch :: "surgeryEnv \<Rightarrow> InitialResetTarget \<Rightarrow> int" where
  "agreeEpoch env t = Max (insert 0 (set (map (\<lambda>ep. prEpoch (probeOf env t ep)) (onMaster env t))))"

definition atFrontier :: "surgeryEnv \<Rightarrow> InitialResetTarget \<Rightarrow> bool" where
  "atFrontier env t \<longleftrightarrow>
     onMaster env t \<noteq> [] \<and>
     list_all (\<lambda>ep. monitored (probeOf env t ep) \<noteq> None \<longrightarrow>
        prEpochOK (probeOf env t ep) \<and> prEpoch (probeOf env t ep) \<le> agreeEpoch env t) (rtEndpoints t) \<and>
     list_all (\<lambda>ep. \<not> flagsIndicateElection (prFlags (probeOf env t ep))) (onMaster env t)"

definition lagging :: "surgeryEnv \<Rightarrow> InitialResetTarget \<Rightarrow> Endpoint \<Rightarrow> bool" where
  "lagging env t ep \<longleftrightarrow>
     rtAllowStaleEpoch t \<and> atFrontier env t \<and> prEpoch (probeOf env t ep) < agreeEpoch env t \<and>
     (\<exists>h. monitored (probeOf env t ep) = Some h \<and> h \<noteq> rtMasterIP t \<and> h \<in> rtLiveValkeyIPs t) \<and>
     \<not> flagsIndicateElection (prFlags (probeOf env t ep))"

lemma Max_insert_max: "finite S \<Longrightarrow> Max (insert (max f e) S) = Max (insert f (insert e S))" for e f :: int
  by (cases "S = {}") (simp_all add: max.assoc)

lemma staleScan_eq:
  "staleScan mIP xs (f, c, a) =
     (if list_all (\<lambda>(r, ep). monitored r \<noteq> None \<longrightarrow>
           prEpochOK r \<and> (monitored r = Some mIP \<longrightarrow> \<not> flagsIndicateElection (prFlags r))) xs
      then Some (Max (insert f (set (map (\<lambda>(r, ep). prEpoch r) (filter (\<lambda>(r, ep). monitored r \<noteq> None) xs)))),
                 c @ map snd (filter (\<lambda>(r, ep). monitored r = Some mIP) xs),
                 Max (insert a (set (map (\<lambda>(r, ep). prEpoch r) (filter (\<lambda>(r, ep). monitored r = Some mIP) xs)))))
      else None)"
proof (induction xs arbitrary: f c a)
  case (Cons x xs)
  obtain r ep where x: "x = (r, ep)" by (cases x)
  show ?case
  proof (cases "monitored r")
    case None
    then show ?thesis using Cons.IH[of f c a] by (simp add: x)
  next
    case (Some h)
    then show ?thesis
      using Cons.IH[of "max f (prEpoch r)" "if h = mIP then c @ [ep] else c" "if h = mIP then max a (prEpoch r) else a"]
      by (auto simp: x Max_insert_max)
  qed
qed simp

lemma Max_subset_eq:
  fixes A B :: "int set"
  assumes "finite B" "A \<subseteq> B"
  shows "Max (insert 0 A) = Max (insert 0 B) \<longleftrightarrow> (\<forall>b\<in>B. b \<le> Max (insert 0 A))"
proof
  have f: "finite A" using assms finite_subset by blast
  assume "\<forall>b\<in>B. b \<le> Max (insert 0 A)"
  then have "Max (insert 0 B) \<le> Max (insert 0 A)" using assms(1) f by (intro Max.boundedI) auto
  moreover have "Max (insert 0 A) \<le> Max (insert 0 B)" using assms by (intro Max_mono) auto
  ultimately show "Max (insert 0 A) = Max (insert 0 B)" by simp
next
  assume "Max (insert 0 A) = Max (insert 0 B)"
  then show "\<forall>b\<in>B. b \<le> Max (insert 0 A)" using assms(1) by simp
qed

lemma stale_targets:
  fixes env t
  defines "r \<equiv> classifyStaleEpochTargets (ProbeAll (netProbe env) (rtEndpoints t) (rtMasterName t) (rtPassword t))
                 (rtEndpoints t) (rtLiveValkeyIPs t) (rtMasterIP t)"
  shows "r = (if atFrontier env t
              then (filter (\<lambda>ep. behind (rtLiveValkeyIPs t) (rtMasterIP t) (agreeEpoch env t) (probeOf env t ep)) (rtEndpoints t),
                    onMaster env t, agreeEpoch env t)
              else ([], [], 0))"
proof -
  let ?P = "probeOf env t" and ?eps = "rtEndpoints t" and ?m = "rtMasterIP t"
  let ?xs = "map (\<lambda>ep. (?P ep, ep)) ?eps"
  let ?M = "set (map (\<lambda>(r, ep). prEpoch r) (filter (\<lambda>(r, ep). monitored r \<noteq> None) ?xs))"
  have z: "zip (ProbeAll (netProbe env) ?eps (rtMasterName t) (rtPassword t)) ?eps = ?xs"
    by (simp add: ProbeAll_def zip_map_self probeOf_def)
  have c: "map snd (filter (\<lambda>(r, ep). monitored r = Some ?m) ?xs) = onMaster env t"
    "set (map (\<lambda>(r, ep). prEpoch r) (filter (\<lambda>(r, ep). monitored r = Some ?m) ?xs)) =
       set (map (\<lambda>ep. prEpoch (?P ep)) (onMaster env t))"
    "map snd (filter (\<lambda>(r, ep). behind l ?m a r) ?xs) = filter (\<lambda>ep. behind l ?m a (?P ep)) ?eps" for l a
    by (auto simp: onMaster_def filter_map comp_def)
  have "set (map (\<lambda>ep. prEpoch (?P ep)) (onMaster env t)) \<subseteq> ?M" by (auto simp: onMaster_def)
  then have m: "agreeEpoch env t = Max (insert 0 ?M) \<longleftrightarrow> (\<forall>b\<in>?M. b \<le> agreeEpoch env t)"
    unfolding agreeEpoch_def by (intro Max_subset_eq) auto
  have f: "atFrontier env t \<longleftrightarrow>
      list_all (\<lambda>(r, ep). monitored r \<noteq> None \<longrightarrow>
         prEpochOK r \<and> (monitored r = Some ?m \<longrightarrow> \<not> flagsIndicateElection (prFlags r))) ?xs \<and>
      onMaster env t \<noteq> [] \<and> agreeEpoch env t = Max (insert 0 ?M)"
    unfolding m by (auto simp: atFrontier_def list_all_iff onMaster_def)
  show ?thesis
    unfolding r_def classifyStaleEpochTargets_def z staleScan_eq c append_Nil agreeEpoch_def[symmetric] f
    by (simp del: filter_map)
qed

lemma name_in_filter:
  assumes "distinct (map Name eps)" and "ep \<in> set eps"
  shows "Name ep \<in> Name ` set (filter P eps) \<longleftrightarrow> P ep"
  using assms by (auto simp: distinct_map inj_on_def)

lemma repoint_sets:
  fixes env t
  defines "cl \<equiv> selectRepointTargets (netProbe env) (netReplicas env) (rtEndpoints t) (rtMasterName t) (rtPassword t)
                  (rtMasterIP t) (rtLiveValkeyIPs t) (Name ` set (filter (stranded env t) (rtEndpoints t))) (rtAllowStaleEpoch t)"
  assumes "distinct (map Name (rtEndpoints t))" and "rtMasterIP t \<noteq> []"
  shows "rcDeadMaster cl = filter (\<lambda>ep. \<not> stranded env t ep \<and> orphaned env t ep) (rtEndpoints t)"
    and "rcStaleEpoch cl = filter (\<lambda>ep. \<not> stranded env t ep \<and> lagging env t ep) (rtEndpoints t)"
    and "rcStaleEpoch cl \<noteq> [] \<Longrightarrow> rcCohort cl = onMaster env t \<and> rcAgreeEpoch cl = agreeEpoch env t"
proof -
  let ?eps = "rtEndpoints t" and ?live = "rtLiveValkeyIPs t" and ?m = "rtMasterIP t"
  define W where "W = Name ` set (filter (stranded env t) ?eps)"
  let ?dead = "filter (\<lambda>ep. case monitored (probeOf env t ep) of None \<Rightarrow> False | Some h \<Rightarrow> h \<noteq> ?m \<and> h \<notin> ?live) ?eps"
  define c where "c = classifyRepointTargets (ProbeAll (netProbe env) ?eps (rtMasterName t) (rtPassword t)) ?eps ?live ?m
      (rtAllowStaleEpoch t)"
  have w: "Name ep \<notin> W \<longleftrightarrow> \<not> stranded env t ep" if "ep \<in> set ?eps" for ep
    using name_in_filter[OF assms(2) that] by (simp only: W_def)
  have cl: "cl = (if ?live = {} then noRepoint else c
       \<lparr>rcStaleEpoch := filter (\<lambda>ep. Name ep \<notin> W) (rcStaleEpoch c),
        rcDeadMaster := filter (\<lambda>ep. Name ep \<notin> W \<and>
          (case replicasOne (netReplicas env) ep (rtMasterName t) (rtPassword t) of
             Inl e \<Rightarrow> False | Inr rs \<Rightarrow> replicaTableDoomed rs ?live)) (rcDeadMaster c)\<rparr>)"
    by (simp only: cl_def W_def[symmetric])
      (simp add: selectRepointTargets_def c_def Let_def ReplicasAll_def zip_map_self filter_map comp_def)
  have d: "?live \<noteq> {} \<Longrightarrow> rcDeadMaster c = ?dead"
    using assms(3) by (simp add: c_def classifyRepointTargets_def Let_def case_prod_unfold ProbeAll_def zip_map_self
        filter_map comp_def probeOf_def)
  have st: "?live \<noteq> {} \<Longrightarrow> (rcStaleEpoch c, rcCohort c, rcAgreeEpoch c) =
      (if rtAllowStaleEpoch t \<and> atFrontier env t
       then (filter (\<lambda>ep. behind ?live ?m (agreeEpoch env t) (probeOf env t ep)) ?eps, onMaster env t, agreeEpoch env t)
       else ([], [], 0))"
    using assms(3) by (simp add: c_def classifyRepointTargets_def Let_def case_prod_unfold stale_targets)
  show "rcDeadMaster cl = filter (\<lambda>ep. \<not> stranded env t ep \<and> orphaned env t ep) ?eps"
  proof (cases "?live = {}")
    case False
    have o: "(case monitored (probeOf env t ep) of None \<Rightarrow> False | Some h \<Rightarrow> h \<noteq> ?m \<and> h \<notin> ?live) \<and>
        (case replicasOne (netReplicas env) ep (rtMasterName t) (rtPassword t) of
           Inl e \<Rightarrow> False | Inr rs \<Rightarrow> replicaTableDoomed rs ?live) \<longleftrightarrow> orphaned env t ep" for ep
      using False by (cases "replicasOne (netReplicas env) ep (rtMasterName t) (rtPassword t)")
        (auto simp: orphaned_def replicaTableDoomed_def split: option.split)
    show ?thesis
      using False unfolding cl by (simp add: d w o[symmetric] conj_ac cong: filter_cong)
  qed (simp add: cl noRepoint_def orphaned_def)
  have b: "behind ?live ?m (agreeEpoch env t) (probeOf env t ep) \<longleftrightarrow> lagging env t ep"
    if "rtAllowStaleEpoch t" "atFrontier env t" "ep \<in> set ?eps" for ep
    using that by (auto simp: behind_def lagging_def atFrontier_def list_all_iff split: option.split)
  show "rcStaleEpoch cl = filter (\<lambda>ep. \<not> stranded env t ep \<and> lagging env t ep) ?eps"
  proof (cases "?live = {} \<or> \<not> rtAllowStaleEpoch t \<or> \<not> atFrontier env t")
    case True
    then have "?live \<noteq> {} \<Longrightarrow> rcStaleEpoch c = []" using st by auto
    with True show ?thesis by (cases "?live = {}") (auto simp: cl noRepoint_def lagging_def)
  next
    case False
    then have "rcStaleEpoch cl = filter (\<lambda>ep. behind ?live ?m (agreeEpoch env t) (probeOf env t ep) \<and> Name ep \<notin> W) ?eps"
      using st by (simp add: cl conj_commute)
    also have "\<dots> = filter (\<lambda>ep. \<not> stranded env t ep \<and> lagging env t ep) ?eps"
      using False b w by (intro filter_cong) auto
    finally show ?thesis .
  qed
  show "rcCohort cl = onMaster env t \<and> rcAgreeEpoch cl = agreeEpoch env t" if "rcStaleEpoch cl \<noteq> []"
    using that st by (auto simp: cl noRepoint_def split: if_splits)
qed

section \<open>Which sentinels a pass removes\<close>

definition holdersOf :: "surgeryEnv \<Rightarrow> InitialResetTarget \<Rightarrow> (Endpoint \<times> string list) list" where
  "holdersOf env t =
     scGhostHolders (classifyStrandedSentinels
       (SentinelsAll (netPeers env) (rtEndpoints t) (rtMasterName t) (rtPassword t)) (rtEndpoints t)
       isNoSuchMasterErr (liveSentinelIPSet (rtEndpoints t)))"

definition ghostOf :: "surgeryEnv \<Rightarrow> InitialResetTarget \<Rightarrow> (string \<times> gotime) list \<Rightarrow> Endpoint option" where
  "ghostOf env t seen =
     (if liveSentinelIPSet (rtEndpoints t) = {} then None
      else snd (selectGhostReapTarget (surgeryClock env) (holdersOf env t) (liveSentinelIPSet (rtEndpoints t))
             (rtAllowGhostReap t) seen))"

definition touched :: "surgeryEnv \<Rightarrow> InitialResetTarget \<Rightarrow> Endpoint \<Rightarrow> bool" where
  "touched env t ep \<longleftrightarrow> stranded env t ep \<or> orphaned env t ep \<or> lagging env t ep"

definition reaped :: "surgeryEnv \<Rightarrow> InitialResetTarget \<Rightarrow> (string \<times> gotime) list \<Rightarrow> Endpoint \<Rightarrow> bool" where
  "reaped env t seen ep \<longleftrightarrow> ghostOf env t seen = Some ep \<and> \<not> touched env t ep"

definition stillQuiet :: "surgeryEnv \<Rightarrow> InitialResetTarget \<Rightarrow> Endpoint \<Rightarrow> bool" where
  "stillQuiet env t ep \<longleftrightarrow>
     (\<exists>flags. masterFlagsOne (netRecheck env) ep (rtMasterName t) (rtPassword t) = Inr (flags, True) \<and>
        \<not> flagsIndicateElection flags) \<and>
     destinationCohortQuiet (netCohort env) (onMaster env t) (rtMasterName t) (rtPassword t) (agreeEpoch env t)"

definition gatesOpen :: "surgeryEnv \<Rightarrow> InitialResetTarget \<Rightarrow> (string \<times> gotime) list \<Rightarrow> bool" where
  "gatesOpen env t seen \<longleftrightarrow>
     QuorumThreshold (length (rtEndpoints t)) \<le> length (filter (answering env t) (rtEndpoints t)) \<and>
     masterReachable (dialMaster env) (rtPassword t) = None \<and>
     list_all (\<lambda>ep. answering env t ep \<and> \<not> touched env t ep \<and> \<not> reaped env t seen ep \<longrightarrow>
        failoverInProgressOne (netSurvivors env) ep (rtMasterName t) (rtPassword t) \<noteq> Inr True) (rtEndpoints t)"

definition chosen :: "surgeryEnv \<Rightarrow> InitialResetTarget \<Rightarrow> (string \<times> gotime) list \<Rightarrow> Endpoint \<Rightarrow> bool" where
  "chosen env t seen ep \<longleftrightarrow>
     stranded env t ep \<and> EpAddr ep \<notin> rtSkipStrandedAddrs t \<or>
     \<not> stranded env t ep \<and> (orphaned env t ep \<or> lagging env t ep \<and> stillQuiet env t ep) \<or>
     reaped env t seen ep"

definition ghostIPs :: "string set \<Rightarrow> connErr + PeerInfo list \<Rightarrow> string list" where
  "ghostIPs live res =
     (case res of Inl e \<Rightarrow> [] | Inr peers \<Rightarrow> filter (\<lambda>ip. ip \<noteq> [] \<and> ip \<notin> live) (map PeerIP peers))"

lemma strandedLoop_holders:
  "scGhostHolders (strandedLoop re live xs c) = scGhostHolders c @
     (if live = {} then [] else map (\<lambda>((n, res), ep). (ep, ghostIPs live res)) (filter (\<lambda>((n, res), ep). ghostIPs live res \<noteq> []) xs))"
proof (induction xs arbitrary: c)
  case (Cons x xs)
  obtain n res ep where x: "x = ((n, res), ep)" by (metis prod.exhaust)
  show ?case using Cons.IH by (cases res; cases "live = {}") (simp_all add: x Let_def ghostIPs_def)
qed simp

lemma lowestName_mem: "lowestName es c = Some e \<Longrightarrow> e \<in> set es \<or> c = Some e"
  by (induction es c rule: lowestName.induct) (auto split: option.splits if_splits)

lemma ghost_mem: "ghostOf env t seen = Some g \<Longrightarrow> g \<in> set (rtEndpoints t)"
proof -
  assume "ghostOf env t seen = Some g"
  then have "g \<in> fst ` set (holdersOf env t)"
    by (auto simp: ghostOf_def selectGhostReapTarget_def Let_def dest!: lowestName_mem split: if_splits)
  then show ?thesis
    by (auto simp: holdersOf_def classifyStrandedSentinels_def Let_def strandedLoop_holders
        split: if_splits dest: set_zip_rightD)
qed

lemma orphaned_not_lagging: "orphaned env t ep \<Longrightarrow> \<not> lagging env t ep"
  by (auto simp: orphaned_def lagging_def)

lemma drop_eq:
  assumes "distinct (map Name eps)" and "set stale \<subseteq> set eps" and "set reset \<subseteq> set eps"
  shows "set (fst (dropElectingStaleTargets n1 n2 stale reset cohort agree m pw res)) =
      {ep \<in> set reset. ep \<in> set stale \<longrightarrow>
         ep \<in> set (recheckElectionQuiet n1 stale m pw) \<and> destinationCohortQuiet n2 cohort m pw agree}"
    and "srResetResults (snd (dropElectingStaleTargets n1 n2 stale reset cohort agree m pw res)) = srResetResults res"
    and "srMonitorResults (snd (dropElectingStaleTargets n1 n2 stale reset cohort agree m pw res)) = srMonitorResults res"
proof -
  have q: "set (recheckElectionQuiet n1 stale m pw) \<subseteq> set stale" by (auto simp: recheckElectionQuiet_def)
  have inj: "Name x = Name y \<longleftrightarrow> x = y" if "x \<in> set eps" "y \<in> set eps" for x y
    using assms(1) that by (auto simp: distinct_map inj_on_def)
  have d: "set (fst (applyStaleTargetDrops stale quiet reset res)) = {ep \<in> set reset. ep \<in> set stale \<longrightarrow> ep \<in> set quiet}"
    if "set quiet \<subseteq> set stale" for quiet
  proof -
    let ?d = "Name ` set (filter (\<lambda>ep. Name ep \<notin> Name ` set quiet) stale)"
    have "Name ep \<in> ?d \<longleftrightarrow> ep \<in> set stale \<and> ep \<notin> set quiet" if "ep \<in> set reset" for ep
      using that \<open>set quiet \<subseteq> set stale\<close> assms(2,3) inj by (auto 4 4 simp: subset_iff image_iff)
    then show ?thesis by (auto simp: applyStaleTargetDrops_def Let_def)
  qed
  show "set (fst (dropElectingStaleTargets n1 n2 stale reset cohort agree m pw res)) =
      {ep \<in> set reset. ep \<in> set stale \<longrightarrow>
         ep \<in> set (recheckElectionQuiet n1 stale m pw) \<and> destinationCohortQuiet n2 cohort m pw agree}"
    using d[OF q] d[of "[]"] by (auto simp: dropElectingStaleTargets_def Let_def)
  show "srResetResults (snd (dropElectingStaleTargets n1 n2 stale reset cohort agree m pw res)) = srResetResults res"
    "srMonitorResults (snd (dropElectingStaleTargets n1 n2 stale reset cohort agree m pw res)) = srMonitorResults res"
    by (simp_all add: dropElectingStaleTargets_def applyStaleTargetDrops_def Let_def)
qed

lemma survivors_eq:
  assumes "distinct (map Name eps)" and "\<forall>ep\<in>set eps. Name ep \<in> W \<longleftrightarrow> touched env t ep" and "\<forall>g. ghost = Some g \<longrightarrow> g \<in> set eps"
  shows "untouchedSurvivors (SentinelsAll (netPeers env) eps (rtMasterName t) (rtPassword t)) eps ghost W =
    filter (\<lambda>ep. answering env t ep \<and> \<not> touched env t ep \<and> ghost \<noteq> Some ep) eps"
proof -
  have "(case sentinelsOne (netPeers env) ep (rtMasterName t) (rtPassword t) of Inl e \<Rightarrow> False | Inr peers \<Rightarrow> peers \<noteq> []) \<longleftrightarrow>
      answering env t ep \<and> \<not> stranded env t ep" for ep
    by (auto simp: answering_def stranded_def split: sum.split)
  moreover have "(case ghost of None \<Rightarrow> True | Some g \<Rightarrow> Name ep \<noteq> Name g) \<longleftrightarrow> ghost \<noteq> Some ep" if "ep \<in> set eps" for ep
    using that assms(1,3) by (auto simp: distinct_map inj_on_def split: option.split)
  ultimately show ?thesis
    using assms(2)
    by (auto simp: untouchedSurvivors_def SentinelsAll_def zip_map_self filter_map comp_def touched_def intro!: filter_cong)
qed

lemma fire_results:
  assumes "distinct (map Name eps)" and "set ts \<subseteq> set eps" and "ep \<in> set eps"
  shows "Name ep \<in> fst ` set (srResetResults (fst (fireSurgery env t ts res))) \<longleftrightarrow> ep \<in> set ts"
    and "srMonitorResults res = [] \<Longrightarrow>
      Name ep \<in> fst ` set (srMonitorResults (fst (fireSurgery env t ts res))) \<longleftrightarrow>
      ep \<in> set ts \<and> removeOne (netRemove env) ep (rtMasterName t) (rtPassword t) = None"
proof -
  let ?rm = "\<lambda>ep. removeOne (netRemove env) ep (rtMasterName t) (rtPassword t)"
  let ?ok = "set (map fst (filter (\<lambda>r. snd r = None) (RemoveAll (netRemove env) ts (rtMasterName t) (rtPassword t))))"
  have inj: "Name x = Name y \<longleftrightarrow> x = y" if "x \<in> set eps" "y \<in> set eps" for x y
    using assms(1) that by (auto simp: distinct_map inj_on_def)
  have ok: "Name x \<in> ?ok \<longleftrightarrow> ?rm x = None" if "x \<in> set ts" for x
    using that assms(2) inj by (auto simp: RemoveAll_def filter_map comp_def image_iff subset_iff)
  have in_ts: "Name ep \<in> Name ` set ts \<longleftrightarrow> ep \<in> set ts" using inj assms(2,3) by (auto simp: image_iff subset_iff)
  show "Name ep \<in> fst ` set (srResetResults (fst (fireSurgery env t ts res))) \<longleftrightarrow> ep \<in> set ts"
    using in_ts by (simp add: fireSurgery_def Let_def RemoveAll_def image_image)
  show "Name ep \<in> fst ` set (srMonitorResults (fst (fireSurgery env t ts res))) \<longleftrightarrow> ep \<in> set ts \<and> ?rm ep = None"
    if "srMonitorResults res = []"
  proof -
    let ?s = "filter (\<lambda>ep. Name ep \<in> ?ok) ts"
    have "Name ep \<in> Name ` set ?s \<longleftrightarrow> ep \<in> set ?s" using inj assms(2,3) by (auto simp: image_iff subset_iff)
    also have "\<dots> \<longleftrightarrow> ep \<in> set ts \<and> ?rm ep = None" using ok by auto
    finally have n: "Name ep \<in> Name ` set ?s \<longleftrightarrow> ep \<in> set ts \<and> ?rm ep = None" .
    have "fst ` set (srMonitorResults (fst (fireSurgery env t ts res))) = Name ` set ?s"
      using that unfolding fireSurgery_def Let_def by (cases "?s = []") (simp_all only: if_True if_False, simp_all add: MonitorAll_def image_image)
    with n show ?thesis by simp
  qed
qed

text \<open>The plan of a pass, in the order the code computes it.\<close>

definition repointOf :: "surgeryEnv \<Rightarrow> InitialResetTarget \<Rightarrow> repointClassification" where
  "repointOf env t =
     selectRepointTargets (netProbe env) (netReplicas env) (rtEndpoints t) (rtMasterName t) (rtPassword t)
       (rtMasterIP t) (rtLiveValkeyIPs t) (Name ` set (filter (stranded env t) (rtEndpoints t))) (rtAllowStaleEpoch t)"

definition wipedNames :: "surgeryEnv \<Rightarrow> InitialResetTarget \<Rightarrow> string set" where
  "wipedNames env t =
     Name ` set (filter (stranded env t) (rtEndpoints t)) \<union> Name ` set (rcDeadMaster (repointOf env t)) \<union>
     Name ` set (rcStaleEpoch (repointOf env t))"

definition emptyPeerTargets :: "surgeryEnv \<Rightarrow> InitialResetTarget \<Rightarrow> Endpoint list" where
  "emptyPeerTargets env t =
     filter (\<lambda>ep. EpAddr ep \<notin> rtSkipStrandedAddrs t) (filter (stranded env t) (rtEndpoints t))"

definition plannedTargets :: "surgeryEnv \<Rightarrow> InitialResetTarget \<Rightarrow> Endpoint list" where
  "plannedTargets env t =
     emptyPeerTargets env t @ rcDeadMaster (repointOf env t) @ rcStaleEpoch (repointOf env t)"

definition firstResult :: "surgeryEnv \<Rightarrow> InitialResetTarget \<Rightarrow> StrandedRecoveryResult" where
  "firstResult env t = emptyResult\<lparr>srProbed := True, srStranded := map Name (emptyPeerTargets env t),
      srSkippedStranded := map Name (filter (\<lambda>ep. EpAddr ep \<in> rtSkipStrandedAddrs t)
        (filter (stranded env t) (rtEndpoints t))),
      srEmptyPeerStranded := map Name (emptyPeerTargets env t)\<rparr>"

definition plannedResult :: "surgeryEnv \<Rightarrow> InitialResetTarget \<Rightarrow> StrandedRecoveryResult" where
  "plannedResult env t = (firstResult env t)
     \<lparr>srRepointed := srRepointed (firstResult env t) @ map Name (rcDeadMaster (repointOf env t)),
      srStaleEpochRepointed := srStaleEpochRepointed (firstResult env t) @ map Name (rcStaleEpoch (repointOf env t))\<rparr>"

definition rechecked :: "surgeryEnv \<Rightarrow> InitialResetTarget \<Rightarrow> Endpoint list \<times> StrandedRecoveryResult" where
  "rechecked env t =
     dropElectingStaleTargets (netRecheck env) (netCohort env) (rcStaleEpoch (repointOf env t)) (plannedTargets env t)
       (rcCohort (repointOf env t)) (rcAgreeEpoch (repointOf env t)) (rtMasterName t) (rtPassword t) (plannedResult env t)"

definition ghostTarget :: "surgeryEnv \<Rightarrow> InitialResetTarget \<Rightarrow> (string \<times> gotime) list \<Rightarrow> Endpoint option" where
  "ghostTarget env t seen =
     (case ghostOf env t seen of None \<Rightarrow> None | Some g \<Rightarrow> if touched env t g then None else Some g)"

lemma ghostTarget_iff: "ghostTarget env t seen = Some ep \<longleftrightarrow> reaped env t seen ep"
  by (auto simp: ghostTarget_def reaped_def split: option.split)

lemma ghostTarget_mem: "ghostTarget env t seen = Some ep \<Longrightarrow> ep \<in> set (rtEndpoints t)"
  using ghost_mem by (auto simp: ghostTarget_iff reaped_def)

lemma wipedNames_iff:
  assumes "distinct (map Name (rtEndpoints t))" and "rtMasterIP t \<noteq> []" and "ep \<in> set (rtEndpoints t)"
  shows "Name ep \<in> wipedNames env t \<longleftrightarrow> touched env t ep"
  unfolding wipedNames_def repointOf_def repoint_sets(1,2)[OF assms(1,2)] Un_iff name_in_filter[OF assms(1,3)]
  by (auto simp: touched_def)

lemma pass_unfold:
  fixes env t seen
  defines "q \<equiv> QuorumThreshold (length (rtEndpoints t)) \<le> length (filter (answering env t) (rtEndpoints t))"
  assumes "distinct (map Name (rtEndpoints t))" and "rtEndpoints t \<noteq> []" and "rtMasterIP t \<noteq> []"
    and "deferredBy env \<longrightarrow> bypass"
  shows "fst (snd (RecoverStrandedSentinels env t bypass seen)) =
    (if plannedTargets env t = [] \<and> ghostTarget env t seen = None then
       (if srSkippedStranded (plannedResult env t) \<noteq> [] then plannedResult env t
        else (plannedResult env t)\<lparr>srHealthy := q\<rparr>)
     else if \<not> q then emptyResult\<lparr>srProbed := True\<rparr>
     else if masterReachable (dialMaster env) (rtPassword t) \<noteq> None then emptyResult\<lparr>srProbed := True\<rparr>
     else if anyFailoverInProgress (netSurvivors env)
        (untouchedSurvivors (SentinelsAll (netPeers env) (rtEndpoints t) (rtMasterName t) (rtPassword t))
           (rtEndpoints t) (ghostTarget env t seen) (wipedNames env t))
        (rtMasterName t) (rtPassword t) then emptyResult\<lparr>srProbed := True\<rparr>
     else if fst (rechecked env t) = [] \<and> ghostTarget env t seen = None then snd (rechecked env t)
     else fst (fireSurgery env t
        (fst (rechecked env t) @ (case ghostTarget env t seen of None \<Rightarrow> [] | Some g \<Rightarrow> [g]))
        ((snd (rechecked env t))\<lparr>srStranded := srStranded (snd (rechecked env t)) @
           (case ghostTarget env t seen of None \<Rightarrow> [] | Some g \<Rightarrow> [Name g])\<rparr>)))"
proof -
  let ?eps = "rtEndpoints t" and ?m = "rtMasterName t" and ?pw = "rtPassword t"
  have q: "scQuorumReachable (classifyStrandedSentinels (SentinelsAll (netPeers env) ?eps ?m ?pw) ?eps
      isNoSuchMasterErr (liveSentinelIPSet ?eps)) \<longleftrightarrow> q"
    unfolding q_def by (rule classify_facts(2))
  have ghost: "(case (if liveSentinelIPSet ?eps \<noteq> {} then snd (selectGhostReapTarget (surgeryClock env) (holdersOf env t)
        (liveSentinelIPSet ?eps) (rtAllowGhostReap t) seen) else None) of None \<Rightarrow> None
      | Some g \<Rightarrow> if Name g \<in> wipedNames env t then None else Some g) = ghostTarget env t seen"
    using wipedNames_iff[OF assms(2,4)] ghost_mem[of env t seen]
    by (auto simp: ghostTarget_def ghostOf_def split: option.split if_splits)
  have nd: "(deferredBy env \<and> \<not> bypass) = False" "(?eps = []) = False" "(rtMasterIP t = []) = False" using assms(3-5) by auto
  show ?thesis
    unfolding RecoverStrandedSentinels_def Let_def partitionEmptyPeerClass_def foldRepointClassification_def
      prod.case classify_facts(1) q set_map repointOf_def[symmetric] holdersOf_def[symmetric] wipedNames_def[symmetric]
      emptyPeerTargets_def[symmetric] firstResult_def[symmetric] plannedResult_def[symmetric] plannedTargets_def[symmetric]
    by (simp only: nd simp_thms if_False case_prod_unfold fst_conv snd_conv if_distrib[of fst] if_distrib[of snd] ghost
        rechecked_def[symmetric])
qed

lemma rechecked_facts:
  assumes "distinct (map Name (rtEndpoints t))" and "rtMasterIP t \<noteq> []"
  shows "set (fst (rechecked env t)) = {ep \<in> set (rtEndpoints t). chosen env t seen ep \<and> \<not> reaped env t seen ep}"
    and "srResetResults (snd (rechecked env t)) = []" and "srMonitorResults (snd (rechecked env t)) = []"
proof -
  let ?eps = "rtEndpoints t" and ?cl = "repointOf env t"
  note rp = repoint_sets[OF assms, of env, folded repointOf_def]
  have R: "set (plannedTargets env t) = {ep \<in> set ?eps. stranded env t ep \<and> EpAddr ep \<notin> rtSkipStrandedAddrs t \<or>
      \<not> stranded env t ep \<and> (orphaned env t ep \<or> lagging env t ep)}"
    by (auto simp: plannedTargets_def emptyPeerTargets_def rp(1,2))
  have L: "ep \<in> set (rcStaleEpoch ?cl) \<longleftrightarrow> ep \<in> set ?eps \<and> \<not> stranded env t ep \<and> lagging env t ep" for ep
    by (simp add: rp(2))
  have q: "ep \<in> set (recheckElectionQuiet (netRecheck env) (rcStaleEpoch ?cl) (rtMasterName t) (rtPassword t)) \<and>
      destinationCohortQuiet (netCohort env) (rcCohort ?cl) (rtMasterName t) (rtPassword t) (rcAgreeEpoch ?cl) \<longleftrightarrow>
      stillQuiet env t ep" if "ep \<in> set (rcStaleEpoch ?cl)" for ep
  proof -
    have "rcCohort ?cl = onMaster env t \<and> rcAgreeEpoch ?cl = agreeEpoch env t" using that by (intro rp(3)) auto
    then show ?thesis using that by (auto simp: stillQuiet_def recheckElectionQuiet_def split: sum.split)
  qed
  have "set (rcStaleEpoch ?cl) \<subseteq> set ?eps" "set (plannedTargets env t) \<subseteq> set ?eps" by (auto simp: L R)
  note d = drop_eq[OF assms(1) this, of "netRecheck env" "netCohort env" "rcCohort ?cl" "rcAgreeEpoch ?cl"
      "rtMasterName t" "rtPassword t" "plannedResult env t", folded rechecked_def]
  show "set (fst (rechecked env t)) = {ep \<in> set ?eps. chosen env t seen ep \<and> \<not> reaped env t seen ep}"
    unfolding d(1) using q orphaned_not_lagging by (auto simp: R L chosen_def reaped_def touched_def)
  show "srResetResults (snd (rechecked env t)) = []" "srMonitorResults (snd (rechecked env t)) = []"
    unfolding d(2,3) by (simp_all add: plannedResult_def firstResult_def emptyResult_def)
qed

lemma gatesOpen_iff:
  assumes "distinct (map Name (rtEndpoints t))" and "rtMasterIP t \<noteq> []"
  shows "gatesOpen env t seen \<longleftrightarrow>
    QuorumThreshold (length (rtEndpoints t)) \<le> length (filter (answering env t) (rtEndpoints t)) \<and>
    masterReachable (dialMaster env) (rtPassword t) = None \<and>
    \<not> anyFailoverInProgress (netSurvivors env)
        (untouchedSurvivors (SentinelsAll (netPeers env) (rtEndpoints t) (rtMasterName t) (rtPassword t))
           (rtEndpoints t) (ghostTarget env t seen) (wipedNames env t)) (rtMasterName t) (rtPassword t)"
proof -
  have "\<forall>ep\<in>set (rtEndpoints t). Name ep \<in> wipedNames env t \<longleftrightarrow> touched env t ep" using wipedNames_iff[OF assms] by blast
  note sv = survivors_eq[OF assms(1) this, of "ghostTarget env t seen"]
  have "untouchedSurvivors (SentinelsAll (netPeers env) (rtEndpoints t) (rtMasterName t) (rtPassword t))
           (rtEndpoints t) (ghostTarget env t seen) (wipedNames env t) =
      filter (\<lambda>ep. answering env t ep \<and> \<not> touched env t ep \<and> \<not> reaped env t seen ep) (rtEndpoints t)"
    using sv ghostTarget_mem[of env t seen] by (simp add: ghostTarget_iff)
  then show ?thesis by (auto simp: gatesOpen_def anyFailoverInProgress_def list_ex_iff list_all_iff)
qed

lemma pass_result:
  assumes "distinct (map Name (rtEndpoints t))" and "rtEndpoints t \<noteq> []" and "rtMasterIP t \<noteq> []" and "deferredBy env \<longrightarrow> bypass"
  obtains ts res r0 where "set ts = {ep \<in> set (rtEndpoints t). chosen env t seen ep}" and "srMonitorResults res = []"
    and "srResetResults r0 = []" and "srMonitorResults r0 = []"
    and "fst (snd (RecoverStrandedSentinels env t bypass seen)) =
      (if ts = [] \<or> \<not> gatesOpen env t seen then r0 else fst (fireSurgery env t ts res))"
proof -
  let ?g = "ghostTarget env t seen" and ?out = "fst (snd (RecoverStrandedSentinels env t bypass seen))"
  define ts where "ts = fst (rechecked env t) @ (case ?g of None \<Rightarrow> [] | Some g \<Rightarrow> [g])"
  define res where "res = (snd (rechecked env t))\<lparr>srStranded := srStranded (snd (rechecked env t)) @
           (case ?g of None \<Rightarrow> [] | Some g \<Rightarrow> [Name g])\<rparr>"
  note rf = rechecked_facts(1)[OF assms(1,3), of env seen] rechecked_facts(2,3)[OF assms(1,3), of env]
  have ts: "set ts = {ep \<in> set (rtEndpoints t). chosen env t seen ep}"
  proof -
    have "set (case ?g of None \<Rightarrow> [] | Some g \<Rightarrow> [g]) = {ep. reaped env t seen ep}"
      by (cases ?g) (simp_all add: ghostTarget_iff[symmetric])
    moreover have "reaped env t seen ep \<Longrightarrow> chosen env t seen ep \<and> ep \<in> set (rtEndpoints t)" for ep
      using ghostTarget_mem[of env t seen] by (simp add: chosen_def ghostTarget_iff)
    ultimately show ?thesis using rf(1) by (simp only: ts_def set_append) blast
  qed
  have pl: "srResetResults (plannedResult env t) = []" "srMonitorResults (plannedResult env t) = []"
    by (simp_all add: plannedResult_def firstResult_def emptyResult_def)
  have e: "srResetResults (emptyResult\<lparr>srProbed := True\<rparr>) = []" "srMonitorResults (emptyResult\<lparr>srProbed := True\<rparr>) = []"
    by (simp_all add: emptyResult_def)
  have none: "plannedTargets env t = [] \<Longrightarrow> fst (rechecked env t) = []"
    using rf(1) by (auto simp: rechecked_def dropElectingStaleTargets_def applyStaleTargetDrops_def Let_def)
  show ?thesis
  proof (cases "ts = [] \<or> \<not> gatesOpen env t seen")
    case True
    have "srResetResults ?out = [] \<and> srMonitorResults ?out = []"
      using True pl e rf(2,3) unfolding pass_unfold[OF assms] gatesOpen_iff[OF assms(1,3)]
      by (auto simp: ts_def split: option.splits)
    then show ?thesis using that[OF ts, of res ?out] rf(3) True by (simp add: res_def)
  next
    case False
    then have "?out = fst (fireSurgery env t ts res)"
      using none unfolding pass_unfold[OF assms] gatesOpen_iff[OF assms(1,3)]
      by (auto simp: ts_def res_def split: option.splits)
    then show ?thesis using that[OF ts, of res emptyResult] rf(3) False by (simp add: res_def emptyResult_def)
  qed
qed

text \<open>
  C7. Which sentinels a repair pass wipes, from the bytes they answer. A pass sends REMOVE to a sentinel
  exactly when the master is known, no failover defers it, a quorum of the sentinels answered, the
  master answers PING, no sentinel that the pass leaves alone reports a failover in progress, and the
  sentinel is one of: without peers or without the master and not paced; monitoring a dead address
  with no live replica known; monitoring another live pod at a config-epoch strictly below that of
  the destination's sentinels, which no answering sentinel exceeds, with neither side electing, at
  classification nor just before; or the one holder of a ghost that is due. MONITOR goes exactly to
  those whose REMOVE succeeded.
\<close>

theorem surgery_exact:
  assumes "distinct (map Name (rtEndpoints t))" and "ep \<in> set (rtEndpoints t)"
    and "out = fst (snd (RecoverStrandedSentinels env t bypass seen))"
  shows "(Name ep \<in> fst ` set (srResetResults out) \<longleftrightarrow>
      rtMasterIP t \<noteq> [] \<and> (deferredBy env \<longrightarrow> bypass) \<and> gatesOpen env t seen \<and>
      (stranded env t ep \<and> EpAddr ep \<notin> rtSkipStrandedAddrs t \<or>
       \<not> stranded env t ep \<and> orphaned env t ep \<or>
       \<not> stranded env t ep \<and> lagging env t ep \<and> stillQuiet env t ep \<or>
       reaped env t seen ep)) \<and>
    (Name ep \<in> fst ` set (srMonitorResults out) \<longleftrightarrow>
      Name ep \<in> fst ` set (srResetResults out) \<and>
      removeOne (netRemove env) ep (rtMasterName t) (rtPassword t) = None)"
proof (cases "rtMasterIP t \<noteq> [] \<and> (deferredBy env \<longrightarrow> bypass)")
  case False
  then have "out = emptyResult" using assms(3) by (auto simp: RecoverStrandedSentinels_def Let_def)
  then show ?thesis using False by (auto simp: emptyResult_def)
next
  case True
  then have T: "rtMasterIP t \<noteq> []" "deferredBy env \<longrightarrow> bypass" by simp_all
  have ne: "rtEndpoints t \<noteq> []" using assms(2) by auto
  obtain ts res r0 where r: "set ts = {ep \<in> set (rtEndpoints t). chosen env t seen ep}" "srMonitorResults res = []"
      "srResetResults r0 = []" "srMonitorResults r0 = []"
      "out = (if ts = [] \<or> \<not> gatesOpen env t seen then r0 else fst (fireSurgery env t ts res))"
    unfolding assms(3) by (rule pass_result[OF assms(1) ne T])
  have sub: "set ts \<subseteq> set (rtEndpoints t)" using r(1) by auto
  have "ts = [] \<Longrightarrow> \<not> chosen env t seen ep" using r(1) assms(2) by auto
  moreover have "ep \<in> set ts \<longleftrightarrow> chosen env t seen ep" using r(1) assms(2) by simp
  moreover note fire_results(1)[OF assms(1) sub assms(2), of env t res] fire_results(2)[OF assms(1) sub assms(2) r(2), of env t]
  ultimately have "(Name ep \<in> fst ` set (srResetResults out) \<longleftrightarrow> gatesOpen env t seen \<and> chosen env t seen ep) \<and>
      (Name ep \<in> fst ` set (srMonitorResults out) \<longleftrightarrow> gatesOpen env t seen \<and> chosen env t seen ep \<and>
         removeOne (netRemove env) ep (rtMasterName t) (rtPassword t) = None)"
    using r(3-5) by (cases "ts = [] \<or> \<not> gatesOpen env t seen") auto
  then show ?thesis using True by (simp add: chosen_def) blast
qed

section \<open>How long a ghost must be absent\<close>

record ghostPass =
  gpNow :: gotime
  gpHolders :: "(Endpoint \<times> string list) list"
  gpLive :: "string set"
  gpAllow :: bool

definition ghostPassStep :: "(string \<times> gotime) list \<Rightarrow> ghostPass \<Rightarrow> (string \<times> gotime) list" where
  "ghostPassStep seen p = fst (selectGhostReapTarget (gpNow p) (gpHolders p) (gpLive p) (gpAllow p) seen)"

definition detects :: "string \<Rightarrow> ghostPass \<Rightarrow> bool" where
  "detects ip p \<longleftrightarrow> list_ex (\<lambda>h. ip \<in> set (snd h)) (gpHolders p)"

lemma detects_iff: "detects ip p \<longleftrightarrow> ip \<in> set (remdups (concat (map snd (gpHolders p))))"
  by (auto simp: detects_def list_ex_iff)

lemma map_of_pairs: "map_of (map (\<lambda>x. (x, v)) xs) x = (if x \<in> set xs then Some v else None)"
  by (induction xs) auto

lemma map_of_filter_key: "map_of (filter (\<lambda>(k, v). P k) xs) k = (if P k then map_of xs k else None)"
  by (induction xs) auto

lemma ghostStamps_lookup:
  "map_of (ghostPassStep seen p) ip =
     (if \<not> detects ip p then None
      else if ip \<in> gpLive p then Some (gpNow p)
      else case map_of seen ip of None \<Rightarrow> Some (gpNow p) | Some t0 \<Rightarrow> Some t0)"
proof -
  let ?d = "remdups (concat (map snd (gpHolders p)))"
  let ?k = "filter (\<lambda>(ip, t). ip \<notin> gpLive p \<and> ip \<in> set ?d) seen"
  have k: "map_of ?k ip = (if ip \<notin> gpLive p \<and> ip \<in> set ?d then map_of seen ip else None)" for ip
    by (rule map_of_filter_key)
  have "ghostPassStep seen p = ?k @ map (\<lambda>ip. (ip, gpNow p)) (filter (\<lambda>ip. map_of ?k ip = None) ?d)"
    by (simp add: ghostPassStep_def selectGhostReapTarget_def ghostStamps_def Let_def)
  then have "map_of (ghostPassStep seen p) ip =
      (case map_of ?k ip of Some t0 \<Rightarrow> Some t0
       | None \<Rightarrow> if ip \<in> set ?d \<and> map_of ?k ip = None then Some (gpNow p) else None)"
    by (simp only: map_of_append map_add_def map_of_pairs set_filter mem_Collect_eq split: option.split)
  then show ?thesis unfolding k detects_iff by (auto split: option.split)
qed

lemma stamp_run:
  "map_of (foldl ghostPassStep [] ps) ip = Some t0 \<Longrightarrow>
     \<exists>ps1 q ps2. ps = ps1 @ q # ps2 \<and> gpNow q = t0 \<and> list_all (detects ip) (q # ps2)"
proof (induction ps arbitrary: t0 rule: rev_induct)
  case (snoc p ps)
  then have l: "map_of (ghostPassStep (foldl ghostPassStep [] ps) p) ip = Some t0" by simp
  then have d: "detects ip p" by (simp add: ghostStamps_lookup split: if_splits)
  show ?case
  proof (cases "gpNow p = t0")
    case True
    then show ?thesis using d by (intro exI[of _ ps] exI[of _ p] exI[of _ "[]"]) simp
  next
    case False
    then have "map_of (foldl ghostPassStep [] ps) ip = Some t0"
      using l d by (auto simp: ghostStamps_lookup split: if_splits option.splits)
    from snoc.IH[OF this] obtain ps1 q ps2 where
      "ps = ps1 @ q # ps2" "gpNow q = t0" "list_all (detects ip) (q # ps2)" by blast
    then show ?thesis using d by (intro exI[of _ ps1] exI[of _ q] exI[of _ "ps2 @ [p]"]) simp
  qed
qed simp

lemma lowestName_le:
  "lowestName es c = Some e \<Longrightarrow> (\<forall>x\<in>set es. Name e \<le> Name x) \<and> (\<forall>x. c = Some x \<longrightarrow> Name e \<le> Name x)"
proof (induction es c rule: lowestName.induct)
  case (2 ep rest c)
  then show ?case by (cases c) (auto split: if_splits)
qed simp

text \<open>
  C27. A survivor is reaped for a ghost only after the debounce. If a pass picks a holder, then reaping
  was allowed, and some ghost it holds was found in this pass and in every pass back to one at least
  thirty seconds earlier, so one pass without it, as when a lagging pod list catches up, starts the
  wait again; and of the holders that are due it is the one with the least name.
\<close>

theorem ghost_reap_debounced:
  assumes "selectGhostReapTarget (gpNow p) (gpHolders p) (gpLive p) (gpAllow p) (foldl ghostPassStep [] ps) = (seen', Some ep)"
  shows "gpAllow p \<and>
    (\<exists>ghosts ip ps1 q ps2. (ep, ghosts) \<in> set (gpHolders p) \<and> ip \<in> set ghosts \<and> ps @ [p] = ps1 @ q # ps2 \<and>
       list_all (detects ip) (q # ps2) \<and> 30 * Second \<le> Sub (gpNow p) (gpNow q)) \<and>
    list_all (\<lambda>h. reapable (gpNow p) seen' h \<longrightarrow> Name ep \<le> Name (fst h)) (gpHolders p)"
proof -
  have s: "seen' = foldl ghostPassStep [] (ps @ [p])" and
    l: "gpAllow p" "lowestName (map fst (filter (reapable (gpNow p) seen') (gpHolders p))) None = Some ep"
    using assms by (auto simp: ghostPassStep_def selectGhostReapTarget_def Let_def split: if_splits)
  from lowestName_mem[OF l(2)] obtain h where h: "h \<in> set (gpHolders p)" "reapable (gpNow p) seen' h" "ep = fst h" by auto
  then obtain ip t0 where ip: "ip \<in> set (snd h)" "map_of seen' ip = Some t0" "ghostReapDebounce \<le> Sub (gpNow p) t0"
    by (auto simp: reapable_def list_ex_iff split: option.splits)
  from stamp_run[of "ps @ [p]" ip t0] ip(2) s obtain ps1 q ps2 where
    "ps @ [p] = ps1 @ q # ps2" "gpNow q = t0" "list_all (detects ip) (q # ps2)" by blast
  then have "\<exists>ghosts ip ps1 q ps2. (ep, ghosts) \<in> set (gpHolders p) \<and> ip \<in> set ghosts \<and> ps @ [p] = ps1 @ q # ps2 \<and>
       list_all (detects ip) (q # ps2) \<and> 30 * Second \<le> Sub (gpNow p) (gpNow q)"
    using h ip unfolding ghostReapDebounce_def by (intro exI[of _ "snd h"] exI[of _ ip] exI conjI) auto
  moreover have "list_all (\<lambda>h. reapable (gpNow p) seen' h \<longrightarrow> Name ep \<le> Name (fst h)) (gpHolders p)"
    using lowestName_le[OF l(2)] by (auto simp: list_all_iff)
  ultimately show ?thesis using l(1) by blast
qed

section \<open>Examples\<close>

definition answers :: "string \<Rightarrow> network" where
  "answers bytes = (\<lambda>ep. (True, \<lparr>rd = bytes, sent = [], writesOK = []\<rparr>))"

definition stranded_env :: surgeryEnv where
  "stranded_env =
     \<lparr>netPeers = answers (''*0'' @ CRLF), netProbe = answers [], netReplicas = answers [],
      dialMaster = (True, \<lparr>rd = ''+PONG'' @ CRLF, sent = [], writesOK = []\<rparr>),
      netSurvivors = answers [], netRecheck = answers [], netCohort = answers [],
      netRemove = answers (''+OK'' @ CRLF), netMonitor = answers (''+OK'' @ CRLF), netAuth = (\<lambda>i. answers []),
      authAttempts = 0, netTuning = answers [], surgeryClock = Hour, deferredBy = True\<rparr>"

definition stranded_target :: InitialResetTarget where
  "stranded_target =
     \<lparr>rtMasterName = ''m'', rtEndpoints = [\<lparr>Name = ''s-0'', EpAddr = ''10.0.0.1:26379''\<rparr>,
        \<lparr>Name = ''s-1'', EpAddr = ''10.0.0.2:26379''\<rparr>], rtPassword = [], rtMasterIP = ''10.1.0.1'',
      rtPort = 6379, rtQuorum = 2, rtTuning = MasterTuning.make 0 0 0,
      rtAllowGhostReap = False, rtLiveValkeyIPs = {}, rtAllowStaleEpoch = False,
      rtSkipStrandedAddrs = {''10.0.0.2:26379''}\<rparr>"

lemma example_reads:
  "readReply (''*0'' @ CRLF) = (Inr (RArr []), [])" "readReply (''+OK'' @ CRLF) = (Inr (RStr ''OK''), [])"
  "readReply (''+PONG'' @ CRLF) = (Inr (RStr ''PONG''), [])"
  by code_simp+

lemma empty_array_read:
  "sentinelsOne (answers (''*0'' @ CRLF)) ep ''m'' [] = Inr []"
  "masterReachable (True, \<lparr>rd = ''+PONG'' @ CRLF, sent = [], writesOK = []\<rparr>) [] = None"
  "removeOne (answers (''+OK'' @ CRLF)) ep ''m'' [] = None"
  by (simp_all add: sentinelsOne_def masterReachable_def removeOne_def answers_def sentinelCall_def authIfNeeded_def
      WriteString_def connRead_def ParseSentinelsReply_def example_reads[simplified])

theorem surgery_exact_witness:
  "''s-0'' \<in> fst ` set (srMonitorResults (fst (snd (RecoverStrandedSentinels stranded_env stranded_target True [])))) \<and>
   ''s-1'' \<notin> fst ` set (srResetResults (fst (snd (RecoverStrandedSentinels stranded_env stranded_target True []))))"
proof -
  have s: "stranded stranded_env stranded_target ep" "answering stranded_env stranded_target ep" for ep
    by (simp_all add: stranded_def answering_def stranded_env_def stranded_target_def empty_array_read[simplified])
  have g: "gatesOpen stranded_env stranded_target []"
    by (simp add: gatesOpen_def s touched_def) (simp add: stranded_env_def stranded_target_def empty_array_read[simplified] QuorumThreshold_def)
  have d: "distinct (map Name (rtEndpoints stranded_target))" by (simp add: stranded_target_def)
  have r: "\<not> reaped stranded_env stranded_target [] ep" for ep by (simp add: reaped_def touched_def s)
  have e: "\<lparr>Name = ''s-0'', EpAddr = ''10.0.0.1:26379''\<rparr> \<in> set (rtEndpoints stranded_target)"
    "\<lparr>Name = ''s-1'', EpAddr = ''10.0.0.2:26379''\<rparr> \<in> set (rtEndpoints stranded_target)" by (simp_all add: stranded_target_def)
  have m: "rtMasterIP stranded_target \<noteq> []" "rtSkipStrandedAddrs stranded_target = {''10.0.0.2:26379''}"
    "removeOne (netRemove stranded_env) ep (rtMasterName stranded_target) (rtPassword stranded_target) = None" for ep
    by (simp_all add: stranded_target_def stranded_env_def empty_array_read[simplified])
  show ?thesis
    using surgery_exact[OF d e(1) refl, of stranded_env True "[]"] surgery_exact[OF d e(2) refl, of stranded_env True "[]"]
    by (simp add: s g r m)
qed

definition ghost_pass :: "gotime \<Rightarrow> ghostPass" where
  "ghost_pass now = \<lparr>gpNow = now, gpHolders = [(\<lparr>Name = ''s-0'', EpAddr = ''10.0.0.1:26379''\<rparr>, [''10.0.0.9''])],
     gpLive = {''10.0.0.1''}, gpAllow = True\<rparr>"

theorem ghost_reap_debounced_witness:
  "\<exists>ghosts ip ps1 q ps2. (\<lparr>Name = ''s-0'', EpAddr = ''10.0.0.1:26379''\<rparr>, ghosts) \<in> set (gpHolders (ghost_pass (Hour + Minute))) \<and>
     ip \<in> set ghosts \<and> [ghost_pass Hour] @ [ghost_pass (Hour + Minute)] = ps1 @ q # ps2 \<and>
     list_all (detects ip) (q # ps2) \<and> 30 * Second \<le> Sub (gpNow (ghost_pass (Hour + Minute))) (gpNow q)"
proof -
  have "selectGhostReapTarget (gpNow (ghost_pass (Hour + Minute))) (gpHolders (ghost_pass (Hour + Minute)))
      (gpLive (ghost_pass (Hour + Minute))) (gpAllow (ghost_pass (Hour + Minute))) (foldl ghostPassStep [] [ghost_pass Hour]) =
      ([(''10.0.0.9'', Hour)], Some \<lparr>Name = ''s-0'', EpAddr = ''10.0.0.1:26379''\<rparr>)"
    by (simp add: ghost_pass_def ghostPassStep_def selectGhostReapTarget_def ghostStamps_def reapable_def ghostReapDebounce_def
        Sub_def Hour_def Minute_def Second_def window_consts)
  from ghost_reap_debounced[OF this] show ?thesis by blast
qed

end
