(* ===== verification/Spec2Isabelle.thy ===== *)
theory Spec2Isabelle
  imports Rollout_FSM SQ_Aggregate Watchdog Sentinel_Observer Triple_Check Status_Conditions PVC_Resize_Runs Sts_Apply Webhook_Validate
  Pod_Rollout SQ_Records Retention Sentinel_Surgery
begin

text \<open>
  A verification development for velkir, a Kubernetes operator for Valkey written in Go.

  \<^bold>\<open>The program.\<close> The operator reconciles \<^verbatim>\<open>Valkey\<close> resources. Two webhooks see a resource first: one
  fills in defaults, one validates. A reconcile (\<^verbatim>\<open>internal/controller/valkey_controller.go\<close>,
  \<^verbatim>\<open>Reconcile\<close>) then runs numbered phases: pause, finalizer, deletion, auth Secret and the PVC-loss gate
  (phase 0), the configuration maps, the StatefulSets with the resize of volumes, the role labels that
  route the Service to the primary (phase 7), the rollout of stale pods (phase 9) and the hand-off of
  the primary role. A deferred block writes the status and picks the requeue. Beside the reconciles an
  observer per resource (\<^verbatim>\<open>internal/sentinel\<close>) polls and subscribes to the sentinels and publishes a
  snapshot, which the phases read; the quorum gate suspends them while the quorum is lost, and the
  manager repairs sentinels that monitor nothing, a corpse or a stale epoch.

  \<^bold>\<open>Conventions.\<close> An operation is a function from the state, the clock readings and the answers of its
  environment to the new state and its results. Events and API writes are values, in the order of the
  code. Errors are values of a sum or a datatype. Times and durations are integers in nanoseconds with
  the zero time 0, and the saturating subtraction of Go is written out. A Go map is an association
  list, or a set where only membership is used; an iteration order is an argument. Code outside the
  repository (the API server, the clock, SHA-256, the quantities and the conditions helper of
  Kubernetes) is an argument, with what the code relies on as a hypothesis.

  \<^bold>\<open>Foundations.\<close>
  \<^item> \<^verbatim>\<open>Velkir_Prelude\<close>, \<^verbatim>\<open>Velkir_Text\<close>: time, integers and strings of Go, lists and lines.
  \<^item> \<^verbatim>\<open>Velkir_Interfaces\<close>: the contracts \<open>rising_edge\<close> (an event fires once per episode) and
    \<open>freshness_window\<close> (a latch that expires), interpreted in \<^verbatim>\<open>Quorum_Gate\<close>, \<^verbatim>\<open>PerCR_State\<close> and
    \<^verbatim>\<open>Status_Conditions\<close>. \<^verbatim>\<open>Sentinel_Parse\<close> has a third one, for the fields of a master's reply.
  \<^item> \<^verbatim>\<open>API_Types\<close>, \<^verbatim>\<open>Status_API\<close>, \<^verbatim>\<open>Pod_Model\<close>, \<^verbatim>\<open>Sentinel_Types\<close>: the resource and its status, the merge
    patch of the status, pods and their helpers, sentinel endpoints and snapshots.

  \<^bold>\<open>Sentinel\<close> (\<^verbatim>\<open>internal/resp\<close>, \<^verbatim>\<open>internal/sentinel\<close>, \<^verbatim>\<open>internal/sqaggregate\<close>, \<^verbatim>\<open>internal/valkey\<close>).
  \<^item> \<^verbatim>\<open>RESP_Wire\<close>: encoder and reader over bytes; reading undoes encoding.
  \<^item> \<^verbatim>\<open>Sentinel_Parse\<close>, \<^verbatim>\<open>Sentinel_Calls\<close>, \<^verbatim>\<open>Info_Replication\<close>: parsers of replies and payloads, the
    one-shot commands, the INFO parser with its round trip.
  \<^item> \<^verbatim>\<open>Sentinel_Observer\<close>: a poll publishes quorum exactly on the agreement of a threshold of
    sentinels; an invariant of every reachable snapshot of the step relation.
  \<^item> \<^verbatim>\<open>Triple_Check\<close>: the exact condition under which a failover may be started.
  \<^item> \<^verbatim>\<open>Sentinel_Surgery\<close>: which sentinels a repair pass removes, and the debounce of ghosts.
  \<^item> \<^verbatim>\<open>SQ_Aggregate\<close>, \<^verbatim>\<open>SQ_Records\<close>: the aggregate over all stored records tracks the latest poll
    once the records of departed sentinels are stale.

  \<^bold>\<open>Reconcile\<close> (\<^verbatim>\<open>internal/controller\<close>, \<^verbatim>\<open>internal/orchestration\<close>, \<^verbatim>\<open>internal/pvcresize\<close>).
  \<^item> \<^verbatim>\<open>Quorum_Gate\<close>, \<^verbatim>\<open>PerCR_State\<close>: suppression begins and ends only on evidence from distinct
    polls; the in-memory trackers of a resource.
  \<^item> \<^verbatim>\<open>Rollout_FSM\<close>, \<^verbatim>\<open>Rollout_Dispatch\<close>: the transition table, which does not depend on the order
    of its rows; the state derived anew on every pass, and the edges and events of that pass.
  \<^item> \<^verbatim>\<open>Failover_Dispatch\<close>: the hand-off is fenced by fresh quorum, latch and durable marker, and a crash
    keeps the latch.
  \<^item> \<^verbatim>\<open>Role_Labels\<close>: relabelling never empties the Service, converges, and moves the primary only after
    two polls.
  \<^item> \<^verbatim>\<open>Pod_Rollout\<close>: phase 9 deletes at most one stale replica, under exact conditions, and completes.
  \<^item> \<^verbatim>\<open>Sts_Apply\<close>, \<^verbatim>\<open>Version_Compat\<close>: the guards of a write to the StatefulSet.
  \<^item> \<^verbatim>\<open>PVC_Resize\<close>, \<^verbatim>\<open>PVC_Resize_Runs\<close>: the resize writes only safe steps, and completes against a
    cooperating cluster.
  \<^item> \<^verbatim>\<open>Retention\<close>: phase 0, the deletion policy and the consent to a loss of volumes.
  \<^item> \<^verbatim>\<open>Status_Conditions\<close>, \<^verbatim>\<open>Status_Update\<close>, \<^verbatim>\<open>Watchdog\<close>: the evaluators and the phase, the stored
    status, the evidence for a lost master, the requeue and the rollout watchdog.

  \<^bold>\<open>Admission and rendering\<close> (\<^verbatim>\<open>internal/defaults\<close>, \<^verbatim>\<open>internal/webhook/v1beta1\<close>, \<^verbatim>\<open>internal/valkeyconf\<close>).
  \<^item> \<^verbatim>\<open>Spec_Defaults\<close>: defaulting is total, idempotent and independent of what was already filled.
  \<^item> \<^verbatim>\<open>Webhook_Validate\<close>: the rules, and how admission and the renderer differ.
  \<^item> \<^verbatim>\<open>Config_Render\<close>: the unquoted directives the operator owns are rendered exactly as it sets them.

  \<^bold>\<open>Where the code falls short.\<close> Some theorems state a behaviour that the code has and does not mean to
  have: \<^verbatim>\<open>Pod_Rollout\<close> shows that phase 9 deletes the stripped primary during the hand-off and that the
  armed readiness watchdog is never stored, \<^verbatim>\<open>Retention\<close> that an interrupted first pass is refused as a
  loss of volumes, \<^verbatim>\<open>Webhook_Validate\<close> that a directive can be smuggled past the ban list, \<^verbatim>\<open>Sts_Apply\<close>
  that a major downgrade passes in two steps, and \<^verbatim>\<open>Rollout_Dispatch\<close> that a suspended rollout is never
  resumed as pending and that the state is Bootstrap while a hand-off has stripped the label. Where a
  comment promises something else than the code does, the text before the theorem says so:
  \<^verbatim>\<open>Sentinel_Observer\<close> on a pool of one and on the address without quorum, \<^verbatim>\<open>Status_Update\<close> on a single
  failed probe, \<^verbatim>\<open>Status_Conditions\<close> on the phase Available. \<^verbatim>\<open>SQ_Records\<close> also says when sentinels that left
  still vote.

  \<^bold>\<open>Bounds.\<close> The one function with fuel is the reader of \<^verbatim>\<open>RESP_Wire\<close>. It starts with one more than the
  number of bytes, and every level consumes a header line, so the fuel is never used up
  (\<open>readReply_fuel_enough\<close>). The other loops are structural recursions over what the code ranges over.
  Retries with a limit in the code carry that limit.

  \<^bold>\<open>Not modelled.\<close> Metrics, logs and the audit log, which only write; the certificates of the webhooks;
  dialling, deadlines and the goroutines that own an observer, whose outcomes are arguments; the
  builders of Kubernetes objects beyond the replica count, the image and the claim template; the
  rotation of the password over the pods; the controller side that surveys pods and promotes one when no
  master is left, and the repair of masters without a sentinel; process start-up, generated code
  and tools.
\<close>

end
